(* ===== verification/Prelude.thy ===== *)
theory Prelude
  imports Main "HOL-Library.Word" "HOL-Library.List_Lexorder"
begin

text \<open>
  Shared vocabulary of the development: the exceptions of the Python code as values,
  the result type of fallible functions, byte strings and text, big-endian integers,
  the Python objects an argument of unknown type may be, and the generic lemmas on lists
  that several components use.

  A Python \<open>str\<close> is the list of its code points (\<open>ustr\<close>), so text outside ASCII, which
  the code tests for with \<open>isascii\<close>, is represented; a \<open>bytes\<close> object is a list of 8-bit
  words. An ASCII literal of the source is written \<open>lit ''...''\<close>.
\<close>

section \<open>Collections of facts\<close>

named_theorems py_defs \<open>definitions of small predicates and accessors of the Python layer\<close>
named_theorems run_simps \<open>unfolding rules of the state and error combinators\<close>

section \<open>Exceptions and results\<close>

text \<open>
  The exceptions the modelled code raises or catches. \<open>Denied\<close> is a subclass of
  \<open>ValueError\<close> in both services (\<open>class Denied(ValueError)\<close>); \<open>VerificationError\<close> and
  \<open>RemoteError\<close>, which carries an HTTP status, are subclasses of \<open>RuntimeError\<close>, and
  \<open>TimeoutError\<close> is one of \<open>OSError\<close>.
\<close>

datatype exn =
    ValueError string
  | Denied string
  | TypeError string
  | KeyError string
  | RuntimeError string
  | VerificationError string
  | IntegrityError string
  | UnicodeError string
  | InvalidTag
  | InvalidSignature
  | JwtError string
  | IndexError string
  | OSError string
  | TimeoutError string
  | RemoteError int

type_synonym 'a result = "exn + 'a"

definition bind_res :: "'a result \<Rightarrow> ('a \<Rightarrow> 'b result) \<Rightarrow> 'b result" where
  "bind_res m f = (case m of Inl e \<Rightarrow> Inl e | Inr x \<Rightarrow> f x)"

lemma bind_res_simps [simp]:
  "bind_res (Inl e) f = Inl e"
  "bind_res (Inr x) f = f x"
  by (simp_all add: bind_res_def)

lemma bind_res_Inr_iff: "bind_res m f = Inr y \<longleftrightarrow> (\<exists>x. m = Inr x \<and> f x = Inr y)"
  by (cases m) simp_all

lemma bind_res_Inr_E [elim!]:
  assumes "bind_res m f = Inr y"
  obtains x where "m = Inr x" and "f x = Inr y"
  using assms by (auto simp: bind_res_Inr_iff)

lemma bind_res_assoc: "bind_res (bind_res m f) g = bind_res m (\<lambda>x. bind_res (f x) g)"
  by (cases m) simp_all

text \<open>A check that raises, and a comprehension whose element expression may raise.\<close>

definition require :: "bool \<Rightarrow> exn \<Rightarrow> unit result" where
  "require b e = (if b then Inr () else Inl e)"

lemma require_Inr_iff [simp]: "require b e = Inr x \<longleftrightarrow> b"
  by (simp add: require_def)

lemma require_True [simp]: "require True e = Inr ()"
  by (simp add: require_def)

lemma require_False [simp]: "require False e = Inl e"
  by (simp add: require_def)

fun map_res :: "('a \<Rightarrow> 'b result) \<Rightarrow> 'a list \<Rightarrow> 'b list result" where
  "map_res f [] = Inr []"
| "map_res f (x # xs) = bind_res (f x) (\<lambda>y. bind_res (map_res f xs) (\<lambda>ys. Inr (y # ys)))"

lemma map_res_Inr_iff:
  "map_res f xs = Inr ys \<longleftrightarrow> list_all2 (\<lambda>x y. f x = Inr y) xs ys"
  by (induction xs arbitrary: ys) (auto simp: bind_res_Inr_iff list_all2_Cons1)

lemma map_res_total:
  "(\<And>x. x \<in> set xs \<Longrightarrow> f x = Inr (g x)) \<Longrightarrow> map_res f xs = Inr (map g xs)"
  by (induction xs) simp_all

lemma map_res_length: "map_res f xs = Inr ys \<Longrightarrow> length ys = length xs"
  by (auto simp: map_res_Inr_iff dest: list_all2_lengthD)

text \<open>The exceptions a computation can end with, established along its structure.\<close>

definition raises_only :: "(exn \<Rightarrow> bool) \<Rightarrow> 'a result \<Rightarrow> bool" where
  "raises_only P r \<longleftrightarrow> (\<forall>e. r = Inl e \<longrightarrow> P e)"

named_theorems raises_intros \<open>introduction rules of \<open>raises_only\<close>\<close>

lemma raises_only_basic [raises_intros]:
  "raises_only P (Inr x)"
  "P e \<Longrightarrow> raises_only P (Inl e)"
  by (simp_all add: raises_only_def)

lemma raises_only_bind [raises_intros]:
  "raises_only P m \<Longrightarrow> (\<And>x. raises_only P (f x)) \<Longrightarrow> raises_only P (bind_res m f)"
  by (cases m) (simp_all add: raises_only_def)

lemma raises_only_map [raises_intros]:
  "(\<And>x. raises_only P (f x)) \<Longrightarrow> raises_only P (map_res f xs)"
proof (induction xs)
  case (Cons x xs)
  then show ?case by (auto simp: raises_only_def bind_res_def split: sum.splits)
qed (simp add: raises_only_def)

lemma raises_only_if [raises_intros]:
  "(b \<Longrightarrow> raises_only P m) \<Longrightarrow> (\<not> b \<Longrightarrow> raises_only P m') \<Longrightarrow> raises_only P (if b then m else m')"
  by simp

lemma raises_only_option [raises_intros]:
  "raises_only P m \<Longrightarrow> (\<And>x. raises_only P (f x)) \<Longrightarrow> raises_only P (case v of None \<Rightarrow> m | Some x \<Rightarrow> f x)"
  by (cases v) simp_all

lemma raises_only_prod [raises_intros]:
  "(\<And>x y. raises_only P (f x y)) \<Longrightarrow> raises_only P (case p of (x, y) \<Rightarrow> f x y)"
  by (cases p) simp

lemma raises_onlyD: "raises_only P r \<Longrightarrow> r = Inl e \<Longrightarrow> P e"
  by (simp add: raises_only_def)

lemma raises_only_mono: "raises_only P r \<Longrightarrow> (\<And>e. P e \<Longrightarrow> Q e) \<Longrightarrow> raises_only Q r"
  by (simp add: raises_only_def)

section \<open>Bytes, text and integers\<close>

type_synonym byte = "8 word"
type_synonym bytes = "byte list"
type_synonym ustr = "nat list"

definition lit :: "string \<Rightarrow> ustr" where
  "lit s = map of_char s"

lemma lit_eq_iff [simp]: "lit s = lit t \<longleftrightarrow> s = t"
  by (auto simp: lit_def inj_on_def dest: map_injective intro!: inj_onI)

lemma lit_append: "lit (s @ t) = lit s @ lit t"
  by (simp add: lit_def)

lemma length_lit [simp]: "length (lit s) = length s"
  by (simp add: lit_def)

definition isascii :: "ustr \<Rightarrow> bool" where
  "isascii s \<longleftrightarrow> (\<forall>c \<in> set s. c < 128)"

definition isprintable_ascii :: "ustr \<Rightarrow> bool" where
  "isprintable_ascii s \<longleftrightarrow> (\<forall>c \<in> set s. 32 \<le> c \<and> c < 127)"

text \<open>
  \<open>str.encode("ascii")\<close> and \<open>bytes.decode("ascii")\<close>, used by the code on ASCII data only.
\<close>

definition ascii_encode :: "ustr \<Rightarrow> bytes" where
  "ascii_encode s = map of_nat s"

definition ascii_decode :: "bytes \<Rightarrow> ustr" where
  "ascii_decode b = map unat b"

lemma ascii_decode_encode [simp]: "isascii s \<Longrightarrow> ascii_decode (ascii_encode s) = s"
  by (induction s)
     (simp_all add: isascii_def ascii_decode_def ascii_encode_def unat_of_nat)

lemma ascii_encode_decode [simp]: "ascii_encode (ascii_decode b) = b"
  by (simp add: ascii_decode_def ascii_encode_def o_def)

lemma length_ascii_encode [simp]: "length (ascii_encode s) = length s"
  by (simp add: ascii_encode_def)

lemma length_ascii_decode [simp]: "length (ascii_decode s) = length s"
  by (simp add: ascii_decode_def)

lemma isascii_simps [simp]:
  "isascii []"
  "isascii (c # s) \<longleftrightarrow> c < 128 \<and> isascii s"
  "isascii (s @ t) \<longleftrightarrow> isascii s \<and> isascii t"
  by (auto simp: isascii_def)

lemma ascii_encode_append: "ascii_encode (s @ t) = ascii_encode s @ ascii_encode t"
  by (simp add: ascii_encode_def)

lemma ascii_encode_inject:
  "isascii s \<Longrightarrow> isascii t \<Longrightarrow> ascii_encode s = ascii_encode t \<longleftrightarrow> s = t"
  by (metis ascii_decode_encode)

text \<open>\<open>int.from_bytes(b, "big")\<close> and \<open>n.to_bytes(32, "big")\<close>.\<close>

definition from_bytes_big :: "bytes \<Rightarrow> nat" where
  "from_bytes_big b = foldl (\<lambda>acc x. acc * 256 + unat x) 0 b"

fun to_bytes_little :: "nat \<Rightarrow> nat \<Rightarrow> bytes" where
  "to_bytes_little 0 n = []"
| "to_bytes_little (Suc k) n = of_nat (n mod 256) # to_bytes_little k (n div 256)"

definition to_bytes_big :: "nat \<Rightarrow> nat \<Rightarrow> bytes" where
  "to_bytes_big k n = rev (to_bytes_little k n)"

lemma length_to_bytes_little [simp]: "length (to_bytes_little k n) = k"
  by (induction k arbitrary: n) simp_all

lemma length_to_bytes_big [simp]: "length (to_bytes_big k n) = k"
  by (simp add: to_bytes_big_def)

definition from_bytes_little :: "bytes \<Rightarrow> nat" where
  "from_bytes_little b = foldr (\<lambda>x acc. unat x + 256 * acc) b 0"

lemma from_bytes_little_simps [simp]:
  "from_bytes_little [] = 0"
  "from_bytes_little (x # b) = unat x + 256 * from_bytes_little b"
  by (simp_all add: from_bytes_little_def)

lemma from_bytes_big_rev: "from_bytes_big b = from_bytes_little (rev b)"
proof -
  have "foldl (\<lambda>acc x. acc * 256 + unat x) 0 b
      = foldr (\<lambda>x acc. unat x + 256 * acc) (rev b) 0"
    by (simp add: foldl_conv_foldr algebra_simps)
  then show ?thesis by (simp add: from_bytes_big_def from_bytes_little_def)
qed

lemma from_to_bytes_little: "n < 256 ^ k \<Longrightarrow> from_bytes_little (to_bytes_little k n) = n"
proof (induction k arbitrary: n)
  case 0
  then show ?case by simp
next
  case (Suc k)
  from Suc.prems have "n div 256 < 256 ^ k"
    by (simp add: less_mult_imp_div_less mult.commute)
  with Suc.IH have "from_bytes_little (to_bytes_little k (n div 256)) = n div 256" .
  then show ?case by (simp add: unat_of_nat)
qed

lemma from_to_bytes_big: "n < 256 ^ k \<Longrightarrow> from_bytes_big (to_bytes_big k n) = n"
  by (simp add: from_bytes_big_rev to_bytes_big_def from_to_bytes_little)

lemma unat_byte_bound: "unat (x :: byte) < 256"
  by (rule order_less_le_trans [OF unsigned_less]) simp

lemma from_bytes_little_bound: "from_bytes_little b < 256 ^ length b"
proof (induction b)
  case Nil
  then show ?case by simp
next
  case (Cons x b)
  have "unat x < 256" by (rule unat_byte_bound)
  with Cons show ?case by simp
qed

lemma to_from_bytes_little: "to_bytes_little (length b) (from_bytes_little b) = b"
proof (induction b)
  case Nil
  then show ?case by simp
next
  case (Cons x b)
  have x: "unat x < 256" by (rule unat_byte_bound)
  then have "(unat x + 256 * from_bytes_little b) mod 256 = unat x"
    and "(unat x + 256 * from_bytes_little b) div 256 = from_bytes_little b"
    by simp_all
  with Cons show ?case by simp
qed

lemma from_bytes_big_bound: "from_bytes_big b < 256 ^ length b"
  using from_bytes_little_bound [of "rev b"] by (simp add: from_bytes_big_rev)

lemma to_from_bytes_big: "to_bytes_big (length b) (from_bytes_big b) = b"
  using to_from_bytes_little [of "rev b"] by (simp add: from_bytes_big_rev to_bytes_big_def)

section \<open>Python objects of unknown type\<close>

text \<open>
  The values an argument may be before the code has checked its type. A float is kept as its
  source text: the modelled code only ever tests that a value is not one. \<open>PRecord\<close> is an
  instance of the \<open>Record\<close> dataclass, \<open>POther\<close> any further object. A dictionary is the list
  of its items in insertion order (its keys are distinct).
\<close>

datatype pyval =
    PNone
  | PBool bool
  | PInt int
  | PFloat ustr
  | PStr ustr
  | PBytes bytes
  | PList "pyval list"
  | PDict "(ustr \<times> pyval) list"
  | PRecord pyval pyval pyval
  | POther

fun as_bytes :: "pyval \<Rightarrow> bytes option" where
  "as_bytes (PBytes b) = Some b"
| "as_bytes _ = None"

fun as_str :: "pyval \<Rightarrow> ustr option" where
  "as_str (PStr s) = Some s"
| "as_str _ = None"

text \<open>\<open>type(value) is int\<close>: a \<open>bool\<close> is not accepted.\<close>

fun as_int :: "pyval \<Rightarrow> int option" where
  "as_int (PInt n) = Some n"
| "as_int _ = None"

fun as_list :: "pyval \<Rightarrow> pyval list option" where
  "as_list (PList xs) = Some xs"
| "as_list _ = None"

lemma as_bytes_Some_iff [simp]: "as_bytes v = Some b \<longleftrightarrow> v = PBytes b"
  by (cases v) auto

lemma as_str_Some_iff [simp]: "as_str v = Some s \<longleftrightarrow> v = PStr s"
  by (cases v) auto

lemma as_int_Some_iff [simp]: "as_int v = Some n \<longleftrightarrow> v = PInt n"
  by (cases v) auto

lemma as_list_Some_iff [simp]: "as_list v = Some xs \<longleftrightarrow> v = PList xs"
  by (cases v) auto

section \<open>Lists\<close>

lemma find_map_None:
  "find P xs = None \<longleftrightarrow> (\<forall>x \<in> set xs. \<not> P x)"
  by (induction xs) auto

lemma find_SomeD: "find P xs = Some x \<Longrightarrow> x \<in> set xs \<and> P x"
  by (induction xs) (auto split: if_splits)

lemma sum_list_map_update_one:
  fixes f :: "'a \<Rightarrow> int"
  assumes "distinct (map k xs)" and "x \<in> set xs"
  shows "sum_list (map (\<lambda>y. f (if k y = k x then g y else y)) xs)
       = sum_list (map f xs) - f x + f (g x)"
  using assms
proof (induction xs)
  case Nil
  then show ?case by simp
next
  case (Cons z zs)
  show ?case
  proof (cases "z = x")
    case True
    with Cons.prems have "\<And>y. y \<in> set zs \<Longrightarrow> k y \<noteq> k x"
      by (metis distinct.simps(2) image_eqI list.set_map list.simps(9))
    then have "sum_list (map (\<lambda>y. f (if k y = k x then g y else y)) zs) = sum_list (map f zs)"
      by (intro arg_cong [where f = sum_list] map_cong) auto
    with True show ?thesis by simp
  next
    case False
    with Cons.prems have "x \<in> set zs" and "k z \<noteq> k x" by auto
    with Cons show ?thesis by simp
  qed
qed

lemma sum_list_map_cong_int:
  fixes f g :: "'a \<Rightarrow> int"
  shows "(\<And>x. x \<in> set xs \<Longrightarrow> f x = g x) \<Longrightarrow> sum_list (map f xs) = sum_list (map g xs)"
  by (metis map_eq_conv)

lemma sum_list_nonneg_int:
  fixes f :: "'a \<Rightarrow> int"
  shows "(\<And>x. x \<in> set xs \<Longrightarrow> 0 \<le> f x) \<Longrightarrow> 0 \<le> sum_list (map f xs)"
  by (induction xs) auto

lemma member_le_sum_list_int:
  fixes f :: "'a \<Rightarrow> int"
  assumes "\<And>x. x \<in> set xs \<Longrightarrow> 0 \<le> f x" and "x \<in> set xs"
  shows "f x \<le> sum_list (map f xs)"
  using assms
proof (induction xs)
  case Nil
  then show ?case by simp
next
  case (Cons y ys)
  then have "0 \<le> f y" and "0 \<le> sum_list (map f ys)"
    by (auto intro: sum_list_nonneg_int)
  moreover have "x = y \<or> f x \<le> sum_list (map f ys)" using Cons by auto
  ultimately show ?case by auto
qed

end
