(* ===== verification/Sha256.thy ===== *)
theory Sha256
  imports Prelude
begin

unbundle bit_operations_syntax

text \<open>
  \<open>hashlib.sha256\<close>: the hash function of FIPS 180-4 on byte strings, over 32-bit words. Every
  component that hashes uses this definition; its proofs only use that a digest has 32 bytes,
  so a statement about collisions is about this function and not about an ideal one.
\<close>

type_synonym w32 = "32 word"

definition rotr :: "nat \<Rightarrow> w32 \<Rightarrow> w32" where
  "rotr n x = drop_bit n x OR push_bit (32 - n) x"

definition big_sigma0 :: "w32 \<Rightarrow> w32" where
  "big_sigma0 x = rotr 2 x XOR rotr 13 x XOR rotr 22 x"

definition big_sigma1 :: "w32 \<Rightarrow> w32" where
  "big_sigma1 x = rotr 6 x XOR rotr 11 x XOR rotr 25 x"

definition small_sigma0 :: "w32 \<Rightarrow> w32" where
  "small_sigma0 x = rotr 7 x XOR rotr 18 x XOR drop_bit 3 x"

definition small_sigma1 :: "w32 \<Rightarrow> w32" where
  "small_sigma1 x = rotr 17 x XOR rotr 19 x XOR drop_bit 10 x"

definition sha_ch :: "w32 \<Rightarrow> w32 \<Rightarrow> w32 \<Rightarrow> w32" where
  "sha_ch x y z = (x AND y) XOR (NOT x AND z)"

definition sha_maj :: "w32 \<Rightarrow> w32 \<Rightarrow> w32 \<Rightarrow> w32" where
  "sha_maj x y z = (x AND y) XOR (x AND z) XOR (y AND z)"

definition sha_k :: "w32 list" where
  "sha_k = [
     1116352408, 1899447441, 3049323471, 3921009573, 961987163, 1508970993,
     2453635748, 2870763221, 3624381080, 310598401, 607225278, 1426881987,
     1925078388, 2162078206, 2614888103, 3248222580, 3835390401, 4022224774,
     264347078, 604807628, 770255983, 1249150122, 1555081692, 1996064986,
     2554220882, 2821834349, 2952996808, 3210313671, 3336571891, 3584528711,
     113926993, 338241895, 666307205, 773529912, 1294757372, 1396182291,
     1695183700, 1986661051, 2177026350, 2456956037, 2730485921, 2820302411,
     3259730800, 3345764771, 3516065817, 3600352804, 4094571909, 275423344,
     430227734, 506948616, 659060556, 883997877, 958139571, 1322822218,
     1537002063, 1747873779, 1955562222, 2024104815, 2227730452, 2361852424,
     2428436474, 2756734187, 3204031479, 3329325298]"

datatype sha_state = ShaState w32 w32 w32 w32 w32 w32 w32 w32

definition sha_init :: sha_state where
  "sha_init = ShaState 1779033703 3144134277 1013904242 2773480762
     1359893119 2600822924 528734635 1541459225"

definition word_of_bytes :: "byte \<Rightarrow> byte \<Rightarrow> byte \<Rightarrow> byte \<Rightarrow> w32" where
  "word_of_bytes a b c d = of_nat (((unat a * 256 + unat b) * 256 + unat c) * 256 + unat d)"

definition bytes_of_word :: "w32 \<Rightarrow> bytes" where
  "bytes_of_word x = to_bytes_big 4 (unat x)"

text \<open>
  The message schedule is produced on the fly: the window holds \<open>W(t) \<dots> W(t + 15)\<close>, and each
  round appends \<open>W(t + 16)\<close>.
\<close>

definition sha_next_word :: "w32 list \<Rightarrow> w32" where
  "sha_next_word ws = small_sigma1 (ws ! 14) + ws ! 9 + small_sigma0 (ws ! 1) + ws ! 0"

fun sha_round :: "w32 \<Rightarrow> w32 \<Rightarrow> sha_state \<Rightarrow> sha_state" where
  "sha_round k w (ShaState a b c d e f g h) =
     (let t1 = h + big_sigma1 e + sha_ch e f g + k + w;
          t2 = big_sigma0 a + sha_maj a b c
      in ShaState (t1 + t2) a b c (d + t1) e f g)"

fun sha_rounds :: "w32 list \<Rightarrow> w32 list \<Rightarrow> sha_state \<Rightarrow> sha_state" where
  "sha_rounds [] ws s = s"
| "sha_rounds (k # ks) ws s = sha_rounds ks (tl ws @ [sha_next_word ws]) (sha_round k (hd ws) s)"

fun sha_add :: "sha_state \<Rightarrow> sha_state \<Rightarrow> sha_state" where
  "sha_add (ShaState a b c d e f g h) (ShaState a' b' c' d' e' f' g' h') =
     ShaState (a + a') (b + b') (c + c') (d + d') (e + e') (f + f') (g + g') (h + h')"

definition sha_block :: "sha_state \<Rightarrow> w32 list \<Rightarrow> sha_state" where
  "sha_block s ws = sha_add s (sha_rounds sha_k ws s)"

fun bytes_to_words :: "bytes \<Rightarrow> w32 list" where
  "bytes_to_words (a # b # c # d # r) = word_of_bytes a b c d # bytes_to_words r"
| "bytes_to_words _ = []"

fun sha_blocks :: "nat \<Rightarrow> sha_state \<Rightarrow> w32 list \<Rightarrow> sha_state" where
  "sha_blocks 0 s ws = s"
| "sha_blocks (Suc n) s ws = sha_blocks n (sha_block s (take 16 ws)) (drop 16 ws)"

text \<open>Padding: a 1 bit, zeros, and the length in bits as a 64-bit big-endian integer.\<close>

definition sha_pad :: "bytes \<Rightarrow> bytes" where
  "sha_pad m = m @ [0x80] @ replicate ((119 - length m mod 64) mod 64) 0
     @ to_bytes_big 8 ((8 * length m) mod 2 ^ 64)"

fun sha_output :: "sha_state \<Rightarrow> bytes" where
  "sha_output (ShaState a b c d e f g h) = concat (map bytes_of_word [a, b, c, d, e, f, g, h])"

definition sha256 :: "bytes \<Rightarrow> bytes" where
  "sha256 m = (let p = sha_pad m
     in sha_output (sha_blocks (length p div 64) sha_init (bytes_to_words p)))"

lemma length_sha_output [simp]: "length (sha_output s) = 32"
  by (cases s) (simp add: bytes_of_word_def)

lemma length_sha256 [simp]: "length (sha256 m) = 32"
  by (simp add: sha256_def Let_def)

lemma sha256_nonempty [simp]: "sha256 m \<noteq> []"
  by (metis length_sha256 list.size(3) zero_neq_numeral)

text \<open>\<open>hexdigest()\<close>.\<close>

definition nibble_hex :: "nat \<Rightarrow> nat" where
  "nibble_hex n = (if n < 10 then 48 + n else 87 + n)"

definition hex_of_bytes :: "bytes \<Rightarrow> ustr" where
  "hex_of_bytes b = concat (map (\<lambda>x. [nibble_hex (unat x div 16), nibble_hex (unat x mod 16)]) b)"

lemma length_hex_of_bytes [simp]: "length (hex_of_bytes b) = 2 * length b"
  by (induction b) (simp_all add: hex_of_bytes_def)

lemma nibble_hex_inject: "a < 16 \<Longrightarrow> b < 16 \<Longrightarrow> nibble_hex a = nibble_hex b \<longleftrightarrow> a = b"
  by (auto simp: nibble_hex_def split: if_splits)

lemma hex_of_bytes_inject [simp]: "hex_of_bytes a = hex_of_bytes b \<longleftrightarrow> a = b"
proof
  have eq: "unat x div 16 = unat y div 16 \<Longrightarrow> unat x mod 16 = unat y mod 16 \<Longrightarrow> x = y" for x y :: byte
    by (metis div_mult_mod_eq unsigned_word_eqI)
  assume "hex_of_bytes a = hex_of_bytes b"
  then show "a = b"
  proof (induction a arbitrary: b)
    case Nil
    then show ?case by (cases b) (simp_all add: hex_of_bytes_def)
  next
    case (Cons x a)
    then obtain y b' where b: "b = y # b'" by (cases b) (simp_all add: hex_of_bytes_def)
    have "unat x div 16 < 16" "unat y div 16 < 16"
      using unat_byte_bound [of x] unat_byte_bound [of y] by linarith+
    with Cons b eq [of x y] show ?case by (simp add: hex_of_bytes_def nibble_hex_inject)
  qed
qed simp

definition sha256_hex :: "bytes \<Rightarrow> ustr" where
  "sha256_hex m = hex_of_bytes (sha256 m)"

end
