(* ===== verification/Core.thy ===== *)
theory Core
  imports Prelude Sha256
begin

text \<open>
  \<open>python/batchcrypto/__init__.py\<close> up to the CPU backend: the limits, the validation of
  batches, records, digests and messages, ECDSA verification, and the class \<open>Cpu\<close>.

  The package \<open>cryptography\<close> (AES-GCM and P-256 of OpenSSL) is third-party code: its
  operations are the fields of the record \<open>ossl\<close>, an argument of every definition that calls
  them. What a theorem needs of them is a named hypothesis (\<open>aead_law\<close>, \<open>ecdsa_law\<close>). A DER
  signature is the pair of integers it encodes, as \<open>encode_dss_signature\<close> and
  \<open>decode_dss_signature\<close> only convert between the two.
\<close>

section \<open>Limits\<close>

definition ORDER :: nat where
  "ORDER = 0xFFFFFFFF00000000FFFFFFFFFFFFFFFFBCE6FAADA7179E84F3B9CAC2FC632551"

definition MAX_BATCH :: nat where "MAX_BATCH = 4096"
definition MAX_PAYLOAD :: nat where "MAX_PAYLOAD = 1048576"
definition MAX_AAD :: nat where "MAX_AAD = 65536"
definition MAX_WORK :: nat where "MAX_WORK = 64 * 1024 * 1024"

lemma ORDER_bounds: "2 < ORDER" "ORDER < 256 ^ 32" "odd ORDER"
  by (simp_all add: ORDER_def)

section \<open>Third-party operations\<close>

record ossl =
  aes_encrypt :: "bytes \<Rightarrow> bytes \<Rightarrow> bytes \<Rightarrow> bytes \<Rightarrow> bytes"
  aes_decrypt :: "bytes \<Rightarrow> bytes \<Rightarrow> bytes \<Rightarrow> bytes \<Rightarrow> bytes option"
  ec_point :: "bytes \<Rightarrow> bool"
  ec_public :: "nat \<Rightarrow> bytes"
  ecdsa_verify :: "bytes \<Rightarrow> nat \<Rightarrow> nat \<Rightarrow> bytes \<Rightarrow> bool"
  ecdsa_sign :: "nat \<Rightarrow> bytes \<Rightarrow> nat \<times> nat"

text \<open>AES-256-GCM: the tag adds 16 bytes and decryption undoes encryption.\<close>

definition aead_law :: "ossl \<Rightarrow> bool" where
  "aead_law c \<longleftrightarrow> (\<forall>k n d a. length k = 32 \<longrightarrow> length n = 12 \<longrightarrow>
     length (aes_encrypt c k n d a) = length d + 16
     \<and> aes_decrypt c k n (aes_encrypt c k n d a) a = Some d)"

text \<open>
  ECDSA: the public point of a private scalar decodes, a signature consists of two scalars and
  verifies under that point, and negating \<open>s\<close> modulo the order gives a valid signature too.
\<close>

definition ecdsa_law :: "ossl \<Rightarrow> bool" where
  "ecdsa_law c \<longleftrightarrow> (\<forall>d h. 1 \<le> d \<longrightarrow> d < ORDER \<longrightarrow> length h = 32 \<longrightarrow>
     (let (r, s) = ecdsa_sign c d h in
        ec_point c (ec_public c d) \<and> 0 < r \<and> r < ORDER \<and> 0 < s \<and> s < ORDER
        \<and> ecdsa_verify c (ec_public c d) r s h
        \<and> ecdsa_verify c (ec_public c d) r (ORDER - s) h))"

section \<open>Iterables\<close>

text \<open>
  An argument that the code iterates over: the items of a sequence, an endless generator, or an
  iterator that yields some items and then raises (for an object that is not iterable, at
  once). \<open>islice\<close> pulls at most \<open>n\<close> items.
\<close>

datatype 'a iterable = Items "'a list" | Endless "nat \<Rightarrow> 'a" | Raising "'a list" exn

fun islice :: "'a iterable \<Rightarrow> nat \<Rightarrow> 'a list result" where
  "islice (Items xs) n = Inr (take n xs)"
| "islice (Endless f) n = Inr (map f [0..<n])"
| "islice (Raising xs e) n = (if n \<le> length xs then Inr (take n xs) else Inl e)"

definition py_batch :: "'a iterable \<Rightarrow> 'a list result" where
  "py_batch items =
     bind_res (islice items (MAX_BATCH + 1)) (\<lambda>result.
       if MAX_BATCH < length result then Inl (ValueError ''batch exceeds 4096 items'')
       else Inr result)"

lemma py_batch_Items: "length xs \<le> MAX_BATCH \<Longrightarrow> py_batch (Items xs) = Inr xs"
  by (simp add: py_batch_def)

lemma py_batch_Inr_iff: "py_batch items = Inr xs \<longleftrightarrow> items = Items xs \<and> length xs \<le> MAX_BATCH"
  by (cases items) (auto simp: py_batch_def split: if_splits)

section \<open>Validation\<close>

definition key_bytes :: "pyval \<Rightarrow> bytes result" where
  "key_bytes key = (case as_bytes key of
     Some k \<Rightarrow> if length k = 32 then Inr k else Inl (ValueError ''key must be 32 bytes'')
   | None \<Rightarrow> Inl (ValueError ''key must be 32 bytes''))"

lemma key_bytes_Inr_iff: "key_bytes v = Inr k \<longleftrightarrow> v = PBytes k \<and> length k = 32"
  by (cases v) (auto simp: key_bytes_def)

record aead_record =
  rec_nonce :: bytes
  rec_data :: bytes
  rec_aad :: bytes

fun as_record :: "pyval \<Rightarrow> aead_record option" where
  "as_record (PRecord (PBytes n) (PBytes d) (PBytes a)) =
     Some \<lparr>rec_nonce = n, rec_data = d, rec_aad = a\<rparr>"
| "as_record _ = None"

definition py_record :: "aead_record \<Rightarrow> pyval" where
  "py_record r = PRecord (PBytes (rec_nonce r)) (PBytes (rec_data r)) (PBytes (rec_aad r))"

lemma as_record_py_record [simp]: "as_record (py_record r) = Some r"
  by (simp add: py_record_def)

lemma as_record_Some_iff: "as_record v = Some r \<longleftrightarrow> v = py_record r"
  by (cases v rule: as_record.cases) (auto simp: py_record_def)

text \<open>The loop of \<open>_records\<close>: the nonces seen so far and the working size accumulate.\<close>

fun records_loop :: "bool \<Rightarrow> bytes set \<Rightarrow> nat \<Rightarrow> pyval list \<Rightarrow> (aead_record list \<times> nat) result" where
  "records_loop opening nonces work [] = Inr ([], work)"
| "records_loop opening nonces work (v # vs) =
     (case as_record v of
        None \<Rightarrow> Inl (ValueError ''records require byte strings'')
      | Some r \<Rightarrow>
          if length (rec_nonce r) \<noteq> 12 \<or> MAX_AAD < length (rec_aad r)
          then Inl (ValueError ''nonce/AAD length invalid'')
          else let n = int (length (rec_data r)) - (if opening then 16 else 0) in
            if \<not> (0 \<le> n \<and> n \<le> int MAX_PAYLOAD) then Inl (ValueError ''payload length invalid'')
            else if \<not> opening \<and> rec_nonce r \<in> nonces
            then Inl (ValueError ''duplicate nonce within seal batch'')
            else bind_res
                   (records_loop opening (insert (rec_nonce r) nonces)
                      (work + 2 * nat n + 16 + length (rec_aad r)) vs)
                   (\<lambda>(rs, w). Inr (r # rs, w)))"

definition py_records :: "pyval \<Rightarrow> pyval iterable \<Rightarrow> bool \<Rightarrow> (bytes \<times> aead_record list) result" where
  "py_records key rs opening =
     bind_res (key_bytes key) (\<lambda>k.
     bind_res (py_batch rs) (\<lambda>vs.
       if MAX_BATCH < length vs then Inl (ValueError ''batch exceeds 4096 records'')
       else bind_res (records_loop opening {} 0 vs) (\<lambda>(out, work).
         if MAX_WORK < work then Inl (ValueError ''batch working data exceeds 64 MiB'')
         else Inr (k, out))))"

definition is_digest :: "pyval \<Rightarrow> bool" where
  "is_digest v = (case as_bytes v of Some h \<Rightarrow> length h = 32 | None \<Rightarrow> False)"

definition py_digests :: "pyval \<Rightarrow> pyval iterable \<Rightarrow> (nat \<times> bytes list) result" where
  "py_digests key hs =
     bind_res (key_bytes key) (\<lambda>k.
       if \<not> (1 \<le> from_bytes_big k \<and> from_bytes_big k < ORDER)
       then Inl (ValueError ''invalid P-256 private scalar'')
       else bind_res (py_batch hs) (\<lambda>vs.
         if MAX_BATCH < length vs \<or> (\<exists>v \<in> set vs. \<not> is_digest v)
         then Inl (ValueError ''expected at most 4096 SHA-256 digests'')
         else Inr (from_bytes_big k, map (\<lambda>v. the (as_bytes v)) vs)))"

definition is_message :: "pyval \<Rightarrow> bool" where
  "is_message v = (case as_bytes v of Some m \<Rightarrow> length m \<le> MAX_PAYLOAD | None \<Rightarrow> False)"

definition py_messages :: "pyval iterable \<Rightarrow> bytes list result" where
  "py_messages ms =
     bind_res (py_batch ms) (\<lambda>vs.
       if MAX_BATCH < length vs \<or> (\<exists>v \<in> set vs. \<not> is_message v)
       then Inl (ValueError ''invalid hash batch'')
       else let out = map (\<lambda>v. the (as_bytes v)) vs in
         if MAX_WORK < sum_list (map length out) + 32 * length out
         then Inl (ValueError ''hash working data exceeds 64 MiB'')
         else Inr out)"

section \<open>Signatures and keys\<close>

definition raw_signature :: "nat \<times> nat \<Rightarrow> bytes" where
  "raw_signature der = (let (r, s) = der
     in to_bytes_big 32 r @ to_bytes_big 32 (min s (ORDER - s)))"

text \<open>\<open>generate_p256_key\<close>: the scalar OpenSSL generated, as 32 bytes.\<close>

definition generate_p256_key :: "nat \<Rightarrow> bytes" where
  "generate_p256_key private_value = to_bytes_big 32 private_value"

definition public_key :: "ossl \<Rightarrow> pyval \<Rightarrow> bytes result" where
  "public_key c private_key =
     bind_res (py_digests private_key (Items [])) (\<lambda>(d, _). Inr (ec_public c d))"

definition sig_r :: "bytes \<Rightarrow> nat" where
  "sig_r signature = from_bytes_big (take 32 signature)"

definition sig_s :: "bytes \<Rightarrow> nat" where
  "sig_s signature = from_bytes_big (drop 32 signature)"

definition verify_p256 :: "ossl \<Rightarrow> pyval \<Rightarrow> pyval \<Rightarrow> pyval \<Rightarrow> bool" where
  "verify_p256 c public digest signature =
     (case (as_bytes public, as_bytes digest, as_bytes signature) of
        (Some p, Some h, Some g) \<Rightarrow>
          if length h \<noteq> 32 \<or> length g \<noteq> 64 then False
          else if \<not> ec_point c p then False
          else let r = sig_r g; s = sig_s g in
            if \<not> (0 < r \<and> r < ORDER \<and> 0 < s \<and> s < ORDER) then False
            else ecdsa_verify c p r s h
      | _ \<Rightarrow> False)"

section \<open>The CPU backend\<close>

definition cpu_seal :: "ossl \<Rightarrow> pyval \<Rightarrow> pyval iterable \<Rightarrow> bytes list result" where
  "cpu_seal c key rs =
     bind_res (py_records key rs False) (\<lambda>(k, out).
       Inr (map (\<lambda>r. aes_encrypt c k (rec_nonce r) (rec_data r) (rec_aad r)) out))"

definition cpu_open :: "ossl \<Rightarrow> pyval \<Rightarrow> pyval iterable \<Rightarrow> bytes option list result" where
  "cpu_open c key rs =
     bind_res (py_records key rs True) (\<lambda>(k, out).
       Inr (map (\<lambda>r. aes_decrypt c k (rec_nonce r) (rec_data r) (rec_aad r)) out))"

definition cpu_sign :: "ossl \<Rightarrow> pyval \<Rightarrow> pyval iterable \<Rightarrow> bytes list result" where
  "cpu_sign c key hs =
     bind_res (py_digests key hs) (\<lambda>(d, out). Inr (map (\<lambda>h. raw_signature (ecdsa_sign c d h)) out))"

definition cpu_sha256 :: "pyval iterable \<Rightarrow> bytes list result" where
  "cpu_sha256 ms = bind_res (py_messages ms) (\<lambda>out. Inr (map sha256 out))"

definition cpu_public_key :: "ossl \<Rightarrow> pyval \<Rightarrow> bytes result" where
  "cpu_public_key c key = public_key c key"

section \<open>Correctness of the validation\<close>

definition rec_ok :: "bool \<Rightarrow> aead_record \<Rightarrow> bool" where
  "rec_ok opening r \<longleftrightarrow> length (rec_nonce r) = 12 \<and> length (rec_aad r) \<le> MAX_AAD
     \<and> (if opening then 16 \<le> length (rec_data r) \<and> length (rec_data r) \<le> MAX_PAYLOAD + 16
         else length (rec_data r) \<le> MAX_PAYLOAD)"

definition rec_work :: "bool \<Rightarrow> aead_record \<Rightarrow> nat" where
  "rec_work opening r =
     2 * (length (rec_data r) - (if opening then 16 else 0)) + 16 + length (rec_aad r)"

lemma records_loop_Inr_iff:
  "records_loop opening N w vs = Inr (rs, w') \<longleftrightarrow>
     vs = map py_record rs \<and> (\<forall>r \<in> set rs. rec_ok opening r)
     \<and> (\<not> opening \<longrightarrow> distinct (map rec_nonce rs) \<and> set (map rec_nonce rs) \<inter> N = {})
     \<and> w' = w + sum_list (map (rec_work opening) rs)"
proof (induction vs arbitrary: N w rs)
  case Nil
  then show ?case by auto
next
  case (Cons v vs)
  show ?case
  proof (cases "as_record v")
    case None
    then have "v \<noteq> py_record r" for r by auto
    with None show ?thesis by (cases rs) auto
  next
    case (Some r)
    then have v: "v = py_record r" by (simp add: as_record_Some_iff)
    have inj: "py_record r = py_record r' \<longleftrightarrow> r = r'" for r'
      by (metis as_record_py_record option.inject)
    have ok: "rec_ok opening r \<longleftrightarrow> \<not> (length (rec_nonce r) \<noteq> 12 \<or> MAX_AAD < length (rec_aad r))
        \<and> 0 \<le> int (length (rec_data r)) - (if opening then 16 else 0)
        \<and> int (length (rec_data r)) - (if opening then 16 else 0) \<le> int MAX_PAYLOAD"
      by (auto simp: rec_ok_def)
    have work: "2 * nat (int (length (rec_data r)) - (if opening then 16 else 0)) + 16
        + length (rec_aad r) = rec_work opening r"
      by (auto simp: rec_work_def nat_diff_distrib)
    show ?thesis
    proof (cases "rec_ok opening r \<and> (opening \<or> rec_nonce r \<notin> N)")
      case True
      then have "records_loop opening N w (v # vs) =
          bind_res (records_loop opening (insert (rec_nonce r) N) (w + rec_work opening r) vs)
            (\<lambda>(rs, w). Inr (r # rs, w))"
        unfolding v records_loop.simps as_record_py_record option.case Let_def ok
        using work by (auto simp: add.assoc)
      then show ?thesis
        using True by (cases rs) (auto simp: Cons.IH inj v bind_res_Inr_iff add.assoc)
    next
      case False
      then have "\<exists>e. records_loop opening N w (v # vs) = Inl e"
        unfolding v records_loop.simps as_record_py_record option.case Let_def ok by auto
      with False show ?thesis by (cases rs) (auto simp: v inj)
    qed
  qed
qed

lemma py_records_Inr_iff:
  "py_records key items opening = Inr (k, rs) \<longleftrightarrow>
     key = PBytes k \<and> length k = 32 \<and> items = Items (map py_record rs)
     \<and> length rs \<le> MAX_BATCH \<and> (\<forall>r \<in> set rs. rec_ok opening r)
     \<and> (\<not> opening \<longrightarrow> distinct (map rec_nonce rs))
     \<and> sum_list (map (rec_work opening) rs) \<le> MAX_WORK"
  (is "?L \<longleftrightarrow> ?R")
proof
  show "?L \<Longrightarrow> ?R"
    by (auto simp: py_records_def bind_res_Inr_iff key_bytes_Inr_iff py_batch_Inr_iff
        records_loop_Inr_iff split: if_splits)
next
  assume R: ?R
  then have "records_loop opening {} 0 (map py_record rs)
      = Inr (rs, sum_list (map (rec_work opening) rs))"
    by (simp add: records_loop_Inr_iff)
  with R show ?L by (simp add: py_records_def key_bytes_def py_batch_Items)
qed

text \<open>
  C38. \<open>_records\<close> accepts exactly the batches the library documents: a 32-byte key and at most
  4096 records with 12-byte nonces, bounded payload and associated data, pairwise distinct
  nonces when sealing, and at most 64 MiB of working data; it returns the records unchanged.
\<close>

theorem records_validation:
  "py_records key items opening = Inr (k, rs) \<longleftrightarrow>
     key = PBytes k \<and> length k = 32 \<and> items = Items (map py_record rs)
     \<and> length rs \<le> MAX_BATCH \<and> (\<forall>r \<in> set rs. rec_ok opening r)
     \<and> (\<not> opening \<longrightarrow> distinct (map rec_nonce rs))
     \<and> sum_list (map (rec_work opening) rs) \<le> MAX_WORK"
  by (rule py_records_Inr_iff)

theorem records_validation_witness:
  "py_records (PBytes (replicate 32 7))
     (Items [py_record \<lparr>rec_nonce = replicate 12 1, rec_data = [5], rec_aad = []\<rparr>]) False
   = Inr (replicate 32 7, [\<lparr>rec_nonce = replicate 12 1, rec_data = [5], rec_aad = []\<rparr>])"
  unfolding records_validation
  by (simp add: rec_ok_def rec_work_def MAX_BATCH_def MAX_AAD_def MAX_PAYLOAD_def MAX_WORK_def)

lemma py_messages_Inr_iff:
  "py_messages items = Inr ms \<longleftrightarrow>
     items = Items (map PBytes ms) \<and> length ms \<le> MAX_BATCH
     \<and> (\<forall>m \<in> set ms. length m \<le> MAX_PAYLOAD)
     \<and> sum_list (map length ms) + 32 * length ms \<le> MAX_WORK"
proof -
  have bytes: "map PBytes (map (\<lambda>v. the (as_bytes v)) vs) = vs" if "\<forall>v \<in> set vs. is_message v" for vs
    using that by (auto simp: is_message_def intro!: map_idI split: option.splits)
  have len: "length (the (as_bytes v)) \<le> MAX_PAYLOAD" if "is_message v" for v
    using that by (auto simp: is_message_def split: option.splits)
  show ?thesis (is "?L \<longleftrightarrow> ?R")
  proof
    assume ?L
    then obtain vs where vs: "items = Items vs" "length vs \<le> MAX_BATCH" "\<forall>v \<in> set vs. is_message v"
      and ms: "ms = map (\<lambda>v. the (as_bytes v)) vs"
      and w: "sum_list (map length ms) + 32 * length ms \<le> MAX_WORK"
      by (auto simp: py_messages_def bind_res_Inr_iff py_batch_Inr_iff Let_def split: if_splits)
    from vs w show ?R unfolding ms using bytes [OF vs(3)] len by auto
  next
    assume ?R
    then show ?L
      by (auto simp: py_messages_def py_batch_Items is_message_def Let_def o_def)
  qed
qed

lemma py_digests_Inr_iff:
  "py_digests key items = Inr (d, hs) \<longleftrightarrow>
     (\<exists>k. key = PBytes k \<and> length k = 32 \<and> d = from_bytes_big k) \<and> 1 \<le> d \<and> d < ORDER
     \<and> items = Items (map PBytes hs) \<and> length hs \<le> MAX_BATCH \<and> (\<forall>h \<in> set hs. length h = 32)"
proof -
  have bytes: "map PBytes (map (\<lambda>v. the (as_bytes v)) vs) = vs" if "\<forall>v \<in> set vs. is_digest v" for vs
    using that by (auto simp: is_digest_def intro!: map_idI split: option.splits)
  have len: "length (the (as_bytes v)) = 32" if "is_digest v" for v
    using that by (auto simp: is_digest_def split: option.splits)
  show ?thesis (is "?L \<longleftrightarrow> ?R")
  proof
    assume ?L
    then obtain vs where vs: "items = Items vs" "length vs \<le> MAX_BATCH" "\<forall>v \<in> set vs. is_digest v"
      and hs: "hs = map (\<lambda>v. the (as_bytes v)) vs"
      and k: "\<exists>k. key = PBytes k \<and> length k = 32 \<and> d = from_bytes_big k" "1 \<le> d" "d < ORDER"
      by (auto simp: py_digests_def bind_res_Inr_iff py_batch_Inr_iff key_bytes_Inr_iff split: if_splits)
    from vs k show ?R unfolding hs using bytes [OF vs(3)] len by auto
  next
    assume ?R
    then show ?L
      by (auto simp: py_digests_def py_batch_Items is_digest_def key_bytes_def o_def)
  qed
qed

text \<open>Every error of the validation is a \<open>ValueError\<close>, unless the caller's iterator raised.\<close>

lemma py_batch_Inl:
  "py_batch (Items xs) = Inl e \<Longrightarrow> e = ValueError ''batch exceeds 4096 items''"
  "py_batch (Endless f) = Inl (ValueError ''batch exceeds 4096 items'')"
  by (auto simp: py_batch_def split: if_splits)

section \<open>Correctness of the CPU backend\<close>

lemma cpu_seal_Inr_iff:
  "cpu_seal c key items = Inr cs \<longleftrightarrow>
     (\<exists>k rs. py_records key items False = Inr (k, rs)
       \<and> cs = map (\<lambda>r. aes_encrypt c k (rec_nonce r) (rec_data r) (rec_aad r)) rs)"
  by (auto simp: cpu_seal_def bind_res_Inr_iff)

definition resealed :: "aead_record list \<Rightarrow> bytes list \<Rightarrow> aead_record list" where
  "resealed rs cs = map (\<lambda>(r, x). r\<lparr>rec_data := x\<rparr>) (zip rs cs)"

lemma cpu_opens_sealed:
  assumes "aead_law c"
    and "cpu_seal c key (Items (map py_record rs)) = Inr cs"
  shows "cpu_open c key (Items (map py_record (resealed rs cs))) = Inr (map (Some o rec_data) rs)"
proof -
  have inj: "inj py_record" by (metis as_record_py_record injI option.inject)
  from assms(2) obtain k where rec: "py_records key (Items (map py_record rs)) False = Inr (k, rs)"
    and cs: "cs = map (\<lambda>r. aes_encrypt c k (rec_nonce r) (rec_data r) (rec_aad r)) rs"
    by (auto simp: cpu_seal_Inr_iff py_records_Inr_iff dest!: map_injective [OF _ inj])
  let ?rs = "map (\<lambda>r. r\<lparr>rec_data := aes_encrypt c k (rec_nonce r) (rec_data r) (rec_aad r)\<rparr>) rs"
  have re: "resealed rs cs = ?rs"
    unfolding resealed_def cs by (induction rs) auto
  from rec have ok: "length k = 32" "\<forall>r \<in> set rs. rec_ok False r" by (auto simp: py_records_Inr_iff)
  then have enc: "length (aes_encrypt c k (rec_nonce r) (rec_data r) (rec_aad r)) = length (rec_data r) + 16"
    and dec: "aes_decrypt c k (rec_nonce r) (aes_encrypt c k (rec_nonce r) (rec_data r) (rec_aad r))
        (rec_aad r) = Some (rec_data r)"
    if "r \<in> set rs" for r
    using that assms(1) by (auto simp: aead_law_def rec_ok_def)
  have "map (rec_work True) ?rs = map (rec_work False) rs"
    unfolding map_map by (rule map_cong [OF refl]) (simp add: rec_work_def enc)
  moreover have "\<forall>r \<in> set ?rs. rec_ok True r"
    using ok enc by (auto simp: rec_ok_def)
  ultimately have "py_records key (Items (map py_record ?rs)) True = Inr (k, ?rs)"
    using rec unfolding py_records_Inr_iff by (simp del: map_map)
  then show ?thesis
    unfolding re cpu_open_def by (simp add: dec)
qed

text \<open>
  Opening what was sealed returns the plaintexts: if \<open>Cpu.seal\<close> accepts a batch, \<open>Cpu.open\<close>
  of the ciphertexts under the same key, nonces and associated data accepts it too and returns
  every plaintext in order, none of them rejected.
\<close>

theorem cpu_open_seal:
  assumes "aead_law c"
    and "cpu_seal c key (Items (map py_record rs)) = Inr cs"
  shows "cpu_open c key (Items (map py_record (resealed rs cs))) = Inr (map (Some o rec_data) rs)"
  by (rule cpu_opens_sealed [OF assms])

text \<open>A raw signature in the form every consumer of the program requires: 64 bytes, low \<open>s\<close>.\<close>

definition valid_low_s :: "bytes \<Rightarrow> bool" where
  "valid_low_s g \<longleftrightarrow> length g = 64 \<and> 0 < sig_r g \<and> sig_r g < ORDER
     \<and> 0 < sig_s g \<and> sig_s g \<le> ORDER div 2"

lemma raw_signature_parts:
  assumes "r < ORDER" and "0 < s" and "s < ORDER"
  shows "length (raw_signature (r, s)) = 64" and "sig_r (raw_signature (r, s)) = r"
    and "sig_s (raw_signature (r, s)) = min s (ORDER - s)"
proof -
  have "r < 256 ^ 32" and "min s (ORDER - s) < 256 ^ 32"
    using assms ORDER_bounds by linarith+
  then show "sig_r (raw_signature (r, s)) = r"
    and "sig_s (raw_signature (r, s)) = min s (ORDER - s)"
    unfolding sig_r_def sig_s_def raw_signature_def Let_def prod.case
    by (simp_all del: power_strict_decreasing_iff add: from_to_bytes_big)
qed (simp add: raw_signature_def)

lemma raw_signature_low_s:
  assumes "0 < r" and "r < ORDER" and "0 < s" and "s < ORDER"
  shows "valid_low_s (raw_signature (r, s))"
proof -
  have "min s (ORDER - s) \<le> ORDER div 2" by linarith
  with assms raw_signature_parts [of r s] show ?thesis by (simp add: valid_low_s_def)
qed

lemma verify_raw_signature:
  assumes "ecdsa_law c" and "1 \<le> d" and "d < ORDER" and "length h = 32"
  shows "verify_p256 c (PBytes (ec_public c d)) (PBytes h) (PBytes (raw_signature (ecdsa_sign c d h)))"
    and "valid_low_s (raw_signature (ecdsa_sign c d h))"
proof -
  obtain r s where rs: "ecdsa_sign c d h = (r, s)" by (cases "ecdsa_sign c d h")
  with assms have law: "ec_point c (ec_public c d)" "0 < r" "r < ORDER" "0 < s" "s < ORDER"
      "ecdsa_verify c (ec_public c d) r s h" "ecdsa_verify c (ec_public c d) r (ORDER - s) h"
    using assms(1) [unfolded ecdsa_law_def, rule_format, OF assms(2-4)] by simp_all
  note parts = raw_signature_parts [OF law(3,4,5)]
  from law parts assms(4) show "verify_p256 c (PBytes (ec_public c d)) (PBytes h)
      (PBytes (raw_signature (ecdsa_sign c d h)))"
    unfolding rs by (auto simp: verify_p256_def Let_def min_def)
  from law show "valid_low_s (raw_signature (ecdsa_sign c d h))"
    unfolding rs by (simp add: raw_signature_low_s)
qed

lemma cpu_sign_genuine:
  assumes "ecdsa_law c"
    and "cpu_public_key c key = Inr pub"
    and "cpu_sign c key (Items (map PBytes hs)) = Inr sigs"
  shows "list_all2 (\<lambda>h g. valid_low_s g \<and> verify_p256 c (PBytes pub) (PBytes h) (PBytes g)) hs sigs"
proof -
  from assms(2) obtain k where k: "key = PBytes k" "1 \<le> from_bytes_big k" "from_bytes_big k < ORDER"
    and pub: "pub = ec_public c (from_bytes_big k)"
    by (auto simp: cpu_public_key_def public_key_def py_digests_Inr_iff)
  have "inj PBytes" by (simp add: inj_def)
  with assms(3) k have hs: "\<forall>h \<in> set hs. length h = 32"
    and sigs: "sigs = map (\<lambda>h. raw_signature (ecdsa_sign c (from_bytes_big k) h)) hs"
    by (auto simp: cpu_sign_def py_digests_Inr_iff inj_map_eq_map)
  show ?thesis
    unfolding sigs pub list_all2_map2
    using hs verify_raw_signature [OF assms(1) k(2,3)] by (auto intro: list_all2_refl list.rel_refl_strong)
qed

text \<open>
  Every signature of \<open>Cpu.sign\<close> is in low-s form, so that it passes the checks of the
  token encoder, and verifies under the public key that \<open>public_key\<close> derives from the same
  private key, in the order of the digests.
\<close>

theorem cpu_sign_verifies:
  assumes "ecdsa_law c"
    and "cpu_public_key c key = Inr pub"
    and "cpu_sign c key (Items (map PBytes hs)) = Inr sigs"
  shows "list_all2 (\<lambda>h g. valid_low_s g \<and> verify_p256 c (PBytes pub) (PBytes h) (PBytes g)) hs sigs"
  by (rule cpu_sign_genuine [OF assms])

text \<open>
  A concrete instance of the third-party operations, which shows that their laws can hold. Its
  signatures depend on the digest, and its ciphertexts carry a constant tag.
\<close>

definition demo_ossl :: ossl where
  "demo_ossl = \<lparr>aes_encrypt = (\<lambda>k n d a. d @ replicate 16 0),
     aes_decrypt = (\<lambda>k n x a. if length x < 16 then None else Some (take (length x - 16) x)),
     ec_point = (\<lambda>p. length p = 65), ec_public = (\<lambda>d. to_bytes_big 65 d),
     ecdsa_verify = (\<lambda>p r s h. r = 1 + from_bytes_big h mod (ORDER - 1) \<and> (s = 1 \<or> s = ORDER - 1)),
     ecdsa_sign = (\<lambda>d h. (1 + from_bytes_big h mod (ORDER - 1), 1))\<rparr>"

lemma demo_aead_law: "aead_law demo_ossl"
  by (simp add: aead_law_def demo_ossl_def)

lemma demo_ecdsa_law: "ecdsa_law demo_ossl"
proof -
  have "n mod (ORDER - 1) < ORDER - 1" for n
    using ORDER_bounds(1) by (intro mod_less_divisor) linarith
  then have "1 + n mod (ORDER - 1) < ORDER" for n
    using ORDER_bounds(1) by (metis less_diff_conv add.commute)
  with ORDER_bounds show ?thesis by (simp add: ecdsa_law_def demo_ossl_def)
qed

lemma from_bytes_little_zeros [simp]: "from_bytes_little (replicate n 0) = 0"
  by (induction n) simp_all

lemma demo_key: "length (replicate 31 0 @ [1 :: byte]) = 32"
  "from_bytes_big (replicate 31 0 @ [1 :: byte]) = 1"
  by (simp_all add: from_bytes_big_rev)

theorem cpu_open_seal_witness:
  "cpu_open demo_ossl (PBytes (replicate 32 7))
     (Items [py_record \<lparr>rec_nonce = replicate 12 1, rec_data = 5 # replicate 16 0, rec_aad = [9]\<rparr>])
   = Inr [Some [5]]"
proof -
  let ?r = "\<lparr>rec_nonce = replicate 12 1, rec_data = [5], rec_aad = [9]\<rparr>"
  have "py_records (PBytes (replicate 32 7)) (Items (map py_record [?r])) False
      = Inr (replicate 32 7, [?r])"
    unfolding py_records_Inr_iff
    by (simp add: rec_ok_def rec_work_def MAX_BATCH_def MAX_AAD_def MAX_PAYLOAD_def MAX_WORK_def)
  then have "cpu_seal demo_ossl (PBytes (replicate 32 7)) (Items (map py_record [?r]))
      = Inr [5 # replicate 16 0]"
    by (simp add: cpu_seal_def demo_ossl_def)
  from cpu_open_seal [OF demo_aead_law this] show ?thesis by (simp add: resealed_def)
qed

theorem cpu_sign_verifies_witness:
  "\<exists>pub sigs. cpu_sign demo_ossl (PBytes (replicate 31 0 @ [1])) (Items [PBytes (sha256 [])]) = Inr sigs
     \<and> list_all2 (\<lambda>h g. valid_low_s g \<and> verify_p256 demo_ossl (PBytes pub) (PBytes h) (PBytes g))
         [sha256 []] sigs"
proof -
  let ?k = "PBytes (replicate 31 0 @ [1])"
  have d: "py_digests ?k (Items (map PBytes hs)) = Inr (1, hs)"
    if "length hs \<le> MAX_BATCH" "\<forall>h \<in> set hs. length h = 32" for hs
    unfolding py_digests_Inr_iff using that demo_key ORDER_bounds(1) by (auto simp: eval_nat_numeral)
  have pub: "cpu_public_key demo_ossl ?k = Inr (ec_public demo_ossl 1)"
    using d [of "[]"] by (simp add: cpu_public_key_def public_key_def)
  obtain sigs where s: "cpu_sign demo_ossl ?k (Items (map PBytes [sha256 []])) = Inr sigs"
    using d [of "[sha256 []]"] by (simp add: cpu_sign_def MAX_BATCH_def)
  from cpu_sign_verifies [OF demo_ecdsa_law pub s] s show ?thesis by auto
qed

end
