(* ===== verification/Base64url.thy ===== *)
theory Base64url
  imports Prelude
begin

text \<open>
  Unpadded base64url as \<open>receipts.py\<close> and \<open>jws.py\<close> use it: \<open>_b64\<close> encodes and strips the
  padding, \<open>_unb64\<close> restores the padding, decodes and refuses every spelling that \<open>_b64\<close>
  would not have produced. The two functions of Python's \<open>base64\<close> module they call,
  \<open>urlsafe_b64encode\<close> and \<open>b64decode(..., altchars=b"-_", validate=True)\<close>, are modelled in
  full: the decoder also accepts \<open>+\<close> and \<open>/\<close>, and does not look at the unused low bits of
  the last character, which is why the canonical check is needed.
\<close>

section \<open>The standard library's encoder and decoder\<close>

definition b64_char :: "nat \<Rightarrow> nat" where
  "b64_char n = (if n < 26 then 65 + n else if n < 52 then 71 + n
     else if n < 62 then n - 4 else if n = 62 then 45 else 95)"

definition b64_val :: "nat \<Rightarrow> nat option" where
  "b64_val c = (if 65 \<le> c \<and> c \<le> 90 then Some (c - 65)
     else if 97 \<le> c \<and> c \<le> 122 then Some (c - 71)
     else if 48 \<le> c \<and> c \<le> 57 then Some (c + 4)
     else if c = 43 \<or> c = 45 then Some 62
     else if c = 47 \<or> c = 95 then Some 63 else None)"

fun b64_groups :: "nat list \<Rightarrow> nat list" where
  "b64_groups [] = []"
| "b64_groups [a] = [a div 4, (a mod 4) * 16]"
| "b64_groups [a, b] = [a div 4, (a mod 4) * 16 + b div 16, (b mod 16) * 4]"
| "b64_groups (a # b # c # r) =
     a div 4 # ((a mod 4) * 16 + b div 16) # ((b mod 16) * 4 + c div 64) # c mod 64 # b64_groups r"

definition pad_count :: "nat \<Rightarrow> nat" where
  "pad_count n = (4 - n mod 4) mod 4"

definition urlsafe_b64encode :: "bytes \<Rightarrow> ustr" where
  "urlsafe_b64encode b =
     (let g = map b64_char (b64_groups (map unat b)) in g @ replicate (pad_count (length g)) 61)"

fun dec_groups :: "nat list \<Rightarrow> nat list" where
  "dec_groups (w # x # y # z # r) =
     (w * 4 + x div 16) # ((x mod 16) * 16 + y div 4) # ((y mod 4) * 64 + z) # dec_groups r"
| "dec_groups [w, x, y] = [w * 4 + x div 16, (x mod 16) * 16 + y div 4]"
| "dec_groups [w, x] = [w * 4 + x div 16]"
| "dec_groups _ = []"

definition b64decode :: "ustr \<Rightarrow> bytes option" where
  "b64decode s =
     (let body = takeWhile (\<lambda>c. c \<noteq> 61) s; pads = dropWhile (\<lambda>c. c \<noteq> 61) s in
      if (\<forall>c \<in> set pads. c = 61) \<and> length pads \<le> 2 \<and> length s mod 4 = 0
         \<and> (\<forall>c \<in> set body. b64_val c \<noteq> None)
      then Some (map of_nat (dec_groups (map (\<lambda>c. the (b64_val c)) body)))
      else None)"

section \<open>The module's own functions\<close>

definition b64 :: "bytes \<Rightarrow> ustr" where
  "b64 b = rev (dropWhile (\<lambda>c. c = 61) (rev (urlsafe_b64encode b)))"

definition unb64 :: "pyval \<Rightarrow> bytes result" where
  "unb64 v = (case v of
     PStr s \<Rightarrow>
       (if s = [] \<or> \<not> isascii s then Inl (ValueError ''invalid base64url'')
        else (case b64decode (s @ replicate (pad_count (length s)) 61) of
            None \<Rightarrow> Inl (ValueError ''binascii'')
          | Some d \<Rightarrow> if b64 d \<noteq> s then Inl (ValueError ''non-canonical base64url'')
                     else Inr d))
   | _ \<Rightarrow> Inl (ValueError ''invalid base64url''))"

text \<open>\<open>jws._b64\<close>: the same encoding, as \<open>bytes\<close>.\<close>

definition jws_b64 :: "bytes \<Rightarrow> bytes" where
  "jws_b64 b = ascii_encode (b64 b)"

section \<open>Correctness\<close>

lemma b64_val_char: "n < 64 \<Longrightarrow> b64_val (b64_char n) = Some n"
  by (auto simp: b64_val_def b64_char_def)

lemma b64_char_not_pad: "n < 64 \<Longrightarrow> b64_char n \<noteq> 61"
  by (auto simp: b64_char_def)

lemma b64_char_ascii: "n < 64 \<Longrightarrow> b64_char n < 128"
  by (auto simp: b64_char_def)

lemma b64_groups_bound:
  "(\<forall>x \<in> set xs. x < 256) \<Longrightarrow> g \<in> set (b64_groups xs) \<Longrightarrow> g < 64"
  by (induction xs rule: b64_groups.induct) auto

lemma length_b64_groups: "length (b64_groups xs) = (4 * length xs + 2) div 3"
  by (induction xs rule: b64_groups.induct) auto

lemma b64_groups_eq_Nil [simp]: "b64_groups xs = [] \<longleftrightarrow> xs = []"
  by (cases xs rule: b64_groups.cases) auto

lemma dec_b64_groups: "(\<forall>x \<in> set xs. x < 256) \<Longrightarrow> dec_groups (b64_groups xs) = xs"
  by (induction xs rule: b64_groups.induct) auto

lemma groups_of_bytes_bound: "g \<in> set (b64_groups (map unat (b :: bytes))) \<Longrightarrow> g < 64"
  by (rule b64_groups_bound [of "map unat b"]) (auto simp: unat_byte_bound)

lemma b64_eq: "b64 b = map b64_char (b64_groups (map unat b))"
proof -
  let ?g = "map b64_char (b64_groups (map unat b))"
  have nopad: "\<forall>c \<in> set (rev ?g). c \<noteq> 61"
    using groups_of_bytes_bound b64_char_not_pad by auto
  then have "dropWhile (\<lambda>c. c = 61) (rev ?g) = rev ?g"
    by (cases "rev ?g") auto
  moreover have "dropWhile (\<lambda>c. c = 61) (replicate n 61 @ xs) = dropWhile (\<lambda>c. c = 61) xs"
    for n and xs :: "nat list" by (induction n) auto
  ultimately show ?thesis
    by (simp add: b64_def urlsafe_b64encode_def Let_def)
qed

lemma length_b64: "length (b64 b) = (4 * length b + 2) div 3"
  by (simp add: b64_eq length_b64_groups)

lemma b64_eq_Nil [simp]: "b64 b = [] \<longleftrightarrow> b = []"
  by (simp add: b64_eq)

lemma isascii_b64 [simp]: "isascii (b64 b)"
  using groups_of_bytes_bound b64_char_ascii by (auto simp: b64_eq isascii_def)

lemma b64_chars: "c \<in> set (b64 b) \<Longrightarrow> \<exists>n < 64. c = b64_char n"
  using groups_of_bytes_bound by (auto simp: b64_eq)

lemma b64_no_dot: "46 \<notin> set (b64 b)"
  by (auto dest!: b64_chars simp: b64_char_def split: if_splits)

lemma pad_count_ok:
  "pad_count (length (b64 b)) \<le> 2"
  "(length (b64 b) + pad_count (length (b64 b))) mod 4 = 0"
proof -
  obtain q r where n: "length b = 3 * q + r" and r: "r < 3"
    by (metis mod_less_divisor mult_div_mod_eq zero_less_numeral)
  have "(4 * length b + 2) div 3 = 4 * q + (4 * r + 2) div 3"
    by (simp add: n algebra_simps)
  moreover from r have "r = 0 \<or> r = 1 \<or> r = 2" by arith
  ultimately have "length (b64 b) = 4 * q \<or> length (b64 b) = 4 * q + 2
      \<or> length (b64 b) = 4 * q + 3"
    by (auto simp: length_b64)
  moreover have "(4 * q + 2) mod 4 = 2" "(4 * q + 3) mod 4 = 3" for q :: nat
    by presburger+
  ultimately show "pad_count (length (b64 b)) \<le> 2"
    and "(length (b64 b) + pad_count (length (b64 b))) mod 4 = 0"
    by (auto simp: pad_count_def)
qed

lemma b64decode_b64:
  "b64decode (b64 b @ replicate (pad_count (length (b64 b))) 61) = Some b"
proof -
  let ?g = "b64_groups (map unat b)"
  have ne: "\<forall>c \<in> set (b64 b). c \<noteq> 61"
    by (auto dest!: b64_chars b64_char_not_pad)
  then have tw: "takeWhile (\<lambda>c. c \<noteq> 61) (b64 b @ replicate k 61) = b64 b"
    and dw: "dropWhile (\<lambda>c. c \<noteq> 61) (b64 b @ replicate k 61) = replicate k 61" for k
    by (simp_all add: takeWhile_append dropWhile_append)
  have vals: "map (\<lambda>c. the (b64_val c)) (b64 b) = ?g"
    by (auto simp: b64_eq o_def groups_of_bytes_bound b64_val_char intro!: map_idI)
  have ok: "\<forall>c \<in> set (b64 b). b64_val c \<noteq> None"
    by (auto dest!: b64_chars simp: b64_val_char)
  have dec: "dec_groups ?g = map unat b"
    by (rule dec_b64_groups) (auto simp: unat_byte_bound)
  show ?thesis
    using pad_count_ok [of b] ok
    by (simp add: b64decode_def tw dw vals dec o_def)
qed

lemma unb64_b64 [simp]: "b \<noteq> [] \<Longrightarrow> unb64 (PStr (b64 b)) = Inr b"
  by (simp add: unb64_def b64decode_b64)

lemma b64_inject [simp]: "b64 a = b64 b \<longleftrightarrow> a = b"
  by (metis b64decode_b64 option.inject)

lemma unb64_Inr_iff: "unb64 v = Inr b \<longleftrightarrow> b \<noteq> [] \<and> v = PStr (b64 b)"
proof
  assume "unb64 v = Inr b"
  then show "b \<noteq> [] \<and> v = PStr (b64 b)"
    by (auto simp: unb64_def split: pyval.splits option.splits if_splits)
qed auto

lemma unb64_Inl_ValueError: "unb64 v = Inl e \<Longrightarrow> \<exists>m. e = ValueError m"
  by (auto simp: unb64_def split: pyval.splits option.splits if_splits)

end
