(* ===== verification/Json.thy ===== *)
theory Json
  imports Prelude "HOL-Library.Multiset"
begin

text \<open>
  The part of Python's \<open>json\<close> module that the program uses: \<open>json.dumps\<close> with compact
  separators, ASCII escapes and optionally sorted keys, and \<open>json.loads\<close> with and without
  an \<open>object_pairs_hook\<close>. The reader is the scanner of the standard library, written over
  code points with a fuel argument; \<open>parse_fuel\<close> shows that any fuel above twice the length
  of the text gives the same result, so \<open>json_loads\<close>, which takes that much, is the scanner.

  The last section proves that reading what was written gives the value back.
\<close>

section \<open>Writing\<close>

definition hex_digit :: "nat \<Rightarrow> nat" where
  "hex_digit n = (if n < 10 then 48 + n else 87 + n)"

definition uescape :: "nat \<Rightarrow> ustr" where
  "uescape n = [92, 117, hex_digit (n div 4096 mod 16), hex_digit (n div 256 mod 16),
     hex_digit (n div 16 mod 16), hex_digit (n mod 16)]"

definition json_escape :: "nat \<Rightarrow> ustr" where
  "json_escape c =
     (if c = 34 then [92, 34] else if c = 92 then [92, 92]
      else if c = 10 then [92, 110] else if c = 13 then [92, 114]
      else if c = 9 then [92, 116] else if c = 12 then [92, 102]
      else if c = 8 then [92, 98]
      else if 32 \<le> c \<and> c \<le> 126 then [c]
      else if c < 65536 then uescape c
      else uescape (55296 + (c - 65536) div 1024) @ uescape (56320 + (c - 65536) mod 1024))"

definition json_str :: "ustr \<Rightarrow> ustr" where
  "json_str s = 34 # concat (map json_escape s) @ [34]"

fun dec_nat :: "nat \<Rightarrow> ustr" where
  "dec_nat n = (if n < 10 then [48 + n] else dec_nat (n div 10) @ [48 + n mod 10])"

declare dec_nat.simps [simp del]

definition dec_int :: "int \<Rightarrow> ustr" where
  "dec_int i = (if i < 0 then 45 # dec_nat (nat (- i)) else dec_nat (nat i))"

fun join_comma :: "ustr list \<Rightarrow> ustr" where
  "join_comma [] = []"
| "join_comma [x] = x"
| "join_comma (x # y # r) = x @ 44 # join_comma (y # r)"

lemma pyval_item_size [termination_simp]:
  "(k, v) \<in> set kvs \<Longrightarrow> size v < Suc (size_list (size_prod (\<lambda>_. 0) size) kvs)"
  by (induction kvs) auto

text \<open>
  \<open>json.dumps(v, separators=(",", ":"))\<close>. The last three cases are not JSON; there Python
  raises \<open>TypeError\<close>, and no call of the program reaches them (\<open>json_ok\<close> below).
\<close>

fun json_text :: "pyval \<Rightarrow> ustr" where
  "json_text PNone = lit ''null''"
| "json_text (PBool b) = (if b then lit ''true'' else lit ''false'')"
| "json_text (PInt i) = dec_int i"
| "json_text (PFloat s) = s"
| "json_text (PStr s) = json_str s"
| "json_text (PList xs) = 91 # join_comma (map json_text xs) @ [93]"
| "json_text (PDict kvs) =
     123 # join_comma (map (\<lambda>(k, v). json_str k @ 58 # json_text v) kvs) @ [125]"
| "json_text (PBytes b) = []"
| "json_text (PRecord a b c) = []"
| "json_text POther = []"

fun sort_keys :: "pyval \<Rightarrow> pyval" where
  "sort_keys (PList xs) = PList (map sort_keys xs)"
| "sort_keys (PDict kvs) = PDict (sort_key fst (map (\<lambda>(k, v). (k, sort_keys v)) kvs))"
| "sort_keys v = v"

text \<open>\<open>json.dumps(v, sort_keys=True, separators=(",", ":"))\<close>.\<close>

definition dumps_sorted :: "pyval \<Rightarrow> ustr" where
  "dumps_sorted v = json_text (sort_keys v)"

section \<open>Reading\<close>

definition skip_ws :: "ustr \<Rightarrow> ustr" where
  "skip_ws s = dropWhile (\<lambda>c. c = 32 \<or> c = 9 \<or> c = 10 \<or> c = 13) s"

definition hex_val :: "nat \<Rightarrow> nat option" where
  "hex_val c = (if 48 \<le> c \<and> c \<le> 57 then Some (c - 48)
     else if 97 \<le> c \<and> c \<le> 102 then Some (c - 87)
     else if 65 \<le> c \<and> c \<le> 70 then Some (c - 55) else None)"

definition hex4 :: "nat \<Rightarrow> nat \<Rightarrow> nat \<Rightarrow> nat \<Rightarrow> nat option" where
  "hex4 a b c d = (case (hex_val a, hex_val b, hex_val c, hex_val d) of
     (Some w, Some x, Some y, Some z) \<Rightarrow> Some (w * 4096 + x * 256 + y * 16 + z)
   | _ \<Rightarrow> None)"

definition high_surrogate :: "nat \<Rightarrow> bool" where
  "high_surrogate c \<longleftrightarrow> 55296 \<le> c \<and> c \<le> 56319"

definition low_surrogate :: "nat \<Rightarrow> bool" where
  "low_surrogate c \<longleftrightarrow> 56320 \<le> c \<and> c \<le> 57343"

definition simple_escape :: "nat \<Rightarrow> nat option" where
  "simple_escape e = (if e = 34 \<or> e = 92 \<or> e = 47 then Some e
     else if e = 98 then Some 8 else if e = 102 then Some 12 else if e = 110 then Some 10
     else if e = 114 then Some 13 else if e = 116 then Some 9 else None)"

definition cons_fst :: "'a \<Rightarrow> ('a list \<times> 'b) option \<Rightarrow> ('a list \<times> 'b) option" where
  "cons_fst x r = map_option (\<lambda>(xs, t). (x # xs, t)) r"

lemma cons_fst_simps [simp]:
  "cons_fst x None = None"
  "cons_fst x (Some (xs, t)) = Some (x # xs, t)"
  by (simp_all add: cons_fst_def)

lemma cons_fst_Some_iff: "cons_fst x r = Some (ys, t) \<longleftrightarrow> (\<exists>xs. r = Some (xs, t) \<and> ys = x # xs)"
  by (cases r) (auto simp: cons_fst_def)

text \<open>
  \<open>scanstring\<close> in strict mode, called after the opening quote. \<open>scan_char\<close> is one turn of its
  loop: an escape (a surrogate pair written as two escapes is one character), or a plain
  character, control characters being refused.
\<close>

definition scan_unicode :: "ustr \<Rightarrow> (nat \<times> ustr) option" where
  "scan_unicode t =
     (case t of
        x1 # x2 # x3 # x4 # t1 \<Rightarrow> map_option (\<lambda>h. (h, t1)) (hex4 x1 x2 x3 x4)
      | _ \<Rightarrow> None)"

definition starts_uescape :: "ustr \<Rightarrow> bool" where
  "starts_uescape t = (case t of b # w # y1 # y2 # y3 # y4 # _ \<Rightarrow> b = 92 \<and> w = 117 | _ \<Rightarrow> False)"

definition scan_char :: "ustr \<Rightarrow> (nat \<times> ustr) option" where
  "scan_char s =
     (case s of
        [] \<Rightarrow> None
      | c # r \<Rightarrow>
          if c = 92 then
            (case r of
               [] \<Rightarrow> None
             | e # t \<Rightarrow>
                 if e = 117 then
                   (case scan_unicode t of
                      None \<Rightarrow> None
                    | Some (h, t1) \<Rightarrow>
                        if high_surrogate h \<and> starts_uescape t1 then
                          (case scan_unicode (drop 2 t1) of
                             None \<Rightarrow> None
                           | Some (l, t2) \<Rightarrow>
                               if low_surrogate l
                               then Some (65536 + (h - 55296) * 1024 + (l - 56320), t2)
                               else Some (h, t1))
                        else Some (h, t1))
                 else map_option (\<lambda>x. (x, t)) (simple_escape e))
          else if c < 32 then None
          else Some (c, r))"

lemma scan_unicode_shrinks: "scan_unicode t = Some (h, t1) \<Longrightarrow> length t1 < length t"
  by (auto simp: scan_unicode_def split: list.splits)

lemma scan_char_shrinks: "scan_char s = Some (x, t) \<Longrightarrow> length t < length s"
  by (auto simp: scan_char_def split: list.splits if_splits option.splits
      dest!: scan_unicode_shrinks)

function scan_string :: "ustr \<Rightarrow> (ustr \<times> ustr) option" where
  "scan_string s =
     (case s of
        [] \<Rightarrow> None
      | c # r \<Rightarrow>
          if c = 34 then Some ([], r)
          else (case scan_char s of
                  None \<Rightarrow> None
                | Some (x, t) \<Rightarrow> cons_fst x (scan_string t)))"
  by pat_completeness auto
termination
  by (relation "measure length") (auto dest: scan_char_shrinks)

declare scan_string.simps [simp del]

lemma scan_string_Nil [simp]: "scan_string [] = None"
  by (subst scan_string.simps) simp

lemma scan_string_Cons:
  "scan_string (c # r) =
     (if c = 34 then Some ([], r)
      else (case scan_char (c # r) of
              None \<Rightarrow> None
            | Some (x, t) \<Rightarrow> cons_fst x (scan_string t)))"
  by (subst scan_string.simps) simp

text \<open>The rest of the text after an expected character.\<close>

definition expect :: "nat \<Rightarrow> ustr \<Rightarrow> ustr option" where
  "expect c s = (case s of x # t \<Rightarrow> if x = c then Some t else None | [] \<Rightarrow> None)"

definition is_digit :: "nat \<Rightarrow> bool" where
  "is_digit c \<longleftrightarrow> 48 \<le> c \<and> c \<le> 57"

definition digits_val :: "ustr \<Rightarrow> nat" where
  "digits_val ds = foldl (\<lambda>a d. a * 10 + (d - 48)) 0 ds"

text \<open>\<open>_match_number\<close>: sign, integer part, fraction, exponent.\<close>

definition scan_frac :: "ustr \<Rightarrow> ustr" where
  "scan_frac s = (case expect 46 s of
     Some r \<Rightarrow> let ds = takeWhile is_digit r in if ds = [] then [] else 46 # ds
   | None \<Rightarrow> [])"

definition scan_exp :: "ustr \<Rightarrow> ustr" where
  "scan_exp s = (case s of
     e # r \<Rightarrow>
       if e = 101 \<or> e = 69 then
         (let sg = (case r of c # _ \<Rightarrow> if c = 43 \<or> c = 45 then [c] else [] | [] \<Rightarrow> []);
              ds = takeWhile is_digit (drop (length sg) r)
          in if ds = [] then [] else e # sg @ ds)
       else []
   | [] \<Rightarrow> [])"

definition scan_number :: "ustr \<Rightarrow> (pyval \<times> ustr) option" where
  "scan_number s =
     (let sg = (case s of c # _ \<Rightarrow> if c = 45 then [c] else [] | [] \<Rightarrow> []);
          t = drop (length sg) s;
          ds = takeWhile is_digit t
      in if ds = [] then None
         else let ip = (if hd ds = 48 then [48] else ds);
                  r1 = drop (length ip) t;
                  fr = scan_frac r1; r2 = drop (length fr) r1;
                  ex = scan_exp r2; r3 = drop (length ex) r2
              in if fr = [] \<and> ex = []
                 then Some (PInt (if sg = [] then int (digits_val ip) else - int (digits_val ip)), r3)
                 else Some (PFloat (sg @ ip @ fr @ ex), r3))"

definition strip_prefix :: "string \<Rightarrow> ustr \<Rightarrow> ustr option" where
  "strip_prefix p s =
     (if take (length p) s = lit p then Some (drop (length p) s) else None)"

definition scan_atom :: "ustr \<Rightarrow> (pyval \<times> ustr) option" where
  "scan_atom s = (case strip_prefix ''null'' s of Some r \<Rightarrow> Some (PNone, r) | None \<Rightarrow>
     (case strip_prefix ''true'' s of Some r \<Rightarrow> Some (PBool True, r) | None \<Rightarrow>
     (case strip_prefix ''false'' s of Some r \<Rightarrow> Some (PBool False, r) | None \<Rightarrow>
     (case strip_prefix ''NaN'' s of Some r \<Rightarrow> Some (PFloat (lit ''NaN''), r) | None \<Rightarrow>
     (case strip_prefix ''Infinity'' s of Some r \<Rightarrow> Some (PFloat (lit ''Infinity''), r) | None \<Rightarrow>
     (case strip_prefix ''-Infinity'' s of Some r \<Rightarrow> Some (PFloat (lit ''-Infinity''), r) | None \<Rightarrow>
      scan_number s))))))"

text \<open>
  \<open>scan_once\<close> with its object and array loops. The argument \<open>hook\<close> builds the dictionary from
  the pairs and may refuse them.
\<close>

type_synonym pairs_hook = "(ustr \<times> pyval) list \<Rightarrow> pyval option"

fun jvalue :: "pairs_hook \<Rightarrow> nat \<Rightarrow> ustr \<Rightarrow> (pyval \<times> ustr) option"
  and jmembers :: "pairs_hook \<Rightarrow> nat \<Rightarrow> ustr \<Rightarrow> ((ustr \<times> pyval) list \<times> ustr) option"
  and jelems :: "pairs_hook \<Rightarrow> nat \<Rightarrow> ustr \<Rightarrow> (pyval list \<times> ustr) option" where
  "jvalue hook 0 s = None"
| "jvalue hook (Suc n) s =
     (case s of
        [] \<Rightarrow> None
      | c # r \<Rightarrow>
          if c = 34 then map_option (\<lambda>(x, t). (PStr x, t)) (scan_string r)
          else if c = 123 then
            (case expect 125 (skip_ws r) of
               Some t \<Rightarrow> map_option (\<lambda>d. (d, t)) (hook [])
             | None \<Rightarrow> Option.bind (jmembers hook n (skip_ws r))
                     (\<lambda>(kvs, t). map_option (\<lambda>d. (d, t)) (hook kvs)))
          else if c = 91 then
            (case expect 93 (skip_ws r) of
               Some t \<Rightarrow> Some (PList [], t)
             | None \<Rightarrow> map_option (\<lambda>(xs, t). (PList xs, t)) (jelems hook n (skip_ws r)))
          else scan_atom s)"
| "jmembers hook 0 s = None"
| "jmembers hook (Suc n) s =
     Option.bind (expect 34 s) (\<lambda>r.
     Option.bind (scan_string r) (\<lambda>(k, t).
     Option.bind (expect 58 (skip_ws t)) (\<lambda>t2.
     Option.bind (jvalue hook n (skip_ws t2)) (\<lambda>(v, t3).
       case expect 125 (skip_ws t3) of
         Some t4 \<Rightarrow> Some ([(k, v)], t4)
       | None \<Rightarrow> Option.bind (expect 44 (skip_ws t3))
                  (\<lambda>t4. cons_fst (k, v) (jmembers hook n (skip_ws t4)))))))"
| "jelems hook 0 s = None"
| "jelems hook (Suc n) s =
     Option.bind (jvalue hook n s) (\<lambda>(v, t).
       case expect 93 (skip_ws t) of
         Some t2 \<Rightarrow> Some ([v], t2)
       | None \<Rightarrow> Option.bind (expect 44 (skip_ws t))
                  (\<lambda>t2. cons_fst v (jelems hook n (skip_ws t2))))"

text \<open>\<open>json.loads\<close>: leading and trailing white space, no byte order mark, no extra data.\<close>

definition json_loads :: "pairs_hook \<Rightarrow> ustr \<Rightarrow> pyval option" where
  "json_loads hook s =
     (case expect 65279 s of Some _ \<Rightarrow> None
      | None \<Rightarrow> (case jvalue hook (Suc (2 * length s)) (skip_ws s) of
           None \<Rightarrow> None
         | Some (v, r) \<Rightarrow> if skip_ws r = [] then Some v else None))"

text \<open>The hook of plain \<open>json.loads\<close>: a later duplicate replaces the earlier value.\<close>

fun dict_set :: "ustr \<Rightarrow> pyval \<Rightarrow> (ustr \<times> pyval) list \<Rightarrow> (ustr \<times> pyval) list" where
  "dict_set k v [] = [(k, v)]"
| "dict_set k v ((k', v') # r) = (if k' = k then (k, v) # r else (k', v') # dict_set k v r)"

definition dict_hook :: pairs_hook where
  "dict_hook kvs = Some (PDict (foldl (\<lambda>d (k, v). dict_set k v d) [] kvs))"

definition loads :: "ustr \<Rightarrow> pyval option" where
  "loads s = json_loads dict_hook s"

text \<open>\<open>bytes.decode("utf-8")\<close>, strict: overlong forms and surrogates are refused.\<close>

definition cont_byte :: "nat \<Rightarrow> bool" where
  "cont_byte c \<longleftrightarrow> 128 \<le> c \<and> c \<le> 191"

fun utf8_decode :: "nat list \<Rightarrow> ustr option" where
  "utf8_decode [] = Some []"
| "utf8_decode (a # s) =
     (if a < 128 then map_option ((#) a) (utf8_decode s)
      else if 194 \<le> a \<and> a \<le> 223 then
        (case s of b # t \<Rightarrow>
           if cont_byte b then map_option ((#) ((a - 192) * 64 + (b - 128))) (utf8_decode t)
           else None
         | _ \<Rightarrow> None)
      else if 224 \<le> a \<and> a \<le> 239 then
        (case s of b # c # t \<Rightarrow>
           let x = (a - 224) * 4096 + (b - 128) * 64 + (c - 128) in
           if cont_byte b \<and> cont_byte c \<and> 2048 \<le> x \<and> \<not> (55296 \<le> x \<and> x \<le> 57343)
           then map_option ((#) x) (utf8_decode t)
           else None
         | _ \<Rightarrow> None)
      else if 240 \<le> a \<and> a \<le> 244 then
        (case s of b # c # d # t \<Rightarrow>
           let x = (a - 240) * 262144 + (b - 128) * 4096 + (c - 128) * 64 + (d - 128) in
           if cont_byte b \<and> cont_byte c \<and> cont_byte d \<and> 65536 \<le> x \<and> x \<le> 1114111
           then map_option ((#) x) (utf8_decode t)
           else None
         | _ \<Rightarrow> None)
      else None)"

section \<open>The reader consumes its input, and enough fuel does not matter\<close>

lemma length_skip_ws [simp]: "length (skip_ws s) \<le> length s"
  by (simp add: skip_ws_def length_dropWhile_le)

lemma expect_Some_iff: "expect c s = Some t \<longleftrightarrow> s = c # t"
  by (auto simp: expect_def split: list.splits)

lemma scan_string_shrinks: "scan_string s = Some (x, t) \<Longrightarrow> length t < length s"
proof (induction s arbitrary: x rule: scan_string.induct)
  case (1 s)
  show ?case
  proof (cases s)
    case Nil
    with "1.prems" show ?thesis by simp
  next
    case (Cons c r)
    show ?thesis
    proof (cases "c = 34")
      case True
      with "1.prems" Cons show ?thesis by (simp add: scan_string_Cons)
    next
      case False
      with "1.prems" Cons obtain y r2 ys where y: "scan_char s = Some (y, r2)"
        and ys: "scan_string r2 = Some (ys, t)"
        by (auto simp: scan_string_Cons cons_fst_Some_iff split: option.splits)
      from "1.IH" [OF Cons False y refl ys] scan_char_shrinks [OF y] show ?thesis by simp
    qed
  qed
qed

lemma strip_prefix_shrinks: "p \<noteq> [] \<Longrightarrow> strip_prefix p s = Some r \<Longrightarrow> length r < length s"
  by (cases s) (auto simp: strip_prefix_def lit_def split: if_splits)

lemma scan_number_shrinks:
  assumes "scan_number s = Some (v, t)"
  shows "length t < length s"
proof -
  define sg where "sg = (case s of c # _ \<Rightarrow> if c = 45 then [c] else [] | [] \<Rightarrow> [])"
  define u where "u = drop (length sg) s"
  define ds where "ds = takeWhile is_digit u"
  define ip where "ip = (if hd ds = 48 then [48] else ds)"
  define r2 where "r2 = drop (length (scan_frac (drop (length ip) u))) (drop (length ip) u)"
  have eq: "scan_number s =
      (if ds = [] then None
       else Some (if scan_frac (drop (length ip) u) = [] \<and> scan_exp r2 = []
                  then PInt (if sg = [] then int (digits_val ip) else - int (digits_val ip))
                  else PFloat (sg @ ip @ scan_frac (drop (length ip) u) @ scan_exp r2),
                  drop (length (scan_exp r2)) r2))"
    unfolding scan_number_def Let_def sg_def [symmetric] u_def [symmetric] ds_def [symmetric]
      ip_def [symmetric] r2_def [symmetric] by simp
  with assms have ds: "ds \<noteq> []" and t: "t = drop (length (scan_exp r2)) r2"
    by (auto split: if_splits)
  then have "u \<noteq> []" and "ip \<noteq> []" by (auto simp: ds_def ip_def)
  then have "length (drop (length ip) u) < length u"
    by (cases u; cases ip) auto
  moreover have "length t \<le> length (drop (length ip) u)" and "length u \<le> length s"
    by (simp_all add: t r2_def u_def)
  ultimately show ?thesis by simp
qed

lemma scan_atom_shrinks: "scan_atom s = Some (v, t) \<Longrightarrow> length t < length s"
  using strip_prefix_shrinks [of "''null''" s] strip_prefix_shrinks [of "''true''" s]
    strip_prefix_shrinks [of "''false''" s] strip_prefix_shrinks [of "''NaN''" s]
    strip_prefix_shrinks [of "''Infinity''" s] strip_prefix_shrinks [of "''-Infinity''" s]
  by (auto simp: scan_atom_def scan_number_shrinks split: option.splits)

lemma bind_Some_iff: "Option.bind m f = Some y \<longleftrightarrow> (\<exists>x. m = Some x \<and> f x = Some y)"
  by (cases m) simp_all

lemma expect_skip_shrinks: "expect c (skip_ws s) = Some t \<Longrightarrow> length t < length s"
  using length_skip_ws [of s] by (simp add: expect_Some_iff)

lemma jvalue_Suc_E:
  assumes "jvalue hook (Suc n) s = Some (v, t)"
  obtains (string) r x where "s = 34 # r" "scan_string r = Some (x, t)"
    | (empty_object) r where "s = 123 # r" "expect 125 (skip_ws r) = Some t"
    | (object) r kvs where "s = 123 # r" "jmembers hook n (skip_ws r) = Some (kvs, t)"
    | (empty_array) r where "s = 91 # r" "expect 93 (skip_ws r) = Some t"
    | (array) r xs where "s = 91 # r" "jelems hook n (skip_ws r) = Some (xs, t)"
    | (atom) "scan_atom s = Some (v, t)"
  using assms by (auto simp: bind_Some_iff split: list.splits if_splits option.splits)

lemma jmembers_Suc_E:
  assumes "jmembers hook (Suc n) s = Some (kvs, t)"
  obtains r k t1 t2 v t3 where "expect 34 s = Some r" "scan_string r = Some (k, t1)"
    "expect 58 (skip_ws t1) = Some t2" "jvalue hook n (skip_ws t2) = Some (v, t3)"
    "expect 125 (skip_ws t3) = Some t
     \<or> (\<exists>t4 rest. expect 44 (skip_ws t3) = Some t4 \<and> jmembers hook n (skip_ws t4) = Some (rest, t))"
  using assms by (auto simp: bind_Some_iff cons_fst_Some_iff split: option.splits)

lemma jelems_Suc_E:
  assumes "jelems hook (Suc n) s = Some (xs, t)"
  obtains v t1 where "jvalue hook n s = Some (v, t1)"
    "expect 93 (skip_ws t1) = Some t
     \<or> (\<exists>t2 rest. expect 44 (skip_ws t1) = Some t2 \<and> jelems hook n (skip_ws t2) = Some (rest, t))"
  using assms by (auto simp: bind_Some_iff cons_fst_Some_iff split: option.splits)

lemma parse_shrinks:
  "(\<forall>s v t. jvalue hook n s = Some (v, t) \<longrightarrow> length t < length s) \<and>
   (\<forall>s kvs t. jmembers hook n s = Some (kvs, t) \<longrightarrow> length t < length s) \<and>
   (\<forall>s xs t. jelems hook n s = Some (xs, t) \<longrightarrow> length t < length s)"
proof (induction n)
  case 0
  show ?case by simp
next
  case (Suc n)
  note IHv = Suc.IH [THEN conjunct1, rule_format]
    and IHm = Suc.IH [THEN conjunct2, THEN conjunct1, rule_format]
    and IHe = Suc.IH [THEN conjunct2, THEN conjunct2, rule_format]
  have skip: "length x < length (skip_ws y) \<Longrightarrow> length x < length y" for x y
    using length_skip_ws [of y] by linarith
  have v: "length t < length s" if "jvalue hook (Suc n) s = Some (v, t)" for s v t
    using that
  proof (cases rule: jvalue_Suc_E)
    case (string r x)
    then show ?thesis using scan_string_shrinks by fastforce
  next
    case (empty_object r)
    then show ?thesis using expect_skip_shrinks by fastforce
  next
    case (object r kvs)
    then show ?thesis using IHm skip by fastforce
  next
    case (empty_array r)
    then show ?thesis using expect_skip_shrinks by fastforce
  next
    case (array r xs)
    then show ?thesis using IHe skip by fastforce
  next
    case atom
    then show ?thesis by (rule scan_atom_shrinks)
  qed
  have m: "length t < length s" if "jmembers hook (Suc n) s = Some (kvs, t)" for s kvs t
    using that
  proof (cases rule: jmembers_Suc_E)
    case (1 r k t1 t2 v t3)
    have "length t1 < length s"
      using 1(1) scan_string_shrinks [OF 1(2)] by (simp add: expect_Some_iff)
    moreover have "length t3 < length t1"
      using expect_skip_shrinks [OF 1(3)] skip [OF IHv [OF 1(4)]] by simp
    moreover have "length t < length t3"
      using 1(5) expect_skip_shrinks skip IHm by (metis order_less_trans)
    ultimately show ?thesis by simp
  qed
  have e: "length t < length s" if "jelems hook (Suc n) s = Some (xs, t)" for s xs t
    using that
  proof (cases rule: jelems_Suc_E)
    case (1 v t1)
    have "length t < length t1"
      using 1(2) expect_skip_shrinks skip IHe by (metis order_less_trans)
    with IHv [OF 1(1)] show ?thesis by simp
  qed
  from v m e show ?case by blast
qed

lemmas jvalue_shrinks = parse_shrinks [THEN conjunct1, rule_format]

text \<open>Any two fuels above twice the length of the text give the same answer, a refusal included.\<close>

lemma parse_fuel:
  "(\<forall>s. 2 * length s < n \<and> 2 * length s < m \<longrightarrow> jvalue hook n s = jvalue hook m s) \<and>
   (\<forall>s. Suc (2 * length s) < n \<and> Suc (2 * length s) < m
      \<longrightarrow> jmembers hook n s = jmembers hook m s) \<and>
   (\<forall>s. Suc (2 * length s) < n \<and> Suc (2 * length s) < m
      \<longrightarrow> jelems hook n s = jelems hook m s)"
proof (induction n arbitrary: m)
  case 0
  show ?case by simp
next
  case (Suc n)
  show ?case
  proof (cases m)
    case 0
    then show ?thesis by simp
  next
    case (Suc m')
    note IH = Suc.IH [of m']
    have skipb: "length (skip_ws x) \<le> length x" for x by simp
    have v: "jvalue hook (Suc n) s = jvalue hook (Suc m') s" 
      if "2 * length s < Suc n" "2 * length s < Suc m'" for s
    proof (cases s)
      case (Cons c r)
      with that skipb [of r]
      have "Suc (2 * length (skip_ws r)) < n" "Suc (2 * length (skip_ws r)) < m'"
        by (simp_all del: length_skip_ws)
      with IH have "jmembers hook n (skip_ws r) = jmembers hook m' (skip_ws r)"
        and "jelems hook n (skip_ws r) = jelems hook m' (skip_ws r)" by auto
      with Cons show ?thesis by (simp split: option.split)
    qed simp
    have m: "jmembers hook (Suc n) s = jmembers hook (Suc m') s"
      if len: "Suc (2 * length s) < Suc n" "Suc (2 * length s) < Suc m'" for s
    proof -
      have step: "Option.bind (jvalue hook n (skip_ws t2)) (\<lambda>(v, t3).
              case expect 125 (skip_ws t3) of
                Some t4 \<Rightarrow> Some ([(k, v)], t4)
              | None \<Rightarrow> Option.bind (expect 44 (skip_ws t3))
                  (\<lambda>t4. cons_fst (k, v) (jmembers hook n (skip_ws t4))))
          = Option.bind (jvalue hook m' (skip_ws t2)) (\<lambda>(v, t3).
              case expect 125 (skip_ws t3) of
                Some t4 \<Rightarrow> Some ([(k, v)], t4)
              | None \<Rightarrow> Option.bind (expect 44 (skip_ws t3))
                  (\<lambda>t4. cons_fst (k, v) (jmembers hook m' (skip_ws t4))))"
        if r: "expect 34 s = Some r" "scan_string r = Some (k, t)"
          and t2: "expect 58 (skip_ws t) = Some t2" for r k t t2
      proof -
        have "length t2 < length s"
          using scan_string_shrinks [OF r(2)] expect_skip_shrinks [OF t2] r(1)
          by (simp add: expect_Some_iff)
        then have l2: "Suc (2 * length (skip_ws t2)) < n" "Suc (2 * length (skip_ws t2)) < m'"
          using len length_skip_ws [of t2] by linarith+
        with IH have eq: "jvalue hook n (skip_ws t2) = jvalue hook m' (skip_ws t2)"
          by (simp del: length_skip_ws)
        have "jmembers hook n (skip_ws t4) = jmembers hook m' (skip_ws t4)"
          if "jvalue hook m' (skip_ws t2) = Some (v, t3)" and t4: "expect 44 (skip_ws t3) = Some t4"
          for v t3 t4
        proof -
          have "length (skip_ws t4) < length (skip_ws t2)"
            using jvalue_shrinks [OF that(1)] expect_skip_shrinks [OF t4] length_skip_ws [of t4]
            by linarith
          with l2 IH show ?thesis by auto
        qed
        then show ?thesis
          unfolding eq
          by (intro Option.bind_cong refl) (auto split: option.split intro!: Option.bind_cong)
      qed
      show ?thesis
      proof (cases "expect 34 s")
        case r: (Some r)
        show ?thesis
        proof (cases "scan_string r")
          case kt: (Some kt)
          obtain k t where [simp]: "kt = (k, t)" by (cases kt)
          show ?thesis
          proof (cases "expect 58 (skip_ws t)")
            case (Some t2)
            with r kt step show ?thesis by simp
          qed (simp add: r kt)
        qed (simp add: r)
      qed simp
    qed
    have e: "jelems hook (Suc n) s = jelems hook (Suc m') s"
      if len: "Suc (2 * length s) < Suc n" "Suc (2 * length s) < Suc m'" for s
    proof -
      have eq: "jvalue hook n s = jvalue hook m' s" using IH len by auto
      have "jelems hook n (skip_ws t2) = jelems hook m' (skip_ws t2)"
        if "jvalue hook m' s = Some (v, t)" and t2: "expect 44 (skip_ws t) = Some t2" for v t t2
      proof -
        have "length (skip_ws t2) < length s"
          using jvalue_shrinks [OF that(1)] expect_skip_shrinks [OF t2] length_skip_ws [of t2]
          by linarith
        with len IH show ?thesis by auto
      qed
      then show ?thesis
        unfolding jelems.simps eq
        by (intro Option.bind_cong refl) (auto split: option.split intro!: Option.bind_cong)
    qed
    from v m e Suc show ?thesis by blast
  qed
qed

section \<open>Reading what was written\<close>

text \<open>
  The values the program serialises: no float, text made of Unicode scalar values, and
  dictionaries with distinct keys.
\<close>

definition scalar :: "nat \<Rightarrow> bool" where
  "scalar c \<longleftrightarrow> c < 55296 \<or> (57344 \<le> c \<and> c < 1114112)"

fun json_ok :: "pyval \<Rightarrow> bool" where
  "json_ok PNone = True"
| "json_ok (PBool b) = True"
| "json_ok (PInt i) = True"
| "json_ok (PStr s) = (\<forall>c \<in> set s. scalar c)"
| "json_ok (PList xs) = (\<forall>x \<in> set xs. json_ok x)"
| "json_ok (PDict kvs) =
     (distinct (map fst kvs) \<and> (\<forall>(k, v) \<in> set kvs. (\<forall>c \<in> set k. scalar c) \<and> json_ok v))"
| "json_ok _ = False"

lemma hex_val_digit: "n < 16 \<Longrightarrow> hex_val (hex_digit n) = Some n"
  by (auto simp: hex_val_def hex_digit_def)

lemma base16_join:
  fixes n :: nat
  shows "n = a * 16 + z \<Longrightarrow> a = b * 16 + y \<Longrightarrow> b = c * 16 + x
    \<Longrightarrow> c * 4096 + x * 256 + y * 16 + z = n"
  by simp

lemma base16_split:
  fixes n :: nat
  assumes "n < 65536"
  shows "(n div 4096 mod 16) * 4096 + (n div 256 mod 16) * 256 + (n div 16 mod 16) * 16 + n mod 16 = n"
proof -
  have 1: "n = n div 16 * 16 + n mod 16"
    by (rule div_mult_mod_eq [symmetric])
  have 2: "n div 16 = n div 256 * 16 + n div 16 mod 16"
    using div_mult_mod_eq [of "n div 16" 16] by (simp add: div_mult2_eq [symmetric])
  have 3: "n div 256 = n div 4096 * 16 + n div 256 mod 16"
    using div_mult_mod_eq [of "n div 256" 16] by (simp add: div_mult2_eq [symmetric])
  have "n div 4096 < 16" using assms by (simp add: less_mult_imp_div_less)
  with base16_join [OF 1 2 3] show ?thesis by (simp only: mod_less)
qed

lemma scan_unicode_uescape:
  "n < 65536 \<Longrightarrow> scan_unicode (drop 2 (uescape n) @ t) = Some (n, t)"
  using base16_split [of n]
  by (simp add: scan_unicode_def uescape_def hex4_def hex_val_digit)

lemma uescape_append: "uescape n @ t = 92 # 117 # (drop 2 (uescape n) @ t)"
  by (simp add: uescape_def)

lemma scan_char_u:
  "scan_unicode t = Some (h, t1) \<Longrightarrow> scan_char (92 # 117 # t) =
     (if high_surrogate h \<and> starts_uescape t1 then
        (case scan_unicode (drop 2 t1) of
           None \<Rightarrow> None
         | Some (l, t2) \<Rightarrow>
             if low_surrogate l then Some (65536 + (h - 55296) * 1024 + (l - 56320), t2)
             else Some (h, t1))
      else Some (h, t1))"
  by (simp add: scan_char_def)

lemma scan_char_uescape:
  assumes "n < 65536" and "\<not> high_surrogate n"
  shows "scan_char (uescape n @ t) = Some (n, t)"
  unfolding uescape_append
  using scan_char_u [OF scan_unicode_uescape [OF assms(1)]] assms(2) by simp

lemma scan_char_surrogates:
  assumes "high_surrogate h" and "low_surrogate l"
  shows "scan_char (uescape h @ uescape l @ t) = Some (65536 + (h - 55296) * 1024 + (l - 56320), t)"
proof -
  from assms have h: "h < 65536" and l: "l < 65536"
    by (auto simp: high_surrogate_def low_surrogate_def)
  have st: "starts_uescape (uescape l @ t)"
    by (simp add: starts_uescape_def uescape_def)
  have dr: "drop 2 (uescape l @ t) = drop 2 (uescape l) @ t"
    by (simp add: uescape_def)
  show ?thesis
    unfolding uescape_append [of h]
    using scan_char_u [OF scan_unicode_uescape [OF h, of "uescape l @ t"]]
    by (simp only: dr scan_unicode_uescape [OF l] assms st simp_thms if_True option.case prod.case)
qed

lemma json_escape_not_quote: "hd (json_escape c) \<noteq> 34 \<and> json_escape c \<noteq> []"
  by (auto simp: json_escape_def uescape_def)

lemma scan_char_escape:
  assumes "scalar c"
  shows "scan_char (json_escape c @ t) = Some (c, t)"
proof (cases "c < 65536")
  case True
  with assms have "\<not> high_surrogate c" by (auto simp: scalar_def high_surrogate_def)
  with True scan_char_uescape [of c t] show ?thesis
    by (auto simp: json_escape_def scan_char_def simple_escape_def)
next
  case False
  let ?d = "c - 65536"
  from assms False have d: "?d < 1048576" and c: "c = 65536 + ?d" by (auto simp: scalar_def)
  from d have "high_surrogate (55296 + ?d div 1024)" and "low_surrogate (56320 + ?d mod 1024)"
    by (auto simp: high_surrogate_def low_surrogate_def)
  from scan_char_surrogates [OF this, of t] False c show ?thesis
    by (simp add: json_escape_def)
qed

lemma scan_string_escaped:
  "(\<forall>c \<in> set s. scalar c) \<Longrightarrow> scan_string (concat (map json_escape s) @ 34 # t) = Some (s, t)"
proof (induction s)
  case Nil
  show ?case by (simp add: scan_string_Cons)
next
  case (Cons c s)
  obtain x xs where x: "json_escape c = x # xs" and "x \<noteq> 34"
    using json_escape_not_quote [of c] by (cases "json_escape c") auto
  moreover have "scan_char (x # xs @ concat (map json_escape s) @ 34 # t)
      = Some (c, concat (map json_escape s) @ 34 # t)"
    using scan_char_escape [of c] Cons.prems x by (metis append_Cons list.set_intros(1))
  ultimately show ?case
    using Cons by (simp add: scan_string_Cons)
qed

lemma dec_nat_digits: "\<forall>d \<in> set (dec_nat n). is_digit d"
proof (induction n rule: dec_nat.induct)
  case (1 n)
  then show ?case by (subst dec_nat.simps) (auto simp: is_digit_def)
qed

lemma dec_nat_nonempty [simp]: "dec_nat n \<noteq> []"
  by (subst dec_nat.simps) simp

lemma digits_val_append: "digits_val (ds @ [d]) = digits_val ds * 10 + (d - 48)"
  by (simp add: digits_val_def)

lemma digits_val_dec_nat: "digits_val (dec_nat n) = n"
proof (induction n rule: dec_nat.induct)
  case (1 n)
  then show ?case
    by (subst dec_nat.simps) (auto simp: digits_val_append, simp add: digits_val_def)
qed

lemma dec_nat_hd: "hd (dec_nat n) = 48 \<Longrightarrow> dec_nat n = [48]"
proof (induction n rule: dec_nat.induct)
  case (1 n)
  show ?case
  proof (cases "n < 10")
    case True
    with "1.prems" have "n = 0" by (simp add: dec_nat.simps [of n])
    then show ?thesis by (simp add: dec_nat.simps [of 0])
  next
    case False
    with "1.prems" have "hd (dec_nat (n div 10)) = 48" by (simp add: dec_nat.simps [of n])
    with "1.IH" False have "dec_nat (n div 10) = [48]" by simp
    then have "n div 10 = 0" using digits_val_dec_nat [of "n div 10"] by (simp add: digits_val_def)
    then have "n < 10" by presburger
    with False show ?thesis by simp
  qed
qed

text \<open>The characters that may follow a value inside a document.\<close>

definition delimited :: "ustr \<Rightarrow> bool" where
  "delimited r \<longleftrightarrow> r = [] \<or> hd r \<in> {44, 93, 125}"

lemma takeWhile_digits:
  "(\<forall>d \<in> set ds. is_digit d) \<Longrightarrow> delimited r \<Longrightarrow> takeWhile is_digit (ds @ r) = ds"
  by (cases r) (auto simp: delimited_def is_digit_def takeWhile_append)

lemma no_fraction: "delimited r \<Longrightarrow> scan_frac r = [] \<and> scan_exp r = []"
  by (cases r) (auto simp: delimited_def scan_frac_def scan_exp_def expect_def)

lemma scan_number_digits:
  assumes "delimited r" and "sg = [] \<or> sg = [45]"
  shows "scan_number (sg @ dec_nat n @ r) = Some (PInt (if sg = [] then int n else - int n), r)"
proof -
  let ?s = "sg @ dec_nat n @ r"
  obtain d ds where d: "dec_nat n = d # ds" by (cases "dec_nat n") auto
  have "is_digit d" using dec_nat_digits [of n] d by simp
  then have sg: "(case ?s of c # _ \<Rightarrow> if c = 45 then [c] else [] | [] \<Rightarrow> []) = sg"
    using assms(2) by (auto simp: d is_digit_def)
  have tw: "takeWhile is_digit (dec_nat n @ r) = dec_nat n"
    by (rule takeWhile_digits [OF dec_nat_digits assms(1)])
  have ip: "(if hd (dec_nat n) = 48 then [48] else dec_nat n) = dec_nat n"
    using dec_nat_hd [of n] by auto
  have dr: "drop (length sg) ?s = dec_nat n @ r" by simp
  show ?thesis
    unfolding scan_number_def Let_def sg dr tw ip
    by (simp add: no_fraction [OF assms(1)] digits_val_dec_nat)
qed

lemma dec_int_hd: "\<exists>c t. dec_int i = c # t \<and> (is_digit c \<or> c = 45 \<and> t \<noteq> [] \<and> is_digit (hd t))"
proof -
  have "\<exists>c t. dec_nat n = c # t \<and> is_digit c" for n
    using dec_nat_digits [of n] by (cases "dec_nat n") auto
  then show ?thesis unfolding dec_int_def by (metis list.sel(1) list.simps(3))
qed

lemma strip_prefix_hd: "strip_prefix (a # p) (c # t) = (if of_char a = c then strip_prefix p t else None)"
  by (auto simp: strip_prefix_def lit_def)

lemma scan_atom_int: "delimited r \<Longrightarrow> scan_atom (dec_int i @ r) = Some (PInt i, r)"
proof -
  assume r: "delimited r"
  obtain c t where ct: "dec_int i = c # t"
    and c: "is_digit c \<or> c = 45 \<and> t \<noteq> [] \<and> is_digit (hd t)" using dec_int_hd by blast
  have "scan_number (dec_int i @ r) = Some (PInt i, r)"
    using scan_number_digits [OF r, of "[45]" "nat (- i)"] scan_number_digits [OF r, of "[]" "nat i"]
    by (auto simp: dec_int_def)
  moreover from c have "scan_atom (c # t @ r) = scan_number (c # t @ r)"
    by (cases t) (auto simp: scan_atom_def strip_prefix_hd is_digit_def)
  ultimately show ?thesis by (simp add: ct)
qed

lemma scan_atom_words:
  "scan_atom (lit ''null'' @ r) = Some (PNone, r)"
  "scan_atom (lit ''true'' @ r) = Some (PBool True, r)"
  "scan_atom (lit ''false'' @ r) = Some (PBool False, r)"
  by (simp_all add: scan_atom_def strip_prefix_def lit_def)

lemma json_text_hd:
  assumes "json_ok v"
  shows "\<exists>c t. json_text v = c # t \<and> c \<notin> {32, 9, 10, 13, 93, 125, 65279}"
proof (cases v)
  case (PInt i)
  then show ?thesis using dec_int_hd [of i] by (auto simp: is_digit_def)
qed (use assms in \<open>auto simp: lit_def json_str_def\<close>)

lemma skip_ws_text:
  assumes "json_ok v"
  shows "skip_ws (json_text v @ r) = json_text v @ r" "json_text v \<noteq> []"
    "expect 93 (json_text v @ r) = None"
  using json_text_hd [OF assms] by (auto simp: skip_ws_def expect_def)

lemma skip_ws_simps [simp]: "skip_ws [] = []" "c \<notin> {32, 9, 10, 13} \<Longrightarrow> skip_ws (c # s) = c # s"
  by (auto simp: skip_ws_def)

lemma expect_simps [simp]: "expect c [] = None" "expect c (x # s) = (if x = c then Some s else None)"
  by (simp_all add: expect_def)

text \<open>
  What a hook owes the reader: an object whose keys are distinct becomes the dictionary of its
  pairs. Both hooks of the program satisfy it, so the round trip is proved once.
\<close>

locale pairs_builder =
  fixes hook :: pairs_hook
  assumes hook_distinct: "distinct (map fst kvs) \<Longrightarrow> hook kvs = Some (PDict kvs)"
begin

lemma jelems_text:
  assumes "xs \<noteq> []"
    and "\<And>x n r. x \<in> set xs \<Longrightarrow> 2 * length (json_text x) < n \<Longrightarrow> delimited r
        \<Longrightarrow> jvalue hook n (json_text x @ r) = Some (x, r)"
    and "\<And>x. x \<in> set xs \<Longrightarrow> json_ok x"
    and "Suc (2 * length (join_comma (map json_text xs))) < n"
  shows "jelems hook n (join_comma (map json_text xs) @ 93 # r) = Some (xs, r)"
  using assms
proof (induction xs arbitrary: n)
  case Nil
  then show ?case by simp
next
  case (Cons x xs)
  obtain m where n: "n = Suc m" using Cons.prems(4) by (cases n) auto
  show ?case
  proof (cases xs)
    case Nil
    have "jvalue hook m (json_text x @ 93 # r) = Some (x, 93 # r)"
      using Cons.prems(4) n Nil by (intro Cons.prems(2)) (auto simp: delimited_def)
    with Nil n show ?thesis by simp
  next
    case (Cons y ys)
    let ?rest = "join_comma (map json_text xs) @ 93 # r"
    have "jvalue hook m (json_text x @ 44 # ?rest) = Some (x, 44 # ?rest)"
      using Cons.prems(4) n Cons by (intro Cons.prems(2)) (auto simp: delimited_def)
    moreover have "jelems hook m ?rest = Some (xs, r)"
      using Cons.prems(2-4) n Cons by (intro Cons.IH) auto
    moreover have "skip_ws ?rest = ?rest"
    proof -
      have "json_ok y" using Cons.prems(3) Cons by simp
      with Cons show ?thesis by (cases ys) (simp_all add: skip_ws_text)
    qed
    ultimately show ?thesis using n Cons by simp
  qed
qed

lemma jmembers_text:
  assumes "kvs \<noteq> []"
    and "\<And>k v n r. (k, v) \<in> set kvs \<Longrightarrow> 2 * length (json_text v) < n \<Longrightarrow> delimited r
        \<Longrightarrow> jvalue hook n (json_text v @ r) = Some (v, r)"
    and "\<And>k v. (k, v) \<in> set kvs \<Longrightarrow> json_ok v \<and> (\<forall>c \<in> set k. scalar c)"
    and "Suc (2 * length (join_comma (map (\<lambda>(k, v). json_str k @ 58 # json_text v) kvs))) < n"
  shows "jmembers hook n (join_comma (map (\<lambda>(k, v). json_str k @ 58 # json_text v) kvs) @ 125 # r)
       = Some (kvs, r)"
  using assms
proof (induction kvs arbitrary: n)
  case Nil
  then show ?case by simp
next
  case (Cons kv kvs)
  obtain k v where kv: "kv = (k, v)" by (cases kv)
  obtain m where n: "n = Suc m" using Cons.prems(4) by (cases n) auto
  have okv: "json_ok v" and okk: "\<forall>c \<in> set k. scalar c"
    using Cons.prems(3) [of k v] kv by auto
  have str: "scan_string (concat (map json_escape k) @ 34 # 58 # t) = Some (k, 58 # t)" for t
    by (rule scan_string_escaped [OF okk])
  show ?case
  proof (cases kvs)
    case Nil
    have "jvalue hook m (json_text v @ 125 # r) = Some (v, 125 # r)"
      using Cons.prems(4) n Nil kv by (intro Cons.prems(2)) (auto simp: delimited_def)
    with Nil n kv str show ?thesis by (simp add: json_str_def skip_ws_text okv)
  next
    case (Cons kv' ys)
    let ?rest = "join_comma (map (\<lambda>(k, v). json_str k @ 58 # json_text v) kvs) @ 125 # r"
    have "jvalue hook m (json_text v @ 44 # ?rest) = Some (v, 44 # ?rest)"
      using Cons.prems(4) n kv Cons by (intro Cons.prems(2)) (auto simp: delimited_def)
    moreover have "jmembers hook m ?rest = Some (kvs, r)"
    proof (rule Cons.IH)
      show "kvs \<noteq> []" using Cons by simp
      show "jvalue hook n (json_text v' @ r) = Some (v', r)"
        if "(k', v') \<in> set kvs" "2 * length (json_text v') < n" "delimited r" for k' v' n r
        using that Cons.prems(2) [of k' v'] by simp
      show "json_ok v' \<and> (\<forall>c \<in> set k'. scalar c)" if "(k', v') \<in> set kvs" for k' v'
        using that Cons.prems(3) [of k' v'] by simp
      show "Suc (2 * length (join_comma (map (\<lambda>(k, v). json_str k @ 58 # json_text v) kvs))) < m"
        using Cons.prems(4) n kv Cons by (simp add: json_str_def)
    qed
    moreover have "skip_ws ?rest = ?rest"
      using Cons by (cases kv'; cases ys) (simp_all add: json_str_def)
    ultimately show ?thesis using n Cons kv str by (simp add: json_str_def skip_ws_text okv)
  qed
qed

lemma jvalue_text:
  "json_ok v \<Longrightarrow> 2 * length (json_text v) < n \<Longrightarrow> delimited r
    \<Longrightarrow> jvalue hook n (json_text v @ r) = Some (v, r)"
proof (induction v arbitrary: n r rule: json_text.induct)
  case (6 xs)
  obtain m where n: "n = Suc m" using "6.prems" by (cases n) auto
  show ?case
  proof (cases xs)
    case Nil
    with n show ?thesis by simp
  next
    case (Cons y ys)
    have "jelems hook m (join_comma (map json_text xs) @ 93 # r) = Some (xs, r)"
      using "6.prems" "6.IH" n Cons by (intro jelems_text) auto
    moreover have "skip_ws (join_comma (map json_text xs) @ 93 # r)
        = join_comma (map json_text xs) @ 93 # r"
      and "expect 93 (join_comma (map json_text xs) @ 93 # r) = None"
      using "6.prems"(1) Cons by (cases ys; simp add: skip_ws_text)+
    ultimately show ?thesis using n by simp
  qed
next
  case (7 kvs)
  obtain m where n: "n = Suc m" using "7.prems" by (cases n) auto
  show ?case
  proof (cases kvs)
    case Nil
    with n show ?thesis by (simp add: hook_distinct)
  next
    case (Cons y ys)
    let ?t = "join_comma (map (\<lambda>(k, v). json_str k @ 58 # json_text v) kvs) @ 125 # r"
    have "jmembers hook m ?t = Some (kvs, r)"
    proof (rule jmembers_text)
      show "kvs \<noteq> []" using Cons by simp
      show "json_ok v \<and> (\<forall>c \<in> set k. scalar c)" if "(k, v) \<in> set kvs" for k v
        using "7.prems"(1) that by auto
      then show "jvalue hook n (json_text v @ r) = Some (v, r)"
        if "(k, v) \<in> set kvs" "2 * length (json_text v) < n" "delimited r" for k v n r
        using that "7.IH" [OF that(1) refl] by blast
      show "Suc (2 * length (join_comma (map (\<lambda>(k, v). json_str k @ 58 # json_text v) kvs))) < m"
        using "7.prems"(2) n by simp
    qed
    moreover have "skip_ws ?t = ?t" and "expect 125 ?t = None"
      using Cons by (cases y; cases ys; simp add: json_str_def)+
    ultimately show ?thesis using n "7.prems"(1) by (simp add: hook_distinct)
  qed
next
  case (3 i)
  obtain m where n: "n = Suc m" using "3.prems" by (cases n) auto
  obtain c t where "dec_int i = c # t" and "is_digit c \<or> c = 45"
    using dec_int_hd [of i] by auto
  moreover have "scan_atom (dec_int i @ r) = Some (PInt i, r)"
    by (rule scan_atom_int [OF "3.prems"(3)])
  ultimately show ?case using n by (auto simp: is_digit_def)
next
  case (5 s)
  then show ?case by (cases n) (simp_all add: json_str_def scan_string_escaped)
next
  case 1
  then show ?case using scan_atom_words [of r] by (cases n) (simp_all add: lit_def)
next
  case (2 b)
  then show ?case using scan_atom_words [of r] by (cases n) (simp_all add: lit_def)
qed simp_all

lemma json_loads_text: "json_ok v \<Longrightarrow> json_loads hook (json_text v) = Some v"
proof -
  assume ok: "json_ok v"
  have "jvalue hook (Suc (2 * length (json_text v))) (json_text v @ []) = Some (v, [])"
    by (rule jvalue_text [OF ok]) (simp_all add: delimited_def)
  moreover have "expect 65279 (json_text v) = None"
    using json_text_hd [OF ok] by auto
  ultimately show ?thesis
    using skip_ws_text(1) [OF ok, of "[]"] by (simp add: json_loads_def del: jvalue.simps)
qed

end

lemma foldl_dict_set:
  "distinct (map fst (acc @ kvs)) \<Longrightarrow> foldl (\<lambda>d (k, v). dict_set k v d) acc kvs = acc @ kvs"
proof (induction kvs arbitrary: acc)
  case Nil
  then show ?case by simp
next
  case (Cons kv kvs)
  obtain k v where kv: "kv = (k, v)" by (cases kv)
  have "dict_set k v acc = acc @ [(k, v)]" if "k \<notin> fst ` set acc"
    using that by (induction acc) auto
  with Cons kv show ?case by (auto simp: image_iff)
qed

interpretation dict: pairs_builder dict_hook
  by unfold_locales (simp add: dict_hook_def foldl_dict_set)

lemma isascii_uescape: "isascii (uescape n)"
proof -
  have "hex_digit d < 128" if "d < 16" for d using that by (simp add: hex_digit_def)
  then show ?thesis by (simp add: uescape_def)
qed

lemma isascii_json_str: "isascii (json_str s)"
proof -
  have "isascii (json_escape c)" for c
    by (auto simp: json_escape_def isascii_uescape)
  then have "isascii (concat (map json_escape s))" by (induction s) auto
  then show ?thesis by (simp add: json_str_def)
qed

lemma isascii_join: "(\<And>x. x \<in> set xs \<Longrightarrow> isascii x) \<Longrightarrow> isascii (join_comma xs)"
  by (induction xs rule: join_comma.induct) auto

lemma isascii_dec_nat: "isascii (dec_nat n)"
  using dec_nat_digits [of n] by (auto simp: isascii_def is_digit_def)

lemma isascii_json_text: "json_ok v \<Longrightarrow> isascii (json_text v)"
proof (induction v rule: json_text.induct)
  case (3 i)
  then show ?case by (simp add: dec_int_def isascii_dec_nat)
next
  case (6 xs)
  then show ?case by (auto intro!: isascii_join)
next
  case (7 kvs)
  have "isascii (json_text v)" if "(k, v) \<in> set kvs" for k v
    using "7.prems" "7.IH" [OF that refl] that by auto
  then show ?case by (auto intro!: isascii_join simp: isascii_json_str)
qed (auto simp: lit_def isascii_json_str)

lemma map_fst_sort_keys: "map fst (map (\<lambda>(k, v). (k, f v)) kvs) = map fst kvs"
  by (induction kvs) auto

lemma distinct_map_sort_key: "distinct (map f (sort_key g xs)) \<longleftrightarrow> distinct (map f xs)"
  by (metis mset_map mset_sort mset_eq_imp_distinct_iff)

lemma json_ok_sort_keys: "json_ok v \<Longrightarrow> json_ok (sort_keys v)"
proof (induction v rule: sort_keys.induct)
  case (2 kvs)
  have "json_ok (sort_keys v)" if "(k, v) \<in> set kvs" for k v
    using "2.prems" "2.IH" [OF that refl] that by auto
  with "2.prems" show ?case
    by (auto simp only: sort_keys.simps json_ok.simps distinct_map_sort_key map_fst_sort_keys)
       auto
qed auto

lemma loads_dumps: "json_ok v \<Longrightarrow> loads (dumps_sorted v) = Some (sort_keys v)"
  by (simp add: loads_def dumps_sorted_def dict.json_loads_text json_ok_sort_keys)



lemma json_text_inject: "json_ok v \<Longrightarrow> json_ok w \<Longrightarrow> json_text v = json_text w \<longleftrightarrow> v = w"
  by (metis dict.json_loads_text option.inject)

lemma dumps_sorted_inject:
  "json_ok v \<Longrightarrow> json_ok w \<Longrightarrow> dumps_sorted v = dumps_sorted w \<longleftrightarrow> sort_keys v = sort_keys w"
  by (simp add: dumps_sorted_def json_text_inject json_ok_sort_keys)

lemma utf8_decode_ascii: "isascii s \<Longrightarrow> utf8_decode s = Some s"
  by (induction s) simp_all

lemma utf8_decode_encoded:
  "json_ok v \<Longrightarrow> utf8_decode (map unat (ascii_encode (json_text v))) = Some (json_text v)"
  using isascii_json_text [of v] ascii_decode_encode [of "json_text v"] utf8_decode_ascii
  by (simp add: ascii_decode_def)

end
