(* ===== verification/Jws.thy ===== *)
theory Jws
  imports Core Base64url Json
begin

text \<open>
  \<open>python/batchcrypto/jws.py\<close>: construction of ES256 compact tokens. The signing callback is
  an argument; it receives the SHA-256 digests of the signing inputs and returns an iterable.
  What a token issuer needs of the callback is the contract \<open>digest_signer\<close>; the theories of
  the two signers of the program, \<open>Cpu.sign\<close> here and \<open>VerifiedSigner.sign\<close> in \<open>Verified\<close>,
  show that they keep it.
\<close>

type_synonym signer = "bytes list \<Rightarrow> pyval iterable result"

definition key_label_ok :: "ustr \<Rightarrow> bool" where
  "key_label_ok s \<longleftrightarrow> 1 \<le> length s \<and> length s \<le> 128 \<and> isascii s \<and> isprintable_ascii s"

definition jws_header :: "ustr \<Rightarrow> pyval" where
  "jws_header kid = PDict [(lit ''alg'', PStr (lit ''ES256'')), (lit ''kid'', PStr kid)]"

text \<open>The validation loop over the callback's signatures.\<close>

fun check_signatures :: "pyval list \<Rightarrow> bytes list result" where
  "check_signatures [] = Inr []"
| "check_signatures (v # vs) =
     (case as_bytes v of
        None \<Rightarrow> Inl (ValueError ''ES256 requires a 64-byte raw signature'')
      | Some g \<Rightarrow>
          if length g \<noteq> 64 then Inl (ValueError ''ES256 requires a 64-byte raw signature'')
          else if \<not> (0 < sig_r g \<and> sig_r g < ORDER) \<or> \<not> (0 < sig_s g \<and> sig_s g \<le> ORDER div 2)
          then Inl (ValueError ''signer must return valid low-s P-256 scalars'')
          else bind_res (check_signatures vs) (\<lambda>gs. Inr (g # gs)))"

definition sign_es256 :: "pyval iterable \<Rightarrow> pyval \<Rightarrow> signer \<Rightarrow> ustr list result" where
  "sign_es256 payloads key_id sign_digests =
     (case as_str key_id of
        None \<Rightarrow> Inl (ValueError ''key_id must be 1..128 printable ASCII characters'')
      | Some kid \<Rightarrow>
          if \<not> key_label_ok kid
          then Inl (ValueError ''key_id must be 1..128 printable ASCII characters'')
          else bind_res (py_messages payloads) (\<lambda>ps.
            let header = jws_b64 (ascii_encode (json_text (jws_header kid)));
                inputs = map (\<lambda>p. header @ [46] @ jws_b64 p) ps
            in bind_res (sign_digests (map sha256 inputs)) (\<lambda>out.
               bind_res (py_batch out) (\<lambda>signatures.
               if length signatures \<noteq> length inputs then Inl (ValueError ''signature count mismatch'')
               else bind_res (check_signatures signatures) (\<lambda>gs.
                 Inr (map (\<lambda>(value, sig). ascii_decode (value @ [46] @ jws_b64 sig))
                        (zip inputs gs)))))))"

section \<open>Tokens\<close>

definition signing_input :: "ustr \<Rightarrow> bytes \<Rightarrow> ustr" where
  "signing_input kid p = b64 (ascii_encode (json_text (jws_header kid))) @ [46] @ b64 p"

definition compact_token :: "ustr \<Rightarrow> bytes \<Rightarrow> bytes \<Rightarrow> ustr" where
  "compact_token kid p g = signing_input kid p @ [46] @ b64 g"

text \<open>\<open>str.split(".")\<close>.\<close>

fun split_dot :: "ustr \<Rightarrow> ustr list" where
  "split_dot [] = [[]]"
| "split_dot (c # s) =
     (if c = 46 then [] # split_dot s
      else (case split_dot s of [] \<Rightarrow> [[c]] | part # parts \<Rightarrow> (c # part) # parts))"

lemma split_dot_nonempty [simp]: "split_dot s \<noteq> []"
  by (cases s) (auto split: list.splits)

lemma split_dot_plain: "46 \<notin> set s \<Longrightarrow> split_dot s = [s]"
  by (induction s) auto

lemma split_dot_append: "46 \<notin> set s \<Longrightarrow> split_dot (s @ 46 # t) = s # split_dot t"
  by (induction s) auto

lemma isascii_signing_input [simp]: "isascii (signing_input kid p)"
  by (simp add: signing_input_def)

lemma isascii_compact_token [simp]: "isascii (compact_token kid p g)"
  by (simp add: compact_token_def)

lemma split_compact_token:
  "split_dot (compact_token kid p g)
     = [b64 (ascii_encode (json_text (jws_header kid))), b64 p, b64 g]"
  by (simp add: compact_token_def signing_input_def split_dot_append split_dot_plain b64_no_dot)

lemma length_compact_token:
  "length (compact_token kid p g) =
     (4 * length (json_text (jws_header kid)) + 2) div 3 + (4 * length p + 2) div 3
       + (4 * length g + 2) div 3 + 2"
  by (simp add: compact_token_def signing_input_def length_b64)

lemma check_signatures_Inr_iff:
  "check_signatures vs = Inr gs \<longleftrightarrow> vs = map PBytes gs \<and> (\<forall>g \<in> set gs. valid_low_s g)"
proof (induction vs arbitrary: gs)
  case Nil
  then show ?case by auto
next
  case (Cons v vs)
  show ?case
    by (cases gs; cases v) (auto simp: Cons.IH bind_res_Inr_iff valid_low_s_def)
qed

lemma sign_es256_Inr_iff:
  "sign_es256 (Items (map PBytes ps)) (PStr kid) sign_digests = Inr tokens \<longleftrightarrow>
     key_label_ok kid \<and> py_messages (Items (map PBytes ps)) = Inr ps
     \<and> (\<exists>gs. sign_digests (map (\<lambda>p. sha256 (ascii_encode (signing_input kid p))) ps)
               = Inr (Items (map PBytes gs))
           \<and> length gs = length ps \<and> (\<forall>g \<in> set gs. valid_low_s g)
           \<and> tokens = map2 (compact_token kid) ps gs)"
  (is "?L \<longleftrightarrow> ?R")
proof -
  let ?in = "\<lambda>p. jws_b64 (ascii_encode (json_text (jws_header kid))) @ [46] @ jws_b64 p"
  have inp: "?in p = ascii_encode (signing_input kid p)" for p
    by (simp add: signing_input_def jws_b64_def ascii_encode_def)
  have tok: "ascii_decode (?in p @ [46] @ jws_b64 g) = compact_token kid p g" for p g
  proof -
    have "?in p @ [46] @ jws_b64 g = ascii_encode (compact_token kid p g)"
      by (simp add: compact_token_def signing_input_def jws_b64_def ascii_encode_def)
    then show ?thesis by simp
  qed
  have toks: "map (\<lambda>(value, sig). ascii_decode (value @ [46] @ jws_b64 sig)) (zip (map ?in ps) gs)
      = map2 (compact_token kid) ps gs" for gs
    unfolding tok [symmetric] by (simp add: zip_map1 o_def split_beta)
  have "inj PBytes" by (simp add: inj_def)
  then have ms: "py_messages (Items (map PBytes ps)) = Inr x \<Longrightarrow> x = ps" for x
    by (auto simp: py_messages_Inr_iff inj_map_eq_map)
  have bound: "py_messages (Items (map PBytes ps)) = Inr ps \<Longrightarrow> length ps \<le> MAX_BATCH"
    by (auto simp: py_messages_Inr_iff)
  show ?thesis
  proof
    assume ?L
    then obtain x out vs gs where kid: "key_label_ok kid"
      and m: "py_messages (Items (map PBytes ps)) = Inr x"
      and out: "sign_digests (map sha256 (map ?in x)) = Inr out" and vs: "py_batch out = Inr vs"
      and len: "length vs = length (map ?in x)" and gs: "check_signatures vs = Inr gs"
      and t: "tokens = map (\<lambda>(value, sig). ascii_decode (value @ [46] @ jws_b64 sig))
        (zip (map ?in x) gs)"
      by (auto simp: sign_es256_def Let_def split: if_splits)
    have x: "x = ps" by (rule ms [OF m])
    from gs have "vs = map PBytes gs" and low: "\<forall>g \<in> set gs. valid_low_s g"
      by (simp_all add: check_signatures_Inr_iff)
    with vs len have o: "out = Items (map PBytes gs)" and l: "length gs = length ps"
      by (auto simp: py_batch_Inr_iff x)
    from out have "sign_digests (map (\<lambda>p. sha256 (ascii_encode (signing_input kid p))) ps)
        = Inr (Items (map PBytes gs))"
      unfolding x o inp map_map o_def .
    with kid m low l show ?R
      unfolding t x toks by blast
  next
    assume R: ?R
    then obtain gs where gs: "sign_digests (map sha256 (map ?in ps)) = Inr (Items (map PBytes gs))"
      "length gs = length ps" "\<forall>g \<in> set gs. valid_low_s g" "tokens = map2 (compact_token kid) ps gs"
      unfolding inp map_map o_def by auto
    have "py_batch (Items (map PBytes gs)) = Inr (map PBytes gs)"
      using bound R gs(2) by (simp add: py_batch_Items)
    moreover have "check_signatures (map PBytes gs) = Inr gs"
      using gs(3) by (simp add: check_signatures_Inr_iff)
    ultimately show ?L
      using R gs(1,2) toks [of gs] unfolding gs(4) by (simp add: sign_es256_def Let_def)
  qed
qed

text \<open>
  C37. A batch of tokens is issued exactly when the key id and the payloads are in bounds, the
  callback returned as many signatures as there are payloads, and every one of them is 64 bytes
  in low-s form; then each token is the compact serialisation of its own payload and signature,
  and the callback saw the digests of the signing inputs in order. No other result of the
  callback yields a token.
\<close>

theorem sign_es256_accepts:
  "sign_es256 (Items (map PBytes ps)) (PStr kid) sign_digests = Inr tokens \<longleftrightarrow>
     key_label_ok kid \<and> py_messages (Items (map PBytes ps)) = Inr ps
     \<and> (\<exists>gs. sign_digests (map (\<lambda>p. sha256 (ascii_encode (signing_input kid p))) ps)
               = Inr (Items (map PBytes gs))
           \<and> length gs = length ps \<and> (\<forall>g \<in> set gs. valid_low_s g)
           \<and> tokens = map2 (compact_token kid) ps gs)"
  by (rule sign_es256_Inr_iff)

text \<open>A batch of one.\<close>

lemma one_token:
  assumes "sign_es256 (Items (map PBytes [p])) (PStr kid) sign_digests = Inr tokens"
  obtains g where "tokens = [compact_token kid p g]" and "valid_low_s g"
    and "sign_digests [sha256 (ascii_encode (signing_input kid p))] = Inr (Items [PBytes g])"
proof -
  from assms obtain gs where gs: "length gs = 1" "\<forall>g \<in> set gs. valid_low_s g"
    "tokens = map2 (compact_token kid) [p] gs"
    "sign_digests [sha256 (ascii_encode (signing_input kid p))] = Inr (Items (map PBytes gs))"
    unfolding sign_es256_Inr_iff by auto
  then obtain g where "gs = [g]" by (auto simp: length_Suc_conv)
  with gs show ?thesis by (intro that [of g]) auto
qed

section \<open>The contract of a signing callback\<close>

locale digest_signer =
  fixes sign :: signer
    and genuine :: "bytes \<Rightarrow> bytes \<Rightarrow> bool"
  assumes sign_genuine: "sign hs = Inr out \<Longrightarrow> (\<forall>h \<in> set hs. length h = 32) \<Longrightarrow>
    \<exists>gs. out = Items (map PBytes gs) \<and> list_all2 (\<lambda>h g. valid_low_s g \<and> genuine h g) hs gs"
begin

text \<open>Every token carries a signature that is genuine for the digest of its own signing input.\<close>

lemma tokens_genuine:
  assumes "sign_es256 (Items (map PBytes ps)) (PStr kid) sign = Inr tokens"
  shows "\<exists>gs. tokens = map2 (compact_token kid) ps gs \<and> length gs = length ps
    \<and> (\<forall>i < length ps. valid_low_s (gs ! i)
         \<and> genuine (sha256 (ascii_encode (signing_input kid (ps ! i)))) (gs ! i))"
proof -
  let ?hs = "map (\<lambda>p. sha256 (ascii_encode (signing_input kid p))) ps"
  from assms obtain gs where gs: "sign ?hs = Inr (Items (map PBytes gs))" "length gs = length ps"
    "tokens = map2 (compact_token kid) ps gs"
    by (auto simp: sign_es256_Inr_iff)
  from sign_genuine [OF gs(1)] obtain gs' where "map PBytes gs = map PBytes gs'"
    and l: "list_all2 (\<lambda>h g. valid_low_s g \<and> genuine h g) ?hs gs'" by auto
  moreover have "inj PBytes" by (simp add: inj_def)
  ultimately have "gs' = gs" by (simp add: inj_map_eq_map)
  with gs l show ?thesis by (auto simp: list_all2_conv_all_nth)
qed

lemma one_token_genuine:
  assumes "sign_es256 (Items (map PBytes [p])) (PStr kid) sign = Inr tokens"
  obtains g where "tokens = [compact_token kid p g]" and "valid_low_s g"
    and "genuine (sha256 (ascii_encode (signing_input kid p))) g"
proof -
  from one_token [OF assms] obtain g where g: "tokens = [compact_token kid p g]" "valid_low_s g"
    "sign [sha256 (ascii_encode (signing_input kid p))] = Inr (Items [PBytes g])" .
  from sign_genuine [OF g(3)] have "genuine (sha256 (ascii_encode (signing_input kid p))) g"
    by (auto simp: length_sha256 list_all2_Cons1)
  with g show ?thesis by (intro that)
qed

text \<open>Once the signer has answered, issuing cannot fail: its answer is always acceptable.\<close>

lemma signer_answer_accepted:
  assumes "key_label_ok kid" and "py_messages (Items (map PBytes ps)) = Inr ps"
    and "sign (map (\<lambda>p. sha256 (ascii_encode (signing_input kid p))) ps) = Inr out"
  shows "\<exists>tokens. sign_es256 (Items (map PBytes ps)) (PStr kid) sign = Inr tokens
    \<and> length tokens = length ps"
proof -
  from sign_genuine [OF assms(3)] obtain gs where "out = Items (map PBytes gs)"
    and "list_all2 (\<lambda>h g. valid_low_s g \<and> genuine h g)
      (map (\<lambda>p. sha256 (ascii_encode (signing_input kid p))) ps) gs" by auto
  then have gs: "sign (map (\<lambda>p. sha256 (ascii_encode (signing_input kid p))) ps)
      = Inr (Items (map PBytes gs))" "length gs = length ps" "\<forall>g \<in> set gs. valid_low_s g"
    using assms(3) by (auto simp: list_all2_conv_all_nth in_set_conv_nth)
  with assms(1,2) have "sign_es256 (Items (map PBytes ps)) (PStr kid) sign
      = Inr (map2 (compact_token kid) ps gs)"
    unfolding sign_es256_Inr_iff by blast
  with gs(2) show ?thesis by simp
qed

end

text \<open>\<open>Cpu.sign\<close> as a callback, under the law of ECDSA.\<close>

definition cpu_signer :: "ossl \<Rightarrow> pyval \<Rightarrow> signer" where
  "cpu_signer c key hs =
     bind_res (cpu_sign c key (Items (map PBytes hs))) (\<lambda>gs. Inr (Items (map PBytes gs)))"

lemma cpu_signer_contract:
  assumes "ecdsa_law c" and "cpu_public_key c key = Inr pub"
  shows "digest_signer (cpu_signer c key)
    (\<lambda>h g. verify_p256 c (PBytes pub) (PBytes h) (PBytes g))"
  by unfold_locales
     (auto simp: cpu_signer_def bind_res_Inr_iff dest: cpu_sign_genuine [OF assms])

text \<open>One payload of moderate size is always signed.\<close>

lemma cpu_one_token_total:
  assumes "ecdsa_law c" and "cpu_public_key c (PBytes k) = Inr pub" and "key_label_ok kid"
    and "length p \<le> MAX_PAYLOAD"
  shows "\<exists>g. sign_es256 (Items (map PBytes [p])) (PStr kid) (cpu_signer c (PBytes k))
    = Inr [compact_token kid p g]"
proof -
  let ?hs = "map (\<lambda>p. sha256 (ascii_encode (signing_input kid p))) [p]"
  have m: "py_messages (Items (map PBytes [p])) = Inr [p]"
    using assms(4) by (simp add: py_messages_Inr_iff MAX_BATCH_def MAX_PAYLOAD_def MAX_WORK_def)
  from assms(2) have "py_digests (PBytes k) (Items (map PBytes ?hs)) = Inr (from_bytes_big k, ?hs)"
    by (auto simp: cpu_public_key_def public_key_def py_digests_Inr_iff length_sha256 MAX_BATCH_def)
  then have "\<exists>out. cpu_signer c (PBytes k) ?hs = Inr out"
    by (simp add: cpu_signer_def cpu_sign_def)
  then obtain out where "cpu_signer c (PBytes k) ?hs = Inr out" by blast
  from digest_signer.signer_answer_accepted [OF cpu_signer_contract [OF assms(1,2)] assms(3) m this]
  obtain tokens where t: "sign_es256 (Items (map PBytes [p])) (PStr kid) (cpu_signer c (PBytes k))
    = Inr tokens" by auto
  from one_token [OF t] t show ?thesis by metis
qed

theorem sign_es256_accepts_witness:
  "\<exists>g. sign_es256 (Items (map PBytes [[1, 2]])) (PStr (lit ''k''))
       (cpu_signer demo_ossl (PBytes (replicate 31 0 @ [1])))
     = Inr [compact_token (lit ''k'') [1, 2] g] \<and> valid_low_s g"
proof -
  have k: "key_label_ok (lit ''k'')" by (simp add: key_label_ok_def isprintable_ascii_def lit_def)
  have "py_digests (PBytes (replicate 31 0 @ [1])) (Items (map PBytes [])) = Inr (1, [])"
    unfolding py_digests_Inr_iff using demo_key ORDER_bounds(1) by auto
  then have "cpu_public_key demo_ossl (PBytes (replicate 31 0 @ [1])) = Inr (to_bytes_big 65 1)"
    by (simp add: cpu_public_key_def public_key_def demo_ossl_def)
  from cpu_one_token_total [OF demo_ecdsa_law this k, of "[1, 2]"] obtain g where
    t: "sign_es256 (Items (map PBytes [[1, 2]])) (PStr (lit ''k''))
       (cpu_signer demo_ossl (PBytes (replicate 31 0 @ [1]))) = Inr [compact_token (lit ''k'') [1, 2] g]"
    by (auto simp: MAX_PAYLOAD_def)
  from this [unfolded sign_es256_accepts] obtain gs where "length gs = 1" "\<forall>g \<in> set gs. valid_low_s g"
    "[compact_token (lit ''k'') [1, 2] g] = map2 (compact_token (lit ''k'')) [[1, 2]] gs" by auto
  then have "valid_low_s g" by (auto simp: length_Suc_conv compact_token_def)
  with t show ?thesis by blast
qed

end
