(* ===== verification/Merkle.thy ===== *)
theory Merkle
  imports Prelude Sha256
begin

text \<open>
  The hash trees of \<open>python/batchcrypto/receipts.py\<close>: \<open>_leaf\<close>, \<open>_node\<close>, \<open>_tree\<close> (which
  builds the root and, in place, the inclusion path of every record) and \<open>_included\<close> (which
  recomputes a root from one record and its path).

  The specification is the pair of recursive functions \<open>mth\<close> and \<open>mpath\<close> on lists, the Merkle
  tree hash and the inclusion path of RFC 9162. The section on refinement shows that \<open>_tree\<close>
  computes them; the next two that \<open>_included\<close> accepts every path of the tree and that it
  accepts no other record, unless two of the strings it hashes are a collision of SHA-256.
\<close>

section \<open>The code\<close>

definition leaf :: "bytes \<Rightarrow> bytes" where
  "leaf r = sha256 (0 # r)"

definition node :: "bytes \<Rightarrow> bytes \<Rightarrow> bytes" where
  "node left right = sha256 (1 # left @ right)"

text \<open>\<open>int.bit_length\<close>.\<close>

fun bit_length :: "nat \<Rightarrow> nat" where
  "bit_length n = (if n = 0 then 0 else Suc (bit_length (n div 2)))"

declare bit_length.simps [simp del]

definition tree_split :: "nat \<Rightarrow> nat" where
  "tree_split sz = push_bit (bit_length (sz - 1) - 1) 1"

text \<open>\<open>for index in range(a, b): paths[index].append(x)\<close>.\<close>

definition append_range :: "nat \<Rightarrow> nat \<Rightarrow> 'a \<Rightarrow> 'a list list \<Rightarrow> 'a list list" where
  "append_range a b x paths = foldl (\<lambda>ps i. ps[i := ps ! i @ [x]]) paths [a..<b]"

lemma bit_length_split: "2 \<le> m \<Longrightarrow> \<exists>h. bit_length (m - 1) = Suc h \<and> 2 ^ h < m \<and> m \<le> 2 * 2 ^ h"
proof -
  have pos: "0 < n \<Longrightarrow> \<exists>h. bit_length n = Suc h \<and> 2 ^ h \<le> n \<and> n < 2 * 2 ^ h" for n
  proof (induction n rule: bit_length.induct)
    case (1 n)
    show ?case
    proof (cases "n = 1")
      case True
      then show ?thesis by (simp add: bit_length.simps)
    next
      case False
      with 1 obtain h where h: "bit_length (n div 2) = Suc h" "2 ^ h \<le> n div 2" "n div 2 < 2 * 2 ^ h"
        by (metis One_nat_def div_greater_zero_iff less_2_cases_iff not_less not_gr0)
      then have "2 * 2 ^ h \<le> n" and "n < 2 * (2 * 2 ^ h)" by linarith+
      with h 1 show ?thesis by (simp add: bit_length.simps [of n])
    qed
  qed
  assume "2 \<le> m"
  with pos [of "m - 1"] show ?thesis by auto
qed

lemma tree_split_bounds: "2 \<le> m \<Longrightarrow> 0 < tree_split m \<and> tree_split m < m \<and> m \<le> 2 * tree_split m"
  using bit_length_split [of m] by (auto simp: tree_split_def push_bit_eq_mult)

lemma two_le: "Suc 0 < m \<Longrightarrow> 2 \<le> m"
  by simp

text \<open>
  The inner function \<open>build\<close>; the lists it appends to are passed through. It is called with
  a positive size only.
\<close>

function build :: "bytes list \<Rightarrow> nat \<Rightarrow> nat \<Rightarrow> bytes list list \<Rightarrow> bytes \<times> bytes list list" where
  "build recs start sz paths =
     (if sz \<le> 1 then (leaf (recs ! start), paths)
      else let split = tree_split sz;
               (left, paths) = build recs start split paths;
               (right, paths) = build recs (start + split) (sz - split) paths;
               paths = append_range start (start + split) right paths;
               paths = append_range (start + split) (start + sz) left paths
           in (node left right, paths))"
  by pat_completeness auto
termination
proof (relation "measure (\<lambda>(recs, start, sz, paths). sz)")
qed (auto simp: not_le dest!: tree_split_bounds [OF two_le])

declare build.simps [simp del]

definition merkle_tree :: "bytes list \<Rightarrow> bytes \<times> bytes list list" where
  "merkle_tree recs = build recs 0 (length recs) (replicate (length recs) [])"

text \<open>The inner loop \<open>while fn and not fn & 1\<close> of \<open>_included\<close>, and the loop over the path.\<close>

fun halve :: "nat \<Rightarrow> nat \<Rightarrow> nat \<times> nat" where
  "halve fn sn = (if fn \<noteq> 0 \<and> even fn then halve (fn div 2) (sn div 2) else (fn, sn))"

declare halve.simps [simp del]

fun climb :: "nat \<Rightarrow> nat \<Rightarrow> bytes \<Rightarrow> bytes list \<Rightarrow> (nat \<times> bytes) option" where
  "climb fn sn value [] = Some (sn, value)"
| "climb fn sn value (sibling # path) =
     (if sn = 0 then None
      else if odd fn \<or> fn = sn then
        (let (fn, sn) = halve fn sn in climb (fn div 2) (sn div 2) (node sibling value) path)
      else climb (fn div 2) (sn div 2) (node value sibling) path)"

definition included :: "bytes \<Rightarrow> nat \<Rightarrow> nat \<Rightarrow> bytes list \<Rightarrow> bytes \<Rightarrow> bool" where
  "included r index sz path root =
     (case climb index (sz - 1) (leaf r) path of
        None \<Rightarrow> False
      | Some (sn, value) \<Rightarrow> sn = 0 \<and> value = root)"

section \<open>The specification\<close>

function mth :: "bytes list \<Rightarrow> bytes" where
  "mth rs = (if length rs \<le> 1 then leaf (hd rs)
     else node (mth (take (tree_split (length rs)) rs)) (mth (drop (tree_split (length rs)) rs)))"
  by pat_completeness auto
termination
proof (relation "measure length")
qed (auto simp: not_le dest!: tree_split_bounds [OF two_le])

function mpath :: "nat \<Rightarrow> bytes list \<Rightarrow> bytes list" where
  "mpath i rs = (if length rs \<le> 1 then []
     else let k = tree_split (length rs) in
       if i < k then mpath i (take k rs) @ [mth (drop k rs)]
       else mpath (i - k) (drop k rs) @ [mth (take k rs)])"
  by pat_completeness auto
termination
proof (relation "measure (length o snd)")
qed (auto simp: not_le dest!: tree_split_bounds [OF two_le])

declare mth.simps [simp del] mpath.simps [simp del]

lemma mth_single [simp]: "mth [r] = leaf r"
  by (simp add: mth.simps)

lemma mpath_single [simp]: "mpath i [r] = []"
  by (simp add: mpath.simps)

lemma length_leaf [simp]: "length (leaf r) = 32"
  by (simp add: leaf_def length_sha256)

lemma length_node [simp]: "length (node l r) = 32"
  by (simp add: node_def length_sha256)

lemma length_mth [simp]: "length (mth rs) = 32"
  by (subst mth.simps) simp

lemma mpath_nodes: "v \<in> set (mpath i rs) \<Longrightarrow> length v = 32"
proof (induction i rs rule: mpath.induct)
  case (1 i rs)
  show ?case
    using "1.prems" "1.IH" by (subst (asm) mpath.simps) (auto simp: Let_def split: if_splits)
qed

section \<open>The tree builder implements the specification\<close>

lemma append_range_simps: "length (append_range a b x ps) = length ps"
  "i < length ps \<Longrightarrow> append_range a b x ps ! i = (if a \<le> i \<and> i < b then ps ! i @ [x] else ps ! i)"
proof -
  have "length (foldl (\<lambda>ps i. ps[i := ps ! i @ [x]]) ps is) = length ps
    \<and> (distinct is \<longrightarrow> i < length ps \<longrightarrow> foldl (\<lambda>ps i. ps[i := ps ! i @ [x]]) ps is ! i
        = (if i \<in> set is then ps ! i @ [x] else ps ! i))" for "is" i
    by (induction "is" arbitrary: ps) (auto simp: nth_list_update, metis nth_list_update_neq)
  from this [of "[a..<b]"] show "length (append_range a b x ps) = length ps"
    "i < length ps \<Longrightarrow> append_range a b x ps ! i = (if a \<le> i \<and> i < b then ps ! i @ [x] else ps ! i)"
    by (auto simp: append_range_def)
qed

lemma mth_split:
  "1 < length rs \<Longrightarrow> mth rs = node (mth (take (tree_split (length rs)) rs))
     (mth (drop (tree_split (length rs)) rs))"
  by (subst mth.simps) simp

lemma mpath_split:
  "1 < length rs \<Longrightarrow> mpath i rs = (let k = tree_split (length rs) in
       if i < k then mpath i (take k rs) @ [mth (drop k rs)]
       else mpath (i - k) (drop k rs) @ [mth (take k rs)])"
  by (subst mpath.simps) simp

text \<open>What \<open>build\<close> returns and writes, for any segment of the records.\<close>

lemma build_correct:
  assumes "build recs start n paths = (h, out)"
    and "1 \<le> n" and "start + n \<le> length recs" and "start + n \<le> length paths"
  shows "h = mth (take n (drop start recs)) \<and> length out = length paths
    \<and> (\<forall>i < length paths. out ! i =
        (if start \<le> i \<and> i < start + n then paths ! i @ mpath (i - start) (take n (drop start recs))
         else paths ! i))"
  using assms
proof (induction recs start n paths arbitrary: h out rule: build.induct)
  case (1 recs start n paths)
  let ?seg = "take n (drop start recs)"
  have len: "length ?seg = n" using "1.prems" by simp
  show ?case
  proof (cases "n \<le> 1")
    case True
    with "1.prems" have "n = 1" by simp
    with "1.prems" show ?thesis
      by (subst (asm) build.simps) (auto simp: mth.simps mpath.simps hd_drop_conv_nth hd_take)
  next
    case False
    define k where "k = tree_split n"
    have k: "0 < k" "k < n" using tree_split_bounds [of n] False by (auto simp: k_def)
    obtain l p1 where l: "build recs start k paths = (l, p1)" by fastforce
    obtain r p2 where r: "build recs (start + k) (n - k) p1 = (r, p2)" by fastforce
    have h: "h = node l r" and out: "out = append_range (start + k) (start + n) l
        (append_range start (start + k) r p2)"
      using "1.prems"(1) False l r by (subst (asm) build.simps; simp add: k_def Let_def)+
    have L: "l = mth (take k (drop start recs))" "length p1 = length paths"
      "\<forall>i < length paths. p1 ! i = (if start \<le> i \<and> i < start + k
         then paths ! i @ mpath (i - start) (take k (drop start recs)) else paths ! i)"
      using "1.IH"(1) [OF False k_def l] k "1.prems" by auto
    have R: "r = mth (take (n - k) (drop (start + k) recs))" "length p2 = length paths"
      "\<forall>i < length paths. p2 ! i = (if start + k \<le> i \<and> i < start + n
         then p1 ! i @ mpath (i - (start + k)) (take (n - k) (drop (start + k) recs)) else p1 ! i)"
      using "1.IH"(2) [OF False k_def l [symmetric] refl r] k "1.prems" L(2) by auto
    have tk: "take k ?seg = take k (drop start recs)"
      and dk: "drop k ?seg = take (n - k) (drop (start + k) recs)"
      using k by (auto simp: drop_take add.commute)
    have "1 < length ?seg" using len False by simp
    note m = mth_split [OF this, unfolded len, folded k_def, unfolded tk dk]
      and mp = mpath_split [OF \<open>1 < length ?seg\<close>, unfolded len, folded k_def, unfolded tk dk Let_def]
    show ?thesis
    proof (intro conjI allI impI)
      show "h = mth ?seg" by (simp add: h m L(1) R(1))
      show "length out = length paths" by (simp add: out append_range_simps R(2))
      fix i assume i: "i < length paths"
      have "out ! i = (if start + k \<le> i \<and> i < start + n then p2 ! i @ [l]
          else if start \<le> i \<and> i < start + k then p2 ! i @ [r] else p2 ! i)"
        using i by (simp add: out append_range_simps R(2))
      then show "out ! i = (if start \<le> i \<and> i < start + n
          then paths ! i @ mpath (i - start) ?seg else paths ! i)"
        using L(3) R(3) i k by (auto simp: mp L(1) R(1))
    qed
  qed
qed

lemma merkle_tree_eq:
  assumes "recs \<noteq> []"
  shows "merkle_tree recs = (mth recs, map (\<lambda>i. mpath i recs) [0..<length recs])"
proof -
  obtain h out where b: "build recs 0 (length recs) (replicate (length recs) []) = (h, out)"
    by fastforce
  have "1 \<le> length recs" using assms by (cases recs) auto
  from build_correct [OF b this] have "h = mth recs" "length out = length recs"
    "\<forall>i < length recs. out ! i = mpath i recs" by auto
  then show ?thesis by (auto simp: merkle_tree_def b intro: nth_equalityI)
qed



section \<open>Every path of the tree is accepted\<close>

lemma tree_split_eq: "bit_length (m - 1) = Suc h \<Longrightarrow> tree_split m = 2 ^ h"
  by (simp add: tree_split_def push_bit_eq_mult)

lemma bit_length_unique:
  assumes "2 ^ h < m" and "m \<le> 2 * 2 ^ h"
  shows "bit_length (m - 1) = Suc h"
proof -
  have "2 \<le> m" using assms(1) by (cases "m = 0"; cases "m = 1") auto
  from bit_length_split [OF this] obtain j
    where j: "bit_length (m - 1) = Suc j" "2 ^ j < m" "m \<le> 2 * 2 ^ j" by auto
  with assms have "(2::nat) ^ j < 2 ^ Suc h" and "(2::nat) ^ h < 2 ^ Suc j" by auto
  then have "j < Suc h" and "h < Suc j" by (simp_all only: power_strict_increasing_iff)
  with j(1) show ?thesis by simp
qed

lemma halve_odd: "odd fn \<Longrightarrow> halve fn sn = (fn, sn)"
  by (simp add: halve.simps)

lemma halve_power: "odd b \<Longrightarrow> halve (b * 2 ^ k) (b * 2 ^ k) = (b, b)"
proof (induction k)
  case 0
  then show ?case by (simp add: halve_odd)
next
  case (Suc k)
  from \<open>odd b\<close> have "0 < b" by (rule odd_pos)
  then have "b * 2 ^ Suc k \<noteq> 0" "even (b * 2 ^ Suc k)" "b * 2 ^ Suc k div 2 = b * 2 ^ k" by auto
  with Suc show ?case by (subst halve.simps) simp
qed

text \<open>A complete subtree: its node sits at the index shifted by its height.\<close>

lemma climb_complete:
  assumes "length rs = 2 ^ h" and "i < 2 ^ h" and "a * 2 ^ h + 2 ^ h \<le> Suc sn"
  shows "climb (a * 2 ^ h + i) sn (leaf (rs ! i)) (mpath i rs @ q) = climb a (sn div 2 ^ h) (mth rs) q"
  using assms
proof (induction h arbitrary: a i rs q)
  case 0
  then obtain r where "rs = [r]" by (auto simp: length_Suc_conv)
  with 0 show ?case by simp
next
  case (Suc h)
  define k where "k = tree_split (length rs)"
  have k: "k = 2 ^ h"
    unfolding k_def Suc.prems(1) by (rule tree_split_eq, rule bit_length_unique) auto
  have "(1::nat) \<le> 2 ^ h" by simp
  then have len: "1 < length rs" unfolding Suc.prems(1) power_Suc by linarith
  note sp = mth_split [OF len, folded k_def] mpath_split [OF len, folded k_def, unfolded Let_def]
  let ?l = "take k rs" and ?r = "drop k rs"
  have ll: "length ?l = 2 ^ h" "length ?r = 2 ^ h" using Suc.prems(1) k by auto
  have s: "Suc (2 * a) * 2 ^ h + 2 ^ h \<le> Suc sn" using Suc.prems(3) by (simp add: algebra_simps)
  then have s': "2 * a * 2 ^ h + 2 ^ h \<le> Suc sn" by simp
  have "(1::nat) \<le> 2 ^ h" by simp
  with s have "Suc (2 * a) * 2 ^ h \<le> sn" by linarith
  then have d: "Suc (2 * a) \<le> sn div 2 ^ h" by (simp add: less_eq_div_iff_mult_less_eq)
  have dd: "sn div 2 ^ h div 2 = sn div 2 ^ Suc h"
    by (simp add: div_mult2_eq mult.commute flip: div_mult2_eq)
  show ?case
  proof (cases "i < k")
    case True
    then have "climb (2 * a * 2 ^ h + i) sn (leaf (?l ! i)) (mpath i ?l @ mth ?r # q)
        = climb (2 * a) (sn div 2 ^ h) (mth ?l) (mth ?r # q)"
      by (intro Suc.IH ll s') (simp add: k)
    also have "\<dots> = climb a (sn div 2 ^ Suc h) (mth rs) q"
      using d by (simp add: sp dd)
    also have "2 * a * 2 ^ h + i = a * 2 ^ Suc h + i" by simp
    finally show ?thesis using True by (simp add: sp)
  next
    case False
    then have "climb (Suc (2 * a) * 2 ^ h + (i - k)) sn (leaf (?r ! (i - k))) (mpath (i - k) ?r @ mth ?l # q)
        = climb (Suc (2 * a)) (sn div 2 ^ h) (mth ?r) (mth ?l # q)"
      using Suc.prems(2) by (intro Suc.IH ll s) (simp add: k)
    also have "\<dots> = climb a (sn div 2 ^ Suc h) (mth rs) q"
      using d by (simp add: sp dd halve_odd)
    also have "Suc (2 * a) * 2 ^ h + (i - k) = a * 2 ^ Suc h + i"
      using False by (simp add: k algebra_simps)
    also have "?r ! (i - k) = rs ! i" using False Suc.prems(1) k by simp
    finally show ?thesis using False by (simp add: sp)
  qed
qed

text \<open>The subtree at the right edge: the index and the last index meet at its node.\<close>

lemma climb_edge:
  assumes "1 \<le> length rs" and "i < length rs" and "h = bit_length (length rs - 1)"
  shows "climb (a * 2 ^ h + i) (a * 2 ^ h + (length rs - 1)) (leaf (rs ! i)) (mpath i rs @ q)
    = climb a a (mth rs) q"
  using assms
proof (induction "length rs" arbitrary: a i rs q h rule: less_induct)
  case less
  show ?case
  proof (cases "length rs = 1")
    case True
    then obtain r where "rs = [r]" by (auto simp: length_Suc_conv)
    with less.prems show ?thesis by (simp add: bit_length.simps)
  next
    case False
    define k where "k = tree_split (length rs)"
    have len: "1 < length rs" "2 \<le> length rs" using less.prems(1) False by auto
    from bit_length_split [OF len(2)] less.prems(3) obtain j
      where h: "h = Suc j" and j: "2 ^ j < length rs" "length rs \<le> 2 * 2 ^ j" by auto
    have k: "k = 2 ^ j" using less.prems(3) h by (auto simp: k_def intro: tree_split_eq)
    note sp = mth_split [OF len(1), folded k_def]
      mpath_split [OF len(1), folded k_def, unfolded Let_def]
    let ?l = "take k rs" and ?r = "drop k rs" and ?s = "a * 2 ^ h + (length rs - 1)"
    have ll: "length ?l = 2 ^ j" "length ?r = length rs - k" using j k by auto
    show ?thesis
    proof (cases "i < k")
      case True
      have b: "2 * a * 2 ^ j + 2 ^ j \<le> Suc ?s" using j h by (simp add: algebra_simps)
      have "?s = (length rs - 1) + 2 * a * 2 ^ j" by (simp add: h algebra_simps)
      then have "?s div 2 ^ j = 2 * a + (length rs - 1) div 2 ^ j"
        by (simp only: div_mult_self1 power_not_zero zero_neq_numeral not_False_eq_True)
      moreover have "(length rs - 1) div 2 ^ j = 1"
        using j by (intro div_nat_eqI) auto
      ultimately have sd: "?s div 2 ^ j = Suc (2 * a)" by simp
      have "climb (2 * a * 2 ^ j + i) ?s (leaf (?l ! i)) (mpath i ?l @ mth ?r # q)
          = climb (2 * a) (?s div 2 ^ j) (mth ?l) (mth ?r # q)"
        using True by (intro climb_complete ll b) (simp add: k)
      also have "\<dots> = climb a a (mth rs) q"
        unfolding sd by (simp add: sp)
      also have "2 * a * 2 ^ j + i = a * 2 ^ h + i" by (simp add: h)
      finally show ?thesis using True by (simp add: sp)
    next
      case ge: False
      define g where "g = bit_length (length ?r - 1)"
      define b where "b = Suc (2 * a) * 2 ^ (j - g)"
      have r1: "1 \<le> length ?r" "i - k < length ?r" "length ?r < length rs"
        using ll j k ge less.prems(2) by auto
      have gj: "g \<le> j"
      proof (cases "length ?r = 1")
        case True
        then show ?thesis by (simp add: g_def bit_length.simps)
      next
        case False
        with r1 have "2 \<le> length ?r" by simp
        from bit_length_split [OF this] obtain u
          where u: "g = Suc u" "2 ^ u < length ?r" by (auto simp: g_def)
        moreover have "length ?r \<le> 2 ^ j" using ll j k by auto
        ultimately have "(2::nat) ^ u < 2 ^ j" by linarith
        with u show ?thesis by simp
      qed
      have bg: "b * 2 ^ g = Suc (2 * a) * 2 ^ j"
        unfolding b_def mult.assoc power_add [symmetric] using gj by simp
      have i: "b * 2 ^ g + (i - k) = a * 2 ^ h + i"
        and s: "b * 2 ^ g + (length ?r - 1) = ?s"
        unfolding bg using ge j k ll by (auto simp: h algebra_simps)
      have "climb (b * 2 ^ g + (i - k)) (b * 2 ^ g + (length ?r - 1)) (leaf (?r ! (i - k)))
          (mpath (i - k) ?r @ mth ?l # q) = climb b b (mth ?r) (mth ?l # q)"
        by (rule less.hyps [OF r1(3) r1(1,2) g_def])
      also have "\<dots> = climb a a (mth rs) q"
        using halve_power [of "Suc (2 * a)" "j - g"] by (simp add: sp b_def)
      also have "?r ! (i - k) = rs ! i" using ge less.prems(2) by simp
      finally show ?thesis using ge unfolding i s by (simp add: sp)
    qed
  qed
qed

lemma climb_mpath:
  assumes "i < length rs"
  shows "climb i (length rs - 1) (leaf (rs ! i)) (mpath i rs) = Some (0, mth rs)"
proof -
  have "1 \<le> length rs" using assms by linarith
  from climb_edge [OF this assms refl, of 0 "[]"] show ?thesis by simp
qed

lemma included_mpath: "i < length rs \<Longrightarrow> included (rs ! i) i (length rs) (mpath i rs) (mth rs)"
  unfolding included_def climb_mpath by simp

lemma length_mpath: "1 \<le> length rs \<Longrightarrow> length (mpath i rs) \<le> bit_length (length rs - 1)"
proof (induction i rs rule: mpath.induct)
  case (1 i rs)
  show ?case
  proof (cases "length rs \<le> 1")
    case True
    then show ?thesis by (simp add: mpath.simps)
  next
    case False
    define k where "k = tree_split (length rs)"
    have len: "1 < length rs" "2 \<le> length rs" using False by auto
    from bit_length_split [OF len(2)] obtain j
      where j: "bit_length (length rs - 1) = Suc j" "2 ^ j < length rs" "length rs \<le> 2 * 2 ^ j" by auto
    have k: "k = 2 ^ j" using j by (auto simp: k_def intro: tree_split_eq)
    have small: "bit_length (n - 1) \<le> j" if n: "1 \<le> n" "n \<le> 2 ^ j" for n
    proof (cases "n = 1")
      case True
      then show ?thesis by (simp add: bit_length.simps)
    next
      case False
      with n have "2 \<le> n" by simp
      from bit_length_split [OF this] obtain u
        where u: "bit_length (n - 1) = Suc u" "2 ^ u < n" by auto
      with n have "(2::nat) ^ u < 2 ^ j" by linarith
      with u show ?thesis by simp
    qed
    show ?thesis
    proof (cases "i < k")
      case True
      have "length (mpath i (take k rs)) \<le> bit_length (length (take k rs) - 1)"
        using "1.IH"(1) [OF False k_def True] j k by simp
      also have "\<dots> \<le> j" using j k by (intro small) auto
      finally show ?thesis using True j by (simp add: mpath_split [OF len(1), folded k_def] Let_def)
    next
      case ge: False
      have "length (mpath (i - k) (drop k rs)) \<le> bit_length (length (drop k rs) - 1)"
        using "1.IH"(2) [OF False k_def ge] j k by simp
      also have "\<dots> \<le> j" using j k by (intro small) auto
      finally show ?thesis using ge j by (simp add: mpath_split [OF len(1), folded k_def] Let_def)
    qed
  qed
qed

lemma bit_length_mono: "m \<le> n \<Longrightarrow> bit_length m \<le> bit_length n"
proof (induction n arbitrary: m rule: bit_length.induct)
  case (1 n)
  then show ?case
    by (cases "m = 0") (auto simp: bit_length.simps [of 0] bit_length.simps [of m] bit_length.simps [of n] div_le_mono)
qed

lemma length_mpath_12: "1 \<le> length rs \<Longrightarrow> length rs \<le> 4096 \<Longrightarrow> length (mpath i rs) \<le> 12"
proof -
  assume a: "1 \<le> length rs" "length rs \<le> 4096"
  have "bit_length (length rs - 1) \<le> bit_length 4095" using a by (intro bit_length_mono) simp
  also have "bit_length 4095 = 12" by (simp add: bit_length.simps)
  finally show ?thesis using length_mpath [OF a(1), of i] by simp
qed

section \<open>No other record is accepted\<close>

text \<open>The strings that \<open>climb\<close> hashes.\<close>

fun climb_inputs :: "nat \<Rightarrow> nat \<Rightarrow> bytes \<Rightarrow> bytes list \<Rightarrow> bytes list" where
  "climb_inputs fn sn value [] = []"
| "climb_inputs fn sn value (sibling # path) =
     (if sn = 0 then []
      else if odd fn \<or> fn = sn then
        (let (fn, sn) = halve fn sn
         in (1 # sibling @ value) # climb_inputs (fn div 2) (sn div 2) (node sibling value) path)
      else (1 # value @ sibling) # climb_inputs (fn div 2) (sn div 2) (node value sibling) path)"

text \<open>
  Two runs from the same position take the same turns whatever the values are; so two accepting
  runs have paths of the same length, and, unless two hashed strings collide, the same values.
\<close>

definition collision_in :: "bytes list \<Rightarrow> bytes list \<Rightarrow> bool" where
  "collision_in xs ys \<longleftrightarrow> (\<exists>x \<in> set xs. \<exists>y \<in> set ys. x \<noteq> y \<and> sha256 x = sha256 y)"

lemma collision_in_Cons:
  "collision_in xs ys \<Longrightarrow> collision_in (x # xs) (y # ys)"
  "collision_in [x] [y] \<Longrightarrow> collision_in (x # xs) (y # ys)"
  by (auto simp: collision_in_def)

lemma node_eqD:
  assumes "node l r = node l' r'" and "length l = length l'"
  shows "l = l' \<and> r = r' \<or> collision_in [1 # l @ r] [1 # l' @ r']"
  using assms by (auto simp: node_def collision_in_def)

lemma climb_binding:
  assumes "climb fn sn v p = Some (0, x)" and "climb fn sn v' p' = Some (0, x)"
    and "length v = 32" and "length v' = 32"
    and "\<forall>s \<in> set p. length s = 32" and "\<forall>s \<in> set p'. length s = 32"
  shows "v = v' \<and> p = p' \<or> collision_in (climb_inputs fn sn v p) (climb_inputs fn sn v' p')"
  using assms
proof (induction p arbitrary: fn sn v v' p')
  case Nil
  then show ?case by (cases p') auto
next
  case (Cons s p)
  then have sn: "sn \<noteq> 0" by (auto split: if_splits)
  with Cons.prems obtain s' q where p': "p' = s' # q" by (cases p') auto
  from Cons.prems p' have l: "length s = 32" "length s' = 32"
    "\<forall>s \<in> set p. length s = 32" "\<forall>s \<in> set q. length s = 32" by auto
  obtain f n where fn: "halve fn sn = (f, n)" by fastforce
  show ?case
  proof (cases "odd fn \<or> fn = sn")
    case True
    with Cons.prems(1,2) sn fn have c: "climb (f div 2) (n div 2) (node s v) p = Some (0, x)"
      "climb (f div 2) (n div 2) (node s' v') q = Some (0, x)" by (auto simp: p')
    from Cons.IH [OF c _ _ l(3,4)] have "node s v = node s' v' \<and> p = q
      \<or> collision_in (climb_inputs (f div 2) (n div 2) (node s v) p)
          (climb_inputs (f div 2) (n div 2) (node s' v') q)" by simp
    with True sn fn l node_eqD [of s v s' v'] show ?thesis
      by (auto simp: p' dest: collision_in_Cons)
  next
    case False
    with Cons.prems(1,2) sn have c: "climb (fn div 2) (sn div 2) (node v s) p = Some (0, x)"
      "climb (fn div 2) (sn div 2) (node v' s') q = Some (0, x)" by (auto simp: p')
    from Cons.IH [OF c _ _ l(3,4)] have "node v s = node v' s' \<and> p = q
      \<or> collision_in (climb_inputs (fn div 2) (sn div 2) (node v s) p)
          (climb_inputs (fn div 2) (sn div 2) (node v' s') q)" by simp
    with False sn Cons.prems(3,4) node_eqD [of v s v' s'] show ?thesis
      by (auto simp: p' dest: collision_in_Cons)
  qed
qed

text \<open>What one verification hashes: the leaf and the nodes above it.\<close>

definition included_inputs :: "bytes \<Rightarrow> nat \<Rightarrow> nat \<Rightarrow> bytes list \<Rightarrow> bytes list" where
  "included_inputs r index n path = (0 # r) # climb_inputs index (n - 1) (leaf r) path"

lemma included_binding:
  assumes "included r i n p root" and "included r' i n p' root"
    and "\<forall>s \<in> set p. length s = 32" and "\<forall>s \<in> set p'. length s = 32"
  shows "r = r' \<and> p = p' \<or> collision_in (included_inputs r i n p) (included_inputs r' i n p')"
proof -
  from assms(1,2) have c: "climb i (n - 1) (leaf r) p = Some (0, root)"
    "climb i (n - 1) (leaf r') p' = Some (0, root)"
    by (auto simp: included_def split: option.splits)
  from climb_binding [OF c _ _ assms(3,4)]
  have "leaf r = leaf r' \<and> p = p'
    \<or> collision_in (climb_inputs i (n - 1) (leaf r) p) (climb_inputs i (n - 1) (leaf r') p')" by simp
  moreover have "leaf r = leaf r' \<Longrightarrow> r = r' \<or> collision_in [0 # r] [0 # r']"
    by (auto simp: leaf_def collision_in_def)
  ultimately show ?thesis
    unfolding included_inputs_def by (auto dest: collision_in_Cons)
qed

text \<open>
  Inclusion proofs are complete: for every batch and every index, the path the tree builder
  computed for that record is accepted against the root it computed, and it has at most the
  twelve nodes that a receipt may carry.
\<close>

theorem inclusion_complete:
  assumes "length recs \<le> 4096" and "i < length recs"
  shows "included (recs ! i) i (length recs) (snd (merkle_tree recs) ! i) (fst (merkle_tree recs))
    \<and> length (snd (merkle_tree recs) ! i) \<le> 12
    \<and> (\<forall>v \<in> set (snd (merkle_tree recs) ! i). length v = 32)"
proof -
  have "recs \<noteq> []" using assms(2) by auto
  moreover have "1 \<le> length recs" using assms(2) by linarith
  ultimately show ?thesis
    using assms by (simp add: merkle_tree_eq included_mpath length_mpath_12 mpath_nodes)
qed

theorem inclusion_complete_witness:
  "included [7] 2 3 (snd (merkle_tree [[5], [6], [7]]) ! 2) (fst (merkle_tree [[5], [6], [7]]))"
  using inclusion_complete [of "[[5], [6], [7]]" 2] by (simp add: numeral_2_eq_2 numeral_3_eq_3)

text \<open>
  C27. Inclusion proofs are sound: if the verifier accepts any byte string at an index against
  the root of a batch, under any path of 32-byte nodes, then the string is the record of the
  batch at that index and the path is the one the tree builder computed, or else two of the
  strings hashed on the two paths are an explicit collision of SHA-256.
\<close>

theorem inclusion_sound:
  assumes "i < length recs"
    and "included r i (length recs) path (fst (merkle_tree recs))"
    and "\<forall>s \<in> set path. length s = 32"
  shows "r = recs ! i \<and> path = snd (merkle_tree recs) ! i
    \<or> collision_in (included_inputs r i (length recs) path)
        (included_inputs (recs ! i) i (length recs) (snd (merkle_tree recs) ! i))"
proof -
  have "recs \<noteq> []" using assms(1) by auto
  note t = merkle_tree_eq [OF this]
  have "included (recs ! i) i (length recs) (mpath i recs) (mth recs)"
    by (rule included_mpath [OF assms(1)])
  with included_binding [of r i "length recs" path "mth recs" "recs ! i" "mpath i recs"] assms
  show ?thesis by (auto simp: t mpath_nodes)
qed

theorem inclusion_sound_witness:
  "([6] :: bytes) = [[5], [6]] ! 1
    \<or> collision_in (included_inputs [6] 1 2 (snd (merkle_tree [[5], [6]]) ! 1))
        (included_inputs ([[5], [6]] ! 1) 1 2 (snd (merkle_tree [[5], [6]]) ! 1))"
proof -
  have t: "merkle_tree [[5], [6]] = (mth [[5], [6]], map (\<lambda>i. mpath i [[5], [6]]) [0..<2])"
    by (simp add: merkle_tree_eq upt_rec)
  have "included ([[5], [6]] ! 1) 1 (length [[5], [6 :: byte]]) (mpath 1 [[5], [6]]) (mth [[5], [6]])"
    by (rule included_mpath) simp
  then show ?thesis
    using inclusion_sound [of 1 "[[5], [6]]" "[6]" "mpath 1 [[5], [6]]"]
    by (auto simp: t mpath_nodes numeral_2_eq_2)
qed

end
