(* ===== verification/Receipts.thy ===== *)
theory Receipts
  imports Jws Merkle
begin

text \<open>
  \<open>python/batchcrypto/receipts.py\<close> on top of its hash trees (\<open>Merkle\<close>): sealing a batch of
  records under one signed root, writing a receipt for one record, and the consumer
  \<open>ReceiptVerifier\<close>, a state machine whose state is a cache of at most eight verified roots.

  The lock of the verifier serialises its calls, so a method is a function from a state to a
  result and the next state. A nested document deep enough for \<open>RecursionError\<close>, which
  \<open>verify\<close> turns into \<open>False\<close>, is read by the model and rejected by the type checks instead.
\<close>

definition PROFILE :: ustr where "PROFILE = lit ''batchcrypto-record-receipt-v1''"
definition MAX_RECEIPT_BYTES :: nat where "MAX_RECEIPT_BYTES = 4096"
definition MAX_MANIFEST_BYTES :: nat where "MAX_MANIFEST_BYTES = 2048"
definition MAX_PROOF_NODES :: nat where "MAX_PROOF_NODES = 12"

section \<open>Documents\<close>

definition encode :: "pyval \<Rightarrow> bytes" where
  "encode v = ascii_encode (dumps_sorted v)"

text \<open>\<open>_object\<close>: the pairs of a JSON object, refused when a field occurs twice.\<close>

fun object_fields :: "(ustr \<times> pyval) list \<Rightarrow> (ustr \<times> pyval) list \<Rightarrow> (ustr \<times> pyval) list option" where
  "object_fields result [] = Some result"
| "object_fields result ((key, v) # pairs) =
     (if key \<in> fst ` set result then None else object_fields (result @ [(key, v)]) pairs)"

definition object_hook :: pairs_hook where
  "object_hook pairs = map_option PDict (object_fields [] pairs)"

definition decode_object :: "bytes \<Rightarrow> (ustr \<times> pyval) list result" where
  "decode_object b =
     (case utf8_decode (map unat b) of
        None \<Rightarrow> Inl (UnicodeError ''invalid utf-8'')
      | Some s \<Rightarrow>
          (case json_loads object_hook s of
             None \<Rightarrow> Inl (ValueError ''invalid JSON'')
           | Some v \<Rightarrow> (case v of PDict kvs \<Rightarrow> Inr kvs | _ \<Rightarrow> Inl (ValueError ''expected JSON object''))))"

definition label_message :: string where
  "label_message = ''context and key_id require 1..128 printable ASCII characters''"

definition check_label :: "pyval \<Rightarrow> ustr result" where
  "check_label v = (case as_str v of
     None \<Rightarrow> Inl (ValueError label_message)
   | Some s \<Rightarrow> if \<not> (1 \<le> length s \<and> length s \<le> 128) \<or> \<not> isascii s \<or> \<not> isprintable_ascii s
       then Inl (ValueError label_message) else Inr s)"

lemma check_label_Inr_iff: "check_label v = Inr s \<longleftrightarrow> v = PStr s \<and> key_label_ok s"
  by (cases v) (auto simp: check_label_def key_label_ok_def)

lemma check_label_ok: "key_label_ok s \<Longrightarrow> check_label (PStr s) = Inr s"
  by (simp add: check_label_Inr_iff)

section \<open>Sealing\<close>

record sealed_batch =
  sb_manifest :: ustr
  sb_paths :: "bytes list list"

definition receipt_value :: "nat \<Rightarrow> bytes list \<Rightarrow> ustr option \<Rightarrow> pyval" where
  "receipt_value i path manifest =
     PDict ([(lit ''index'', PInt (int i)), (lit ''path'', PList (map (PStr o b64) path))]
       @ (case manifest of Some m \<Rightarrow> [(lit ''manifest'', PStr m)] | None \<Rightarrow> []))"

definition receipt :: "sealed_batch \<Rightarrow> pyval \<Rightarrow> bool \<Rightarrow> bytes result" where
  "receipt b index include_manifest =
     (case as_int index of
        None \<Rightarrow> Inl (ValueError ''index outside sealed batch'')
      | Some i \<Rightarrow>
          if \<not> (0 \<le> i \<and> i < int (length (sb_paths b)))
          then Inl (ValueError ''index outside sealed batch'')
          else Inr (encode (receipt_value (nat i) (sb_paths b ! nat i)
                      (if include_manifest then Some (sb_manifest b) else None))))"

definition manifest_payload :: "ustr \<Rightarrow> nat \<Rightarrow> bytes \<Rightarrow> pyval" where
  "manifest_payload context py_count root =
     PDict [(lit ''profile'', PStr PROFILE), (lit ''context'', PStr context),
       (lit ''count'', PInt (int py_count)), (lit ''root'', PStr (b64 root))]"

definition seal_records ::
    "pyval iterable \<Rightarrow> pyval \<Rightarrow> pyval \<Rightarrow> signer \<Rightarrow> sealed_batch result" where
  "seal_records recs context key_id sign_digests =
     bind_res (check_label context) (\<lambda>ctx.
     bind_res (check_label key_id) (\<lambda>kid.
     bind_res (py_messages recs) (\<lambda>recs.
       if recs = [] then Inl (ValueError ''cannot seal an empty export'')
       else let (root, paths) = merkle_tree recs;
                payload = encode (manifest_payload ctx (length recs) root)
            in bind_res (sign_es256 (Items [PBytes payload]) key_id sign_digests) (\<lambda>tokens.
                 Inr \<lparr>sb_manifest = hd tokens, sb_paths = paths\<rparr>))))"

section \<open>Verification\<close>

record receipt_verifier =
  rv_key :: bytes
  rv_key_id :: ustr
  rv_context :: ustr
  rv_cache :: "(ustr \<times> bytes \<times> nat) list"

definition receipt_verifier_init ::
    "ossl \<Rightarrow> pyval \<Rightarrow> pyval \<Rightarrow> pyval \<Rightarrow> receipt_verifier result" where
  "receipt_verifier_init c public key_id context =
     bind_res (check_label key_id) (\<lambda>kid.
     bind_res (check_label context) (\<lambda>ctx.
       case as_bytes public of
         None \<Rightarrow> Inl (ValueError ''public_key must be encoded P-256 point bytes'')
       | Some p \<Rightarrow>
           if \<not> ec_point c p then Inl (ValueError ''invalid point encoding'')
           else Inr \<lparr>rv_key = p, rv_key_id = kid, rv_context = ctx, rv_cache = []\<rparr>))"

text \<open>The checks of \<open>_manifest\<close> on a token that is not cached.\<close>

definition check_payload :: "ustr \<Rightarrow> (ustr \<times> pyval) list \<Rightarrow> (bytes \<times> nat) result" where
  "check_payload ctx payload =
     (if set (map fst payload) \<noteq> {lit ''profile'', lit ''context'', lit ''count'', lit ''root''}
         \<or> map_of payload (lit ''profile'') \<noteq> Some (PStr PROFILE)
         \<or> map_of payload (lit ''context'') \<noteq> Some (PStr ctx)
      then Inl (ValueError ''unexpected record profile or context'')
      else (case as_int (the (map_of payload (lit ''count''))) of
              None \<Rightarrow> Inl (ValueError ''invalid signed record count'')
            | Some py_count \<Rightarrow>
                if \<not> (1 \<le> py_count \<and> py_count \<le> int MAX_BATCH)
                then Inl (ValueError ''invalid signed record count'')
                else bind_res (unb64 (the (map_of payload (lit ''root'')))) (\<lambda>root.
                       Inr (root, nat py_count))))"

definition check_token :: "ossl \<Rightarrow> receipt_verifier \<Rightarrow> ustr \<Rightarrow> (bytes \<times> nat) result" where
  "check_token c v token =
     (case split_dot token of
        [header_part, payload_part, signature_part] \<Rightarrow>
          bind_res (unb64 (PStr header_part)) (\<lambda>hb.
          bind_res (decode_object hb) (\<lambda>header.
            if set (map fst header) \<noteq> {lit ''alg'', lit ''kid''}
               \<or> map_of header (lit ''alg'') \<noteq> Some (PStr (lit ''ES256''))
               \<or> map_of header (lit ''kid'') \<noteq> Some (PStr (rv_key_id v))
            then Inl (ValueError ''unexpected signature profile or key id'')
            else
              bind_res (unb64 (PStr payload_part)) (\<lambda>pb.
              bind_res (decode_object pb) (\<lambda>payload.
              bind_res (check_payload (rv_context v) payload) (\<lambda>(root, py_count).
              bind_res (unb64 (PStr signature_part)) (\<lambda>signature.
                if length root \<noteq> 32 \<or> length signature \<noteq> 64
                then Inl (ValueError ''invalid root or signature size'')
                else if \<not> (0 < sig_r signature \<and> sig_r signature < ORDER)
                        \<or> \<not> (0 < sig_s signature \<and> sig_s signature \<le> ORDER div 2)
                then Inl (ValueError ''invalid or non-low-s signature'')
                else if \<not> ecdsa_verify c (rv_key v) (sig_r signature) (sig_s signature)
                       (sha256 (ascii_encode (header_part @ [46] @ payload_part)))
                then Inl InvalidSignature
                else Inr (root, py_count)))))))
      | _ \<Rightarrow> Inl (ValueError ''not enough values to unpack''))"

definition rv_manifest ::
    "ossl \<Rightarrow> receipt_verifier \<Rightarrow> pyval \<Rightarrow> (bytes \<times> nat) result \<times> receipt_verifier" where
  "rv_manifest c v token =
     (case as_str token of
        None \<Rightarrow> (Inl (ValueError ''invalid manifest''), v)
      | Some t \<Rightarrow>
          if \<not> isascii t \<or> MAX_MANIFEST_BYTES < length t
          then (Inl (ValueError ''invalid manifest''), v)
          else (case map_of (rv_cache v) t of
              Some found \<Rightarrow>
                (Inr found, v\<lparr>rv_cache := filter (\<lambda>e. fst e \<noteq> t) (rv_cache v) @ [(t, found)]\<rparr>)
            | None \<Rightarrow>
                (case check_token c v t of
                   Inl e \<Rightarrow> (Inl e, v)
                 | Inr found \<Rightarrow>
                     let cache = rv_cache v @ [(t, found)];
                         cache = (if 8 < length cache then tl cache else cache)
                     in (Inr found, v\<lparr>rv_cache := cache\<rparr>))))"

text \<open>The exceptions \<open>verify\<close> turns into \<open>False\<close>; \<open>Denied\<close> is a \<open>ValueError\<close>.\<close>

fun verify_catches :: "exn \<Rightarrow> bool" where
  "verify_catches (ValueError _) = True"
| "verify_catches (Denied _) = True"
| "verify_catches (TypeError _) = True"
| "verify_catches (UnicodeError _) = True"
| "verify_catches InvalidSignature = True"
| "verify_catches _ = False"

text \<open>The body of the \<open>try\<close> up to the call of \<open>_manifest\<close>: the path, or \<open>None\<close> for an early
  \<open>return False\<close>, with the manifest to look up.\<close>

definition read_receipt :: "bytes \<Rightarrow> int \<Rightarrow> pyval \<Rightarrow> (bytes list \<times> pyval) option result" where
  "read_receipt rc expected_index manifest =
     bind_res (decode_object rc) (\<lambda>item.
       let fields = (if manifest \<noteq> PNone then {lit ''index'', lit ''path''}
                     else {lit ''manifest'', lit ''index'', lit ''path''}) in
       if set (map fst item) \<noteq> fields
          \<or> as_int (the (map_of item (lit ''index''))) \<noteq> Some expected_index
       then Inr None
       else (case as_list (the (map_of item (lit ''path''))) of
               None \<Rightarrow> Inr None
             | Some proof \<Rightarrow>
                 if MAX_PROOF_NODES < length proof then Inr None
                 else bind_res (map_res unb64 proof) (\<lambda>path.
                   if \<exists>n \<in> set path. length n \<noteq> 32 then Inr None
                   else Inr (Some (path, if manifest \<noteq> PNone then manifest
                                         else the (map_of item (lit ''manifest'')))))))"

definition rv_verify ::
    "ossl \<Rightarrow> receipt_verifier \<Rightarrow> pyval \<Rightarrow> pyval \<Rightarrow> pyval \<Rightarrow> pyval \<Rightarrow> bool result \<times> receipt_verifier" where
  "rv_verify c v r rc expected_index manifest =
     (case (as_bytes r, as_bytes rc, as_int expected_index) of
        (Some r, Some rc, Some i) \<Rightarrow>
          if MAX_PAYLOAD < length r \<or> MAX_RECEIPT_BYTES < length rc \<or> \<not> (0 \<le> i \<and> i < int MAX_BATCH)
          then (Inr False, v)
          else (case read_receipt rc i manifest of
              Inl e \<Rightarrow> (if verify_catches e then Inr False else Inl e, v)
            | Inr None \<Rightarrow> (Inr False, v)
            | Inr (Some (path, token)) \<Rightarrow>
                (case rv_manifest c v token of
                   (Inl e, v) \<Rightarrow> (if verify_catches e then Inr False else Inl e, v)
                 | (Inr (root, py_count), v) \<Rightarrow>
                     (Inr (i < int py_count \<and> included r (nat i) py_count path root), v)))
      | _ \<Rightarrow> (Inr False, v))"

section \<open>Documents read back\<close>

lemma object_fields_eq:
  "object_fields result pairs =
     (if distinct (map fst pairs) \<and> fst ` set result \<inter> fst ` set pairs = {}
      then Some (result @ pairs) else None)"
  by (induction result pairs rule: object_fields.induct) auto

lemma object_hook_eq: "object_hook pairs = (if distinct (map fst pairs) then Some (PDict pairs) else None)"
  by (simp add: object_hook_def object_fields_eq)

interpretation obj: pairs_builder object_hook
  by unfold_locales (simp add: object_hook_eq)

lemma decode_object_text:
  "json_ok (PDict kvs) \<Longrightarrow> decode_object (ascii_encode (json_text (PDict kvs))) = Inr kvs"
  unfolding decode_object_def by (simp only: utf8_decode_encoded obj.json_loads_text option.case pyval.case)

lemma map_of_sort_key:
  "distinct (map fst kvs) \<Longrightarrow> map_of (sort_key fst kvs) = map_of kvs"
  by (rule map_of_inject_set [THEN iffD2]) (simp_all add: distinct_map_sort_key)

lemma map_of_sorted_values: "map_of (map (\<lambda>(k, v). (k, f v)) kvs) k = map_option f (map_of kvs k)"
  by (induction kvs) auto

lemma decode_object_encode:
  assumes "json_ok (PDict kvs)"
  obtains out where "decode_object (encode (PDict kvs)) = Inr out"
    and "set (map fst out) = set (map fst kvs)"
    and "\<And>k. map_of out k = map_option sort_keys (map_of kvs k)"
proof
  let ?out = "sort_key fst (map (\<lambda>(k, v). (k, sort_keys v)) kvs)"
  have "json_ok (PDict ?out)" using json_ok_sort_keys [OF assms] by simp
  then show "decode_object (encode (PDict kvs)) = Inr ?out"
    by (simp add: encode_def dumps_sorted_def decode_object_text del: json_text.simps json_ok.simps)
  show "set (map fst ?out) = set (map fst kvs)"
    by (auto simp: image_iff) force+
  have "distinct (map fst (map (\<lambda>(k, v). (k, sort_keys v)) kvs))"
    using assms unfolding map_fst_sort_keys by simp
  then show "map_of ?out k = map_option sort_keys (map_of kvs k)" for k
    by (simp add: map_of_sort_key map_of_sorted_values)
qed

lemma isascii_encode: "json_ok v \<Longrightarrow> isascii (dumps_sorted v)"
  by (simp add: dumps_sorted_def isascii_json_text json_ok_sort_keys)

lemma scalar_ascii: "c < 128 \<Longrightarrow> scalar c"
  by (simp add: scalar_def)

lemma json_ok_ascii: "isascii s \<Longrightarrow> json_ok (PStr s)"
  by (auto simp: isascii_def scalar_ascii)

lemma key_label_ascii: "key_label_ok s \<Longrightarrow> isascii s"
  by (simp add: key_label_ok_def)

lemma json_ok_lit: "(\<forall>c \<in> set s. (of_char c :: nat) < 128) \<Longrightarrow> \<forall>c \<in> set (lit s). scalar c"
  by (auto simp: lit_def scalar_ascii)

lemma json_ok_header: "key_label_ok kid \<Longrightarrow> json_ok (jws_header kid)"
  using json_ok_ascii [OF key_label_ascii, of kid]
  by (simp add: jws_header_def) (simp add: lit_def scalar_def)

lemma json_ok_payload: "key_label_ok ctx \<Longrightarrow> json_ok (manifest_payload ctx n root)"
  using json_ok_ascii [OF key_label_ascii, of ctx] json_ok_ascii [OF isascii_b64, of root]
  by (simp add: manifest_payload_def) (simp add: lit_def scalar_def PROFILE_def)

lemma json_ok_receipt:
  "\<forall>m \<in> set_option manifest. isascii m \<Longrightarrow> json_ok (receipt_value i path manifest)"
  using json_ok_ascii json_ok_ascii [OF isascii_b64]
  by (cases manifest) (simp_all add: receipt_value_def lit_def scalar_def)

section \<open>A token of the issuer passes the checks\<close>

lemma check_payload_manifest:
  assumes "1 \<le> n" and "n \<le> MAX_BATCH" and "root \<noteq> []"
    and "set (map fst out) = set (map fst kvs)"
    and "\<And>k. map_of out k = map_option sort_keys (map_of kvs k)"
    and "manifest_payload ctx n root = PDict kvs"
  shows "check_payload ctx out = Inr (root, n)"
  using assms(1-3) unfolding check_payload_def assms(4,5)
  using assms(6) by (auto simp: manifest_payload_def insert_commute)

lemma ecdsa_of_verify:
  "verify_p256 c (PBytes p) (PBytes h) (PBytes g) \<Longrightarrow> ecdsa_verify c p (sig_r g) (sig_s g) h"
  by (auto simp: verify_p256_def Let_def split: if_splits)

lemma check_token_complete:
  assumes kid: "key_label_ok (rv_key_id v)" and ctx: "key_label_ok (rv_context v)"
    and n: "1 \<le> n" "n \<le> MAX_BATCH" and root: "length root = 32" and g: "valid_low_s g"
    and sig: "ecdsa_verify c (rv_key v) (sig_r g) (sig_s g)
      (sha256 (ascii_encode (signing_input (rv_key_id v)
        (encode (manifest_payload (rv_context v) n root)))))"
  shows "check_token c v (compact_token (rv_key_id v)
      (encode (manifest_payload (rv_context v) n root)) g) = Inr (root, n)"
proof -
  let ?p = "encode (manifest_payload (rv_context v) n root)"
  let ?h = "ascii_encode (json_text (jws_header (rv_key_id v)))"
  obtain kvs where kvs: "manifest_payload (rv_context v) n root = PDict kvs"
    by (simp add: manifest_payload_def)
  from json_ok_payload [OF ctx, of n root] have "json_ok (PDict kvs)" by (simp only: kvs)
  from decode_object_encode [OF this] obtain out where out: "decode_object ?p = Inr out"
    and f: "set (map fst out) = set (map fst kvs)"
    and m: "\<And>k. map_of out k = map_option sort_keys (map_of kvs k)" unfolding kvs by blast
  have pl: "check_payload (rv_context v) out = Inr (root, n)"
    by (rule check_payload_manifest [OF n _ f m kvs]) (use root in auto)
  have hd: "decode_object ?h
      = Inr [(lit ''alg'', PStr (lit ''ES256'')), (lit ''kid'', PStr (rv_key_id v))]"
    using decode_object_text [OF json_ok_header [OF kid, unfolded jws_header_def]]
    by (simp only: jws_header_def)
  have ne: "?h \<noteq> []" "?p \<noteq> []" "g \<noteq> []"
    using g by (auto simp: jws_header_def manifest_payload_def encode_def ascii_encode_def
        dumps_sorted_def valid_low_s_def)
  show ?thesis
    unfolding check_token_def split_compact_token list.case
    using ne hd out pl root g sig
    by (auto simp: valid_low_s_def signing_input_def)
qed

section \<open>Sizes\<close>

lemma length_dec_nat: "n < 10 ^ k \<Longrightarrow> 1 \<le> k \<Longrightarrow> length (dec_nat n) \<le> k"
proof (induction k arbitrary: n)
  case (Suc k)
  show ?case
  proof (cases "n < 10")
    case True
    then show ?thesis by (simp add: dec_nat.simps)
  next
    case False
    with Suc.prems have "n div 10 < 10 ^ k" "1 \<le> k"
      by (auto simp: div_less_iff_less_mult) (cases k; simp)
    with Suc.IH [of "n div 10"] False show ?thesis by (simp add: dec_nat.simps [of n])
  qed
qed simp

lemma length_json_str: "isprintable_ascii s \<Longrightarrow> length (json_str s) \<le> 2 * length s + 2"
proof -
  have "length (concat (map json_escape s)) \<le> 2 * length s" if "\<forall>c \<in> set s. 32 \<le> c \<and> c < 127"
    using that by (induction s) (auto simp: json_escape_def)
  then show "isprintable_ascii s \<Longrightarrow> length (json_str s) \<le> 2 * length s + 2"
    by (simp add: json_str_def isprintable_ascii_def)
qed

lemma escape_b64_char: "n < 64 \<Longrightarrow> json_escape (b64_char n) = [b64_char n]"
proof -
  assume "n < 64"
  then have "b64_char n = 45 \<or> b64_char n = 95 \<or> 48 \<le> b64_char n \<and> b64_char n \<le> 57
      \<or> 65 \<le> b64_char n \<and> b64_char n \<le> 90 \<or> 97 \<le> b64_char n \<and> b64_char n \<le> 122"
    by (simp add: b64_char_def) linarith
  then show ?thesis by (auto simp: json_escape_def)
qed

lemma escape_b64: "concat (map json_escape (b64 b)) = b64 b"
proof -
  have "concat (map json_escape s) = s" if "\<forall>c \<in> set s. \<exists>n<64. c = b64_char n" for s
    using that by (induction s) (auto simp: escape_b64_char)
  then show ?thesis using b64_chars by blast
qed

lemma length_json_str_b64: "length (json_str (b64 b)) = length (b64 b) + 2"
  by (simp add: json_str_def escape_b64)

lemma length_json_str_token: "length (json_str (compact_token kid p g)) = length (compact_token kid p g) + 2"
proof -
  have "concat (map json_escape (compact_token kid p g)) = compact_token kid p g"
    by (simp add: compact_token_def signing_input_def escape_b64 json_escape_def)
  then show ?thesis by (simp add: json_str_def)
qed

lemma length_header: "key_label_ok kid \<Longrightarrow> length (json_text (jws_header kid)) \<le> 282"
  using length_json_str [of kid]
  by (simp add: jws_header_def key_label_ok_def) (simp add: json_str_def json_escape_def lit_def)

lemma sort_manifest_payload:
  "sort_keys (manifest_payload ctx n root) =
     PDict [(lit ''context'', PStr ctx), (lit ''count'', PInt (int n)),
       (lit ''profile'', PStr PROFILE), (lit ''root'', PStr (b64 root))]"
  by (simp add: manifest_payload_def) (simp add: lit_def)

lemma length_payload:
  assumes "key_label_ok ctx" and "n \<le> MAX_BATCH" and "length root = 32"
  shows "length (encode (manifest_payload ctx n root)) \<le> 410"
proof -
  have "length (dec_nat n) \<le> 4"
    using assms(2) by (intro length_dec_nat) (simp_all add: MAX_BATCH_def)
  moreover have "length (json_str (b64 root)) = 45"
    using assms(3) by (simp add: length_json_str_b64 length_b64)
  moreover have "length (json_str ctx) \<le> 258"
    using length_json_str [of ctx] assms(1) by (simp add: key_label_ok_def)
  moreover have "length (json_str PROFILE) \<le> 60"
    using length_json_str [of PROFILE] by (simp add: PROFILE_def isprintable_ascii_def lit_def)
  ultimately show ?thesis
    by (simp add: encode_def dumps_sorted_def sort_manifest_payload dec_int_def)
       (simp add: json_str_def json_escape_def lit_def)
qed

lemma length_manifest:
  assumes "key_label_ok kid" and "key_label_ok ctx" and "n \<le> MAX_BATCH" and "length root = 32"
    and "length g = 64"
  shows "length (compact_token kid (encode (manifest_payload ctx n root)) g) \<le> 1020"
  using length_header [OF assms(1)] length_payload [OF assms(2-4)]
  by (simp add: length_compact_token assms(5))

lemma sort_receipt_value:
  "sort_keys (receipt_value i path manifest) =
     PDict ((lit ''index'', PInt (int i))
       # (case manifest of Some m \<Rightarrow> [(lit ''manifest'', PStr m)] | None \<Rightarrow> [])
       @ [(lit ''path'', PList (map (PStr o b64) path))])"
  by (cases manifest) (simp_all add: receipt_value_def, simp_all add: lit_def)

lemma length_join_comma:
  "(\<And>x. x \<in> set xs \<Longrightarrow> length x \<le> n) \<Longrightarrow> length (join_comma xs) \<le> Suc n * length xs"
proof (induction xs rule: join_comma.induct)
  case (3 x y r)
  have "length x \<le> n" by (rule "3.prems") simp
  moreover have "length (join_comma (y # r)) \<le> Suc n * length (y # r)"
    by (rule "3.IH", rule "3.prems") simp
  ultimately show ?case by simp
qed auto

lemma length_receipt:
  assumes "i < MAX_BATCH" and "length path \<le> 12" and "\<forall>x \<in> set path. length x = 32"
    and "\<forall>m \<in> set_option manifest. length (json_str m) \<le> 2002"
  shows "length (encode (receipt_value i path manifest)) \<le> MAX_RECEIPT_BYTES"
proof -
  have "length (dec_nat i) \<le> 4"
    using assms(1) by (intro length_dec_nat) (simp_all add: MAX_BATCH_def)
  moreover have "length (join_comma (map json_text (map (PStr o b64) path))) \<le> 46 * length path"
    using length_join_comma [of "map json_text (map (PStr o b64) path)" 45] assms(3)
    by (fastforce simp: length_json_str_b64 length_b64)
  moreover have "46 * length path \<le> 552" using assms(2) by simp
  ultimately show ?thesis
    using assms(4) unfolding encode_def dumps_sorted_def sort_receipt_value MAX_RECEIPT_BYTES_def
    by (cases manifest) (simp_all add: dec_int_def o_def, simp_all add: json_str_def json_escape_def lit_def)
qed

section \<open>The verifier as a state machine\<close>

text \<open>
  What a call should answer, as a property of its arguments and of the configuration only: the
  receipt parses, its manifest passes the checks under the fixed key, key id and context, and
  the path leads from the record to the signed root.
\<close>

definition trusted :: "ossl \<Rightarrow> receipt_verifier \<Rightarrow> pyval \<Rightarrow> bytes \<Rightarrow> nat \<Rightarrow> bool" where
  "trusted c v token root n \<longleftrightarrow> (case as_str token of
     None \<Rightarrow> False
   | Some t \<Rightarrow> isascii t \<and> length t \<le> MAX_MANIFEST_BYTES \<and> check_token c v t = Inr (root, n))"

definition accepts :: "ossl \<Rightarrow> receipt_verifier \<Rightarrow> bytes \<Rightarrow> bytes \<Rightarrow> int \<Rightarrow> pyval \<Rightarrow> bool" where
  "accepts c v r rc i manifest \<longleftrightarrow>
     length r \<le> MAX_PAYLOAD \<and> length rc \<le> MAX_RECEIPT_BYTES \<and> 0 \<le> i \<and> i < int MAX_BATCH
     \<and> (\<exists>path token root n. read_receipt rc i manifest = Inr (Some (path, token))
          \<and> trusted c v token root n \<and> i < int n \<and> included r (nat i) n path root)"

definition rv_inv :: "ossl \<Rightarrow> receipt_verifier \<Rightarrow> bool" where
  "rv_inv c v \<longleftrightarrow> length (rv_cache v) \<le> 8 \<and> distinct (map fst (rv_cache v))
     \<and> (\<forall>(t, found) \<in> set (rv_cache v). check_token c v t = Inr found)"

definition same_config :: "receipt_verifier \<Rightarrow> receipt_verifier \<Rightarrow> bool" where
  "same_config v w \<longleftrightarrow> rv_key v = rv_key w \<and> rv_key_id v = rv_key_id w \<and> rv_context v = rv_context w"

lemma check_token_config: "same_config v w \<Longrightarrow> check_token c v t = check_token c w t"
proof -
  assume "same_config v w"
  then have eqs: "rv_key v = rv_key w" "rv_key_id v = rv_key_id w" "rv_context v = rv_context w"
    by (simp_all add: same_config_def)
  show ?thesis unfolding check_token_def eqs ..
qed

lemma check_token_cache [simp]: "check_token c (v\<lparr>rv_cache := x\<rparr>) t = check_token c v t"
  by (rule check_token_config) (simp add: same_config_def)

lemma map_res_Inl: "map_res f xs = Inl e \<Longrightarrow> \<exists>x. f x = Inl e"
  by (induction xs) (auto simp: bind_res_def split: sum.splits)

lemma bind_res_Inl_iff: "bind_res m f = Inl e \<longleftrightarrow> m = Inl e \<or> (\<exists>x. m = Inr x \<and> f x = Inl e)"
  by (cases m) auto

lemma decode_object_catches [raises_intros]: "raises_only verify_catches (decode_object b)"
  by (auto simp: raises_only_def decode_object_def split: option.splits pyval.splits)

lemma unb64_catches [raises_intros]: "raises_only verify_catches (unb64 x)"
  by (auto simp: raises_only_def dest!: unb64_Inl_ValueError)

lemma check_payload_catches [raises_intros]: "raises_only verify_catches (check_payload ctx kvs)"
  unfolding check_payload_def by (intro raises_intros; simp)

lemma raises_only_three:
  "P e \<Longrightarrow> (\<And>x y z. raises_only P (f x y z)) \<Longrightarrow>
    raises_only P (case xs of [x, y, z] \<Rightarrow> f x y z | _ \<Rightarrow> Inl e)"
  by (auto simp: raises_only_def split: list.splits)

lemma check_token_catches: "check_token c v t = Inl e \<Longrightarrow> verify_catches e"
proof (erule raises_onlyD [rotated])
  show "raises_only verify_catches (check_token c v t)"
    unfolding check_token_def by (intro raises_only_three raises_intros; simp)
qed

lemma read_receipt_catches: "read_receipt rc i m = Inl e \<Longrightarrow> verify_catches e"
proof (erule raises_onlyD [rotated])
  show "raises_only verify_catches (read_receipt rc i m)"
    unfolding read_receipt_def Let_def by (intro raises_intros; simp)
qed

text \<open>One lookup: the answer does not depend on the cache, and the cache stays sound.\<close>

lemma rv_inv_hit:
  assumes "rv_inv c v" and "map_of (rv_cache v) t = Some found"
  shows "rv_inv c (v\<lparr>rv_cache := filter (\<lambda>e. fst e \<noteq> t) (rv_cache v) @ [(t, found)]\<rparr>)"
proof -
  have mem: "(t, found) \<in> set (rv_cache v)" using assms(2) by (rule map_of_SomeD)
  then have "length (filter (\<lambda>e. fst e \<noteq> t) (rv_cache v)) < length (rv_cache v)"
    by (intro length_filter_less [of "(t, found)"]) auto
  moreover have "distinct (map fst (filter (\<lambda>e. fst e \<noteq> t) (rv_cache v)))"
    using assms(1) by (auto simp: rv_inv_def distinct_map_filter)
  ultimately show ?thesis using assms(1) mem by (auto simp: rv_inv_def)
qed

lemma rv_inv_miss:
  assumes "rv_inv c v" and "map_of (rv_cache v) t = None" and "check_token c v t = Inr found"
    and "cache = rv_cache v @ [(t, found)]"
  shows "rv_inv c (v\<lparr>rv_cache := (if 8 < length cache then tl cache else cache)\<rparr>)"
proof -
  have "distinct (map fst cache)" "\<forall>(t, found) \<in> set cache. check_token c v t = Inr found"
    "length cache \<le> 9"
    using assms by (auto simp: rv_inv_def map_of_eq_None_iff)
  moreover have "set (tl cache) \<subseteq> set cache" by (cases cache) auto
  ultimately show ?thesis by (auto simp: rv_inv_def map_tl distinct_tl)
qed

lemma rv_manifest_spec:
  assumes "rv_inv c v"
  obtains v' where "rv_inv c v'" and "same_config v' v" and "snd (rv_manifest c v token) = v'"
    and "fst (rv_manifest c v token) = Inr (root, n) \<longleftrightarrow> trusted c v token root n"
    and "\<And>e. fst (rv_manifest c v token) = Inl e \<Longrightarrow> verify_catches e"
proof
  let ?v' = "snd (rv_manifest c v token)"
  show "snd (rv_manifest c v token) = ?v'" by simp
  show "rv_inv c ?v'"
  proof (cases "as_str token")
    case None
    then show ?thesis using assms by (simp add: rv_manifest_def)
  next
    case (Some t)
    then show ?thesis
      using assms rv_inv_hit [OF assms, of t] rv_inv_miss [OF assms, of t _ "rv_cache v @ [(t, _)]"]
      unfolding rv_manifest_def Let_def
      by (cases "map_of (rv_cache v) t"; cases "check_token c v t") (auto split del: if_split split: if_splits(1))
  qed
  show "same_config ?v' v"
    by (auto simp: rv_manifest_def Let_def same_config_def split: option.splits sum.splits)
  have hit: "check_token c v t = Inr found" if "map_of (rv_cache v) t = Some found" for t found
    using assms map_of_SomeD [OF that] by (auto simp: rv_inv_def)
  show "fst (rv_manifest c v token) = Inr (root, n) \<longleftrightarrow> trusted c v token root n"
    by (auto simp: rv_manifest_def trusted_def Let_def dest: hit split: option.splits sum.splits)
  show "verify_catches e" if "fst (rv_manifest c v token) = Inl e" for e
    using that by (auto simp: rv_manifest_def Let_def intro: check_token_catches
        split: option.splits sum.splits if_splits)
qed

lemma rv_verify_correct:
  assumes "rv_inv c v"
  shows "\<exists>v'. rv_verify c v (PBytes r) (PBytes rc) (PInt i) manifest
      = (Inr (accepts c v r rc i manifest), v') \<and> rv_inv c v' \<and> same_config v' v"
proof (cases "MAX_PAYLOAD < length r \<or> MAX_RECEIPT_BYTES < length rc \<or> \<not> (0 \<le> i \<and> i < int MAX_BATCH)")
  case True
  then show ?thesis using assms by (auto simp: rv_verify_def accepts_def same_config_def)
next
  case bounds: False
  show ?thesis
  proof (cases "read_receipt rc i manifest")
    case (Inl e)
    then show ?thesis
      using bounds assms read_receipt_catches [OF Inl]
      by (auto simp: rv_verify_def accepts_def same_config_def)
  next
    case (Inr found)
    show ?thesis
    proof (cases found)
      case None
      then show ?thesis using bounds assms Inr
        by (auto simp: rv_verify_def accepts_def same_config_def)
    next
      case (Some pt)
      then obtain path token where f: "found = Some (path, token)" by (cases pt) auto
      have run: "rv_verify c v (PBytes r) (PBytes rc) (PInt i) manifest =
          (case rv_manifest c v token of
             (Inl e, v) \<Rightarrow> (if verify_catches e then Inr False else Inl e, v)
           | (Inr (root, n), v) \<Rightarrow> (Inr (i < int n \<and> included r (nat i) n path root), v))"
        using bounds Inr f by (auto simp: rv_verify_def)
      have acc: "accepts c v r rc i manifest \<longleftrightarrow>
          (\<exists>root n. trusted c v token root n \<and> i < int n \<and> included r (nat i) n path root)"
        using bounds Inr f by (auto simp: accepts_def)
      obtain res v' where m: "rv_manifest c v token = (res, v')" by fastforce
      have v': "rv_inv c v'" "same_config v' v"
        by (rule rv_manifest_spec [OF assms, of token]; simp add: m)+
      have res: "res = Inr (root, n) \<longleftrightarrow> trusted c v token root n" for root n
        by (rule rv_manifest_spec [OF assms, of token root n]) (simp add: m)
      have err: "verify_catches e" if "res = Inl e" for e
        by (rule rv_manifest_spec [OF assms, of token]) (simp add: m that)
      show ?thesis
      proof (cases res)
        case (Inl e)
        then have "\<not> accepts c v r rc i manifest" unfolding acc res [symmetric] by simp
        with Inl err v' show ?thesis by (simp add: run m)
      next
        case (Inr rn)
        then obtain root n where rn: "res = Inr (root, n)" by (cases rn) auto
        then have "accepts c v r rc i manifest \<longleftrightarrow> i < int n \<and> included r (nat i) n path root"
          unfolding acc res [symmetric] by auto
        with rn v' show ?thesis by (simp add: run m)
      qed
    qed
  qed
qed

lemma rv_verify_other:
  assumes "\<not> (\<exists>r' rc' i'. r = PBytes r' \<and> rc = PBytes rc' \<and> i = PInt i')"
  shows "rv_verify c v r rc i manifest = (Inr False, v)"
  using assms by (cases r; cases rc; cases i) (simp_all add: rv_verify_def)

lemma rv_verify_preserves:
  assumes "rv_inv c v"
  shows "rv_inv c (snd (rv_verify c v r rc i manifest))
    \<and> same_config (snd (rv_verify c v r rc i manifest)) v"
proof (cases "\<exists>r' rc' i'. r = PBytes r' \<and> rc = PBytes rc' \<and> i = PInt i'")
  case True
  then show ?thesis using rv_verify_correct [OF assms] by (metis snd_conv)
next
  case False
  from rv_verify_other [OF this] show ?thesis using assms by (simp add: same_config_def)
qed

text \<open>A history of calls.\<close>

definition rv_calls ::
    "ossl \<Rightarrow> receipt_verifier \<Rightarrow> (pyval \<times> pyval \<times> pyval \<times> pyval) list \<Rightarrow> receipt_verifier" where
  "rv_calls c v calls = foldl (\<lambda>v (r, rc, i, m). snd (rv_verify c v r rc i m)) v calls"

lemma rv_calls_inv:
  "rv_inv c v \<Longrightarrow> rv_inv c (rv_calls c v calls) \<and> same_config (rv_calls c v calls) v"
proof (induction calls rule: rev_induct)
  case Nil
  then show ?case by (simp add: rv_calls_def same_config_def)
next
  case (snoc x xs)
  then show ?case
    using rv_verify_preserves [of c "rv_calls c v xs"]
    by (cases x) (auto simp: rv_calls_def same_config_def)
qed

lemma accepts_config:
  assumes "same_config v w"
  shows "accepts c v r rc i m = accepts c w r rc i m"
proof -
  have e: "check_token c v = check_token c w" using check_token_config [OF assms] by blast
  show ?thesis unfolding accepts_def trusted_def e ..
qed

lemma init_Inr_iff:
  "receipt_verifier_init c public key_id context = Inr v \<longleftrightarrow>
     (\<exists>kid ctx p. key_id = PStr kid \<and> key_label_ok kid \<and> context = PStr ctx \<and> key_label_ok ctx
       \<and> public = PBytes p \<and> ec_point c p
       \<and> v = \<lparr>rv_key = p, rv_key_id = kid, rv_context = ctx, rv_cache = []\<rparr>)"
  by (cases public) (auto simp: receipt_verifier_init_def bind_res_Inr_iff check_label_Inr_iff)

lemma init_inv: "receipt_verifier_init c public key_id context = Inr v \<Longrightarrow> rv_inv c v"
  by (auto simp: init_Inr_iff rv_inv_def)

lemma fresh_verify:
  "receipt_verifier_init c public key_id context = Inr v \<Longrightarrow>
     fst (rv_verify c v (PBytes r) (PBytes rc) (PInt i) m) = Inr (accepts c v r rc i m)"
  using rv_verify_correct [OF init_inv, of c public key_id "context" v r rc i m] by (metis fst_conv)

text \<open>
  C28. The verifier's cache is transparent and bounded: whatever calls were made before, with
  arguments of any type, the next call raises nothing, answers exactly what the specification
  \<open>accepts\<close> says of a fresh verifier with the same key, key id and context, and leaves at most
  eight roots in the cache, each of which passes the full check.
\<close>

theorem verifier_history_irrelevant:
  assumes "receipt_verifier_init c public key_id context = Inr v"
  shows "fst (rv_verify c (rv_calls c v calls) (PBytes r) (PBytes rc) (PInt i) m)
      = Inr (accepts c v r rc i m)
    \<and> length (rv_cache (rv_calls c v calls)) \<le> 8
    \<and> (\<forall>(t, found) \<in> set (rv_cache (rv_calls c v calls)). check_token c v t = Inr found)"
proof -
  have inv: "rv_inv c (rv_calls c v calls)" and cfg: "same_config (rv_calls c v calls) v"
    using rv_calls_inv [OF init_inv [OF assms]] by auto
  from rv_verify_correct [OF inv, of r rc i m]
  have "fst (rv_verify c (rv_calls c v calls) (PBytes r) (PBytes rc) (PInt i) m)
      = Inr (accepts c v r rc i m)"
    unfolding accepts_config [OF cfg] by (elim exE conjE) simp
  with inv show ?thesis by (auto simp: rv_inv_def check_token_config [OF cfg])
qed

theorem verifier_history_irrelevant_witness:
  "\<exists>v. receipt_verifier_init demo_ossl (PBytes (replicate 65 4)) (PStr (lit ''k'')) (PStr (lit ''x'')) = Inr v
     \<and> length (rv_cache (rv_calls demo_ossl v [(PNone, PBytes [], PInt 0, PNone)])) \<le> 8"
proof -
  have k: "key_label_ok (lit ''k'')" "key_label_ok (lit ''x'')"
    by (simp_all add: key_label_ok_def isprintable_ascii_def lit_def)
  have p: "ec_point demo_ossl (replicate 65 4)" by (simp add: demo_ossl_def)
  let ?v = "\<lparr>rv_key = replicate 65 4, rv_key_id = lit ''k'', rv_context = lit ''x'', rv_cache = []\<rparr>"
  have i: "receipt_verifier_init demo_ossl (PBytes (replicate 65 4)) (PStr (lit ''k''))
      (PStr (lit ''x'')) = Inr ?v"
    unfolding init_Inr_iff using k p by (intro exI conjI) (rule refl | assumption)+
  show ?thesis
    by (rule exI [of _ ?v], rule conjI, rule i)
       (rule verifier_history_irrelevant [OF i, THEN conjunct2, THEN conjunct1])
qed

section \<open>From sealing to verification\<close>

lemma seal_records_Inr_iff:
  "seal_records (Items (map PBytes recs)) (PStr ctx) (PStr kid) sign = Inr sb \<longleftrightarrow>
     key_label_ok ctx \<and> key_label_ok kid \<and> recs \<noteq> []
     \<and> py_messages (Items (map PBytes recs)) = Inr recs
     \<and> (\<exists>tokens. sign_es256 (Items [PBytes (encode (manifest_payload ctx (length recs) (mth recs)))])
            (PStr kid) sign = Inr tokens
          \<and> sb = \<lparr>sb_manifest = hd tokens, sb_paths = map (\<lambda>i. mpath i recs) [0..<length recs]\<rparr>)"
proof -
  have "inj PBytes" by (simp add: inj_def)
  then have "py_messages (Items (map PBytes recs)) = Inr x \<Longrightarrow> x = recs" for x
    by (auto simp: py_messages_Inr_iff inj_map_eq_map)
  then show ?thesis
    by (auto simp: seal_records_def check_label_Inr_iff bind_res_Inr_iff merkle_tree_eq)
qed

lemma read_receipt_encode:
  assumes "length path \<le> 12" and "\<forall>x \<in> set path. length x = 32" and "i < MAX_BATCH"
  shows "isascii m \<Longrightarrow> read_receipt (encode (receipt_value i path (Some m))) (int i) PNone
      = Inr (Some (path, PStr m))"
    and "read_receipt (encode (receipt_value i path None)) (int i) (PStr m)
      = Inr (Some (path, PStr m))"
proof -
  have p: "map_res unb64 (map (PStr o b64) path) = Inr path"
    unfolding map_res_Inr_iff list_all2_map1 o_def using assms(2)
    by (intro list.rel_refl_strong) (auto simp: unb64_Inr_iff)
  have u: "encode (receipt_value i path manifest)
      = ascii_encode (json_text (sort_keys (receipt_value i path manifest)))" for manifest
    by (simp add: encode_def dumps_sorted_def)
  have ok: "\<forall>m \<in> set_option manifest. isascii m \<Longrightarrow>
      json_ok (sort_keys (receipt_value i path manifest))" for manifest
    by (intro json_ok_sort_keys json_ok_receipt)
  show "isascii m \<Longrightarrow> read_receipt (encode (receipt_value i path (Some m))) (int i) PNone
      = Inr (Some (path, PStr m))"
    using ok [of "Some m"] p assms(1,2) unfolding u sort_receipt_value read_receipt_def
    by (subst decode_object_text) (auto simp: MAX_PROOF_NODES_def o_def)
  show "read_receipt (encode (receipt_value i path None)) (int i) (PStr m) = Inr (Some (path, PStr m))"
    using ok [of None] p assms(1,2) unfolding u sort_receipt_value read_receipt_def
    by (subst decode_object_text) (auto simp: MAX_PROOF_NODES_def o_def)
qed

context digest_signer
begin

text \<open>What sealing with such a callback gives, and that its manifest passes the checks.\<close>

lemma sealed_manifest:
  assumes "seal_records (Items (map PBytes recs)) (PStr ctx) (PStr kid) sign = Inr sb"
  obtains g where "sb_manifest sb = compact_token kid (encode (manifest_payload ctx (length recs) (mth recs))) g"
    and "valid_low_s g"
    and "genuine (sha256 (ascii_encode (signing_input kid
           (encode (manifest_payload ctx (length recs) (mth recs)))))) g"
    and "sb_paths sb = map (\<lambda>i. mpath i recs) [0..<length recs]"
proof -
  let ?p = "encode (manifest_payload ctx (length recs) (mth recs))"
  from assms obtain tokens where t: "sign_es256 (Items (map PBytes [?p])) (PStr kid) sign = Inr tokens"
    and sb: "sb = \<lparr>sb_manifest = hd tokens, sb_paths = map (\<lambda>i. mpath i recs) [0..<length recs]\<rparr>"
    by (auto simp: seal_records_Inr_iff)
  from one_token_genuine [OF t] obtain g where "tokens = [compact_token kid ?p g]" "valid_low_s g"
    "genuine (sha256 (ascii_encode (signing_input kid ?p))) g" .
  with sb show ?thesis by (intro that [of g]) auto
qed

lemma sealed_token_checked:
  assumes s: "seal_records (Items (map PBytes recs)) (PStr ctx) (PStr kid) sign = Inr sb"
    and v: "rv_key_id v = kid" "rv_context v = ctx"
    and gen: "\<And>h g. genuine h g \<Longrightarrow> ecdsa_verify c (rv_key v) (sig_r g) (sig_s g) h"
  shows "trusted c v (PStr (sb_manifest sb)) (mth recs) (length recs)
    \<and> isascii (sb_manifest sb) \<and> length (json_str (sb_manifest sb)) \<le> 1022"
proof -
  from s have lab: "key_label_ok ctx" "key_label_ok kid"
    and n: "1 \<le> length recs" "length recs \<le> MAX_BATCH"
    by (auto simp: seal_records_Inr_iff py_messages_Inr_iff Suc_le_eq)
  from sealed_manifest [OF s] obtain g
    where m: "sb_manifest sb = compact_token kid (encode (manifest_payload ctx (length recs) (mth recs))) g"
    and g: "valid_low_s g" and sg: "genuine (sha256 (ascii_encode (signing_input kid
           (encode (manifest_payload ctx (length recs) (mth recs)))))) g" by blast
  have chk: "check_token c v (sb_manifest sb) = Inr (mth recs, length recs)"
    unfolding m v [symmetric]
    by (rule check_token_complete) (use lab n g gen [OF sg] in \<open>simp_all add: v\<close>)
  have "length (sb_manifest sb) \<le> 1020"
    unfolding m using g lab n(2) by (intro length_manifest) (simp_all add: valid_low_s_def)
  with chk show ?thesis
    by (simp add: trusted_def MAX_MANIFEST_BYTES_def m length_json_str_token)
qed

text \<open>The recipient accepts every receipt of the batch, with the manifest inside or aside.\<close>

lemma receipts_accepted:
  assumes s: "seal_records (Items (map PBytes recs)) (PStr ctx) (PStr kid) sign = Inr sb"
    and v: "rv_key_id v = kid" "rv_context v = ctx"
    and gen: "\<And>h g. genuine h g \<Longrightarrow> ecdsa_verify c (rv_key v) (sig_r g) (sig_s g) h"
    and i: "i < length recs"
  shows "\<exists>rc. receipt sb (PInt (int i)) True = Inr rc \<and> accepts c v (recs ! i) rc (int i) PNone"
    and "\<exists>rc. receipt sb (PInt (int i)) False = Inr rc
      \<and> accepts c v (recs ! i) rc (int i) (PStr (sb_manifest sb))"
proof -
  note tr = sealed_token_checked [OF s v gen]
  from s have n: "1 \<le> length recs" "length recs \<le> MAX_BATCH"
    and size: "length (recs ! i) \<le> MAX_PAYLOAD"
    using i by (auto simp: seal_records_Inr_iff py_messages_Inr_iff Suc_le_eq)
  from sealed_manifest [OF s] have paths: "sb_paths sb = map (\<lambda>i. mpath i recs) [0..<length recs]"
    by blast
  have p: "length (mpath i recs) \<le> 12" "\<forall>x \<in> set (mpath i recs). length x = 32" "i < MAX_BATCH"
    using n i length_mpath_12 [of recs i] mpath_nodes by (auto simp: MAX_BATCH_def)
  have rc: "receipt sb (PInt (int i)) b = Inr (encode (receipt_value i (mpath i recs)
      (if b then Some (sb_manifest sb) else None)))" for b
    using i by (simp add: receipt_def paths)
  have inc: "included (recs ! i) i (length recs) (mpath i recs) (mth recs)"
    by (rule included_mpath [OF i])
  show "\<exists>rc. receipt sb (PInt (int i)) True = Inr rc \<and> accepts c v (recs ! i) rc (int i) PNone"
    unfolding rc accepts_def
    using read_receipt_encode(1) [OF p, of "sb_manifest sb"] tr inc p size i
      length_receipt [OF p(3,1,2), of "Some (sb_manifest sb)"] by auto
  show "\<exists>rc. receipt sb (PInt (int i)) False = Inr rc
      \<and> accepts c v (recs ! i) rc (int i) (PStr (sb_manifest sb))"
    unfolding rc accepts_def
    using read_receipt_encode(2) [OF p, of "sb_manifest sb"] tr inc p size i
      length_receipt [OF p(3,1,2), of None] by auto
qed

end

text \<open>
  Soundness needs no assumption on the callback: what the manifest commits to is fixed by its
  text, however it was signed.
\<close>

lemma check_token_parts:
  assumes "check_token c v (compact_token kid p g) = Inr (root, n)"
  shows "\<exists>payload. decode_object p = Inr payload \<and> check_payload (rv_context v) payload = Inr (root, n)"
  using assms unfolding check_token_def split_compact_token list.case
  by (auto simp: bind_res_Inr_iff unb64_Inr_iff split: if_splits prod.splits)

lemma check_token_manifest:
  assumes "check_token c v (compact_token kid (encode (manifest_payload ctx n root)) g) = Inr (root', n')"
    and "key_label_ok ctx" and "root \<noteq> []"
  shows "root' = root \<and> n' = n"
proof -
  obtain kvs where kvs: "manifest_payload ctx n root = PDict kvs" by (simp add: manifest_payload_def)
  from json_ok_payload [OF assms(2), of n root] have "json_ok (PDict kvs)" by (simp only: kvs)
  from decode_object_encode [OF this] obtain out where out: "decode_object (encode (PDict kvs)) = Inr out"
    and m: "\<And>k. map_of out k = map_option sort_keys (map_of kvs k)" by blast
  from check_token_parts [OF assms(1)] out have "check_payload (rv_context v) out = Inr (root', n')"
    by (simp add: kvs)
  then show ?thesis
    using assms(3) kvs by (auto simp: check_payload_def m manifest_payload_def bind_res_Inr_iff
        split: if_splits option.splits)
qed

lemma seal_manifest_text:
  assumes "seal_records (Items (map PBytes recs)) (PStr ctx) (PStr kid) sign = Inr sb"
  obtains g where "sb_manifest sb = compact_token kid (encode (manifest_payload ctx (length recs) (mth recs))) g"
proof -
  let ?p = "encode (manifest_payload ctx (length recs) (mth recs))"
  from assms obtain tokens where t: "sign_es256 (Items (map PBytes [?p])) (PStr kid) sign = Inr tokens"
    and sb: "sb_manifest sb = hd tokens"
    by (auto simp: seal_records_Inr_iff)
  from one_token [OF t] sb show ?thesis by (metis list.sel(1) that)
qed

text \<open>With the CPU signer, sealing valid input succeeds.\<close>

lemma cpu_seal_total:
  assumes "ecdsa_law c" and "cpu_public_key c (PBytes k) = Inr pub"
    and "key_label_ok ctx" and "key_label_ok kid" and "recs \<noteq> []"
    and "py_messages (Items (map PBytes recs)) = Inr recs"
  shows "\<exists>sb. seal_records (Items (map PBytes recs)) (PStr ctx) (PStr kid) (cpu_signer c (PBytes k)) = Inr sb"
proof -
  let ?p = "encode (manifest_payload ctx (length recs) (mth recs))"
  from assms(6) have "length recs \<le> MAX_BATCH" by (simp add: py_messages_Inr_iff)
  then have "length ?p \<le> 410" using assms(3) by (intro length_payload) simp_all
  then have "length ?p \<le> MAX_PAYLOAD" by (simp add: MAX_PAYLOAD_def)
  from cpu_one_token_total [OF assms(1,2,4) this] obtain tokens where
    "sign_es256 (Items [PBytes ?p]) (PStr kid) (cpu_signer c (PBytes k)) = Inr tokens" by auto
  with assms(3-6) show ?thesis unfolding seal_records_Inr_iff by blast
qed

text \<open>
  C19. Seal, hand out, verify: for every record of a batch sealed with the CPU signer, the receipt
  the issuer writes, with the manifest inside it or handed over separately, is accepted by a
  recipient that was configured with the public key of the same private key, the same key id
  and the same context. In particular the size limits of the recipient never reject an honest
  receipt.
\<close>

theorem sealed_receipts_verify:
  assumes "ecdsa_law c" and "cpu_public_key c key = Inr pub"
    and "seal_records (Items (map PBytes recs)) (PStr ctx) (PStr kid) (cpu_signer c key) = Inr sb"
    and "receipt_verifier_init c (PBytes pub) (PStr kid) (PStr ctx) = Inr v"
    and "i < length recs"
  shows "(\<exists>rc. receipt sb (PInt (int i)) True = Inr rc
       \<and> fst (rv_verify c v (PBytes (recs ! i)) (PBytes rc) (PInt (int i)) PNone) = Inr True)
    \<and> (\<exists>rc. receipt sb (PInt (int i)) False = Inr rc
       \<and> fst (rv_verify c v (PBytes (recs ! i)) (PBytes rc) (PInt (int i)) (PStr (sb_manifest sb)))
           = Inr True)"
proof -
  from assms(4) have v: "rv_key_id v = kid" "rv_context v = ctx" "rv_key v = pub"
    by (auto simp: init_Inr_iff)
  note signer = cpu_signer_contract [OF assms(1,2)]
  note acc = digest_signer.receipts_accepted [OF signer assms(3) v(1,2) _ assms(5), of c]
  show ?thesis
    unfolding fresh_verify [OF assms(4)] using acc by (simp add: v(3) ecdsa_of_verify)
qed

lemma demo_public_key:
  "cpu_public_key demo_ossl (PBytes (replicate 31 0 @ [1])) = Inr (to_bytes_big 65 1)"
proof -
  have "py_digests (PBytes (replicate 31 0 @ [1])) (Items (map PBytes [])) = Inr (1, [])"
    unfolding py_digests_Inr_iff using demo_key ORDER_bounds(1) by auto
  then show ?thesis by (simp add: cpu_public_key_def public_key_def demo_ossl_def)
qed

lemma demo_seal:
  "\<exists>sb. seal_records (Items (map PBytes [[1], [2]])) (PStr (lit ''x'')) (PStr (lit ''k''))
     (cpu_signer demo_ossl (PBytes (replicate 31 0 @ [1]))) = Inr sb"
proof (rule cpu_seal_total [OF demo_ecdsa_law demo_public_key])
  show "key_label_ok (lit ''x'')" "key_label_ok (lit ''k'')"
    by (simp_all add: key_label_ok_def isprintable_ascii_def lit_def)
  show "py_messages (Items (map PBytes [[1], [2]])) = Inr [[1], [2]]"
    by (simp add: py_messages_Inr_iff MAX_BATCH_def MAX_PAYLOAD_def MAX_WORK_def)
qed simp

definition demo_verifier :: receipt_verifier where
  "demo_verifier = \<lparr>rv_key = to_bytes_big 65 1, rv_key_id = lit ''k'', rv_context = lit ''x'',
     rv_cache = []\<rparr>"

lemma demo_verifier_init:
  "receipt_verifier_init demo_ossl (PBytes (to_bytes_big 65 1)) (PStr (lit ''k'')) (PStr (lit ''x''))
     = Inr demo_verifier"
proof -
  have "key_label_ok (lit ''k'')" "key_label_ok (lit ''x'')" "ec_point demo_ossl (to_bytes_big 65 1)"
    by (simp_all add: key_label_ok_def isprintable_ascii_def lit_def demo_ossl_def)
  then show ?thesis
    unfolding init_Inr_iff demo_verifier_def by (intro exI conjI) (rule refl | assumption)+
qed

theorem sealed_receipts_verify_witness:
  "\<exists>sb rc. seal_records (Items (map PBytes [[1], [2]])) (PStr (lit ''x'')) (PStr (lit ''k''))
      (cpu_signer demo_ossl (PBytes (replicate 31 0 @ [1]))) = Inr sb
    \<and> receipt sb (PInt 1) True = Inr rc
    \<and> fst (rv_verify demo_ossl demo_verifier (PBytes [2]) (PBytes rc) (PInt 1) PNone) = Inr True"
proof -
  obtain sb where sb: "seal_records (Items (map PBytes [[1], [2]])) (PStr (lit ''x'')) (PStr (lit ''k''))
     (cpu_signer demo_ossl (PBytes (replicate 31 0 @ [1]))) = Inr sb" using demo_seal by blast
  from sealed_receipts_verify [OF demo_ecdsa_law demo_public_key sb demo_verifier_init, of 1]
  have "\<exists>rc. receipt sb (PInt 1) True = Inr rc
    \<and> fst (rv_verify demo_ossl demo_verifier (PBytes [2]) (PBytes rc) (PInt 1) PNone) = Inr True"
    by simp
  with sb show ?thesis by blast
qed

text \<open>
  C18. What a recipient accepts was sealed: if \<open>verify\<close> returns true for some bytes and an index,
  and the manifest it used, embedded or passed aside, is the text of a sealed batch, then the
  index is in the batch and the bytes are the record sealed there, unless the strings hashed
  by this verification contain an explicit collision of SHA-256.
\<close>

theorem accepted_record_was_sealed:
  assumes "seal_records (Items (map PBytes recs)) (PStr ctx) (PStr kid) sign = Inr sb"
    and "receipt_verifier_init c public key_id context = Inr v"
    and "read_receipt rc i m = Inr (Some (path, PStr (sb_manifest sb)))"
    and "fst (rv_verify c v (PBytes r) (PBytes rc) (PInt i) m) = Inr True"
  shows "0 \<le> i \<and> nat i < length recs
    \<and> (r = recs ! nat i
       \<or> collision_in (included_inputs r (nat i) (length recs) path)
           (included_inputs (recs ! nat i) (nat i) (length recs) (sb_paths sb ! nat i)))"
proof -
  from assms(4) have "accepts c v r rc i m" by (simp add: fresh_verify [OF assms(2)])
  with assms(3) obtain root n where acc: "0 \<le> i" "trusted c v (PStr (sb_manifest sb)) root n"
    "i < int n" "included r (nat i) n path root" by (auto simp: accepts_def)
  from assms(1) have ctx: "key_label_ok ctx"
    and paths: "sb_paths sb = map (\<lambda>i. mpath i recs) [0..<length recs]"
    by (auto simp: seal_records_Inr_iff)
  from seal_manifest_text [OF assms(1)] obtain g where
    "sb_manifest sb = compact_token kid (encode (manifest_payload ctx (length recs) (mth recs))) g" .
  with acc(2) have "check_token c v
      (compact_token kid (encode (manifest_payload ctx (length recs) (mth recs))) g) = Inr (root, n)"
    by (simp add: trusted_def)
  moreover have "mth recs \<noteq> []" using length_mth [of recs] by fastforce
  ultimately have "root = mth recs \<and> n = length recs" by (intro check_token_manifest [OF _ ctx])
  with acc have i: "nat i < length recs"
    and inc: "included r (nat i) (length recs) path (mth recs)" by auto
  from assms(3) have "\<forall>s \<in> set path. length s = 32"
    by (auto simp: read_receipt_def bind_res_Inr_iff Let_def split: if_splits option.splits)
  with included_binding [OF inc included_mpath [OF i]] mpath_nodes
  show ?thesis using acc(1) i by (auto simp: paths)
qed

lemma demo_receipt:
  obtains sb rc where
    "seal_records (Items (map PBytes [[1], [2]])) (PStr (lit ''x'')) (PStr (lit ''k''))
       (cpu_signer demo_ossl (PBytes (replicate 31 0 @ [1]))) = Inr sb"
    and "sb_paths sb = map (\<lambda>i. mpath i [[1], [2]]) [0..<2]"
    and "read_receipt rc 1 PNone = Inr (Some (mpath 1 [[1], [2]], PStr (sb_manifest sb)))"
    and "fst (rv_verify demo_ossl demo_verifier (PBytes [2]) (PBytes rc) (PInt 1) PNone) = Inr True"
proof -
  obtain sb where sb: "seal_records (Items (map PBytes [[1], [2]])) (PStr (lit ''x'')) (PStr (lit ''k''))
     (cpu_signer demo_ossl (PBytes (replicate 31 0 @ [1]))) = Inr sb" using demo_seal by blast
  have v: "rv_key_id demo_verifier = lit ''k''" "rv_context demo_verifier = lit ''x''"
    "rv_key demo_verifier = to_bytes_big 65 1" by (simp_all add: demo_verifier_def)
  note signer = cpu_signer_contract [OF demo_ecdsa_law demo_public_key]
  have "\<exists>rc. receipt sb (PInt (int 1)) True = Inr rc
      \<and> accepts demo_ossl demo_verifier ([[1], [2]] ! 1) rc (int 1) PNone"
    by (rule digest_signer.receipts_accepted(1) [OF signer sb v(1,2)])
       (simp_all add: v(3) ecdsa_of_verify)
  then obtain rc where rc: "receipt sb (PInt (int 1)) True = Inr rc"
    and ok: "fst (rv_verify demo_ossl demo_verifier (PBytes [2]) (PBytes rc) (PInt 1) PNone) = Inr True"
    by (auto simp: fresh_verify [OF demo_verifier_init])
  have "sb_paths sb = map (\<lambda>i. mpath i [[1], [2]]) [0..<length [[1], [2 :: byte]]]"
    using sb unfolding seal_records_Inr_iff by auto
  then have paths: "sb_paths sb = map (\<lambda>i. mpath i [[1], [2]]) [0..<2]"
    by (simp add: numeral_2_eq_2)
  have asc: "isascii (sb_manifest sb)"
    using digest_signer.sealed_token_checked [OF signer sb v(1,2), of demo_ossl]
    by (simp add: v(3) ecdsa_of_verify)
  have "rc = encode (receipt_value 1 (mpath 1 [[1], [2]]) (Some (sb_manifest sb)))"
    using rc by (simp add: receipt_def paths)
  then have "read_receipt rc 1 PNone = Inr (Some (mpath 1 [[1], [2]], PStr (sb_manifest sb)))"
    using read_receipt_encode(1) [of "mpath 1 [[1], [2]]" 1 "sb_manifest sb"] asc
      length_mpath_12 [of "[[1], [2]]" 1] mpath_nodes by (auto simp: MAX_BATCH_def)
  then show ?thesis by (rule that [OF sb paths _ ok])
qed

theorem accepted_record_was_sealed_witness:
  "([2] :: bytes) = [[1], [2]] ! 1
     \<or> collision_in (included_inputs [2] 1 2 (mpath 1 [[1], [2]]))
         (included_inputs [2] 1 2 (mpath 1 [[1], [2]]))"
proof (rule demo_receipt)
  fix sb rc
  assume sb: "seal_records (Items (map PBytes [[1], [2]])) (PStr (lit ''x'')) (PStr (lit ''k''))
       (cpu_signer demo_ossl (PBytes (replicate 31 0 @ [1]))) = Inr sb"
    and p: "sb_paths sb = map (\<lambda>i. mpath i [[1], [2]]) [0..<2]"
    and rd: "read_receipt rc 1 PNone = Inr (Some (mpath 1 [[1], [2]], PStr (sb_manifest sb)))"
    and ok: "fst (rv_verify demo_ossl demo_verifier (PBytes [2]) (PBytes rc) (PInt 1) PNone) = Inr True"
  from accepted_record_was_sealed [OF sb demo_verifier_init rd ok] show ?thesis
    by (auto simp: p numeral_2_eq_2)
qed

section \<open>What an accepted receipt proves\<close>

lemma split_dot_3: "split_dot t = [a, b, d] \<Longrightarrow> t = a @ [46] @ b @ [46] @ d"
proof -
  have "split_dot t \<noteq> [] \<and> concat (map (\<lambda>p. 46 # p) (split_dot t)) = 46 # t" for t
    by (induction t) (auto split: list.splits)
  from this [of t] show "split_dot t = [a, b, d] \<Longrightarrow> t = a @ [46] @ b @ [46] @ d" by auto
qed

text \<open>
  C22. A receipt is accepted only under the signature of the configured key: its manifest is a
  canonical token of three base64url parts whose low-s signature verifies under that key for
  the digest of the first two parts, and whose payload names the configured context, the batch
  size, which exceeds the index, and the root that the record's path leads to.
\<close>

theorem accepted_receipt_is_signed:
  assumes "receipt_verifier_init c (PBytes pub) (PStr kid) (PStr ctx) = Inr v"
    and "fst (rv_verify c v (PBytes r) (PBytes rc) (PInt i) m) = Inr True"
  shows "\<exists>path hb pb g payload root n.
     read_receipt rc i m = Inr (Some (path, PStr (b64 hb @ [46] @ b64 pb @ [46] @ b64 g)))
     \<and> valid_low_s g
     \<and> ecdsa_verify c pub (sig_r g) (sig_s g) (sha256 (ascii_encode (b64 hb @ [46] @ b64 pb)))
     \<and> decode_object pb = Inr payload
     \<and> map_of payload (lit ''context'') = Some (PStr ctx)
     \<and> map_of payload (lit ''count'') = Some (PInt (int n))
     \<and> map_of payload (lit ''root'') = Some (PStr (b64 root))
     \<and> 0 \<le> i \<and> i < int n \<and> n \<le> MAX_BATCH \<and> length root = 32
     \<and> included r (nat i) n path root"
proof -
  from assms(1) have v: "rv_key v = pub" "rv_context v = ctx" by (auto simp: init_Inr_iff)
  from assms(2) have "accepts c v r rc i m" by (simp add: fresh_verify [OF assms(1)])
  then obtain path t root n where rd: "read_receipt rc i m = Inr (Some (path, PStr t))"
    and chk: "check_token c v t = Inr (root, n)"
    and inc: "0 \<le> i" "i < int n" "included r (nat i) n path root"
    by (auto simp: accepts_def trusted_def split: option.splits)
  from chk obtain a b d where abd: "split_dot t = [a, b, d]"
    by (auto simp: check_token_def split: list.splits)
  from chk obtain hb pb g payload where parts: "a = b64 hb" "b = b64 pb" "d = b64 g"
    and dec: "decode_object pb = Inr payload" and pl: "check_payload ctx payload = Inr (root, n)"
    and g: "length root = 32" "valid_low_s g"
      "ecdsa_verify c pub (sig_r g) (sig_s g) (sha256 (ascii_encode (a @ [46] @ b)))"
    unfolding check_token_def abd list.case v
    by (auto simp: bind_res_Inr_iff unb64_Inr_iff valid_low_s_def split: if_splits prod.splits)
  have keys: "lit ''count'' \<in> set (map fst payload)" "lit ''root'' \<in> set (map fst payload)"
    using pl by (auto simp: check_payload_def split: if_splits)
  then obtain x y where xy: "map_of payload (lit ''count'') = Some x" "map_of payload (lit ''root'') = Some y"
    by (metis map_of_eq_None_iff option.exhaust set_map)
  have pay: "map_of payload (lit ''context'') = Some (PStr ctx)"
    "map_of payload (lit ''count'') = Some (PInt (int n))"
    "map_of payload (lit ''root'') = Some (PStr (b64 root))" "n \<le> MAX_BATCH"
    using pl xy by (auto simp: check_payload_def bind_res_Inr_iff unb64_Inr_iff
        split: if_splits option.splits)
  from split_dot_3 [OF abd] parts have "t = b64 hb @ [46] @ b64 pb @ [46] @ b64 g" by simp
  with rd g parts dec pay inc show ?thesis by blast
qed

theorem accepted_receipt_is_signed_witness:
  "\<exists>rc path hb pb g.
     read_receipt rc 1 PNone = Inr (Some (path, PStr (b64 hb @ [46] @ b64 pb @ [46] @ b64 g)))
     \<and> ecdsa_verify demo_ossl (to_bytes_big 65 1) (sig_r g) (sig_s g)
         (sha256 (ascii_encode (b64 hb @ [46] @ b64 pb)))"
proof (rule demo_receipt)
  fix sb rc
  assume "fst (rv_verify demo_ossl demo_verifier (PBytes [2]) (PBytes rc) (PInt 1) PNone) = Inr True"
  from accepted_receipt_is_signed [OF demo_verifier_init this] show ?thesis by blast
qed

end
