(* ===== verification/Manifests.thy ===== *)
theory Manifests
  imports Receipts
begin

text \<open>
  \<open>python/batchcrypto/manifests.py\<close>: a signed list of all record hashes, opened once by the
  recipient and then checked record by record or as a whole.
\<close>

definition MANIFEST_PROFILE :: ustr where "MANIFEST_PROFILE = lit ''batchcrypto-record-manifest-v1''"
definition MAX_LIST_BYTES :: nat where "MAX_LIST_BYTES = 256 * 1024"

definition hash_list_payload :: "ustr \<Rightarrow> bytes list \<Rightarrow> pyval" where
  "hash_list_payload ctx digests =
     PDict [(lit ''profile'', PStr MANIFEST_PROFILE), (lit ''context'', PStr ctx),
       (lit ''count'', PInt (int (length digests))),
       (lit ''hashes'', PList (map (\<lambda>d. PStr (b64 d)) digests))]"

definition seal_manifest ::
    "pyval iterable \<Rightarrow> pyval \<Rightarrow> pyval \<Rightarrow> signer \<Rightarrow> ustr result" where
  "seal_manifest recs context key_id sign_digests =
     bind_res (check_label context) (\<lambda>ctx.
     bind_res (check_label key_id) (\<lambda>kid.
     bind_res (py_messages recs) (\<lambda>recs.
       if recs = [] then Inl (ValueError ''cannot seal an empty export'')
       else let payload = encode (hash_list_payload ctx (map sha256 recs))
            in bind_res (sign_es256 (Items [PBytes payload]) key_id sign_digests) (\<lambda>tokens.
                 let manifest = hd tokens in
                 if MAX_LIST_BYTES < length manifest
                 then Inl (ValueError ''manifest exceeds profile limit'')
                 else Inr manifest))))"

record verified_manifest =
  vm_context :: ustr
  vm_key_id :: ustr
  vm_digests :: "bytes list"

definition vm_count :: "verified_manifest \<Rightarrow> nat" where
  "vm_count m = length (vm_digests m)"

definition verify_record :: "verified_manifest \<Rightarrow> pyval \<Rightarrow> pyval \<Rightarrow> bool" where
  "verify_record m r expected_index =
     (case (as_bytes r, as_int expected_index) of
        (Some r, Some i) \<Rightarrow>
          if MAX_PAYLOAD < length r \<or> \<not> (0 \<le> i \<and> i < int (vm_count m)) then False
          else sha256 r = vm_digests m ! nat i
      | _ \<Rightarrow> False)"

text \<open>\<open>except (TypeError, ValueError)\<close>, with the subclasses of \<open>ValueError\<close>.\<close>

fun shape_error :: "exn \<Rightarrow> bool" where
  "shape_error (ValueError _) = True"
| "shape_error (Denied _) = True"
| "shape_error (UnicodeError _) = True"
| "shape_error (TypeError _) = True"
| "shape_error _ = False"

definition verify_all :: "verified_manifest \<Rightarrow> pyval iterable \<Rightarrow> bool result" where
  "verify_all m recs =
     (case py_messages recs of
        Inl e \<Rightarrow> if shape_error e then Inr False else Inl e
      | Inr rs \<Rightarrow> Inr (length rs = vm_count m
          \<and> (\<forall>(i, r) \<in> set (enumerate 0 rs). verify_record m (PBytes r) (PInt (int i)))))"

text \<open>The part of \<open>open_manifest\<close> after the payload was authenticated; \<open>None\<close> is a refusal.\<close>

definition open_payload :: "ustr \<Rightarrow> (ustr \<times> pyval) list \<Rightarrow> bytes list option result" where
  "open_payload ctx payload =
     (if set (map fst payload) \<noteq> {lit ''profile'', lit ''context'', lit ''count'', lit ''hashes''}
         \<or> map_of payload (lit ''profile'') \<noteq> Some (PStr MANIFEST_PROFILE)
         \<or> map_of payload (lit ''context'') \<noteq> Some (PStr ctx)
      then Inr None
      else (case (as_int (the (map_of payload (lit ''count''))),
                  as_list (the (map_of payload (lit ''hashes'')))) of
              (Some n, Some digests) \<Rightarrow>
                if \<not> (1 \<le> n \<and> n \<le> int MAX_BATCH) \<or> int (length digests) \<noteq> n then Inr None
                else bind_res (map_res unb64 digests) (\<lambda>decoded.
                       if \<exists>d \<in> set decoded. length d \<noteq> 32 then Inr None else Inr (Some decoded))
            | _ \<Rightarrow> Inr None))"

definition open_token :: "ossl \<Rightarrow> bytes \<Rightarrow> ustr \<Rightarrow> ustr \<Rightarrow> ustr \<Rightarrow> bytes list option result" where
  "open_token c pub kid ctx manifest =
     (case split_dot manifest of
        [header_part, payload_part, signature_part] \<Rightarrow>
          bind_res (unb64 (PStr header_part)) (\<lambda>hb.
          bind_res (decode_object hb) (\<lambda>header.
            if set (map fst header) \<noteq> {lit ''alg'', lit ''kid''}
               \<or> map_of header (lit ''alg'') \<noteq> Some (PStr (lit ''ES256''))
               \<or> map_of header (lit ''kid'') \<noteq> Some (PStr kid)
            then Inr None
            else
              bind_res (unb64 (PStr signature_part)) (\<lambda>signature.
                if length signature \<noteq> 64 then Inr None
                else if \<not> (0 < sig_r signature \<and> sig_r signature < ORDER)
                        \<or> \<not> (0 < sig_s signature \<and> sig_s signature \<le> ORDER div 2)
                then Inr None
                else if \<not> ecdsa_verify c pub (sig_r signature) (sig_s signature)
                       (sha256 (ascii_encode (header_part @ [46] @ payload_part)))
                then Inl InvalidSignature
                else bind_res (unb64 (PStr payload_part)) (\<lambda>pb.
                     bind_res (decode_object pb) (open_payload ctx)))))
      | _ \<Rightarrow> Inl (ValueError ''not enough values to unpack''))"

definition open_manifest ::
    "ossl \<Rightarrow> pyval \<Rightarrow> pyval \<Rightarrow> pyval \<Rightarrow> pyval \<Rightarrow> verified_manifest option result" where
  "open_manifest c manifest pubkey key_id context =
     bind_res (check_label context) (\<lambda>ctx.
     bind_res (check_label key_id) (\<lambda>kid.
       case as_bytes pubkey of
         None \<Rightarrow> Inl (ValueError ''public_key must be encoded P-256 point bytes'')
       | Some p \<Rightarrow>
           if \<not> ec_point c p then Inl (ValueError ''invalid point encoding'')
           else (case as_str manifest of
               None \<Rightarrow> Inr None
             | Some t \<Rightarrow>
                 if \<not> isascii t \<or> MAX_LIST_BYTES < length t then Inr None
                 else (case open_token c p kid ctx t of
                     Inl e \<Rightarrow> if verify_catches e then Inr None else Inl e
                   | Inr None \<Rightarrow> Inr None
                   | Inr (Some decoded) \<Rightarrow>
                       Inr (Some \<lparr>vm_context = ctx, vm_key_id = kid, vm_digests = decoded\<rparr>)))))"

section \<open>Checking an export\<close>

lemma verify_record_iff:
  "verify_record m (PBytes r) (PInt i) \<longleftrightarrow>
     length r \<le> MAX_PAYLOAD \<and> 0 \<le> i \<and> nat i < length (vm_digests m) \<and> sha256 r = vm_digests m ! nat i"
  by (auto simp: verify_record_def vm_count_def)

lemma verify_all_messages:
  assumes "py_messages (Items (map PBytes rs)) = Inr rs"
  shows "verify_all m (Items (map PBytes rs)) = Inr (map sha256 rs = vm_digests m)"
proof -
  from assms have len: "\<forall>r \<in> set rs. length r \<le> MAX_PAYLOAD" by (auto simp: py_messages_Inr_iff)
  have "length rs = vm_count m
      \<and> (\<forall>(i, r) \<in> set (enumerate 0 rs). verify_record m (PBytes r) (PInt (int i)))
    \<longleftrightarrow> map sha256 rs = vm_digests m" (is "?L \<longleftrightarrow> ?R")
  proof
    assume L: ?L
    have "sha256 (rs ! i) = vm_digests m ! i" if "i < length rs" for i
    proof -
      have "(i, rs ! i) \<in> set (enumerate 0 rs)" using that by (simp add: in_set_enumerate_eq)
      with L have "verify_record m (PBytes (rs ! i)) (PInt (int i))" by blast
      then show ?thesis by (simp add: verify_record_iff)
    qed
    with L show ?R by (intro nth_equalityI) (auto simp: vm_count_def)
  next
    assume ?R
    then have "vm_digests m = map sha256 rs" by simp
    then show ?L
      using len by (auto simp: vm_count_def in_set_enumerate_eq verify_record_iff)
  qed
  then show ?thesis by (simp add: verify_all_def assms)
qed

text \<open>
  The check of a complete export: it answers true exactly for the batches that pass the size
  limits and have the listed hashes, in order and in number.
\<close>

theorem verify_all_exact:
  "verify_all m (Items (map PBytes rs)) = Inr True \<longleftrightarrow>
     py_messages (Items (map PBytes rs)) = Inr rs \<and> map sha256 rs = vm_digests m"
proof -
  have "inj PBytes" by (simp add: inj_def)
  then have m: "py_messages (Items (map PBytes rs)) = Inr x \<Longrightarrow> x = rs" for x
    by (auto simp: py_messages_Inr_iff inj_map_eq_map)
  show ?thesis
  proof (cases "py_messages (Items (map PBytes rs))")
    case (Inl e)
    then show ?thesis by (simp add: verify_all_def)
  next
    case (Inr x)
    with m have "py_messages (Items (map PBytes rs)) = Inr rs" by simp
    with verify_all_messages [OF this] show ?thesis by simp
  qed
qed



section \<open>Opening what was sealed\<close>

lemma sort_hash_list:
  "sort_keys (hash_list_payload ctx ds) =
     PDict [(lit ''context'', PStr ctx), (lit ''count'', PInt (int (length ds))),
       (lit ''hashes'', PList (map (\<lambda>d. PStr (b64 d)) ds)),
       (lit ''profile'', PStr MANIFEST_PROFILE)]"
  by (simp add: hash_list_payload_def o_def) (simp add: lit_def)

lemma json_ok_hash_list: "key_label_ok ctx \<Longrightarrow> json_ok (hash_list_payload ctx ds)"
  using json_ok_ascii [OF key_label_ascii, of ctx] json_ok_ascii [OF isascii_b64]
  by (simp add: hash_list_payload_def) (simp add: lit_def scalar_def MANIFEST_PROFILE_def)

lemma decode_hash_list:
  assumes "key_label_ok ctx"
  shows "decode_object (encode (hash_list_payload ctx ds))
    = Inr [(lit ''context'', PStr ctx), (lit ''count'', PInt (int (length ds))),
       (lit ''hashes'', PList (map (\<lambda>d. PStr (b64 d)) ds)),
       (lit ''profile'', PStr MANIFEST_PROFILE)]"
  using json_ok_sort_keys [OF json_ok_hash_list [OF assms, of ds]]
  unfolding encode_def dumps_sorted_def sort_hash_list by (rule decode_object_text)

lemma open_hash_list:
  assumes "1 \<le> length ds" and "length ds \<le> MAX_BATCH" and "\<forall>d \<in> set ds. length d = 32"
  shows "open_payload ctx [(lit ''context'', PStr ctx), (lit ''count'', PInt (int (length ds))),
       (lit ''hashes'', PList (map (\<lambda>d. PStr (b64 d)) ds)),
       (lit ''profile'', PStr MANIFEST_PROFILE)] = Inr (Some ds)"
proof -
  have "map_res unb64 (map (\<lambda>d. PStr (b64 d)) ds) = Inr ds"
    unfolding map_res_Inr_iff list_all2_map1 using assms(3)
    by (intro list.rel_refl_strong) (auto simp: unb64_Inr_iff)
  with assms show ?thesis by (auto simp: open_payload_def)
qed

lemma length_hash_list:
  assumes "key_label_ok ctx" and "length ds \<le> MAX_BATCH" and "\<forall>d \<in> set ds. length d = 32"
  shows "length (encode (hash_list_payload ctx ds)) \<le> 188900"
proof -
  have "length (dec_nat (length ds)) \<le> 4"
    using assms(2) by (intro length_dec_nat) (simp_all add: MAX_BATCH_def)
  moreover have "length (join_comma (map json_text (map (\<lambda>d. PStr (b64 d)) ds))) \<le> 46 * length ds"
    using length_join_comma [of "map json_text (map (\<lambda>d. PStr (b64 d)) ds)" 45] assms(3)
    by (fastforce simp: length_json_str_b64 length_b64)
  moreover have "46 * length ds \<le> 188416" using assms(2) by (simp add: MAX_BATCH_def)
  moreover have "length (json_str ctx) \<le> 258"
    using length_json_str [of ctx] assms(1) by (simp add: key_label_ok_def)
  moreover have "length (json_str MANIFEST_PROFILE) \<le> 64"
    using length_json_str [of MANIFEST_PROFILE]
    by (simp add: MANIFEST_PROFILE_def isprintable_ascii_def lit_def)
  ultimately show ?thesis
    unfolding encode_def dumps_sorted_def sort_hash_list
    by (simp add: dec_int_def o_def) (simp add: json_str_def json_escape_def lit_def)
qed

lemma length_hash_token:
  assumes "key_label_ok kid" and "key_label_ok ctx" and "length ds \<le> MAX_BATCH"
    and "\<forall>d \<in> set ds. length d = 32" and "length g = 64"
  shows "length (compact_token kid (encode (hash_list_payload ctx ds)) g) \<le> MAX_LIST_BYTES"
  using length_header [OF assms(1)] length_hash_list [OF assms(2-4)]
  by (simp add: length_compact_token assms(5) MAX_LIST_BYTES_def)

text \<open>The limit of the profile is never the reason for a failure.\<close>

lemma seal_manifest_Inr_iff:
  "seal_manifest (Items (map PBytes recs)) (PStr ctx) (PStr kid) sign = Inr t \<longleftrightarrow>
     key_label_ok ctx \<and> key_label_ok kid \<and> recs \<noteq> []
     \<and> py_messages (Items (map PBytes recs)) = Inr recs
     \<and> (\<exists>g. sign_es256 (Items (map PBytes [encode (hash_list_payload ctx (map sha256 recs))]))
            (PStr kid) sign = Inr [t]
          \<and> valid_low_s g \<and> t = compact_token kid (encode (hash_list_payload ctx (map sha256 recs))) g)"
proof -
  let ?p = "encode (hash_list_payload ctx (map sha256 recs))"
  have "inj PBytes" by (simp add: inj_def)
  then have m: "py_messages (Items (map PBytes recs)) = Inr x \<Longrightarrow> x = recs" for x
    by (auto simp: py_messages_Inr_iff inj_map_eq_map)
  have one: "\<exists>g. tokens = [compact_token kid ?p g] \<and> valid_low_s g"
    if "sign_es256 (Items (map PBytes [?p])) (PStr kid) sign = Inr tokens" for tokens
    by (rule one_token [OF that]) blast
  have size: "length (compact_token kid ?p g) \<le> MAX_LIST_BYTES"
    if "key_label_ok kid" "key_label_ok ctx" "py_messages (Items (map PBytes recs)) = Inr recs"
      "valid_low_s g" for g
    using that by (intro length_hash_token)
      (auto simp: py_messages_Inr_iff length_sha256 valid_low_s_def)
  show ?thesis (is "?L \<longleftrightarrow> ?R")
  proof
    assume ?L
    then obtain tokens where "key_label_ok ctx" "key_label_ok kid" "recs \<noteq> []"
      "py_messages (Items (map PBytes recs)) = Inr recs"
      and t: "sign_es256 (Items (map PBytes [?p])) (PStr kid) sign = Inr tokens" "t = hd tokens"
      by (auto simp: seal_manifest_def check_label_Inr_iff bind_res_Inr_iff Let_def dest: m
          split: if_splits)
    moreover from one [OF t(1)] obtain g where "tokens = [compact_token kid ?p g]" "valid_low_s g"
      by blast
    ultimately show ?R by auto
  next
    assume R: ?R
    then obtain g where g: "valid_low_s g" "t = compact_token kid ?p g"
      and t: "sign_es256 (Items (map PBytes [?p])) (PStr kid) sign = Inr [t]" by blast
    from size [of g] R g have "length t \<le> MAX_LIST_BYTES" by simp
    with R t show ?L
      by (simp add: seal_manifest_def check_label_def key_label_ok_def Let_def)
  qed
qed

lemma hash_list_not_Nil: "encode (hash_list_payload ctx ds) \<noteq> []"
  by (simp add: encode_def dumps_sorted_def sort_hash_list ascii_encode_def)

lemma open_token_step:
  assumes "key_label_ok kid" and "valid_low_s g" and "p \<noteq> []"
    and "decode_object p = Inr payload" and "open_payload ctx payload = Inr found"
    and "ecdsa_verify c pub (sig_r g) (sig_s g) (sha256 (ascii_encode (signing_input kid p)))"
  shows "open_token c pub kid ctx (compact_token kid p g) = Inr found"
proof -
  let ?h = "ascii_encode (json_text (jws_header kid))"
  have hd: "decode_object ?h = Inr [(lit ''alg'', PStr (lit ''ES256'')), (lit ''kid'', PStr kid)]"
    using decode_object_text [OF json_ok_header [OF assms(1), unfolded jws_header_def]]
    by (simp only: jws_header_def)
  have ne: "?h \<noteq> []" "g \<noteq> []"
    using assms(2) by (auto simp: jws_header_def ascii_encode_def valid_low_s_def)
  show ?thesis
    unfolding open_token_def split_compact_token list.case
    using ne hd assms by (auto simp: valid_low_s_def signing_input_def)
qed

text \<open>Whatever the recipient's configuration, an opened manifest holds the hashes in its text.\<close>

lemma open_token_text:
  assumes "open_token c pub kid' ctx' (compact_token kid (encode (hash_list_payload ctx ds)) g)
      = Inr (Some ds')" and "key_label_ok ctx"
  shows "ds' = ds"
proof -
  have "open_payload ctx' [(lit ''context'', PStr ctx), (lit ''count'', PInt (int (length ds))),
       (lit ''hashes'', PList (map (\<lambda>d. PStr (b64 d)) ds)),
       (lit ''profile'', PStr MANIFEST_PROFILE)] = Inr (Some ds')"
    using assms(1) decode_hash_list [OF assms(2), of ds]
    unfolding open_token_def split_compact_token list.case
    by (auto simp: bind_res_Inr_iff unb64_Inr_iff split: if_splits)
  then have "map_res unb64 (map (\<lambda>d. PStr (b64 d)) ds) = Inr ds'"
    by (auto simp: open_payload_def bind_res_Inr_iff split: if_splits)
  then have "list_all2 (\<lambda>d d'. d' = d) ds ds'"
    by (auto simp: map_res_Inr_iff list_all2_map1 unb64_Inr_iff elim: list_all2_mono)
  then show ?thesis by (rule list_all2_induct) simp_all
qed

lemma cpu_sealed_manifest:
  assumes "ecdsa_law c" and "cpu_public_key c key = Inr pub"
    and "seal_manifest (Items (map PBytes recs)) (PStr ctx) (PStr kid) (cpu_signer c key) = Inr t"
  shows "\<exists>m. open_manifest c (PStr t) (PBytes pub) (PStr kid) (PStr ctx) = Inr (Some m)
    \<and> vm_count m = length recs
    \<and> (\<forall>i < length recs. verify_record m (PBytes (recs ! i)) (PInt (int i)))
    \<and> verify_all m (Items (map PBytes recs)) = Inr True"
proof -
  let ?ds = "map sha256 recs" and ?p = "encode (hash_list_payload ctx (map sha256 recs))"
  from assms(3) obtain g where lab: "key_label_ok ctx" "key_label_ok kid" and ne: "recs \<noteq> []"
    and m: "py_messages (Items (map PBytes recs)) = Inr recs"
    and s: "sign_es256 (Items (map PBytes [?p])) (PStr kid) (cpu_signer c key) = Inr [t]"
    and g: "valid_low_s g" and t: "t = compact_token kid ?p g"
    by (auto simp: seal_manifest_Inr_iff)
  from m ne have n: "1 \<le> length ?ds" "length ?ds \<le> MAX_BATCH" "\<forall>d \<in> set ?ds. length d = 32"
    and sz: "\<forall>r \<in> set recs. length r \<le> MAX_PAYLOAD"
    by (auto simp: py_messages_Inr_iff length_sha256 Suc_le_eq)
  from digest_signer.one_token_genuine [OF cpu_signer_contract [OF assms(1,2)] s]
  obtain g' where "[t] = [compact_token kid ?p g']"
    and gen: "verify_p256 c (PBytes pub) (PBytes (sha256 (ascii_encode (signing_input kid ?p))))
      (PBytes g')" by blast
  with t have "g' = g" by (simp add: compact_token_def)
  with gen have sig: "ecdsa_verify c pub (sig_r g) (sig_s g)
      (sha256 (ascii_encode (signing_input kid ?p)))" by (simp add: ecdsa_of_verify)
  have ok: "open_token c pub kid ctx t = Inr (Some ?ds)"
    unfolding t
    by (rule open_token_step [OF lab(2) g hash_list_not_Nil decode_hash_list [OF lab(1)]
          open_hash_list [OF n] sig])
  have len: "length t \<le> MAX_LIST_BYTES"
    unfolding t using lab n g by (intro length_hash_token) (auto simp: valid_low_s_def)
  have pt: "ec_point c pub" using gen by (auto simp: verify_p256_def split: if_splits)
  have "open_manifest c (PStr t) (PBytes pub) (PStr kid) (PStr ctx)
      = Inr (Some \<lparr>vm_context = ctx, vm_key_id = kid, vm_digests = ?ds\<rparr>)"
    using lab pt len ok by (simp add: open_manifest_def check_label_ok t del: map_map)
  then show ?thesis
    using sz verify_all_messages [OF m] by (simp add: vm_count_def verify_record_iff)
qed

text \<open>
  C31. Seal, open, check: a manifest sealed with the CPU signer is opened by a recipient with
  the matching public key, key id and context; the handle counts the records, every record is
  accepted at its index and the complete export is accepted.
\<close>

theorem sealed_manifest_opens:
  assumes "ecdsa_law c" and "cpu_public_key c key = Inr pub"
    and "seal_manifest (Items (map PBytes recs)) (PStr ctx) (PStr kid) (cpu_signer c key) = Inr t"
  shows "\<exists>m. open_manifest c (PStr t) (PBytes pub) (PStr kid) (PStr ctx) = Inr (Some m)
    \<and> vm_count m = length recs
    \<and> (\<forall>i < length recs. verify_record m (PBytes (recs ! i)) (PInt (int i)))
    \<and> verify_all m (Items (map PBytes recs)) = Inr True"
  by (rule cpu_sealed_manifest [OF assms])

text \<open>
  C30. An opened manifest binds the batch it was sealed for: a record it accepts at an index is
  the record sealed there, and an export it accepts as a whole is the sealed one, unless the
  bytes shown are an explicit collision of SHA-256 with the sealed bytes.
\<close>

theorem opened_manifest_binds:
  assumes "seal_manifest (Items (map PBytes recs)) (PStr ctx) (PStr kid) sign = Inr t"
    and "open_manifest c (PStr t) pubkey key_id context = Inr (Some m)"
  shows "(verify_record m (PBytes r) (PInt i) \<longrightarrow>
      0 \<le> i \<and> nat i < length recs \<and> (r = recs ! nat i \<or> collision_in [r] [recs ! nat i]))
    \<and> (verify_all m (Items (map PBytes rs)) = Inr True \<longrightarrow> rs = recs \<or> collision_in rs recs)"
proof -
  from assms(1) obtain g where ctx: "key_label_ok ctx"
    and t: "t = compact_token kid (encode (hash_list_payload ctx (map sha256 recs))) g"
    by (auto simp: seal_manifest_Inr_iff)
  from assms(2) obtain p kid' ctx' where "open_token c p kid' ctx' t = Inr (Some (vm_digests m))"
    by (auto simp: open_manifest_def bind_res_Inr_iff split: option.splits if_splits sum.splits)
  from open_token_text [OF this [unfolded t] ctx] have ds: "vm_digests m = map sha256 recs" .
  have one: "nat i < length recs \<and> (r = recs ! nat i \<or> collision_in [r] [recs ! nat i]) \<and> 0 \<le> i"
    if "verify_record m (PBytes r) (PInt i)"
    using that by (auto simp: verify_record_iff ds collision_in_def)
  have all: "rs = recs \<or> collision_in rs recs" if "verify_all m (Items (map PBytes rs)) = Inr True"
  proof -
    have "inj PBytes" by (simp add: inj_def)
    with that have "py_messages (Items (map PBytes rs)) = Inr rs"
      by (auto simp: verify_all_def py_messages_Inr_iff inj_map_eq_map split: sum.splits if_splits)
    from that verify_all_messages [OF this, of m] have eq: "map sha256 rs = map sha256 recs"
      by (simp add: ds)
    show ?thesis
    proof (rule disjCI)
      assume nc: "\<not> collision_in rs recs"
      show "rs = recs"
      proof (rule nth_equalityI)
        show l: "length rs = length recs" using eq by (rule map_eq_imp_length_eq)
        show "rs ! j = recs ! j" if "j < length rs" for j
          using that nc l eq nth_mem [of j rs] nth_mem [of j recs]
          unfolding collision_in_def by (metis nth_map)
      qed
    qed
  qed
  from one all show ?thesis by blast
qed

lemma demo_seal_manifest:
  "\<exists>t. seal_manifest (Items (map PBytes [[1], [2]])) (PStr (lit ''x'')) (PStr (lit ''k''))
     (cpu_signer demo_ossl (PBytes (replicate 31 0 @ [1]))) = Inr t"
proof -
  let ?p = "encode (hash_list_payload (lit ''x'') (map sha256 [[1], [2]]))"
  have lab: "key_label_ok (lit ''x'')" "key_label_ok (lit ''k'')"
    by (simp_all add: key_label_ok_def isprintable_ascii_def lit_def)
  have m: "py_messages (Items (map PBytes [[1], [2]])) = Inr [[1], [2]]"
    by (simp add: py_messages_Inr_iff MAX_BATCH_def MAX_PAYLOAD_def MAX_WORK_def)
  have "length ?p \<le> 188900"
    using lab by (intro length_hash_list) (auto simp: length_sha256 MAX_BATCH_def)
  then have "length ?p \<le> MAX_PAYLOAD" by (simp add: MAX_PAYLOAD_def)
  from cpu_one_token_total [OF demo_ecdsa_law demo_public_key lab(2) this] obtain g where
    t: "sign_es256 (Items (map PBytes [?p])) (PStr (lit ''k''))
      (cpu_signer demo_ossl (PBytes (replicate 31 0 @ [1]))) = Inr [compact_token (lit ''k'') ?p g]" ..
  from one_token [OF t] have "valid_low_s g" by (auto simp: compact_token_def)
  with lab m t show ?thesis unfolding seal_manifest_Inr_iff by blast
qed

theorem sealed_manifest_opens_witness:
  "\<exists>t m. open_manifest demo_ossl (PStr t) (PBytes (to_bytes_big 65 1)) (PStr (lit ''k'')) (PStr (lit ''x''))
       = Inr (Some m)
     \<and> verify_all m (Items (map PBytes [[1], [2]])) = Inr True"
proof -
  obtain t where t: "seal_manifest (Items (map PBytes [[1], [2]])) (PStr (lit ''x'')) (PStr (lit ''k''))
     (cpu_signer demo_ossl (PBytes (replicate 31 0 @ [1]))) = Inr t" using demo_seal_manifest by blast
  from sealed_manifest_opens [OF demo_ecdsa_law demo_public_key t] show ?thesis by blast
qed

theorem opened_manifest_binds_witness:
  "\<exists>m. verify_record m (PBytes [2]) (PInt 1)
     \<and> (verify_record m (PBytes [3]) (PInt 1) \<longrightarrow> collision_in [[3]] [[2]])"
proof -
  obtain t where t: "seal_manifest (Items (map PBytes [[1], [2]])) (PStr (lit ''x'')) (PStr (lit ''k''))
     (cpu_signer demo_ossl (PBytes (replicate 31 0 @ [1]))) = Inr t" using demo_seal_manifest by blast
  from cpu_sealed_manifest [OF demo_ecdsa_law demo_public_key t] obtain m where
    m: "open_manifest demo_ossl (PStr t) (PBytes (to_bytes_big 65 1)) (PStr (lit ''k''))
      (PStr (lit ''x'')) = Inr (Some m)"
    and each: "\<forall>i < length [[1], [2 :: byte]]. verify_record m (PBytes ([[1], [2]] ! i)) (PInt (int i))"
    by blast
  from each have "verify_record m (PBytes [2]) (PInt 1)" by (auto dest: spec [of _ 1])
  with opened_manifest_binds [OF t m(1), of "[3]" 1] show ?thesis by auto
qed

end
