(* ===== verification/Txn.thy ===== *)
theory Txn
  imports Core Json
begin

text \<open>
  What the two SQLite services of the program have in common: actions on a database
  connection that may raise, the transaction discipline (a failed transaction or savepoint
  restores the database), the clock and the random identifiers, and the rule
  \<open>wp\<close> that turns a goal about an action into a goal about the states it passes through.

  A table is the list of its rows in insertion order. One connection is modelled: SQLite
  serialises writing transactions (\<open>BEGIN IMMEDIATE\<close>), so several connections act as one that
  runs their transactions in some order. \<open>time.time\<close> and \<open>secrets.token_hex\<close> are streams,
  read at an index that the connection carries; a roll-back does not reset it.
\<close>

section \<open>Actions\<close>

record 'db conn =
  cn_db :: 'db
  cn_saved :: "'db list"
  cn_ticks :: nat
  cn_draws :: nat

type_synonym ('db, 'z, 'a) act = "('db, 'z) conn_scheme \<Rightarrow> 'a result \<times> ('db, 'z) conn_scheme"

definition ret :: "'a \<Rightarrow> ('db, 'z, 'a) act" where
  "ret x s = (Inr x, s)"

definition raise :: "exn \<Rightarrow> ('db, 'z, 'a) act" where
  "raise e s = (Inl e, s)"

definition bind_act :: "('db, 'z, 'a) act \<Rightarrow> ('a \<Rightarrow> ('db, 'z, 'b) act) \<Rightarrow> ('db, 'z, 'b) act" where
  "bind_act m f s = (case m s of (Inl e, s') \<Rightarrow> (Inl e, s') | (Inr x, s') \<Rightarrow> f x s')"

definition lift_res :: "'a result \<Rightarrow> ('db, 'z, 'a) act" where
  "lift_res r s = (r, s)"

definition guard :: "bool \<Rightarrow> exn \<Rightarrow> ('db, 'z, unit) act" where
  "guard b e = (if b then ret () else raise e)"

text \<open>A query, and a statement that changes tables unless a constraint fails.\<close>

definition query :: "('db \<Rightarrow> 'a) \<Rightarrow> ('db, 'z, 'a) act" where
  "query f s = (Inr (f (cn_db s)), s)"

definition execute :: "('db \<Rightarrow> 'db result) \<Rightarrow> ('db, 'z, unit) act" where
  "execute f s = (case f (cn_db s) of
     Inl e \<Rightarrow> (Inl e, s)
   | Inr d \<Rightarrow> (Inr (), s\<lparr>cn_db := d\<rparr>))"

text \<open>
  A transaction, or a savepoint inside one: the tables at its start are kept, dropped at the
  end, and put back when an exception leaves the block.
\<close>

definition transaction :: "('db, 'z, 'a) act \<Rightarrow> ('db, 'z, 'a) act" where
  "transaction body s =
     (case body (s\<lparr>cn_saved := cn_db s # cn_saved s\<rparr>) of
        (Inr x, s') \<Rightarrow> (Inr x, s'\<lparr>cn_saved := tl (cn_saved s')\<rparr>)
      | (Inl e, s') \<Rightarrow>
          (Inl e, s'\<lparr>cn_db := hd (cn_saved s'), cn_saved := tl (cn_saved s')\<rparr>))"

definition read_clock :: "(nat \<Rightarrow> int) \<Rightarrow> ('db, 'z, int) act" where
  "read_clock clock s = (Inr (clock (cn_ticks s)), s\<lparr>cn_ticks := Suc (cn_ticks s)\<rparr>)"

definition draw :: "(nat \<Rightarrow> ustr) \<Rightarrow> ('db, 'z, ustr) act" where
  "draw random s = (Inr (random (cn_draws s)), s\<lparr>cn_draws := Suc (cn_draws s)\<rparr>)"

definition check_constraint :: "bool \<Rightarrow> 'db \<Rightarrow> 'db result" where
  "check_constraint b d = (if b then Inr d else Inl (IntegrityError ''constraint failed''))"

lemma check_constraint_simps [simp]:
  "check_constraint True d = Inr d"
  "check_constraint False d = Inl (IntegrityError ''constraint failed'')"
  "check_constraint b d = Inr d' \<longleftrightarrow> b \<and> d' = d"
  by (auto simp: check_constraint_def)

section \<open>Weakest preconditions\<close>

definition wp ::
    "('db, 'z, 'a) act \<Rightarrow> ('a \<Rightarrow> ('db, 'z) conn_scheme \<Rightarrow> bool)
      \<Rightarrow> (exn \<Rightarrow> ('db, 'z) conn_scheme \<Rightarrow> bool) \<Rightarrow> ('db, 'z) conn_scheme \<Rightarrow> bool" where
  "wp m Q E s = (case m s of (Inr x, s') \<Rightarrow> Q x s' | (Inl e, s') \<Rightarrow> E e s')"

lemma wp_ret [run_simps]: "wp (ret x) Q E s = Q x s"
  by (simp add: wp_def ret_def)

lemma wp_raise [run_simps]: "wp (raise e) Q E s = E e s"
  by (simp add: wp_def raise_def)

lemma wp_bind [run_simps]: "wp (bind_act m f) Q E s = wp m (\<lambda>x. wp (f x) Q E) E s"
  by (auto simp: wp_def bind_act_def split: prod.splits sum.splits)

lemma wp_lift [run_simps]:
  "wp (lift_res r) Q E s = (case r of Inr x \<Rightarrow> Q x s | Inl e \<Rightarrow> E e s)"
  by (simp add: wp_def lift_res_def)

lemma wp_guard [run_simps]: "wp (guard b e) Q E s = (if b then Q () s else E e s)"
  by (simp add: wp_def guard_def ret_def raise_def)

lemma wp_query [run_simps]: "wp (query f) Q E s = Q (f (cn_db s)) s"
  by (simp add: wp_def query_def)

lemma wp_execute [run_simps]:
  "wp (execute f) Q E s = (case f (cn_db s) of Inr d \<Rightarrow> Q () (s\<lparr>cn_db := d\<rparr>) | Inl e \<Rightarrow> E e s)"
  by (simp add: wp_def execute_def split: sum.splits)

lemma wp_transaction [run_simps]:
  "wp (transaction m) Q E s =
     wp m (\<lambda>x s'. Q x (s'\<lparr>cn_saved := tl (cn_saved s')\<rparr>))
       (\<lambda>e s'. E e (s'\<lparr>cn_db := hd (cn_saved s'), cn_saved := tl (cn_saved s')\<rparr>))
       (s\<lparr>cn_saved := cn_db s # cn_saved s\<rparr>)"
  by (auto simp: wp_def transaction_def split: prod.splits sum.splits)

lemma wp_clock [run_simps]:
  "wp (read_clock c) Q E s = Q (c (cn_ticks s)) (s\<lparr>cn_ticks := Suc (cn_ticks s)\<rparr>)"
  by (simp add: wp_def read_clock_def)

lemma wp_draw [run_simps]:
  "wp (draw r) Q E s = Q (r (cn_draws s)) (s\<lparr>cn_draws := Suc (cn_draws s)\<rparr>)"
  by (simp add: wp_def draw_def)

lemma wp_if [run_simps]: "wp (if b then m else m') Q E s = (if b then wp m Q E s else wp m' Q E s)"
  by simp

lemma wp_option [run_simps]:
  "wp (case x of None \<Rightarrow> m | Some y \<Rightarrow> f y) Q E s
     = (case x of None \<Rightarrow> wp m Q E s | Some y \<Rightarrow> wp (f y) Q E s)"
  by (cases x) simp_all

lemma wpI: "(\<And>x s'. m s = (Inr x, s') \<Longrightarrow> Q x s') \<Longrightarrow> (\<And>e s'. m s = (Inl e, s') \<Longrightarrow> E e s') \<Longrightarrow> wp m Q E s"
  by (auto simp: wp_def split: prod.splits sum.splits)

lemma wp_Inr: "wp m Q E s \<Longrightarrow> m s = (Inr x, s') \<Longrightarrow> Q x s'"
  by (simp add: wp_def)

lemma wp_Inl: "wp m Q E s \<Longrightarrow> m s = (Inl e, s') \<Longrightarrow> E e s'"
  by (simp add: wp_def)

lemma wp_mono:
  "wp m Q E s \<Longrightarrow> (\<And>x s'. Q x s' \<Longrightarrow> Q' x s') \<Longrightarrow> (\<And>e s'. E e s' \<Longrightarrow> E' e s') \<Longrightarrow> wp m Q' E' s"
  by (auto simp: wp_def split: prod.splits sum.splits)

lemma wp_conj:
  "wp m Q E s \<Longrightarrow> wp m Q' E' s \<Longrightarrow> wp m (\<lambda>x s'. Q x s' \<and> Q' x s') (\<lambda>e s'. E e s' \<and> E' e s') s"
  by (auto simp: wp_def split: prod.splits sum.splits)

lemma wp_result: "wp m (\<lambda>x s'. x = v \<and> s' = t) (\<lambda>_ _. False) s \<Longrightarrow> m s = (Inr v, t)"
  by (auto simp: wp_def split: prod.splits sum.splits)

lemma wp_ret_fun: "wp (ret x) Q E = Q x"
  by (simp add: fun_eq_iff wp_ret)

lemma bind_ret: "bind_act (ret x) f = f x"
  by (simp add: bind_act_def ret_def fun_eq_iff)

lemma bind_assoc: "bind_act (bind_act m f) g = bind_act m (\<lambda>x. bind_act (f x) g)"
  by (auto simp: bind_act_def fun_eq_iff split: prod.splits sum.splits)

section \<open>Transactions are atomic\<close>

text \<open>An action is framed when it leaves the stack of saved tables as it found it.\<close>

definition framed :: "('db, 'z, 'a) act \<Rightarrow> bool" where
  "framed m \<longleftrightarrow> (\<forall>s. cn_saved (snd (m s)) = cn_saved s)"

named_theorems framed_intros \<open>introduction rules of \<open>framed\<close>\<close>

lemma framed_basic [framed_intros]:
  "framed (ret x)" "framed (raise e)" "framed (lift_res r)" "framed (query f)" "framed (read_clock c)"
  "framed (draw d)"
  by (simp_all add: framed_def ret_def raise_def lift_res_def query_def read_clock_def draw_def)

lemma framed_guard [framed_intros]: "framed (guard b e)"
  by (simp add: guard_def framed_basic)

lemma framed_execute [framed_intros]: "framed (execute f)"
  by (auto simp: framed_def execute_def split: sum.splits)

lemma framed_bind [framed_intros]:
  "framed m \<Longrightarrow> (\<And>x. framed (f x)) \<Longrightarrow> framed (bind_act m f)"
proof -
  assume m: "framed m" and f: "\<And>x. framed (f x)"
  have "cn_saved (snd (bind_act m f s)) = cn_saved s" for s
    using m [unfolded framed_def, THEN spec, of s] f [unfolded framed_def]
    by (cases "m s"; cases "fst (m s)") (auto simp: bind_act_def)
  then show ?thesis by (simp add: framed_def)
qed

lemma framed_if [framed_intros]: "framed m \<Longrightarrow> framed m' \<Longrightarrow> framed (if b then m else m')"
  by simp

lemma framed_option [framed_intros]:
  "framed m \<Longrightarrow> (\<And>x. framed (f x)) \<Longrightarrow> framed (case v of None \<Rightarrow> m | Some x \<Rightarrow> f x)"
  by (cases v) simp_all

lemma framed_prod [framed_intros]: "(\<And>x y. framed (f x y)) \<Longrightarrow> framed (case p of (x, y) \<Rightarrow> f x y)"
  by (cases p) simp

lemma framed_transaction [framed_intros]:
  assumes "framed m"
  shows "framed (transaction m)"
proof -
  have "cn_saved (snd (transaction m s)) = cn_saved s" for s
  proof -
    obtain r s' where b: "m (s\<lparr>cn_saved := cn_db s # cn_saved s\<rparr>) = (r, s')" by fastforce
    then have "cn_saved s' = cn_db s # cn_saved s"
      using assms [unfolded framed_def, THEN spec, of "s\<lparr>cn_saved := cn_db s # cn_saved s\<rparr>"] by simp
    with b show ?thesis by (cases r) (simp_all add: transaction_def)
  qed
  then show ?thesis by (simp add: framed_def)
qed

lemma transaction_rollback:
  assumes "framed m" and "transaction m s = (Inl e, s')"
  shows "cn_db s' = cn_db s"
proof -
  obtain r s1 where b: "m (s\<lparr>cn_saved := cn_db s # cn_saved s\<rparr>) = (r, s1)" by fastforce
  then have "cn_saved s1 = cn_db s # cn_saved s"
    using assms(1) [unfolded framed_def, THEN spec, of "s\<lparr>cn_saved := cn_db s # cn_saved s\<rparr>"] by simp
  with b assms(2) show ?thesis by (cases r) (auto simp: transaction_def)
qed

text \<open>
  A call is atomic when an exception leaves the tables unchanged: a transaction, one statement,
  either of them after validation, and either of them followed by a conversion of the result.
\<close>

definition atomic :: "('db, 'z, 'a) act \<Rightarrow> bool" where
  "atomic m \<longleftrightarrow> (\<forall>s e s'. m s = (Inl e, s') \<longrightarrow> cn_db s' = cn_db s)"

named_theorems atomic_intros \<open>introduction rules of \<open>atomic\<close>\<close>

lemma atomicD: "atomic m \<Longrightarrow> m s = (Inl e, s') \<Longrightarrow> cn_db s' = cn_db s"
  by (simp add: atomic_def)

lemma atomic_transaction [atomic_intros]: "framed m \<Longrightarrow> atomic (transaction m)"
  using transaction_rollback by (auto simp: atomic_def)

lemma atomic_execute [atomic_intros]: "atomic (execute f)"
  by (auto simp: atomic_def execute_def split: sum.splits)

lemma atomic_lift_bind [atomic_intros]: "(\<And>x. atomic (f x)) \<Longrightarrow> atomic (bind_act (lift_res r) f)"
  by (cases r) (auto simp: atomic_def bind_act_def lift_res_def)

lemma atomic_return [atomic_intros]: "atomic m \<Longrightarrow> atomic (bind_act m (\<lambda>x. ret (f x)))"
  by (auto simp: atomic_def bind_act_def ret_def split: prod.splits sum.splits)

text \<open>Actions that only read may come before.\<close>

definition reads :: "('db, 'z, 'a) act \<Rightarrow> bool" where
  "reads m \<longleftrightarrow> (\<forall>s. cn_db (snd (m s)) = cn_db s)"

named_theorems reads_intros \<open>introduction rules of \<open>reads\<close>\<close>

lemma reads_basic [reads_intros]:
  "reads (ret x)" "reads (raise e)" "reads (lift_res r)" "reads (query f)" "reads (read_clock c)"
  "reads (draw d)" "reads (guard b e)"
  by (simp_all add: reads_def ret_def raise_def lift_res_def query_def read_clock_def draw_def guard_def)

lemma reads_bind [reads_intros]:
  "reads m \<Longrightarrow> (\<And>x. reads (f x)) \<Longrightarrow> reads (bind_act m f)"
proof -
  assume m: "reads m" and f: "\<And>x. reads (f x)"
  have "cn_db (snd (bind_act m f s)) = cn_db s" for s
    using m [unfolded reads_def, THEN spec, of s] f [unfolded reads_def]
    by (cases "m s"; cases "fst (m s)") (auto simp: bind_act_def)
  then show ?thesis by (simp add: reads_def)
qed

lemma reads_option [reads_intros]:
  "reads m \<Longrightarrow> (\<And>x. reads (f x)) \<Longrightarrow> reads (case v of None \<Rightarrow> m | Some x \<Rightarrow> f x)"
  by (cases v) simp_all

lemma reads_if [reads_intros]: "reads m \<Longrightarrow> reads m' \<Longrightarrow> reads (if b then m else m')"
  by simp

lemma reads_transaction [reads_intros]:
  assumes "reads m" and "framed m" shows "reads (transaction m)"
proof -
  have "cn_db (snd (transaction m s)) = cn_db s" for s
  proof -
    obtain r s' where b: "m (s\<lparr>cn_saved := cn_db s # cn_saved s\<rparr>) = (r, s')" by fastforce
    then have "cn_saved s' = cn_db s # cn_saved s" "cn_db s' = cn_db s"
      using assms(2) [unfolded framed_def, THEN spec, of "s\<lparr>cn_saved := cn_db s # cn_saved s\<rparr>"]
        assms(1) [unfolded reads_def, THEN spec, of "s\<lparr>cn_saved := cn_db s # cn_saved s\<rparr>"] by simp_all
    with b show ?thesis by (cases r) (simp_all add: transaction_def)
  qed
  then show ?thesis by (simp add: reads_def)
qed

lemma atomic_reads: "reads m \<Longrightarrow> atomic m"
  by (auto simp: atomic_def reads_def) (metis snd_conv)

lemma atomic_after_reads: "reads m \<Longrightarrow> (\<And>x. atomic (f x)) \<Longrightarrow> atomic (bind_act m f)"
  unfolding atomic_def reads_def bind_act_def
  by (auto split: prod.splits sum.splits) (metis snd_conv)+

lemma wp_reads: "reads m \<Longrightarrow> wp m (\<lambda>_ s'. cn_db s' = cn_db s) (\<lambda>_ s'. cn_db s' = cn_db s) s"
  by (auto simp: wp_def reads_def split: prod.splits sum.splits) (metis snd_conv)+

lemma atomic_prod [atomic_intros]: "(\<And>x y. atomic (f x y)) \<Longrightarrow> atomic (case p of (x, y) \<Rightarrow> f x y)"
  by (cases p) simp

lemma atomic_wp: "atomic m \<Longrightarrow> wp m Q (\<lambda>e s'. E e s') s \<Longrightarrow> wp m Q (\<lambda>e s'. cn_db s' = cn_db s \<and> E e s') s"
  by (auto simp: wp_def atomic_def split: prod.splits sum.splits)

lemma wp_saved: "wp m Q E (s\<lparr>cn_saved := x\<rparr>) \<Longrightarrow>
    (\<And>v s'. Q v s' \<Longrightarrow> Q' v (s'\<lparr>cn_saved := tl (cn_saved s')\<rparr>)) \<Longrightarrow>
    (\<And>e s'. E e s' \<Longrightarrow> E' e (s'\<lparr>cn_db := hd (cn_saved s'), cn_saved := tl (cn_saved s')\<rparr>)) \<Longrightarrow>
    x = cn_db s # cn_saved s \<Longrightarrow> wp (transaction m) Q' E' s"
  by (simp add: wp_transaction wp_mono)

section \<open>Tables as lists of rows\<close>

text \<open>
  \<open>UPDATE rows SET g WHERE P\<close> is \<open>update_rows P g rows\<close>, and
  \<open>SELECT COALESCE(SUM(f),0) FROM rows WHERE P\<close> is \<open>sum_where P f rows\<close>.
\<close>

definition update_rows :: "('r \<Rightarrow> bool) \<Rightarrow> ('r \<Rightarrow> 'r) \<Rightarrow> 'r list \<Rightarrow> 'r list" where
  "update_rows P g rows = map (\<lambda>r. if P r then g r else r) rows"

definition sum_where :: "('r \<Rightarrow> bool) \<Rightarrow> ('r \<Rightarrow> int) \<Rightarrow> 'r list \<Rightarrow> int" where
  "sum_where P f rows = sum_list (map f (filter P rows))"

lemma sum_where_Nil [simp]: "sum_where P f [] = 0"
  by (simp add: sum_where_def)

lemma sum_where_Cons [simp]: "sum_where P f (r # rows) = (if P r then f r else 0) + sum_where P f rows"
  by (simp add: sum_where_def)

lemma sum_where_append [simp]: "sum_where P f (xs @ ys) = sum_where P f xs + sum_where P f ys"
  by (simp add: sum_where_def)

lemma sum_where_nonneg: "(\<And>r. r \<in> set rows \<Longrightarrow> P r \<Longrightarrow> 0 \<le> f r) \<Longrightarrow> 0 \<le> sum_where P f rows"
  by (induction rows) auto

lemma sum_where_zero: "(\<And>r. r \<in> set rows \<Longrightarrow> P r \<Longrightarrow> f r = 0) \<Longrightarrow> sum_where P f rows = 0"
  by (induction rows) auto

lemma sum_where_none: "(\<And>r. r \<in> set rows \<Longrightarrow> \<not> P r) \<Longrightarrow> sum_where P f rows = 0"
  by (induction rows) auto

lemma sum_where_all: "(\<And>r. r \<in> set rows \<Longrightarrow> P r) \<Longrightarrow> sum_where P f rows = sum_list (map f rows)"
  by (induction rows) auto

lemma sum_where_cong:
  "(\<And>r. r \<in> set rows \<Longrightarrow> P r = Q r) \<Longrightarrow> (\<And>r. r \<in> set rows \<Longrightarrow> P r \<Longrightarrow> f r = g r)
    \<Longrightarrow> sum_where P f rows = sum_where Q g rows"
  by (induction rows) auto

lemma member_le_sum_where:
  "r \<in> set rows \<Longrightarrow> P r \<Longrightarrow> (\<And>x. x \<in> set rows \<Longrightarrow> P x \<Longrightarrow> 0 \<le> f x) \<Longrightarrow> f r \<le> sum_where P f rows"
proof (induction rows)
  case (Cons x rows)
  then have "0 \<le> sum_where P f rows" by (intro sum_where_nonneg) auto
  with Cons show ?case by (cases "r = x") (auto intro: order_trans)
qed simp

lemma set_update_rows: "x \<in> set (update_rows P g rows) \<longleftrightarrow> (\<exists>r \<in> set rows. x = (if P r then g r else r))"
  by (auto simp: update_rows_def)

lemma update_rows_E:
  assumes "x \<in> set (update_rows P g rows)"
  obtains r where "r \<in> set rows" and "P r" and "x = g r" | "x \<in> set rows" and "\<not> P x"
  using assms by (auto simp: update_rows_def split: if_splits)

lemma map_update_rows: "(\<And>r. k (g r) = k r) \<Longrightarrow> map k (update_rows P g rows) = map k rows"
  by (simp add: update_rows_def)

lemma sum_where_update_absent:
  "(\<And>r. r \<in> set rows \<Longrightarrow> \<not> P r) \<Longrightarrow> update_rows P g rows = rows"
  by (simp add: update_rows_def map_idI)

lemma sum_where_update_one:
  assumes "distinct (map k rows)" and "r \<in> set rows" and "k r = x" and "\<And>r. Q (g r) = Q r"
  shows "sum_where Q f (update_rows (\<lambda>r. k r = x) g rows)
       = sum_where Q f rows + (if Q r then f (g r) - f r else 0)"
  using assms(1,2)
proof (induction rows)
  case (Cons y rows)
  show ?case
  proof (cases "y = r")
    case True
    with Cons.prems(1) assms(3) have "update_rows (\<lambda>r. k r = x) g rows = rows"
      by (intro sum_where_update_absent) (auto simp: image_iff)
    with True assms(3,4) show ?thesis by (simp add: update_rows_def)
  next
    case False
    with Cons.prems have mem: "r \<in> set rows" by simp
    with Cons.prems(1) assms(3) have "k y \<noteq> x" by (auto simp: image_iff)
    with Cons.IH Cons.prems(1) mem show ?thesis by (simp add: update_rows_def)
  qed
qed simp

lemma sum_where_update_same:
  "(\<And>r. Q (g r) = Q r) \<Longrightarrow> (\<And>r. f (g r) = f r) \<Longrightarrow> sum_where Q f (update_rows P g rows) = sum_where Q f rows"
  by (induction rows) (auto simp: update_rows_def)

lemma find_unique:
  assumes "distinct (map k rows)" and "r \<in> set rows" and "s \<in> set rows" and "k r = k s"
  shows "r = s"
  using assms by (induction rows) (auto simp: image_iff)

lemma sum_where_partition:
  assumes "distinct ks" and "\<And>r. r \<in> set rows \<Longrightarrow> k r \<in> set ks"
  shows "(\<Sum>x\<leftarrow>ks. sum_where (\<lambda>r. k r = x) f rows) = sum_list (map f rows)"
  using assms(2)
proof (induction rows)
  case (Cons r rows)
  have "(\<Sum>x\<leftarrow>ks. if k r = x then f r else 0) = f r" if "k r \<in> set ks"
    using assms(1) that
  proof (induction ks)
    case (Cons y ks)
    have "(\<Sum>x\<leftarrow>ks. if k r = x then f r else 0) = 0" if "k r \<notin> set ks"
      using that by (induction ks) auto
    with Cons show ?case by auto
  qed simp
  with Cons show ?case by (simp add: sum_list_addf)
qed simp

text \<open>A row found by a unique key.\<close>

lemma find_by_key:
  "distinct (map k rows) \<Longrightarrow> r \<in> set rows \<Longrightarrow> (\<And>x. P x \<longleftrightarrow> k x = k r) \<Longrightarrow> find P rows = Some r"
  by (induction rows) (auto simp: image_iff)

lemma filter_by_key:
  assumes "distinct (map k rows)" and "r \<in> set rows" and "P r" and P: "\<And>x. P x \<Longrightarrow> k x = k r"
  shows "filter P rows = [r]"
  using assms(1,2)
proof (induction rows)
  case (Cons x rows)
  show ?case
  proof (cases "x = r")
    case True
    have "\<not> P y" if "y \<in> set rows" for y
    proof
      assume "P y"
      then have "k y = k x" unfolding True by (rule P)
      with that Cons.prems(1) show False by (auto simp: image_iff)
    qed
    then have "filter P rows = []" by simp
    with True \<open>P r\<close> show ?thesis by simp
  next
    case False
    with Cons.prems have mem: "r \<in> set rows" "k x \<noteq> k r" by (auto simp: image_iff)
    then have "\<not> P x" using P by blast
    with mem Cons.IH Cons.prems(1) show ?thesis by simp
  qed
qed simp

text \<open>Spending one item of those not yet spent.\<close>

lemma sum_where_spend:
  assumes "distinct (map k items)" and "i \<in> set items" and "k i \<notin> S"
  shows "sum_where (\<lambda>j. g j = b \<and> k j \<notin> insert (k i) S) f items
    = sum_where (\<lambda>j. g j = b \<and> k j \<notin> S) f items - (if g i = b then f i else 0)"
  using assms(1,2)
proof (induction items)
  case (Cons j items)
  show ?case
  proof (cases "j = i")
    case True
    with Cons.prems have "\<forall>x \<in> set items. k x \<noteq> k i" by (auto simp: image_iff)
    then have "sum_where (\<lambda>j. g j = b \<and> k j \<notin> insert (k i) S) f items
        = sum_where (\<lambda>j. g j = b \<and> k j \<notin> S) f items"
      by (intro sum_where_cong) auto
    with True assms(3) show ?thesis by auto
  next
    case False
    with Cons.prems have "i \<in> set items" by simp
    moreover from this have "k j \<noteq> k i" using Cons.prems(1) by (auto simp: image_iff)
    ultimately show ?thesis using Cons by auto
  qed
qed simp

section \<open>A service as a state machine\<close>

text \<open>
  The interface the two services share: calls on a state, an invariant of the tables that each
  call keeps, and the promise that a call which raises leaves the tables unchanged.
\<close>

definition run_ops :: "('op \<Rightarrow> 's \<Rightarrow> 'r \<times> 's) \<Rightarrow> 'op list \<Rightarrow> 's \<Rightarrow> 's" where
  "run_ops step ops s = foldl (\<lambda>s op. snd (step op s)) s ops"

lemma run_ops_simps [simp]:
  "run_ops step [] s = s"
  "run_ops step (op # ops) s = run_ops step ops (snd (step op s))"
  by (simp_all add: run_ops_def)

lemma run_ops_append: "run_ops f (xs @ ys) s = run_ops f ys (run_ops f xs s)"
  by (simp add: run_ops_def)

locale service =
  fixes step :: "'op \<Rightarrow> ('db, 'z) conn_scheme \<Rightarrow> 'r result \<times> ('db, 'z) conn_scheme"
    and inv :: "'db \<Rightarrow> bool"
  assumes step_inv: "inv (cn_db s) \<Longrightarrow> inv (cn_db (snd (step op s)))"
    and step_rollback: "step op s = (Inl e, s') \<Longrightarrow> cn_db s' = cn_db s"
begin

lemma run_inv: "inv (cn_db s) \<Longrightarrow> inv (cn_db (run_ops step ops s))"
  by (induction ops arbitrary: s) (simp_all add: step_inv)

text \<open>A relation that every successful call keeps, such as growth of a table, holds of histories.\<close>

lemma run_relation:
  assumes "inv (cn_db s)"
    and refl: "\<And>d. R d d" and trans: "\<And>x y z. R x y \<Longrightarrow> R y z \<Longrightarrow> R x z"
    and ok: "\<And>op s r s'. inv (cn_db s) \<Longrightarrow> step op s = (Inr r, s') \<Longrightarrow> R (cn_db s) (cn_db s')"
  shows "R (cn_db s) (cn_db (run_ops step ops s))"
  using assms(1)
proof (induction ops arbitrary: s)
  case Nil
  then show ?case by (simp add: refl)
next
  case (Cons op ops)
  obtain r s' where st: "step op s = (r, s')" by fastforce
  have "R (cn_db s) (cn_db s')"
  proof (cases r)
    case (Inl e)
    with step_rollback st have "cn_db s' = cn_db s" by blast
    then show ?thesis by (simp add: refl)
  next
    case (Inr x)
    with ok [OF Cons.prems] st show ?thesis by blast
  qed
  moreover have "R (cn_db s') (cn_db (run_ops step ops s'))"
    using Cons.IH [of s'] step_inv [OF Cons.prems, of op] st by simp
  ultimately have "R (cn_db s) (cn_db (run_ops step ops s'))" by (rule trans)
  then show ?case using st by simp
qed

end

end
