(* ===== verification/AccessBook.thy ===== *)
theory AccessBook
  imports Txn Jws Receipts
begin

text \<open>
  \<open>examples/access_book/engine.py\<close>: prepaid, scoped access to content. \<open>Authority\<close> signs and
  checks the tokens of access books; \<open>Clearing\<close> keeps balances, offers, books and redemptions
  in one database and moves units between them.

  PyJWT is third-party code: \<open>jwt.decode\<close>, with the options the code passes, and
  \<open>jwt.get_unverified_header\<close> are fields of the environment. Amounts are unbounded integers
  here; in SQLite they are 64-bit, which a buyer's balance, at most \<open>MAX_UNITS\<close>, cannot exceed
  and a publisher's total only after more than nine million redemptions of that size.
\<close>

definition MAX_ITEMS :: nat where "MAX_ITEMS = 256"
definition MAX_UNITS :: int where "MAX_UNITS = 10 ^ 12"
definition MAX_TTL :: int where "MAX_TTL = 300"
definition ISSUER :: ustr where "ISSUER = lit ''access-book.example''"
definition KEY_ID :: ustr where "KEY_ID = lit ''evaluation-key-1''"
definition BOOK_PROFILE :: ustr where "BOOK_PROFILE = lit ''funded-access-book-v1''"

section \<open>Validation\<close>

definition canonical :: "pyval \<Rightarrow> bytes" where
  "canonical v = ascii_encode (dumps_sorted v)"

definition fingerprint :: "pyval \<Rightarrow> ustr" where
  "fingerprint v = sha256_hex (canonical v)"

definition identifier_char :: "nat \<Rightarrow> bool" where
  "identifier_char c \<longleftrightarrow> (97 \<le> c \<and> c \<le> 122) \<or> (65 \<le> c \<and> c \<le> 90) \<or> (48 \<le> c \<and> c \<le> 57)
     \<or> c = 46 \<or> c = 95 \<or> c = 58 \<or> c = 47 \<or> c = 45"

definition is_identifier :: "ustr \<Rightarrow> bool" where
  "is_identifier s \<longleftrightarrow> (\<forall>c \<in> set s. identifier_char c) \<and> 1 \<le> length s \<and> length s \<le> 128"

definition check_identifier :: "pyval \<Rightarrow> ustr result" where
  "check_identifier v = (case as_str v of
     None \<Rightarrow> Inl (Denied ''invalid bounded identifier'')
   | Some s \<Rightarrow> if is_identifier s then Inr s else Inl (Denied ''invalid bounded identifier''))"

definition check_integer :: "pyval \<Rightarrow> int \<Rightarrow> int \<Rightarrow> int result" where
  "check_integer v low high = (case as_int v of
     None \<Rightarrow> Inl (Denied ''invalid bounded integer'')
   | Some n \<Rightarrow> if low \<le> n \<and> n \<le> high then Inr n else Inl (Denied ''invalid bounded integer''))"

definition is_commitment :: "ustr \<Rightarrow> bool" where
  "is_commitment s \<longleftrightarrow> length s = 64 \<and> (\<forall>c \<in> set s. (48 \<le> c \<and> c \<le> 57) \<or> (97 \<le> c \<and> c \<le> 102))"

definition check_commitment :: "pyval \<Rightarrow> ustr result" where
  "check_commitment v = (case as_str v of
     None \<Rightarrow> Inl (Denied ''invalid SHA-256 commitment'')
   | Some s \<Rightarrow> if is_commitment s then Inr s else Inl (Denied ''invalid SHA-256 commitment''))"

lemma check_identifier_Inr_iff: "check_identifier v = Inr s \<longleftrightarrow> v = PStr s \<and> is_identifier s"
  by (cases v) (auto simp: check_identifier_def)

lemma check_integer_Inr_iff: "check_integer v lo hi = Inr n \<longleftrightarrow> v = PInt n \<and> lo \<le> n \<and> n \<le> hi"
  by (cases v) (auto simp: check_integer_def)

lemma check_commitment_Inr_iff: "check_commitment v = Inr s \<longleftrightarrow> v = PStr s \<and> is_commitment s"
  by (cases v) (auto simp: check_commitment_def)

section \<open>Tables\<close>

record account =
  ac_buyer :: ustr
  ac_initial :: int
  ac_available :: int
  ac_reserved :: int
  ac_redeemed :: int

record offer =
  of_publisher :: ustr
  of_resource :: ustr
  of_content :: ustr
  of_terms :: ustr
  of_units :: int
  of_valid_until :: int

record book =
  bk_id :: ustr
  bk_buyer :: ustr
  bk_publisher :: ustr
  bk_request_id :: ustr
  bk_request_hash :: ustr
  bk_payload :: ustr
  bk_token :: ustr
  bk_issued :: int
  bk_expires :: int
  bk_remaining :: int
  bk_active :: bool
  bk_closed :: bool

record item =
  it_book :: ustr
  it_resource :: ustr
  it_content :: ustr
  it_terms :: ustr
  it_units :: int

record redemption =
  rd_buyer :: ustr
  rd_request_id :: ustr
  rd_request_hash :: ustr
  rd_book :: ustr
  rd_resource :: ustr
  rd_publisher :: ustr
  rd_units :: int
  rd_receipt :: ustr

record publisher =
  pb_id :: ustr
  pb_accrued :: int

record book_db =
  accounts :: "account list"
  offers :: "offer list"
  books :: "book list"
  items :: "item list"
  redemptions :: "redemption list"
  publishers :: "publisher list"
  revoked_keys :: "ustr list"

definition empty_book_db :: book_db where
  "empty_book_db = \<lparr>accounts = [], offers = [], books = [], items = [], redemptions = [],
     publishers = [], revoked_keys = []\<rparr>"

section \<open>The environment and the authority\<close>

record book_env =
  be_ossl :: ossl
  be_private :: nat
  be_public :: bytes
  be_jwt_decode :: "bytes \<Rightarrow> ustr \<Rightarrow> pyval \<Rightarrow> pyval option"
  be_jwt_header :: "ustr \<Rightarrow> pyval option"
  be_clock :: "nat \<Rightarrow> int"
  be_random :: "nat \<Rightarrow> ustr"

record book_conn = "book_db conn" +
  au_signatures :: nat
  au_verifications :: nat

type_synonym 'a book_act = "book_conn \<Rightarrow> 'a result \<times> book_conn"

text \<open>\<open>d[k]\<close> for a dictionary of unknown shape.\<close>

definition py_get :: "pyval \<Rightarrow> ustr \<Rightarrow> pyval result" where
  "py_get v k = (case v of
     PDict kvs \<Rightarrow> (case map_of kvs k of Some x \<Rightarrow> Inr x | None \<Rightarrow> Inl (KeyError ''missing''))
   | _ \<Rightarrow> Inl (TypeError ''not subscriptable''))"

text \<open>The signing callback of \<open>Authority.sign\<close> and the method itself.\<close>

definition authority_signer :: "book_env \<Rightarrow> signer" where
  "authority_signer env digests =
     Inr (Items (map (\<lambda>h. PBytes (raw_signature (ecdsa_sign (be_ossl env) (be_private env) h))) digests))"

definition authority_sign :: "book_env \<Rightarrow> bytes \<Rightarrow> ustr book_act" where
  "authority_sign env payload =
     (\<lambda>s. case sign_es256 (Items [PBytes payload]) (PStr KEY_ID) (authority_signer env) of
        Inl e \<Rightarrow> (Inl e, s)
      | Inr tokens \<Rightarrow> (Inr (hd tokens), s\<lparr>au_signatures := Suc (au_signatures s)\<rparr>))"

text \<open>The exceptions of the \<open>try\<close> of \<open>Authority.verify\<close>, all turned into \<open>Denied\<close>.\<close>

fun policy_error :: "exn \<Rightarrow> bool" where
  "policy_error (JwtError _) = True"
| "policy_error (TypeError _) = True"
| "policy_error (ValueError _) = True"
| "policy_error (Denied _) = True"
| "policy_error (UnicodeError _) = True"
| "policy_error _ = False"

definition same_dict :: "pyval \<Rightarrow> (ustr \<times> pyval) list \<Rightarrow> bool" where
  "same_dict v kvs = (case v of
     PDict d \<Rightarrow> set (map fst d) = set (map fst kvs) \<and> (\<forall>(k, x) \<in> set kvs. map_of d k = Some x)
   | _ \<Rightarrow> False)"

definition check_window :: "pyval \<Rightarrow> int \<Rightarrow> unit result" where
  "check_window expected now =
     bind_res (py_get expected (lit ''iat'')) (\<lambda>iat.
     bind_res (py_get expected (lit ''exp'')) (\<lambda>exp.
       case as_int iat of
         None \<Rightarrow> Inl (TypeError ''not an integer'')
       | Some iat \<Rightarrow>
           (case as_int exp of
              None \<Rightarrow> Inl (TypeError ''not an integer'')
            | Some exp \<Rightarrow>
                if iat \<le> now \<and> now < exp then Inr ()
                else Inl (Denied ''wrong claims or expired book''))))"

definition check_claims :: "book_env \<Rightarrow> ustr \<Rightarrow> pyval \<Rightarrow> int \<Rightarrow> unit result" where
  "check_claims env token expected now =
     bind_res (py_get expected (lit ''aud'')) (\<lambda>aud.
       case be_jwt_decode env (be_public env) token aud of
         None \<Rightarrow> Inl (JwtError ''decode'')
       | Some claims \<Rightarrow>
           (case be_jwt_header env token of
              None \<Rightarrow> Inl (JwtError ''header'')
            | Some header \<Rightarrow>
                if \<not> same_dict header [(lit ''alg'', PStr (lit ''ES256'')), (lit ''kid'', PStr KEY_ID)]
                then Inl (Denied ''untrusted header'')
                else if canonical claims \<noteq> canonical expected
                then Inl (Denied ''wrong claims or expired book'')
                else check_window expected now))"

definition authority_check :: "book_env \<Rightarrow> pyval \<Rightarrow> pyval \<Rightarrow> int \<Rightarrow> unit result" where
  "authority_check env token expected now =
     (case as_str token of
        None \<Rightarrow> Inl (Denied ''invalid bounded token'')
      | Some t \<Rightarrow>
          if 4096 < length t then Inl (Denied ''invalid bounded token'')
          else (case check_claims env t expected now of
              Inl e \<Rightarrow> Inl (if policy_error e then Denied ''signature or claim policy failed'' else e)
            | Inr _ \<Rightarrow> Inr ()))"

definition authority_verify :: "book_env \<Rightarrow> pyval \<Rightarrow> pyval \<Rightarrow> int \<Rightarrow> unit book_act" where
  "authority_verify env token expected now s =
     (case authority_check env token expected now of
        Inl e \<Rightarrow> (Inl e, s)
      | Inr _ \<Rightarrow> (Inr (), s\<lparr>au_verifications := Suc (au_verifications s)\<rparr>))"

section \<open>Statements\<close>

text \<open>Each statement checks the constraints of the schema on the rows it writes.\<close>

definition account_ok :: "account \<Rightarrow> bool" where
  "account_ok a \<longleftrightarrow> 0 \<le> ac_available a \<and> 0 \<le> ac_reserved a \<and> 0 \<le> ac_redeemed a
     \<and> ac_initial a = ac_available a + ac_reserved a + ac_redeemed a"

definition insert_account :: "account \<Rightarrow> book_db \<Rightarrow> book_db result" where
  "insert_account a d = check_constraint (ac_buyer a \<notin> set (map ac_buyer (accounts d)) \<and> account_ok a)
     (d\<lparr>accounts := accounts d @ [a]\<rparr>)"

definition update_accounts :: "(account \<Rightarrow> bool) \<Rightarrow> (account \<Rightarrow> account) \<Rightarrow> book_db \<Rightarrow> book_db result" where
  "update_accounts P g d = check_constraint (\<forall>a \<in> set (accounts d). P a \<longrightarrow> account_ok (g a))
     (d\<lparr>accounts := update_rows P g (accounts d)\<rparr>)"

definition update_books :: "(book \<Rightarrow> bool) \<Rightarrow> (book \<Rightarrow> book) \<Rightarrow> book_db \<Rightarrow> book_db result" where
  "update_books P g d = check_constraint (\<forall>b \<in> set (books d). P b \<longrightarrow> 0 \<le> bk_remaining (g b))
     (d\<lparr>books := update_rows P g (books d)\<rparr>)"

definition update_publishers ::
    "(publisher \<Rightarrow> bool) \<Rightarrow> (publisher \<Rightarrow> publisher) \<Rightarrow> book_db \<Rightarrow> book_db result" where
  "update_publishers P g d = check_constraint (\<forall>p \<in> set (publishers d). P p \<longrightarrow> 0 \<le> pb_accrued (g p))
     (d\<lparr>publishers := update_rows P g (publishers d)\<rparr>)"

definition replace_offer :: "offer \<Rightarrow> book_db \<Rightarrow> book_db result" where
  "replace_offer x d = Inr (d\<lparr>offers :=
     filter (\<lambda>y. \<not> (of_publisher y = of_publisher x \<and> of_resource y = of_resource x)) (offers d) @ [x]\<rparr>)"

definition insert_publisher :: "ustr \<Rightarrow> book_db \<Rightarrow> book_db result" where
  "insert_publisher p d = Inr (if p \<in> set (map pb_id (publishers d)) then d
     else d\<lparr>publishers := publishers d @ [\<lparr>pb_id = p, pb_accrued = 0\<rparr>]\<rparr>)"

definition insert_book :: "book \<Rightarrow> book_db \<Rightarrow> book_db result" where
  "insert_book b d = check_constraint
     (bk_id b \<notin> set (map bk_id (books d))
      \<and> bk_buyer b \<in> set (map ac_buyer (accounts d))
      \<and> (bk_buyer b, bk_request_id b) \<notin> set (map (\<lambda>x. (bk_buyer x, bk_request_id x)) (books d))
      \<and> 0 \<le> bk_remaining b)
     (d\<lparr>books := books d @ [b]\<rparr>)"

definition item_key :: "item \<Rightarrow> ustr \<times> ustr" where
  "item_key i = (it_book i, it_resource i)"

definition insert_items :: "item list \<Rightarrow> book_db \<Rightarrow> book_db result" where
  "insert_items new d = check_constraint
     (distinct (map item_key new) \<and> set (map item_key new) \<inter> set (map item_key (items d)) = {}
      \<and> (\<forall>i \<in> set new. it_book i \<in> set (map bk_id (books d))))
     (d\<lparr>items := items d @ new\<rparr>)"

definition rd_key :: "redemption \<Rightarrow> ustr \<times> ustr" where
  "rd_key r = (rd_book r, rd_resource r)"

definition rd_request :: "redemption \<Rightarrow> ustr \<times> ustr" where
  "rd_request r = (rd_buyer r, rd_request_id r)"

definition insert_redemption :: "redemption \<Rightarrow> book_db \<Rightarrow> book_db result" where
  "insert_redemption r d = check_constraint
     (rd_request r \<notin> set (map rd_request (redemptions d))
      \<and> rd_key r \<notin> set (map rd_key (redemptions d))
      \<and> rd_book r \<in> set (map bk_id (books d)))
     (d\<lparr>redemptions := redemptions d @ [r]\<rparr>)"

definition insert_revoked :: "ustr \<Rightarrow> book_db \<Rightarrow> book_db result" where
  "insert_revoked k d = Inr (if k \<in> set (revoked_keys d) then d
     else d\<lparr>revoked_keys := revoked_keys d @ [k]\<rparr>)"

section \<open>Operations of the clearing service\<close>

definition now :: "book_env \<Rightarrow> int book_act" where
  "now env = bind_act (read_clock (be_clock env)) (\<lambda>t. lift_res (check_integer (PInt t) 1 MAX_UNITS))"

definition seed_simulated_balance :: "pyval \<Rightarrow> pyval \<Rightarrow> unit book_act" where
  "seed_simulated_balance buyer units =
     bind_act (lift_res (check_identifier buyer)) (\<lambda>buyer.
     bind_act (lift_res (check_integer units 1 MAX_UNITS)) (\<lambda>units.
       execute (insert_account \<lparr>ac_buyer = buyer, ac_initial = units, ac_available = units,
         ac_reserved = 0, ac_redeemed = 0\<rparr>)))"

definition validate_offer ::
    "pyval \<Rightarrow> pyval \<Rightarrow> pyval \<Rightarrow> pyval \<Rightarrow> pyval \<Rightarrow> pyval \<Rightarrow> offer result" where
  "validate_offer publisher resource content_sha256 terms_sha256 units valid_until =
     bind_res (check_identifier publisher) (\<lambda>p.
     bind_res (check_identifier resource) (\<lambda>r.
     bind_res (check_commitment content_sha256) (\<lambda>c.
     bind_res (check_commitment terms_sha256) (\<lambda>t.
     bind_res (check_integer units 1 MAX_UNITS) (\<lambda>u.
     bind_res (check_integer valid_until 1 MAX_UNITS) (\<lambda>v.
       Inr \<lparr>of_publisher = p, of_resource = r, of_content = c, of_terms = t, of_units = u,
         of_valid_until = v\<rparr>))))))"

definition set_offer ::
    "pyval \<Rightarrow> pyval \<Rightarrow> pyval \<Rightarrow> pyval \<Rightarrow> pyval \<Rightarrow> pyval \<Rightarrow> unit book_act" where
  "set_offer publisher resource content_sha256 terms_sha256 units valid_until =
     bind_act (lift_res (validate_offer publisher resource content_sha256 terms_sha256 units valid_until))
       (\<lambda>x. transaction
          (bind_act (execute (replace_offer x)) (\<lambda>_. execute (insert_publisher (of_publisher x)))))"

definition key_ok :: "unit book_act" where
  "key_ok = bind_act (query revoked_keys) (\<lambda>ks. guard (KEY_ID \<notin> set ks) (Denied ''issuer key revoked''))"

record issue_request =
  iq_buyer :: ustr
  iq_publisher :: ustr
  iq_resources :: "ustr list"
  iq_max_units :: int
  iq_request_id :: ustr
  iq_ttl :: int

definition issue_args ::
    "pyval \<Rightarrow> pyval \<Rightarrow> pyval \<Rightarrow> pyval \<Rightarrow> pyval \<Rightarrow> pyval \<Rightarrow> issue_request result" where
  "issue_args buyer publisher resources max_units request_id ttl =
     bind_res (check_identifier buyer) (\<lambda>b.
     bind_res (check_identifier publisher) (\<lambda>p.
     bind_res (check_identifier request_id) (\<lambda>q.
     bind_res (check_integer max_units 1 MAX_UNITS) (\<lambda>m.
     bind_res (check_integer ttl 1 MAX_TTL) (\<lambda>t.
       case as_list resources of
         None \<Rightarrow> Inl (Denied ''invalid book size'')
       | Some rs \<Rightarrow>
           if \<not> (1 \<le> length rs \<and> length rs \<le> MAX_ITEMS) then Inl (Denied ''invalid book size'')
           else bind_res (map_res check_identifier rs) (\<lambda>names.
             if \<not> distinct (sort names) then Inl (Denied ''duplicate resource'')
             else Inr \<lparr>iq_buyer = b, iq_publisher = p, iq_resources = sort names, iq_max_units = m,
               iq_request_id = q, iq_ttl = t\<rparr>))))))"

definition issue_hash :: "issue_request \<Rightarrow> ustr" where
  "issue_hash q = fingerprint (PList [PStr (iq_buyer q), PStr (iq_publisher q),
     PList (map PStr (iq_resources q)), PInt (iq_max_units q), PInt (iq_ttl q)])"

definition find_offer :: "book_db \<Rightarrow> ustr \<Rightarrow> ustr \<Rightarrow> offer option" where
  "find_offer d p r = find (\<lambda>x. of_publisher x = p \<and> of_resource x = r) (offers d)"

definition live_offers :: "book_db \<Rightarrow> int \<Rightarrow> ustr \<Rightarrow> ustr list \<Rightarrow> offer list result" where
  "live_offers d t p resources = map_res (\<lambda>r.
     case find_offer d p r of
       None \<Rightarrow> Inl (Denied ''missing or expired authoritative offer'')
     | Some x \<Rightarrow> if of_valid_until x \<le> t then Inl (Denied ''missing or expired authoritative offer'')
                 else Inr x) resources"

definition offer_value :: "offer \<Rightarrow> pyval" where
  "offer_value x = PDict [(lit ''publisher'', PStr (of_publisher x)),
     (lit ''resource'', PStr (of_resource x)), (lit ''content_sha256'', PStr (of_content x)),
     (lit ''terms_sha256'', PStr (of_terms x)), (lit ''units'', PInt (of_units x)),
     (lit ''valid_until'', PInt (of_valid_until x))]"

definition book_claims ::
    "ustr \<Rightarrow> ustr \<Rightarrow> ustr \<Rightarrow> int \<Rightarrow> int \<Rightarrow> offer list \<Rightarrow> pyval" where
  "book_claims bid buyer publisher issued expires offs =
     PDict [(lit ''iss'', PStr ISSUER), (lit ''aud'', PStr publisher), (lit ''sub'', PStr buyer),
       (lit ''iat'', PInt issued), (lit ''exp'', PInt expires), (lit ''jti'', PStr bid),
       (lit ''profile'', PStr BOOK_PROFILE), (lit ''scope'', PStr (lit ''content:read'')),
       (lit ''manifest_sha256'', PStr (fingerprint (PList (map offer_value offs)))),
       (lit ''count'', PInt (int (length offs))),
       (lit ''reserved_micro_usd'', PInt (sum_list (map of_units offs)))]"

definition reserve :: "ustr \<Rightarrow> int \<Rightarrow> book_db \<Rightarrow> book_db result" where
  "reserve buyer amount = update_accounts (\<lambda>a. ac_buyer a = buyer \<and> amount \<le> ac_available a)
     (\<lambda>a. a\<lparr>ac_available := ac_available a - amount, ac_reserved := ac_reserved a + amount\<rparr>)"

text \<open>The row, the payload and the items of a new book.\<close>

definition book_expires :: "issue_request \<Rightarrow> int \<Rightarrow> offer list \<Rightarrow> int" where
  "book_expires q issued offs = foldl min (issued + iq_ttl q) (map of_valid_until offs)"

definition book_payload :: "issue_request \<Rightarrow> ustr \<Rightarrow> int \<Rightarrow> offer list \<Rightarrow> ustr" where
  "book_payload q bid issued offs = dumps_sorted
     (book_claims bid (iq_buyer q) (iq_publisher q) issued (book_expires q issued offs) offs)"

definition new_book :: "issue_request \<Rightarrow> ustr \<Rightarrow> int \<Rightarrow> offer list \<Rightarrow> ustr \<Rightarrow> book" where
  "new_book q bid issued offs token = \<lparr>bk_id = bid, bk_buyer = iq_buyer q,
     bk_publisher = iq_publisher q, bk_request_id = iq_request_id q,
     bk_request_hash = issue_hash q, bk_payload = book_payload q bid issued offs,
     bk_token = token, bk_issued = issued, bk_expires = book_expires q issued offs,
     bk_remaining = sum_list (map of_units offs), bk_active = False, bk_closed = False\<rparr>"

definition new_items :: "ustr \<Rightarrow> offer list \<Rightarrow> item list" where
  "new_items bid offs = map (\<lambda>x. \<lparr>it_book = bid, it_resource = of_resource x,
     it_content = of_content x, it_terms = of_terms x, it_units = of_units x\<rparr>) offs"

definition issue_new :: "book_env \<Rightarrow> issue_request \<Rightarrow> (ustr \<times> ustr) book_act" where
  "issue_new env q =
     bind_act (now env) (\<lambda>issued.
     bind_act (query (\<lambda>d. live_offers d issued (iq_publisher q) (iq_resources q))) (\<lambda>found.
     bind_act (lift_res found) (\<lambda>offs.
       let amount = sum_list (map of_units offs) in
       bind_act (guard (amount \<le> iq_max_units q) (Denied ''buyer budget exceeded'')) (\<lambda>_.
       bind_act (query (\<lambda>d. length (filter (\<lambda>a. ac_buyer a = iq_buyer q \<and> amount \<le> ac_available a)
                              (accounts d)))) (\<lambda>changed.
       bind_act (execute (reserve (iq_buyer q) amount)) (\<lambda>_.
       bind_act (guard (changed = 1) (Denied ''insufficient prepaid balance'')) (\<lambda>_.
       bind_act (draw (be_random env)) (\<lambda>bid.
       bind_act (authority_sign env (ascii_encode (book_payload q bid issued offs))) (\<lambda>token.
       bind_act (execute (insert_book (new_book q bid issued offs token))) (\<lambda>_.
       bind_act (execute (insert_items (new_items bid offs))) (\<lambda>_.
         ret (bid, token))))))))))))"

definition issue_tx :: "book_env \<Rightarrow> issue_request \<Rightarrow> (ustr \<times> ustr) book_act" where
  "issue_tx env q =
     bind_act key_ok (\<lambda>_.
     bind_act (query (\<lambda>d. find (\<lambda>b. bk_buyer b = iq_buyer q \<and> bk_request_id b = iq_request_id q)
                            (books d))) (\<lambda>prior.
       case prior of
         Some b \<Rightarrow>
           if bk_request_hash b \<noteq> issue_hash q then raise (Denied ''issuance retry conflict'')
           else ret (bk_id b, bk_token b)
       | None \<Rightarrow> issue_new env q))"

definition issue ::
    "book_env \<Rightarrow> pyval \<Rightarrow> pyval \<Rightarrow> pyval \<Rightarrow> pyval \<Rightarrow> pyval \<Rightarrow> pyval \<Rightarrow> (ustr \<times> ustr) book_act" where
  "issue env buyer publisher resources max_units request_id ttl =
     bind_act (lift_res (issue_args buyer publisher resources max_units request_id ttl))
       (\<lambda>q. transaction (issue_tx env q))"

text \<open>\<open>activate\<close>; the clock is read only for an existing open book, and again for the token.\<close>

definition book_row :: "ustr \<Rightarrow> ustr \<Rightarrow> ustr \<Rightarrow> book_db \<Rightarrow> book option" where
  "book_row bid buyer publisher d =
     find (\<lambda>b. bk_id b = bid \<and> bk_buyer b = buyer \<and> bk_publisher b = publisher) (books d)"

definition json_payload :: "ustr \<Rightarrow> pyval result" where
  "json_payload t = (case loads t of Some v \<Rightarrow> Inr v | None \<Rightarrow> Inl (ValueError ''invalid JSON''))"

definition activate_tx :: "book_env \<Rightarrow> ustr \<Rightarrow> ustr \<Rightarrow> ustr \<Rightarrow> ustr \<Rightarrow> unit book_act" where
  "activate_tx env bid token buyer publisher =
     bind_act key_ok (\<lambda>_.
     bind_act (query (book_row bid buyer publisher)) (\<lambda>row.
       case row of
         None \<Rightarrow> raise (Denied ''book unavailable'')
       | Some b \<Rightarrow>
           bind_act (guard (\<not> bk_closed b) (Denied ''book unavailable'')) (\<lambda>_.
           bind_act (now env) (\<lambda>t.
           bind_act (guard (bk_issued b \<le> t \<and> t < bk_expires b) (Denied ''book unavailable'')) (\<lambda>_.
           bind_act (guard (token = bk_token b) (Denied ''wrong immutable token'')) (\<lambda>_.
             if bk_active b then ret ()
             else
               bind_act (lift_res (json_payload (bk_payload b))) (\<lambda>expected.
               bind_act (now env) (\<lambda>t2.
               bind_act (authority_verify env (PStr token) expected t2) (\<lambda>_.
                 execute (update_books (\<lambda>x. bk_id x = bid) (\<lambda>x. x\<lparr>bk_active := True\<rparr>)))))))))))"

definition activate_args :: "pyval \<Rightarrow> pyval \<Rightarrow> pyval \<Rightarrow> pyval \<Rightarrow> (ustr \<times> ustr \<times> ustr \<times> ustr) result" where
  "activate_args book_id token buyer publisher =
     bind_res (check_identifier book_id) (\<lambda>bid.
     bind_res (check_identifier buyer) (\<lambda>b.
     bind_res (check_identifier publisher) (\<lambda>p.
       case as_str token of
         None \<Rightarrow> Inl (Denied ''invalid bounded token'')
       | Some t \<Rightarrow> if 4096 < length t then Inl (Denied ''invalid bounded token'')
                   else Inr (bid, t, b, p))))"

definition activate :: "book_env \<Rightarrow> pyval \<Rightarrow> pyval \<Rightarrow> pyval \<Rightarrow> pyval \<Rightarrow> ustr book_act" where
  "activate env book_id token buyer publisher =
     bind_act (lift_res (activate_args book_id token buyer publisher)) (\<lambda>(bid, t, b, p).
     bind_act (transaction (activate_tx env bid t b p)) (\<lambda>_. ret bid))"

record redeem_request =
  rq_book :: ustr
  rq_resource :: ustr
  rq_buyer :: ustr
  rq_publisher :: ustr
  rq_content :: ustr
  rq_terms :: ustr
  rq_request_id :: ustr

definition redeem_args ::
    "pyval \<Rightarrow> pyval \<Rightarrow> pyval \<Rightarrow> pyval \<Rightarrow> pyval \<Rightarrow> pyval \<Rightarrow> pyval \<Rightarrow> redeem_request result" where
  "redeem_args book_id resource buyer publisher content_sha256 terms_sha256 request_id =
     bind_res (check_identifier book_id) (\<lambda>bid.
     bind_res (check_identifier resource) (\<lambda>r.
     bind_res (check_identifier buyer) (\<lambda>b.
     bind_res (check_identifier publisher) (\<lambda>p.
     bind_res (check_identifier request_id) (\<lambda>q.
     bind_res (check_commitment content_sha256) (\<lambda>c.
     bind_res (check_commitment terms_sha256) (\<lambda>t.
       Inr \<lparr>rq_book = bid, rq_resource = r, rq_buyer = b, rq_publisher = p, rq_content = c,
         rq_terms = t, rq_request_id = q\<rparr>)))))))"

definition redeem_hash :: "redeem_request \<Rightarrow> ustr" where
  "redeem_hash q = fingerprint (PList [PStr (rq_book q), PStr (rq_resource q), PStr (rq_buyer q),
     PStr (rq_publisher q), PStr (rq_content q), PStr (rq_terms q)])"

definition receipt_dict :: "ustr \<Rightarrow> redeem_request \<Rightarrow> int \<Rightarrow> int \<Rightarrow> pyval" where
  "receipt_dict rid q units t =
     PDict [(lit ''receipt_id'', PStr rid), (lit ''book'', PStr (rq_book q)),
       (lit ''resource'', PStr (rq_resource q)), (lit ''buyer'', PStr (rq_buyer q)),
       (lit ''publisher'', PStr (rq_publisher q)), (lit ''content_sha256'', PStr (rq_content q)),
       (lit ''terms_sha256'', PStr (rq_terms q)), (lit ''units'', PInt units),
       (lit ''committed_at'', PInt t)]"

definition find_item :: "book_db \<Rightarrow> ustr \<Rightarrow> ustr \<Rightarrow> item option" where
  "find_item d bid r = find (\<lambda>i. item_key i = (bid, r)) (items d)"

definition new_redemption :: "redeem_request \<Rightarrow> int \<Rightarrow> pyval \<Rightarrow> redemption" where
  "new_redemption q units rc = \<lparr>rd_buyer = rq_buyer q, rd_request_id = rq_request_id q,
     rd_request_hash = redeem_hash q, rd_book = rq_book q, rd_resource = rq_resource q,
     rd_publisher = rq_publisher q, rd_units = units, rd_receipt = dumps_sorted rc\<rparr>"

text \<open>The effects of a redemption: three balances and the receipt.\<close>

definition spend_units :: "redeem_request \<Rightarrow> int \<Rightarrow> pyval \<Rightarrow> unit book_act" where
  "spend_units q units rc =
     bind_act (execute (update_accounts (\<lambda>a. ac_buyer a = rq_buyer q)
       (\<lambda>a. a\<lparr>ac_reserved := ac_reserved a - units, ac_redeemed := ac_redeemed a + units\<rparr>))) (\<lambda>_.
     bind_act (execute (update_books (\<lambda>b. bk_id b = rq_book q)
       (\<lambda>b. b\<lparr>bk_remaining := bk_remaining b - units\<rparr>))) (\<lambda>_.
     bind_act (execute (update_publishers (\<lambda>p. pb_id p = rq_publisher q)
       (\<lambda>p. p\<lparr>pb_accrued := pb_accrued p + units\<rparr>))) (\<lambda>_.
       execute (insert_redemption (new_redemption q units rc)))))"

definition redeem_new :: "book_env \<Rightarrow> redeem_request \<Rightarrow> pyval book_act" where
  "redeem_new env q =
     bind_act key_ok (\<lambda>_.
     bind_act (query (book_row (rq_book q) (rq_buyer q) (rq_publisher q))) (\<lambda>row.
     bind_act (now env) (\<lambda>t.
       case row of
         None \<Rightarrow> raise (Denied ''book unavailable'')
       | Some b \<Rightarrow>
           bind_act (guard (bk_active b \<and> \<not> bk_closed b \<and> bk_issued b \<le> t \<and> t < bk_expires b)
             (Denied ''book unavailable'')) (\<lambda>_.
           bind_act (query (\<lambda>d. find_item d (rq_book q) (rq_resource q))) (\<lambda>found.
             case found of
               None \<Rightarrow> raise (Denied ''resource or terms mismatch'')
             | Some i \<Rightarrow>
                 bind_act (guard (it_content i = rq_content q \<and> it_terms i = rq_terms q)
                   (Denied ''resource or terms mismatch'')) (\<lambda>_.
                 bind_act (query redemptions) (\<lambda>done.
                 bind_act (guard ((rq_book q, rq_resource q) \<notin> set (map rd_key done))
                   (Denied ''resource already redeemed'')) (\<lambda>_.
                 bind_act (draw (be_random env)) (\<lambda>rid.
                   let rc = receipt_dict rid q (it_units i) t in
                   bind_act (spend_units q (it_units i) rc) (\<lambda>_. ret rc))))))))))"

definition redeem_tx :: "book_env \<Rightarrow> redeem_request \<Rightarrow> pyval book_act" where
  "redeem_tx env q =
     bind_act (query (\<lambda>d. find (\<lambda>r. rd_request r = (rq_buyer q, rq_request_id q)) (redemptions d)))
       (\<lambda>prior.
         case prior of
           Some r \<Rightarrow>
             if rd_request_hash r \<noteq> redeem_hash q then raise (Denied ''redemption retry conflict'')
             else lift_res (json_payload (rd_receipt r))
         | None \<Rightarrow> redeem_new env q)"

definition redeem ::
    "book_env \<Rightarrow> pyval \<Rightarrow> pyval \<Rightarrow> pyval \<Rightarrow> pyval \<Rightarrow> pyval \<Rightarrow> pyval \<Rightarrow> pyval \<Rightarrow> pyval book_act" where
  "redeem env book_id resource buyer publisher content_sha256 terms_sha256 request_id =
     bind_act (lift_res (redeem_args book_id resource buyer publisher content_sha256 terms_sha256
       request_id)) (\<lambda>q. transaction (redeem_tx env q))"

definition release_tx :: "ustr \<Rightarrow> ustr \<Rightarrow> int book_act" where
  "release_tx bid buyer =
     bind_act (query (\<lambda>d. find (\<lambda>b. bk_id b = bid \<and> bk_buyer b = buyer) (books d))) (\<lambda>row.
       case row of
         None \<Rightarrow> raise (Denied ''unknown book'')
       | Some b \<Rightarrow>
           if bk_closed b then ret 0
           else let remaining = bk_remaining b in
             bind_act (execute (update_accounts (\<lambda>a. ac_buyer a = buyer)
               (\<lambda>a. a\<lparr>ac_reserved := ac_reserved a - remaining,
                      ac_available := ac_available a + remaining\<rparr>))) (\<lambda>_.
             bind_act (execute (update_books (\<lambda>x. bk_id x = bid)
               (\<lambda>x. x\<lparr>bk_closed := True, bk_remaining := 0\<rparr>))) (\<lambda>_.
               ret remaining)))"

definition release :: "pyval \<Rightarrow> pyval \<Rightarrow> int book_act" where
  "release book_id buyer =
     bind_act (lift_res (bind_res (check_identifier book_id) (\<lambda>bid.
                bind_res (check_identifier buyer) (\<lambda>b. Inr (bid, b)))))
       (\<lambda>(bid, b). transaction (release_tx bid b))"

definition revoke_key :: "unit book_act" where
  "revoke_key = execute (insert_revoked KEY_ID)"

text \<open>
  \<open>purchase\<close>: the three operations in one transaction; the inner ones are savepoints. The
  query for a prior redemption sees the arguments that \<open>issue\<close> has validated.
\<close>

definition purchase_tx ::
    "book_env \<Rightarrow> pyval \<Rightarrow> pyval \<Rightarrow> pyval \<Rightarrow> pyval \<Rightarrow> pyval \<Rightarrow> pyval \<Rightarrow> pyval
       \<Rightarrow> (ustr \<times> ustr \<times> pyval) book_act" where
  "purchase_tx env resource buyer publisher content_sha256 terms_sha256 max_units request_id =
     bind_act (issue env buyer publisher (PList [resource]) max_units request_id (PInt MAX_TTL))
       (\<lambda>(bid, token).
     bind_act (query (\<lambda>d. find (\<lambda>r. (PStr (rd_buyer r), PStr (rd_request_id r)) = (buyer, request_id))
                            (redemptions d))) (\<lambda>prior.
     bind_act (if prior = None then bind_act (activate env (PStr bid) (PStr token) buyer publisher)
                                     (\<lambda>_. ret ())
               else ret ()) (\<lambda>_.
     bind_act (redeem env (PStr bid) resource buyer publisher content_sha256 terms_sha256 request_id)
       (\<lambda>rc. ret (bid, token, rc)))))"

definition purchase ::
    "book_env \<Rightarrow> pyval \<Rightarrow> pyval \<Rightarrow> pyval \<Rightarrow> pyval \<Rightarrow> pyval \<Rightarrow> pyval \<Rightarrow> pyval
       \<Rightarrow> (ustr \<times> ustr \<times> pyval) book_act" where
  "purchase env resource buyer publisher content_sha256 terms_sha256 max_units request_id =
     transaction (purchase_tx env resource buyer publisher content_sha256 terms_sha256 max_units
       request_id)"

section \<open>The audit\<close>

definition buyer_conserved :: "book_db \<Rightarrow> account \<Rightarrow> bool" where
  "buyer_conserved d a \<longleftrightarrow>
     (let reserved = sum_where (\<lambda>b. bk_buyer b = ac_buyer a) bk_remaining (books d);
          redeemed = sum_where (\<lambda>r. rd_buyer r = ac_buyer a) rd_units (redemptions d)
      in ac_initial a = ac_available a + reserved + redeemed
         \<and> ac_reserved a = reserved \<and> ac_redeemed a = redeemed)"

definition publisher_conserved :: "book_db \<Rightarrow> publisher \<Rightarrow> bool" where
  "publisher_conserved d p \<longleftrightarrow>
     pb_accrued p = sum_where (\<lambda>r. rd_publisher r = pb_id p) rd_units (redemptions d)"

definition account_value :: "account \<Rightarrow> pyval" where
  "account_value a = PDict [(lit ''buyer'', PStr (ac_buyer a)), (lit ''initial'', PInt (ac_initial a)),
     (lit ''available'', PInt (ac_available a)), (lit ''reserved'', PInt (ac_reserved a)),
     (lit ''redeemed'', PInt (ac_redeemed a))]"

definition publisher_value :: "publisher \<Rightarrow> pyval" where
  "publisher_value p = PDict [(lit ''id'', PStr (pb_id p)), (lit ''accrued'', PInt (pb_accrued p))]"

definition audit_report :: "book_db \<Rightarrow> pyval result" where
  "audit_report d =
     (if \<exists>a \<in> set (accounts d). \<not> buyer_conserved d a
      then Inl (RuntimeError ''buyer conservation failed'')
      else if \<exists>p \<in> set (publishers d). \<not> publisher_conserved d p
      then Inl (RuntimeError ''publisher conservation failed'')
      else Inr (PDict
        [(lit ''accounts'', PList (map account_value (sort_key ac_buyer (accounts d)))),
         (lit ''publishers'', PList (map publisher_value (sort_key pb_id (publishers d)))),
         (lit ''books'', PInt (int (length (books d)))),
         (lit ''redemptions'', PInt (int (length (redemptions d))))]))"

definition audit :: "pyval book_act" where
  "audit = transaction (bind_act (query audit_report) lift_res)"

section \<open>The service\<close>

text \<open>The methods as one step function, for histories of calls with arguments of any type.\<close>

datatype book_op =
    Seed pyval pyval
  | SetOffer pyval pyval pyval pyval pyval pyval
  | Issue pyval pyval pyval pyval pyval pyval
  | Activate pyval pyval pyval pyval
  | Redeem pyval pyval pyval pyval pyval pyval pyval
  | Release pyval pyval
  | RevokeKey
  | Purchase pyval pyval pyval pyval pyval pyval pyval
  | Audit

definition act_map :: "('a \<Rightarrow> 'b) \<Rightarrow> ('db, 'z, 'a) act \<Rightarrow> ('db, 'z, 'b) act" where
  "act_map f m = bind_act m (\<lambda>x. ret (f x))"

fun book_step :: "book_env \<Rightarrow> book_op \<Rightarrow> pyval book_act" where
  "book_step env (Seed b u) = act_map (\<lambda>_. PNone) (seed_simulated_balance b u)"
| "book_step env (SetOffer p r c t u v) = act_map (\<lambda>_. PNone) (set_offer p r c t u v)"
| "book_step env (Issue b p rs m q t) =
     act_map (\<lambda>(x, y). PList [PStr x, PStr y]) (issue env b p rs m q t)"
| "book_step env (Activate x t b p) = act_map PStr (activate env x t b p)"
| "book_step env (Redeem x r b p c t q) = redeem env x r b p c t q"
| "book_step env (Release x b) = act_map PInt (release x b)"
| "book_step env RevokeKey = act_map (\<lambda>_. PNone) revoke_key"
| "book_step env (Purchase r b p c t m q) =
     act_map (\<lambda>(x, y, z). PList [PStr x, PStr y, z]) (purchase env r b p c t m q)"
| "book_step env Audit = audit"

definition init_conn :: book_conn where
  "init_conn = \<lparr>cn_db = empty_book_db, cn_saved = [], cn_ticks = 0, cn_draws = 0,
     au_signatures = 0, au_verifications = 0\<rparr>"

end
