(* ===== verification/AccessInv.thy ===== *)
theory AccessInv
  imports AccessBook
begin

text \<open>
  The invariant of the clearing database of \<open>AccessBook\<close> and its preservation by the changes the
  operations make: keys are unique and references resolve, every open book still holds the
  units of its unredeemed items, and the three balances of a buyer and the accrual of a
  publisher are the sums over books and redemptions that the audit recomputes.
\<close>

section \<open>The invariant\<close>

definition accounts_inv :: "book_db \<Rightarrow> bool" where
  "accounts_inv d \<longleftrightarrow> distinct (map ac_buyer (accounts d)) \<and> (\<forall>a \<in> set (accounts d). account_ok a)"

definition books_inv :: "book_db \<Rightarrow> bool" where
  "books_inv d \<longleftrightarrow> distinct (map bk_id (books d))
     \<and> distinct (map (\<lambda>b. (bk_buyer b, bk_request_id b)) (books d))
     \<and> (\<forall>b \<in> set (books d). bk_buyer b \<in> set (map ac_buyer (accounts d))
          \<and> bk_publisher b \<in> set (map pb_id (publishers d)))"

definition items_inv :: "book_db \<Rightarrow> bool" where
  "items_inv d \<longleftrightarrow> distinct (map item_key (items d))
     \<and> (\<forall>i \<in> set (items d). 0 \<le> it_units i \<and> it_book i \<in> set (map bk_id (books d)))"

definition redemptions_inv :: "book_db \<Rightarrow> bool" where
  "redemptions_inv d \<longleftrightarrow> distinct (map rd_request (redemptions d))
     \<and> distinct (map rd_key (redemptions d))
     \<and> (\<forall>r \<in> set (redemptions d).
          (\<exists>b \<in> set (books d). bk_id b = rd_book r \<and> bk_buyer b = rd_buyer r
             \<and> bk_publisher b = rd_publisher r)
          \<and> (\<exists>i \<in> set (items d). item_key i = rd_key r \<and> it_units i = rd_units r))"

definition offers_inv :: "book_db \<Rightarrow> bool" where
  "offers_inv d \<longleftrightarrow> distinct (map (\<lambda>x. (of_publisher x, of_resource x)) (offers d))
     \<and> (\<forall>x \<in> set (offers d). 1 \<le> of_units x \<and> of_publisher x \<in> set (map pb_id (publishers d)))"

text \<open>The units of a book's items that are still to be redeemed.\<close>

definition unspent :: "book_db \<Rightarrow> ustr \<Rightarrow> int" where
  "unspent d bid = sum_where (\<lambda>i. it_book i = bid \<and> item_key i \<notin> set (map rd_key (redemptions d)))
     it_units (items d)"

definition backed :: "book_db \<Rightarrow> book \<Rightarrow> bool" where
  "backed d b \<longleftrightarrow> bk_remaining b = (if bk_closed b then 0 else unspent d (bk_id b))"

definition money_inv :: "book_db \<Rightarrow> bool" where
  "money_inv d \<longleftrightarrow> (\<forall>b \<in> set (books d). backed d b)
     \<and> (\<forall>a \<in> set (accounts d). buyer_conserved d a)
     \<and> distinct (map pb_id (publishers d))
     \<and> (\<forall>p \<in> set (publishers d). publisher_conserved d p)"

definition book_inv :: "book_db \<Rightarrow> bool" where
  "book_inv d \<longleftrightarrow> accounts_inv d \<and> books_inv d \<and> items_inv d \<and> redemptions_inv d \<and> offers_inv d
     \<and> money_inv d"

lemma book_inv_parts:
  assumes "book_inv d"
  shows "accounts_inv d" "books_inv d" "items_inv d" "redemptions_inv d" "offers_inv d" "money_inv d"
  using assms by (simp_all add: book_inv_def)

lemma empty_book_inv: "book_inv empty_book_db"
  by (simp add: book_inv_def empty_book_db_def accounts_inv_def books_inv_def items_inv_def
      redemptions_inv_def offers_inv_def money_inv_def)

text \<open>Consequences: no amount of a reachable database is negative.\<close>

lemma unspent_nonneg: "items_inv d \<Longrightarrow> 0 \<le> unspent d bid"
  unfolding unspent_def by (rule sum_where_nonneg) (simp add: items_inv_def)

lemma remaining_nonneg: "book_inv d \<Longrightarrow> b \<in> set (books d) \<Longrightarrow> 0 \<le> bk_remaining b"
  using unspent_nonneg book_inv_parts by (simp add: money_inv_def backed_def)

lemma rd_units_nonneg: "book_inv d \<Longrightarrow> r \<in> set (redemptions d) \<Longrightarrow> 0 \<le> rd_units r"
proof -
  assume inv: "book_inv d" and r: "r \<in> set (redemptions d)"
  then obtain i where "i \<in> set (items d)" "it_units i = rd_units r"
    using book_inv_parts(4) [OF inv] by (auto simp: redemptions_inv_def)
  then show ?thesis using book_inv_parts(3) [OF inv] by (auto simp: items_inv_def)
qed

lemma remaining_le_reserved:
  assumes "book_inv d" and "b \<in> set (books d)" and "a \<in> set (accounts d)" and "bk_buyer b = ac_buyer a"
  shows "bk_remaining b \<le> ac_reserved a"
proof -
  have "ac_reserved a = sum_where (\<lambda>b. bk_buyer b = ac_buyer a) bk_remaining (books d)"
    using book_inv_parts(6) [OF assms(1)] assms(3)
    by (simp add: money_inv_def buyer_conserved_def Let_def)
  then show ?thesis
    using member_le_sum_where [of b "books d" "\<lambda>b. bk_buyer b = ac_buyer a" bk_remaining]
      remaining_nonneg [OF assms(1)] assms(2,4) by simp
qed

lemma units_le_remaining:
  assumes "book_inv d" and "b \<in> set (books d)" and "\<not> bk_closed b" and "i \<in> set (items d)"
    and "it_book i = bk_id b" and "item_key i \<notin> set (map rd_key (redemptions d))"
  shows "it_units i \<le> bk_remaining b"
proof -
  have "bk_remaining b = unspent d (bk_id b)"
    using book_inv_parts(6) [OF assms(1)] assms(2,3) by (simp add: money_inv_def backed_def)
  moreover have "it_units i \<le> unspent d (bk_id b)"
    unfolding unspent_def using assms(4-6) book_inv_parts(3) [OF assms(1)]
    by (intro member_le_sum_where) (auto simp: items_inv_def)
  ultimately show ?thesis by simp
qed

section \<open>The changes the operations make\<close>

lemma book_known:
  assumes "books_inv d" and "b \<in> set (books d)"
  shows "bk_buyer b \<in> set (map ac_buyer (accounts d))" and "bk_publisher b \<in> set (map pb_id (publishers d))"
  using assms by (auto simp: books_inv_def simp del: set_map)

lemma rd_book_known:
  assumes "redemptions_inv d" and "r \<in> set (redemptions d)"
  obtains b where "b \<in> set (books d)" and "bk_id b = rd_book r" and "bk_buyer b = rd_buyer r"
    and "bk_publisher b = rd_publisher r"
  using assms by (fastforce simp: redemptions_inv_def)

lemma rd_known:
  assumes "book_inv d" and "r \<in> set (redemptions d)"
  shows "rd_buyer r \<in> set (map ac_buyer (accounts d))"
    and "rd_publisher r \<in> set (map pb_id (publishers d))"
  using book_known [OF book_inv_parts(2) [OF assms(1)]]
  by (metis rd_book_known [OF book_inv_parts(4) [OF assms(1)] assms(2)])+

lemma seed_inv:
  assumes inv: "book_inv d" and new: "ac_buyer a \<notin> set (map ac_buyer (accounts d))"
    and a: "account_ok a" "ac_available a = ac_initial a" "ac_reserved a = 0" "ac_redeemed a = 0"
  shows "book_inv (d\<lparr>accounts := accounts d @ [a]\<rparr>)"
proof -
  note P = book_inv_parts [OF inv]
  have "sum_where (\<lambda>b. bk_buyer b = ac_buyer a) bk_remaining (books d) = 0"
    using book_known(1) [OF P(2)] new by (intro sum_where_none) metis
  moreover have "sum_where (\<lambda>r. rd_buyer r = ac_buyer a) rd_units (redemptions d) = 0"
    using rd_known(1) [OF inv] new by (intro sum_where_none) metis
  ultimately have "buyer_conserved (d\<lparr>accounts := accounts d @ [a]\<rparr>) a"
    using a by (simp add: buyer_conserved_def)
  with P a(1) new show ?thesis
    by (auto simp: book_inv_def accounts_inv_def books_inv_def items_inv_def redemptions_inv_def
        offers_inv_def money_inv_def backed_def buyer_conserved_def publisher_conserved_def unspent_def)
qed

lemma offer_inv:
  assumes inv: "book_inv d" and x: "1 \<le> of_units x"
    and d1: "replace_offer x d = Inr d1" and d2: "insert_publisher (of_publisher x) d1 = Inr d2"
  shows "book_inv d2"
proof -
  note P = book_inv_parts [OF inv]
  let ?offs = "filter (\<lambda>y. \<not> (of_publisher y = of_publisher x \<and> of_resource y = of_resource x)) (offers d) @ [x]"
  let ?pubs = "if of_publisher x \<in> set (map pb_id (publishers d)) then publishers d
    else publishers d @ [\<lparr>pb_id = of_publisher x, pb_accrued = 0\<rparr>]"
  have d: "d2 = d\<lparr>offers := ?offs, publishers := ?pubs\<rparr>"
    using d1 d2 by (auto simp: replace_offer_def insert_publisher_def split: if_splits)
  have "sum_where (\<lambda>r. rd_publisher r = of_publisher x) rd_units (redemptions d) = 0"
    if "of_publisher x \<notin> set (map pb_id (publishers d))"
    using that rd_known(2) [OF inv] by (intro sum_where_none) metis
  moreover have "distinct (map (\<lambda>y. (of_publisher y, of_resource y)) ?offs)"
    using P(5) by (auto simp: offers_inv_def distinct_map_filter)
  ultimately show ?thesis
    unfolding d using P x
    by (auto simp: book_inv_def accounts_inv_def books_inv_def items_inv_def redemptions_inv_def
        offers_inv_def money_inv_def backed_def buyer_conserved_def publisher_conserved_def unspent_def)
qed

text \<open>Updates that keep every key keep every clause but the one on amounts.\<close>

definition book_key :: "book \<Rightarrow> ustr \<times> ustr \<times> ustr \<times> ustr" where
  "book_key b = (bk_id b, bk_buyer b, bk_publisher b, bk_request_id b)"

definition same_keys :: "book_db \<Rightarrow> book_db \<Rightarrow> bool" where
  "same_keys d d' \<longleftrightarrow> map ac_buyer (accounts d') = map ac_buyer (accounts d)
     \<and> map book_key (books d') = map book_key (books d)
     \<and> map pb_id (publishers d') = map pb_id (publishers d)
     \<and> items d' = items d \<and> redemptions d' = redemptions d \<and> offers d' = offers d"

lemma book_key_images:
  "map bk_id bs = map fst (map book_key bs)"
  "map (\<lambda>b. (bk_buyer b, bk_request_id b)) bs
     = map (\<lambda>(i, u, p, q). (u, q)) (map book_key bs)"
  by (simp_all add: book_key_def)

lemma book_key_mem: "b \<in> set bs \<Longrightarrow> map book_key bs = map book_key bs' \<Longrightarrow> \<exists>b' \<in> set bs'. book_key b' = book_key b"
  by (metis (no_types, lifting) image_iff image_eqI list.set_map)

lemma same_keys_inv:
  assumes "same_keys d d'" and "books_inv d" and "items_inv d" and "redemptions_inv d" and "offers_inv d"
  shows "books_inv d' \<and> items_inv d' \<and> redemptions_inv d' \<and> offers_inv d'"
proof -
  note K = assms(1) [unfolded same_keys_def]
  then have ids: "map bk_id (books d') = map bk_id (books d)"
    and reqs: "map (\<lambda>b. (bk_buyer b, bk_request_id b)) (books d')
        = map (\<lambda>b. (bk_buyer b, bk_request_id b)) (books d)"
    unfolding book_key_images by simp_all
  have mem: "\<exists>b' \<in> set (books d). book_key b' = book_key b" if "b \<in> set (books d')" for b
    by (rule book_key_mem [OF that]) (use K in simp)
  have mem': "\<exists>b' \<in> set (books d'). book_key b' = book_key b" if "b \<in> set (books d)" for b
    by (rule book_key_mem [OF that]) (use K in simp)
  have "books_inv d'"
    unfolding books_inv_def ids reqs
  proof (intro conjI ballI)
    fix b assume "b \<in> set (books d')"
    with mem obtain b' where b': "b' \<in> set (books d)" "book_key b' = book_key b" by blast
    then have "bk_buyer b = bk_buyer b'" "bk_publisher b = bk_publisher b'"
      by (simp_all add: book_key_def)
    with book_known [OF assms(2) b'(1)] K show "bk_buyer b \<in> set (map ac_buyer (accounts d'))"
      "bk_publisher b \<in> set (map pb_id (publishers d'))"
      by (simp_all del: set_map)
  qed (use assms(2) in \<open>simp_all add: books_inv_def\<close>)
  moreover have "items_inv d'" using assms(3) K by (simp add: items_inv_def ids del: set_map)
  moreover have "redemptions_inv d'"
    unfolding redemptions_inv_def
  proof (intro conjI ballI)
    fix r assume "r \<in> set (redemptions d')"
    with K have r: "r \<in> set (redemptions d)" by simp
    with assms(4) obtain b where "b \<in> set (books d)" "bk_id b = rd_book r" "bk_buyer b = rd_buyer r"
      "bk_publisher b = rd_publisher r" by (fastforce simp: redemptions_inv_def)
    with mem' [of b] show "\<exists>b \<in> set (books d'). bk_id b = rd_book r \<and> bk_buyer b = rd_buyer r
        \<and> bk_publisher b = rd_publisher r" by (auto simp: book_key_def)
    from r assms(4) K show "\<exists>i \<in> set (items d'). item_key i = rd_key r \<and> it_units i = rd_units r"
      by (auto simp: redemptions_inv_def)
  qed (use assms(4) K in \<open>simp_all add: redemptions_inv_def\<close>)
  moreover have "offers_inv d'" using assms(5) K by (simp add: offers_inv_def del: set_map)
  ultimately show ?thesis by blast
qed

lemma same_keys_unspent: "same_keys d d' \<Longrightarrow> unspent d' bid = unspent d bid"
  by (simp add: same_keys_def unspent_def)

lemma money_invI:
  assumes "\<And>b. b \<in> set (books d) \<Longrightarrow> backed d b"
    and "\<And>a. a \<in> set (accounts d) \<Longrightarrow> buyer_conserved d a"
    and "distinct (map pb_id (publishers d))"
    and "\<And>p. p \<in> set (publishers d) \<Longrightarrow> publisher_conserved d p"
  shows "money_inv d"
  using assms by (simp add: money_inv_def)

lemma money_invD:
  assumes "money_inv d"
  shows "b \<in> set (books d) \<Longrightarrow> backed d b" and "a \<in> set (accounts d) \<Longrightarrow> buyer_conserved d a"
    and "distinct (map pb_id (publishers d))" and "p \<in> set (publishers d) \<Longrightarrow> publisher_conserved d p"
  using assms by (simp_all add: money_inv_def)

text \<open>Admission changes no amount.\<close>

definition db_activate :: "ustr \<Rightarrow> book_db \<Rightarrow> book_db" where
  "db_activate bid d =
     d\<lparr>books := update_rows (\<lambda>x. bk_id x = bid) (\<lambda>x. x\<lparr>bk_active := True\<rparr>) (books d)\<rparr>"

lemma activate_inv:
  assumes inv: "book_inv d"
  shows "book_inv (db_activate bid d)"
proof -
  note P = book_inv_parts [OF inv]
  let ?d = "db_activate bid d"
  have keys: "same_keys d ?d"
    by (simp add: same_keys_def db_activate_def map_update_rows book_key_def)
  have s: "sum_where (\<lambda>b. bk_buyer b = y) bk_remaining (books ?d)
      = sum_where (\<lambda>b. bk_buyer b = y) bk_remaining (books d)" for y
    by (simp add: db_activate_def sum_where_update_same)
  have bs: "books ?d = update_rows (\<lambda>x. bk_id x = bid) (\<lambda>x. x\<lparr>bk_active := True\<rparr>) (books d)"
    and rest: "accounts ?d = accounts d" "publishers ?d = publishers d" "redemptions ?d = redemptions d"
    by (simp_all add: db_activate_def)
  have "money_inv ?d"
  proof (rule money_invI)
    fix x assume "x \<in> set (books ?d)"
    then show "backed ?d x"
      unfolding bs by (elim update_rows_E)
        (auto simp: backed_def same_keys_unspent [OF keys] dest!: money_invD(1) [OF P(6)])
  next
    fix a assume "a \<in> set (accounts ?d)"
    then show "buyer_conserved ?d a"
      using money_invD(2) [OF P(6), of a] by (simp add: buyer_conserved_def s rest)
  qed (use money_invD(3,4) [OF P(6)] in \<open>simp_all add: rest publisher_conserved_def\<close>)
  with same_keys_inv [OF keys P(2-5)] P(1) show ?thesis
    by (simp add: book_inv_def accounts_inv_def db_activate_def)
qed

text \<open>Closing a book gives its remaining units back to the buyer.\<close>

definition db_release :: "book \<Rightarrow> book_db \<Rightarrow> book_db" where
  "db_release b d = d\<lparr>accounts := update_rows (\<lambda>a. ac_buyer a = bk_buyer b)
       (\<lambda>a. a\<lparr>ac_reserved := ac_reserved a - bk_remaining b,
              ac_available := ac_available a + bk_remaining b\<rparr>) (accounts d),
     books := update_rows (\<lambda>x. bk_id x = bk_id b) (\<lambda>x. x\<lparr>bk_closed := True, bk_remaining := 0\<rparr>) (books d)\<rparr>"

lemma release_accounts_ok:
  assumes "book_inv d" and "b \<in> set (books d)" and "a \<in> set (accounts d)" and "ac_buyer a = bk_buyer b"
  shows "account_ok (a\<lparr>ac_reserved := ac_reserved a - bk_remaining b,
    ac_available := ac_available a + bk_remaining b\<rparr>)"
  using assms remaining_le_reserved [OF assms(1,2,3)] remaining_nonneg [OF assms(1,2)]
    book_inv_parts(1) [OF assms(1)]
  by (auto simp: accounts_inv_def account_ok_def)

lemma release_inv:
  assumes inv: "book_inv d" and b: "b \<in> set (books d)"
  shows "book_inv (db_release b d)"
proof -
  note P = book_inv_parts [OF inv]
  let ?d = "db_release b d"
  have keys: "same_keys d ?d"
    by (simp add: same_keys_def db_release_def map_update_rows book_key_def)
  have dis: "distinct (map bk_id (books d))" using P(2) by (simp add: books_inv_def)
  have s: "sum_where (\<lambda>x. bk_buyer x = y) bk_remaining (books ?d)
      = sum_where (\<lambda>x. bk_buyer x = y) bk_remaining (books d) - (if bk_buyer b = y then bk_remaining b else 0)" for y
    using sum_where_update_one [OF dis b refl, of "\<lambda>x. bk_buyer x = y"] by (simp add: db_release_def)
  have bs: "books ?d = update_rows (\<lambda>x. bk_id x = bk_id b)
      (\<lambda>x. x\<lparr>bk_closed := True, bk_remaining := 0\<rparr>) (books d)"
    and as: "accounts ?d = update_rows (\<lambda>a. ac_buyer a = bk_buyer b)
       (\<lambda>a. a\<lparr>ac_reserved := ac_reserved a - bk_remaining b,
              ac_available := ac_available a + bk_remaining b\<rparr>) (accounts d)"
    and rest: "publishers ?d = publishers d" "redemptions ?d = redemptions d"
    by (simp_all add: db_release_def)
  have "accounts_inv ?d"
    using P(1) release_accounts_ok [OF inv b]
    by (auto simp: accounts_inv_def db_release_def map_update_rows set_update_rows)
  moreover have "money_inv ?d"
  proof (rule money_invI)
    fix x assume "x \<in> set (books ?d)"
    then show "backed ?d x"
      unfolding bs by (elim update_rows_E)
        (auto simp: backed_def same_keys_unspent [OF keys] dest!: money_invD(1) [OF P(6)])
  next
    fix x assume "x \<in> set (accounts ?d)"
    then show "buyer_conserved ?d x"
      unfolding as by (elim update_rows_E)
        (auto simp: buyer_conserved_def Let_def s rest dest!: money_invD(2) [OF P(6)])
  qed (use money_invD(3,4) [OF P(6)] in \<open>simp_all add: rest publisher_conserved_def\<close>)
  ultimately show ?thesis
    using same_keys_inv [OF keys P(2-5)] by (simp add: book_inv_def)
qed

text \<open>A new book reserves the units of its items.\<close>

definition db_issue :: "book \<Rightarrow> item list \<Rightarrow> book_db \<Rightarrow> book_db" where
  "db_issue b its d = d\<lparr>accounts := update_rows
       (\<lambda>a. ac_buyer a = bk_buyer b \<and> bk_remaining b \<le> ac_available a)
       (\<lambda>a. a\<lparr>ac_available := ac_available a - bk_remaining b,
              ac_reserved := ac_reserved a + bk_remaining b\<rparr>) (accounts d),
     books := books d @ [b], items := items d @ its\<rparr>"

lemma issue_inv:
  assumes inv: "book_inv d"
    and a: "a \<in> set (accounts d)" "ac_buyer a = bk_buyer b" "bk_remaining b \<le> ac_available a"
    and pub: "bk_publisher b \<in> set (map pb_id (publishers d))"
    and new: "bk_id b \<notin> set (map bk_id (books d))"
      "(bk_buyer b, bk_request_id b) \<notin> set (map (\<lambda>x. (bk_buyer x, bk_request_id x)) (books d))"
    and open_book: "\<not> bk_closed b"
    and its: "distinct (map item_key its)" "\<forall>i \<in> set its. it_book i = bk_id b \<and> 0 \<le> it_units i"
    and total_units: "bk_remaining b = sum_list (map it_units its)"
  shows "book_inv (db_issue b its d)"
proof -
  note P = book_inv_parts [OF inv]
  let ?d = "db_issue b its d"
  have nonneg: "0 \<le> bk_remaining b"
    unfolding total_units using its(2) by (intro sum_list_nonneg) auto
  have accounts: "map ac_buyer (accounts ?d) = map ac_buyer (accounts d)"
    by (simp add: db_issue_def map_update_rows)
  have old_items: "it_book i \<noteq> bk_id b" if "i \<in> set (items d)" for i
  proof -
    have "it_book i \<in> set (map bk_id (books d))"
      using P(3) that by (simp add: items_inv_def del: set_map)
    with new(1) show ?thesis by metis
  qed
  have old_rd: "fst k \<noteq> bk_id b" if "k \<in> set (map rd_key (redemptions d))" for k
  proof -
    from that obtain r where r: "r \<in> set (redemptions d)" "k = rd_key r" by auto
    from rd_book_known [OF P(4) r(1)] obtain b' where "b' \<in> set (books d)" "bk_id b' = rd_book r" .
    then have "rd_book r \<in> set (map bk_id (books d))" by (metis image_eqI list.set_map)
    with new(1) r(2) show ?thesis by (metis rd_key_def fst_conv)
  qed
  have unsp_new: "unspent ?d (bk_id b) = bk_remaining b"
  proof -
    have "sum_where (\<lambda>i. it_book i = bk_id b \<and> item_key i \<notin> set (map rd_key (redemptions d))) it_units (items d) = 0"
      using old_items by (intro sum_where_none) auto
    moreover have "item_key i \<notin> set (map rd_key (redemptions d))" if "i \<in> set its" for i
      using old_rd [of "item_key i"] its(2) that by (auto simp: item_key_def)
    then have "sum_where (\<lambda>i. it_book i = bk_id b \<and> item_key i \<notin> set (map rd_key (redemptions d))) it_units its
        = bk_remaining b"
      unfolding total_units using its(2) by (intro sum_where_all) auto
    ultimately show ?thesis by (simp add: unspent_def db_issue_def)
  qed
  have unsp_old: "unspent ?d (bk_id x) = unspent d (bk_id x)" if "x \<in> set (books d)" for x
  proof -
    have "bk_id x \<noteq> bk_id b" using new(1) that by (metis image_eqI list.set_map)
    then have "sum_where (\<lambda>i. it_book i = bk_id x \<and> item_key i \<notin> set (map rd_key (redemptions d))) it_units its = 0"
      using its(2) by (intro sum_where_none) auto
    then show ?thesis by (simp add: unspent_def db_issue_def)
  qed
  have "accounts_inv ?d"
    using P(1) nonneg accounts
    by (auto simp: accounts_inv_def db_issue_def set_update_rows account_ok_def)
  moreover have "books_inv ?d"
    unfolding books_inv_def
  proof (intro conjI ballI)
    have "bk_buyer b \<in> set (map ac_buyer (accounts d))" using a(1,2) by (metis image_eqI list.set_map)
    moreover fix x assume "x \<in> set (books ?d)"
    then have "x \<in> set (books d) \<or> x = b" by (auto simp: db_issue_def)
    ultimately have "bk_buyer x \<in> set (map ac_buyer (accounts d))"
      and "bk_publisher x \<in> set (map pb_id (publishers d))"
      using book_known [OF P(2), of x] pub by metis+
    then show "bk_buyer x \<in> set (map ac_buyer (accounts ?d))"
      "bk_publisher x \<in> set (map pb_id (publishers ?d))"
      unfolding accounts by (simp_all add: db_issue_def del: set_map)
  qed (use P(2) new in \<open>auto simp: books_inv_def db_issue_def\<close>)
  moreover have "items_inv ?d"
    using P(3) its old_items
    by (auto simp: items_inv_def db_issue_def item_key_def)
  moreover have "redemptions_inv ?d"
    using P(4) by (fastforce simp: redemptions_inv_def db_issue_def)
  moreover have "offers_inv ?d" using P(5) by (simp add: offers_inv_def db_issue_def)
  moreover have "money_inv ?d"
  proof (rule money_invI)
    fix x assume "x \<in> set (books ?d)"
    then show "backed ?d x"
      using money_invD(1) [OF P(6), of x] unsp_new unsp_old [of x] open_book
      by (auto simp: backed_def db_issue_def)
  next
    fix x assume "x \<in> set (accounts ?d)"
    then have "x \<in> set (update_rows (\<lambda>a. ac_buyer a = bk_buyer b \<and> bk_remaining b \<le> ac_available a)
       (\<lambda>a. a\<lparr>ac_available := ac_available a - bk_remaining b,
              ac_reserved := ac_reserved a + bk_remaining b\<rparr>) (accounts d))"
      by (simp add: db_issue_def)
    then show "buyer_conserved ?d x"
    proof (cases rule: update_rows_E)
      case (1 r)
      with money_invD(2) [OF P(6) 1(1)] show ?thesis
        by (simp add: buyer_conserved_def Let_def db_issue_def)
    next
      case 2
      have "ac_buyer x \<noteq> bk_buyer b"
      proof
        assume "ac_buyer x = bk_buyer b"
        with a(1,2) 2(1) P(1) have "x = a" by (intro find_unique [of ac_buyer]) (auto simp: accounts_inv_def)
        with a(2,3) 2(2) show False by simp
      qed
      with money_invD(2) [OF P(6) 2(1)] show ?thesis
        by (simp add: buyer_conserved_def Let_def db_issue_def)
    qed
  qed (use money_invD(3,4) [OF P(6)] in \<open>simp_all add: db_issue_def publisher_conserved_def\<close>)
  ultimately show ?thesis by (simp add: book_inv_def)
qed

text \<open>A redemption moves the units of one item to the publisher.\<close>

definition db_spend :: "redemption \<Rightarrow> book_db \<Rightarrow> book_db" where
  "db_spend r d = d\<lparr>
     accounts := update_rows (\<lambda>a. ac_buyer a = rd_buyer r)
       (\<lambda>a. a\<lparr>ac_reserved := ac_reserved a - rd_units r, ac_redeemed := ac_redeemed a + rd_units r\<rparr>) (accounts d),
     books := update_rows (\<lambda>b. bk_id b = rd_book r)
       (\<lambda>b. b\<lparr>bk_remaining := bk_remaining b - rd_units r\<rparr>) (books d),
     publishers := update_rows (\<lambda>p. pb_id p = rd_publisher r)
       (\<lambda>p. p\<lparr>pb_accrued := pb_accrued p + rd_units r\<rparr>) (publishers d),
     redemptions := redemptions d @ [r]\<rparr>"

definition redeemable :: "book_db \<Rightarrow> book \<Rightarrow> item \<Rightarrow> redemption \<Rightarrow> bool" where
  "redeemable d b i r \<longleftrightarrow> b \<in> set (books d) \<and> i \<in> set (items d) \<and> \<not> bk_closed b
     \<and> bk_id b = rd_book r \<and> bk_buyer b = rd_buyer r \<and> bk_publisher b = rd_publisher r
     \<and> item_key i = rd_key r \<and> it_units i = rd_units r
     \<and> rd_key r \<notin> set (map rd_key (redemptions d))
     \<and> rd_request r \<notin> set (map rd_request (redemptions d))"

lemma redeemable_bounds:
  assumes "book_inv d" and "redeemable d b i r"
  shows "0 \<le> rd_units r" and "rd_units r \<le> bk_remaining b"
    and "a \<in> set (accounts d) \<Longrightarrow> ac_buyer a = rd_buyer r \<Longrightarrow> rd_units r \<le> ac_reserved a"
proof -
  from assms(2) have r: "b \<in> set (books d)" "i \<in> set (items d)" "\<not> bk_closed b" "it_book i = bk_id b"
    "it_units i = rd_units r" "item_key i \<notin> set (map rd_key (redemptions d))" "bk_buyer b = rd_buyer r"
    by (auto simp: redeemable_def item_key_def rd_key_def)
  show "0 \<le> rd_units r" using book_inv_parts(3) [OF assms(1)] r(2,5) by (auto simp: items_inv_def)
  show le: "rd_units r \<le> bk_remaining b" using units_le_remaining [OF assms(1) r(1,3,2,4,6)] r(5) by simp
  show "a \<in> set (accounts d) \<Longrightarrow> ac_buyer a = rd_buyer r \<Longrightarrow> rd_units r \<le> ac_reserved a"
    using le remaining_le_reserved [OF assms(1) r(1)] r(7) by force
qed

text \<open>So none of the checks of the schema can fail, and the invariant holds again.\<close>

lemma unspent_spend:
  assumes "book_inv d" and "redeemable d b i r"
  shows "unspent (db_spend r d) x = unspent d x - (if x = rd_book r then rd_units r else 0)"
proof -
  from assms(2) have i: "i \<in> set (items d)" "item_key i = rd_key r" "it_units i = rd_units r"
    "it_book i = rd_book r" "rd_key r \<notin> set (map rd_key (redemptions d))"
    by (auto simp: redeemable_def item_key_def rd_key_def)
  have dis: "distinct (map item_key (items d))"
    using book_inv_parts(3) [OF assms(1)] by (simp add: items_inv_def)
  from sum_where_spend [OF dis i(1), of "set (map rd_key (redemptions d))" it_book x it_units] i
  show ?thesis by (simp add: unspent_def db_spend_def eq_commute [of x])
qed

lemma spend_inv:
  assumes inv: "book_inv d" and rd: "redeemable d b i r"
  shows "book_inv (db_spend r d)"
proof -
  note P = book_inv_parts [OF inv] and bound = redeemable_bounds [OF inv rd]
  let ?d = "db_spend r d"
  from rd have b: "b \<in> set (books d)" "\<not> bk_closed b" "bk_id b = rd_book r" "bk_buyer b = rd_buyer r"
    "bk_publisher b = rd_publisher r" by (auto simp: redeemable_def)
  have as: "accounts ?d = update_rows (\<lambda>a. ac_buyer a = rd_buyer r)
       (\<lambda>a. a\<lparr>ac_reserved := ac_reserved a - rd_units r, ac_redeemed := ac_redeemed a + rd_units r\<rparr>) (accounts d)"
    and bs: "books ?d = update_rows (\<lambda>b. bk_id b = rd_book r)
       (\<lambda>b. b\<lparr>bk_remaining := bk_remaining b - rd_units r\<rparr>) (books d)"
    and ps: "publishers ?d = update_rows (\<lambda>p. pb_id p = rd_publisher r)
       (\<lambda>p. p\<lparr>pb_accrued := pb_accrued p + rd_units r\<rparr>) (publishers d)"
    and rs: "redemptions ?d = redemptions d @ [r]" "items ?d = items d"
    by (simp_all add: db_spend_def)
  have keys: "same_keys d (?d\<lparr>redemptions := redemptions d\<rparr>)"
    by (simp add: same_keys_def db_spend_def map_update_rows book_key_def)
  note K = same_keys_inv [OF keys P(2-5)]
  have dis: "distinct (map bk_id (books d))" using P(2) by (simp add: books_inv_def)
  have s: "sum_where (\<lambda>x. bk_buyer x = y) bk_remaining (books ?d)
      = sum_where (\<lambda>x. bk_buyer x = y) bk_remaining (books d) - (if rd_buyer r = y then rd_units r else 0)" for y
    unfolding bs using sum_where_update_one [OF dis b(1,3), of "\<lambda>x. bk_buyer x = y"] b(4) by simp
  have uniq: "x = b" if "x \<in> set (books d)" "bk_id x = rd_book r" for x
    using find_unique [OF dis that(1) b(1)] that(2) b(3) by simp
  have "accounts_inv ?d"
    using P(1) bound
    by (auto simp: accounts_inv_def as map_update_rows set_update_rows account_ok_def)
  moreover have "books_inv ?d" "items_inv ?d" "offers_inv ?d"
    using K by (simp_all add: books_inv_def items_inv_def offers_inv_def)
  moreover have "redemptions_inv ?d"
  proof -
    have "\<exists>b' \<in> set (books ?d). bk_id b' = rd_book r \<and> bk_buyer b' = rd_buyer r \<and> bk_publisher b' = rd_publisher r"
      unfolding bs set_update_rows
      by (rule bexI [of _ "b\<lparr>bk_remaining := bk_remaining b - rd_units r\<rparr>"])
         (use b in \<open>auto simp: set_update_rows intro!: bexI [of _ b]\<close>)
    moreover have "\<exists>i \<in> set (items ?d). item_key i = rd_key r \<and> it_units i = rd_units r"
      using rd by (auto simp: redeemable_def rs)
    moreover have "redemptions_inv (?d\<lparr>redemptions := redemptions d\<rparr>)" using K by blast
    ultimately show ?thesis
      using rd by (auto simp: redemptions_inv_def redeemable_def rs simp del: set_map) 
  qed
  moreover have "money_inv ?d"
  proof (rule money_invI)
    fix x assume "x \<in> set (books ?d)"
    then show "backed ?d x"
      unfolding bs
    proof (cases rule: update_rows_E)
      case (1 y)
      with uniq have "y = b" by simp
      with 1 b money_invD(1) [OF P(6) b(1)] show ?thesis
        by (simp add: backed_def unspent_spend [OF inv rd])
    next
      case 2
      with money_invD(1) [OF P(6) 2(1)] show ?thesis
        by (simp add: backed_def unspent_spend [OF inv rd])
    qed
  next
    fix x assume "x \<in> set (accounts ?d)"
    then show "buyer_conserved ?d x"
      unfolding as by (elim update_rows_E)
        (auto simp: buyer_conserved_def Let_def s rs dest!: money_invD(2) [OF P(6)])
  next
    show "distinct (map pb_id (publishers ?d))"
      using money_invD(3) [OF P(6)] by (simp add: ps map_update_rows)
  next
    fix x assume "x \<in> set (publishers ?d)"
    then show "publisher_conserved ?d x"
      unfolding ps by (elim update_rows_E)
        (auto simp: publisher_conserved_def rs dest!: money_invD(4) [OF P(6)])
  qed
  ultimately show ?thesis by (simp add: book_inv_def)
qed

end
