(* ===== verification/AccessOps.thy ===== *)
theory AccessOps
  imports AccessInv
begin

text \<open>
  What each method of the clearing service of \<open>AccessBook\<close> does to a database that satisfies the
  invariant: its effect when it returns and the errors it can raise. No statement of a method
  violates a constraint of the schema, except the insertion of a book under an identifier that
  the random source has returned before.
\<close>

section \<open>Rules for the actions of this service\<close>

lemma wp_now [run_simps]:
  "wp (now env) Q E s =
     (if 1 \<le> be_clock env (cn_ticks s) \<and> be_clock env (cn_ticks s) \<le> MAX_UNITS
      then Q (be_clock env (cn_ticks s)) (s\<lparr>cn_ticks := Suc (cn_ticks s)\<rparr>)
      else E (Denied ''invalid bounded integer'') (s\<lparr>cn_ticks := Suc (cn_ticks s)\<rparr>))"
  by (simp add: now_def run_simps check_integer_def)

lemma wp_authority_sign [run_simps]:
  "wp (authority_sign env payload) Q E s =
     (case sign_es256 (Items [PBytes payload]) (PStr KEY_ID) (authority_signer env) of
        Inl e \<Rightarrow> E e s
      | Inr tokens \<Rightarrow> Q (hd tokens) (s\<lparr>au_signatures := Suc (au_signatures s)\<rparr>))"
  by (simp add: wp_def authority_sign_def split: sum.splits)

lemma wp_authority_verify [run_simps]:
  "wp (authority_verify env token expected t) Q E s =
     (case authority_check env token expected t of
        Inl e \<Rightarrow> E e s
      | Inr _ \<Rightarrow> Q () (s\<lparr>au_verifications := Suc (au_verifications s)\<rparr>))"
  by (simp add: wp_def authority_verify_def split: sum.splits)

lemma wp_key_ok [run_simps]:
  "wp key_ok Q E s = (if KEY_ID \<notin> set (revoked_keys (cn_db s)) then Q () s
     else E (Denied ''issuer key revoked'') s)"
  by (simp add: key_ok_def run_simps)

text \<open>The exceptions that are not a broken constraint.\<close>

fun integrity_error :: "exn \<Rightarrow> bool" where
  "integrity_error (IntegrityError _) = True"
| "integrity_error _ = False"

fun claim_error :: "exn \<Rightarrow> bool" where
  "claim_error (Denied _) = True"
| "claim_error (KeyError _) = True"
| "claim_error (TypeError _) = True"
| "claim_error (JwtError _) = True"
| "claim_error _ = False"

lemma py_get_raises [raises_intros]: "raises_only claim_error (py_get v k)"
  by (auto simp: raises_only_def py_get_def split: pyval.splits option.splits)

lemma check_claims_raises: "raises_only claim_error (check_claims env t v n)"
  unfolding check_claims_def check_window_def by (intro raises_intros) simp_all

text \<open>\<open>Authority.verify\<close> denies, or meets a payload without the fields it reads.\<close>

lemma authority_check_Inl:
  assumes "authority_check env t v n = Inl e"
  shows "(\<exists>m. e = Denied m) \<or> (\<exists>m. e = KeyError m)"
proof (cases "as_str t")
  case None
  with assms show ?thesis by (auto simp: authority_check_def)
next
  case (Some x)
  show ?thesis
  proof (cases "check_claims env x v n")
    case (Inl e')
    from raises_onlyD [OF check_claims_raises Inl] Inl Some assms show ?thesis
      by (cases e') (auto simp: authority_check_def split: if_splits)
  qed (use Some assms in \<open>auto simp: authority_check_def split: if_splits\<close>)
qed

lemma authority_check_integrity: "authority_check env t v n = Inl e \<Longrightarrow> \<not> integrity_error e"
  by (auto dest: authority_check_Inl)

section \<open>One lemma per transaction\<close>

lemma find_Some_iff: "find P xs = Some x \<Longrightarrow> x \<in> set xs \<and> P x"
  by (rule find_SomeD)

lemma release_tx_spec:
  assumes inv: "book_inv (cn_db s)"
  shows "wp (release_tx bid buyer)
    (\<lambda>u s'. \<exists>b \<in> set (books (cn_db s)). bk_id b = bid \<and> bk_buyer b = buyer
       \<and> (if bk_closed b then u = 0 \<and> cn_db s' = cn_db s
          else u = bk_remaining b \<and> cn_db s' = db_release b (cn_db s)))
    (\<lambda>e s'. e = Denied ''unknown book'') s"
proof (cases "find (\<lambda>b. bk_id b = bid \<and> bk_buyer b = buyer) (books (cn_db s))")
  case None
  then show ?thesis by (simp add: release_tx_def run_simps)
next
  case (Some b)
  then have b: "b \<in> set (books (cn_db s))" "bk_id b = bid" "bk_buyer b = buyer"
    by (auto dest: find_Some_iff)
  have "\<forall>a \<in> set (accounts (cn_db s)). ac_buyer a = buyer \<longrightarrow>
      account_ok (a\<lparr>ac_reserved := ac_reserved a - bk_remaining b,
        ac_available := ac_available a + bk_remaining b\<rparr>)"
    using release_accounts_ok [OF inv b(1)] b(3) by simp
  then show ?thesis
    using Some b
    by (auto simp: release_tx_def run_simps Let_def update_accounts_def update_books_def db_release_def)
qed

lemma activate_tx_spec:
  assumes inv: "book_inv (cn_db s)"
  shows "wp (activate_tx env bid token buyer pub)
    (\<lambda>u s'. (\<exists>b \<in> set (books (cn_db s)). bk_id b = bid \<and> bk_buyer b = buyer \<and> bk_publisher b = pub
          \<and> bk_token b = token \<and> \<not> bk_closed b
          \<and> (cn_db s' = cn_db s \<and> bk_active b \<or> cn_db s' = db_activate bid (cn_db s)))
       \<and> KEY_ID \<notin> set (revoked_keys (cn_db s)))
    (\<lambda>e s'. \<not> integrity_error e) s"
proof (cases "book_row bid buyer pub (cn_db s)")
  case None
  then show ?thesis by (simp add: activate_tx_def run_simps)
next
  case (Some b)
  then have b: "b \<in> set (books (cn_db s))" "bk_id b = bid" "bk_buyer b = buyer" "bk_publisher b = pub"
    by (auto simp: book_row_def dest: find_Some_iff)
  have ok: "\<forall>x \<in> set (books (cn_db s)). bk_id x = bid \<longrightarrow> 0 \<le> bk_remaining x"
    using remaining_nonneg [OF inv] by blast
  show ?thesis
    using Some b ok
    by (auto simp: activate_tx_def run_simps update_books_def db_activate_def json_payload_def
        split: sum.splits option.splits dest: authority_check_integrity)
qed

lemma authority_sign_raises:
  "raises_only (\<lambda>e. \<not> integrity_error e) (sign_es256 (Items xs) kid (authority_signer env))"
proof -
  have b [raises_intros]: "raises_only (\<lambda>e. \<not> integrity_error e) (py_batch (Items ys))" for ys :: "pyval list"
    by (simp add: py_batch_def raises_only_def)
  have m [raises_intros]: "raises_only (\<lambda>e. \<not> integrity_error e) (py_messages (Items xs))"
    unfolding py_messages_def Let_def by (intro raises_intros; simp)
  have c [raises_intros]: "raises_only (\<lambda>e. \<not> integrity_error e) (check_signatures vs)" for vs
    by (induction vs) (auto simp: raises_only_def bind_res_Inl_iff split: option.splits if_splits)
  show ?thesis
    unfolding sign_es256_def authority_signer_def Let_def bind_res_simps by (intro raises_intros; simp)
qed

text \<open>Admissible requests, as \<open>issue_args\<close> returns them.\<close>

definition issue_ok :: "issue_request \<Rightarrow> bool" where
  "issue_ok q \<longleftrightarrow> iq_resources q \<noteq> [] \<and> distinct (iq_resources q)"

lemma check_raises [raises_intros]:
  "raises_only (\<lambda>e. \<not> integrity_error e) (check_identifier v)"
  "raises_only (\<lambda>e. \<not> integrity_error e) (check_integer v lo hi)"
  "raises_only (\<lambda>e. \<not> integrity_error e) (check_commitment v)"
  by (auto simp: raises_only_def check_identifier_def check_integer_def check_commitment_def
      split: option.splits if_splits)

lemma issue_args_raises: "raises_only (\<lambda>e. \<not> integrity_error e) (issue_args b p rs m q t)"
  unfolding issue_args_def by (intro raises_intros; simp)

lemma issue_args_ok: "issue_args b p rs m q t = Inr r \<Longrightarrow> issue_ok r"
proof -
  assume "issue_args b p rs m q t = Inr r"
  then obtain xs names where "1 \<le> length xs" "map_res check_identifier xs = Inr names"
    "distinct (sort names)" "iq_resources r = sort names"
    unfolding issue_args_def by (elim bind_res_Inr_E) (cases rs; auto split: if_splits)
  moreover from this have "names \<noteq> []" using map_res_length by fastforce
  ultimately show ?thesis by (auto simp: issue_ok_def) (metis length_0_conv length_sort)
qed

lemma live_offers_Inr:
  assumes "live_offers d t p rs = Inr offs"
  shows "map of_resource offs = rs" and "\<forall>x \<in> set offs. x \<in> set (offers d) \<and> of_publisher x = p \<and> t < of_valid_until x"
proof -
  have l: "list_all2 (\<lambda>r x. x \<in> set (offers d) \<and> of_publisher x = p \<and> of_resource x = r \<and> t < of_valid_until x) rs offs"
    using assms unfolding live_offers_def map_res_Inr_iff
    by (rule list_all2_mono) (auto simp: find_offer_def split: option.splits if_splits dest!: find_SomeD)
  then show "map of_resource offs = rs"
    by (induction rule: list_all2_induct) simp_all
  from l show "\<forall>x \<in> set offs. x \<in> set (offers d) \<and> of_publisher x = p \<and> t < of_valid_until x"
    by (induction rule: list_all2_induct) simp_all
qed

lemma live_offers_Inl: "live_offers d t p rs = Inl e \<Longrightarrow> e = Denied ''missing or expired authoritative offer''"
  unfolding live_offers_def by (induction rs) (auto simp: bind_res_Inl_iff split: option.splits if_splits)

text \<open>What a successful issuance adds.\<close>

definition issued :: "book_env \<Rightarrow> issue_request \<Rightarrow> book_db \<Rightarrow> book \<Rightarrow> item list \<Rightarrow> bool" where
  "issued env q d b its \<longleftrightarrow> (\<exists>bid t offs tokens.
     live_offers d t (iq_publisher q) (iq_resources q) = Inr offs
     \<and> sum_list (map of_units offs) \<le> iq_max_units q
     \<and> sign_es256 (Items [PBytes (ascii_encode (book_payload q bid t offs))]) (PStr KEY_ID)
         (authority_signer env) = Inr tokens
     \<and> b = new_book q bid t offs (hd tokens) \<and> its = new_items bid offs
     \<and> bid \<notin> set (map bk_id (books d))
     \<and> (\<forall>x \<in> set (books d). \<not> (bk_buyer x = iq_buyer q \<and> bk_request_id x = iq_request_id q))
     \<and> (\<exists>a \<in> set (accounts d). ac_buyer a = iq_buyer q \<and> sum_list (map of_units offs) \<le> ac_available a))"

lemma issued_inv:
  assumes inv: "book_inv d" and q: "issue_ok q" and new: "issued env q d b its"
  shows "book_inv (db_issue b its d)"
proof -
  from new obtain bid t offs token a where o: "live_offers d t (iq_publisher q) (iq_resources q) = Inr offs"
    and b: "b = new_book q bid t offs token" "its = new_items bid offs"
    and fresh: "bid \<notin> set (map bk_id (books d))"
      "\<forall>x \<in> set (books d). \<not> (bk_buyer x = iq_buyer q \<and> bk_request_id x = iq_request_id q)"
    and a: "a \<in> set (accounts d)" "ac_buyer a = iq_buyer q" "sum_list (map of_units offs) \<le> ac_available a"
    by (auto simp: issued_def)
  note O = live_offers_Inr [OF o] and P = book_inv_parts(5) [OF inv, unfolded offers_inv_def]
  from q O(1) obtain x where x: "x \<in> set offs" by (cases offs) (auto simp: issue_ok_def)
  have keys: "map item_key its = map (Pair bid) (iq_resources q)"
    unfolding b(2) O(1) [symmetric] by (simp add: new_items_def item_key_def)
  show ?thesis
  proof (rule issue_inv [OF inv a(1)])
    show "ac_buyer a = bk_buyer b" "bk_remaining b \<le> ac_available a" "\<not> bk_closed b"
      using a by (simp_all add: b new_book_def)
    show "bk_publisher b \<in> set (map pb_id (publishers d))"
      using O(2) P x unfolding b new_book_def book.simps by metis
    show "bk_id b \<notin> set (map bk_id (books d))"
      using fresh(1) by (simp add: b new_book_def)
    show "(bk_buyer b, bk_request_id b) \<notin> set (map (\<lambda>x. (bk_buyer x, bk_request_id x)) (books d))"
      using fresh(2) by (auto simp: b new_book_def)
    show "distinct (map item_key its)"
      unfolding keys using q by (simp add: issue_ok_def distinct_map inj_on_def)
    show "\<forall>i \<in> set its. it_book i = bk_id b \<and> 0 \<le> it_units i"
      using O(2) P by (fastforce simp: b new_book_def new_items_def)
    show "bk_remaining b = sum_list (map it_units its)"
      by (simp add: b new_book_def new_items_def o_def)
  qed
qed

text \<open>The three statements of an issuance succeed, unless the random identifier is taken.\<close>

lemma reserve_Inr:
  assumes "accounts_inv d" and "0 \<le> n"
  shows "reserve buyer n d = Inr (d\<lparr>accounts := update_rows (\<lambda>a. ac_buyer a = buyer \<and> n \<le> ac_available a)
    (\<lambda>a. a\<lparr>ac_available := ac_available a - n, ac_reserved := ac_reserved a + n\<rparr>) (accounts d)\<rparr>)"
  using assms by (auto simp: reserve_def update_accounts_def accounts_inv_def account_ok_def)

lemma insert_items_new:
  assumes "distinct (map of_resource offs)" and "items_inv d" and "bid \<notin> set (map bk_id (books d))"
    and "items d' = items d" and "bid \<in> set (map bk_id (books d'))"
  shows "insert_items (new_items bid offs) d' = Inr (d'\<lparr>items := items d @ new_items bid offs\<rparr>)"
proof -
  have keys: "map item_key (new_items bid offs) = map (Pair bid) (map of_resource offs)"
    by (simp add: new_items_def item_key_def)
  then have "distinct (map item_key (new_items bid offs))"
    using assms(1) by (simp add: distinct_map inj_on_def)
  moreover have "set (map item_key (new_items bid offs)) \<inter> set (map item_key (items d)) = {}"
  proof -
    have "fst k \<in> set (map bk_id (books d))" if "k \<in> set (map item_key (items d))" for k
      using that assms(2) by (auto simp: items_inv_def item_key_def simp del: set_map) (auto simp: item_key_def)
    moreover have "fst k = bid" if "k \<in> set (map item_key (new_items bid offs))" for k
      using that unfolding keys by auto
    ultimately show ?thesis using assms(3) by blast
  qed
  moreover have "\<forall>i \<in> set (new_items bid offs). it_book i \<in> set (map bk_id (books d'))"
    using assms(5) by (auto simp: new_items_def)
  ultimately show ?thesis by (simp add: insert_items_def assms(4) check_constraint_def del: set_map)
qed

text \<open>The conditions under which a new book is issued, at time \<open>t\<close> and under the identifier \<open>bid\<close>.\<close>

definition issuable :: "book_env \<Rightarrow> issue_request \<Rightarrow> int \<Rightarrow> ustr \<Rightarrow> book_db \<Rightarrow> bool" where
  "issuable env q t bid d \<longleftrightarrow> 1 \<le> t \<and> t \<le> MAX_UNITS \<and> bid \<notin> set (map bk_id (books d))
     \<and> (\<exists>offs tokens. live_offers d t (iq_publisher q) (iq_resources q) = Inr offs
          \<and> sum_list (map of_units offs) \<le> iq_max_units q
          \<and> (\<exists>a \<in> set (accounts d). ac_buyer a = iq_buyer q \<and> sum_list (map of_units offs) \<le> ac_available a)
          \<and> sign_es256 (Items [PBytes (ascii_encode (book_payload q bid t offs))]) (PStr KEY_ID)
              (authority_signer env) = Inr tokens)"

lemma issue_new_spec:
  assumes inv: "book_inv (cn_db s)" and q: "issue_ok q"
    and no_prior: "\<forall>x \<in> set (books (cn_db s)). \<not> (bk_buyer x = iq_buyer q \<and> bk_request_id x = iq_request_id q)"
  shows "wp (issue_new env q)
    (\<lambda>(bid, token) s'. \<exists>b its. issued env q (cn_db s) b its \<and> bid = bk_id b \<and> token = bk_token b
       \<and> cn_db s' = db_issue b its (cn_db s) \<and> bid = be_random env (cn_draws s)
       \<and> bk_issued b = be_clock env (cn_ticks s) \<and> cn_ticks s' = Suc (cn_ticks s))
    (\<lambda>e s'. (integrity_error e \<longrightarrow> be_random env (cn_draws s) \<in> set (map bk_id (books (cn_db s))))
       \<and> \<not> issuable env q (be_clock env (cn_ticks s)) (be_random env (cn_draws s)) (cn_db s)) s"
  (is "wp _ ?Q ?E s")
proof -
  let ?d = "cn_db s" and ?t = "be_clock env (cn_ticks s)" and ?bid = "be_random env (cn_draws s)"
  note P = book_inv_parts [OF inv]
  show ?thesis
  proof (cases "live_offers ?d ?t (iq_publisher q) (iq_resources q)")
    case (Inl e)
    then have "\<not> issuable env q ?t ?bid ?d" by (simp add: issuable_def)
    with Inl show ?thesis by (auto simp: issue_new_def run_simps dest: live_offers_Inl)
  next
    case (Inr offs)
    note O = live_offers_Inr [OF Inr]
    let ?n = "sum_list (map of_units offs)"
    let ?G = "filter (\<lambda>a. ac_buyer a = iq_buyer q \<and> ?n \<le> ac_available a) (accounts ?d)"
    have n: "0 \<le> ?n"
      using O(2) P(5) by (intro sum_list_nonneg_int) (force simp: offers_inv_def)
    note R = reserve_Inr [OF P(1) n, of "iq_buyer q"]
    have acc: "\<exists>a \<in> set (accounts ?d). ac_buyer a = iq_buyer q \<and> ?n \<le> ac_available a" if "length ?G = 1"
      using that by (cases ?G) (auto simp: filter_eq_Cons_iff)
    have blocked: "issuable env q ?t ?bid ?d \<Longrightarrow> 1 \<le> ?t \<and> ?t \<le> MAX_UNITS \<and> ?n \<le> iq_max_units q
        \<and> length ?G = 1 \<and> ?bid \<notin> set (map bk_id (books ?d))
        \<and> (\<exists>tokens. sign_es256 (Items [PBytes (ascii_encode (book_payload q ?bid ?t offs))]) (PStr KEY_ID)
              (authority_signer env) = Inr tokens)"
    proof -
      assume i: "issuable env q ?t ?bid ?d"
      then obtain a where a: "a \<in> set (accounts ?d)" "ac_buyer a = iq_buyer q" "?n \<le> ac_available a"
        by (auto simp: issuable_def Inr)
      have "?G = [a]"
        using P(1) a by (intro filter_by_key [of ac_buyer]) (auto simp: accounts_inv_def)
      with i show ?thesis by (simp add: issuable_def Inr)
    qed
    have dis: "distinct (map of_resource offs)" using O(1) q by (simp add: issue_ok_def)
    have book: "wp (bind_act (authority_sign env (ascii_encode (book_payload q ?bid ?t offs))) (\<lambda>token.
        bind_act (execute (insert_book (new_book q ?bid ?t offs token))) (\<lambda>_.
        bind_act (execute (insert_items (new_items ?bid offs))) (\<lambda>_. ret (?bid, token))))) ?Q ?E s'"
      if ticks: "cn_ticks s' = Suc (cn_ticks s)" and s': "cn_db s' = ?d\<lparr>accounts := update_rows (\<lambda>a. ac_buyer a = iq_buyer q \<and> ?n \<le> ac_available a)
          (\<lambda>a. a\<lparr>ac_available := ac_available a - ?n, ac_reserved := ac_reserved a + ?n\<rparr>) (accounts ?d)\<rparr>"
        and bound: "?n \<le> iq_max_units q" and one: "length ?G = 1" for s'
    proof (cases "sign_es256 (Items [PBytes (ascii_encode (book_payload q ?bid ?t offs))]) (PStr KEY_ID)
        (authority_signer env)")
      case (Inl e)
      with raises_onlyD [OF authority_sign_raises Inl] blocked show ?thesis by (auto simp: run_simps)
    next
      case (Inr tokens)
      let ?b = "new_book q ?bid ?t offs (hd tokens)"
      show ?thesis
      proof (cases "?bid \<in> set (map bk_id (books ?d))")
        case True
        then show ?thesis
          using Inr blocked
          by (auto simp: run_simps insert_book_def s' new_book_def check_constraint_def simp del: set_map)
      next
        case False
        from acc [OF one] obtain a where a: "a \<in> set (accounts ?d)" "ac_buyer a = iq_buyer q"
          "?n \<le> ac_available a" by blast
        from a(1,2) have "iq_buyer q \<in> set (map ac_buyer (accounts ?d))" by (metis image_eqI list.set_map)
        then have "insert_book ?b (cn_db s') = Inr (cn_db s'\<lparr>books := books ?d @ [?b]\<rparr>)"
          using False n no_prior
          by (auto simp: insert_book_def s' new_book_def map_update_rows check_constraint_def image_iff)
        moreover have "insert_items (new_items ?bid offs) (cn_db s'\<lparr>books := books ?d @ [?b]\<rparr>)
            = Inr (cn_db s'\<lparr>books := books ?d @ [?b], items := items ?d @ new_items ?bid offs\<rparr>)"
          by (subst insert_items_new [OF dis P(3) False]) (simp_all add: s' new_book_def)
        moreover have "issued env q ?d ?b (new_items ?bid offs)"
          using \<open>live_offers _ _ _ _ = _\<close> bound Inr False no_prior a unfolding issued_def by blast
        ultimately show ?thesis
          using Inr
          by (auto simp: run_simps db_issue_def s' ticks new_book_def intro!: exI [of _ ?b] exI [of _ "new_items ?bid offs"])
      qed
    qed
    show ?thesis
      using Inr R book blocked by (auto simp: issue_new_def run_simps Let_def simp del: set_map)
  qed
qed

lemma issue_tx_spec:
  assumes inv: "book_inv (cn_db s)" and q: "issue_ok q"
  shows "wp (issue_tx env q)
    (\<lambda>(bid, token) s'. KEY_ID \<notin> set (revoked_keys (cn_db s))
       \<and> ((\<exists>b \<in> set (books (cn_db s)). bk_buyer b = iq_buyer q \<and> bk_request_id b = iq_request_id q
              \<and> bk_request_hash b = issue_hash q \<and> bid = bk_id b \<and> token = bk_token b
              \<and> cn_db s' = cn_db s)
         \<or> (\<exists>b its. issued env q (cn_db s) b its \<and> bid = bk_id b \<and> token = bk_token b
              \<and> cn_db s' = db_issue b its (cn_db s))))
    (\<lambda>e s'. integrity_error e \<longrightarrow> be_random env (cn_draws s) \<in> set (map bk_id (books (cn_db s)))) s"
proof (cases "KEY_ID \<in> set (revoked_keys (cn_db s))")
  case True
  then show ?thesis by (simp add: issue_tx_def run_simps)
next
  case False
  show ?thesis
  proof (cases "find (\<lambda>b. bk_buyer b = iq_buyer q \<and> bk_request_id b = iq_request_id q) (books (cn_db s))")
    case None
    then have "\<forall>x \<in> set (books (cn_db s)). \<not> (bk_buyer x = iq_buyer q \<and> bk_request_id x = iq_request_id q)"
      by (simp add: find_map_None)
    from issue_new_spec [OF inv q this, of env] None False show ?thesis
      by (simp add: issue_tx_def run_simps del: set_map) (erule wp_mono, auto simp del: set_map)
  next
    case (Some b)
    then have "b \<in> set (books (cn_db s))" "bk_buyer b = iq_buyer q" "bk_request_id b = iq_request_id q"
      by (auto dest: find_Some_iff)
    with Some False show ?thesis by (auto simp: issue_tx_def run_simps)
  qed
qed

text \<open>A new redemption, and the conditions under which the code makes it.\<close>

definition redeemed :: "redeem_request \<Rightarrow> book_db \<Rightarrow> book \<Rightarrow> item \<Rightarrow> int \<Rightarrow> redemption \<Rightarrow> bool" where
  "redeemed q d b i t r \<longleftrightarrow> redeemable d b i r
     \<and> KEY_ID \<notin> set (revoked_keys d) \<and> bk_active b \<and> bk_issued b \<le> t \<and> t < bk_expires b
     \<and> it_content i = rq_content q \<and> it_terms i = rq_terms q
     \<and> rd_buyer r = rq_buyer q \<and> rd_publisher r = rq_publisher q \<and> rd_request_id r = rq_request_id q
     \<and> rd_book r = rq_book q \<and> rd_resource r = rq_resource q \<and> rd_request_hash r = redeem_hash q"

lemma spend_units_spec:
  assumes inv: "book_inv (cn_db s)" and rd: "redeemable (cn_db s) b i (new_redemption q n rc)"
  shows "wp (spend_units q n rc) (\<lambda>_ s'. cn_db s' = db_spend (new_redemption q n rc) (cn_db s)) (\<lambda>_ _. False) s"
proof -
  let ?d = "cn_db s" and ?r = "new_redemption q n rc"
  note P = book_inv_parts [OF inv] and bound = redeemable_bounds [OF inv rd]
  have r: "rd_units ?r = n" "rd_buyer ?r = rq_buyer q" "rd_book ?r = rq_book q"
    "rd_publisher ?r = rq_publisher q" by (simp_all add: new_redemption_def)
  from rd have b: "b \<in> set (books ?d)" "bk_id b = rq_book q"
    and fresh: "rd_key ?r \<notin> set (map rd_key (redemptions ?d))"
      "rd_request ?r \<notin> set (map rd_request (redemptions ?d))" by (auto simp: redeemable_def r)
  have acc: "\<forall>a \<in> set (accounts ?d). ac_buyer a = rq_buyer q \<longrightarrow>
      account_ok (a\<lparr>ac_reserved := ac_reserved a - n, ac_redeemed := ac_redeemed a + n\<rparr>)"
    using P(1) bound(1,3) by (auto simp: accounts_inv_def account_ok_def r)
  have bks: "\<forall>x \<in> set (books ?d). bk_id x = rq_book q \<longrightarrow> 0 \<le> bk_remaining x - n"
  proof (intro ballI impI)
    fix x assume x: "x \<in> set (books ?d)" "bk_id x = rq_book q"
    have "x = b" using find_unique [of bk_id "books ?d" x b] P(2) x b by (simp add: books_inv_def)
    with bound(2) r(1) show "0 \<le> bk_remaining x - n" by simp
  qed
  have pbs: "\<forall>p \<in> set (publishers ?d). pb_id p = rq_publisher q \<longrightarrow> 0 \<le> pb_accrued p + n"
  proof (intro ballI impI)
    fix p assume "p \<in> set (publishers ?d)"
    then have "pb_accrued p = sum_where (\<lambda>r. rd_publisher r = pb_id p) rd_units (redemptions ?d)"
      using money_invD(4) [OF P(6)] by (simp add: publisher_conserved_def)
    also have "0 \<le> \<dots>" by (rule sum_where_nonneg) (rule rd_units_nonneg [OF inv])
    finally show "0 \<le> pb_accrued p + n" using bound(1) r(1) by simp
  qed
  have bk: "rq_book q \<in> set (map bk_id (update_rows (\<lambda>b. bk_id b = rq_book q)
      (\<lambda>b. b\<lparr>bk_remaining := bk_remaining b - n\<rparr>) (books ?d)))"
  proof -
    have "rq_book q \<in> set (map bk_id (books ?d))" using b by (metis image_eqI list.set_map)
    then show ?thesis by (subst map_update_rows) simp_all
  qed
  show ?thesis
    using acc bks pbs bk fresh
    by (simp add: spend_units_def run_simps update_accounts_def update_books_def update_publishers_def
        insert_redemption_def check_constraint_def db_spend_def r del: set_map)
qed

lemma redeem_tx_spec:
  assumes inv: "book_inv (cn_db s)"
  shows "wp (redeem_tx env q)
    (\<lambda>v s'. (\<exists>r \<in> set (redemptions (cn_db s)). rd_request r = (rq_buyer q, rq_request_id q)
          \<and> rd_request_hash r = redeem_hash q \<and> loads (rd_receipt r) = Some v \<and> cn_db s' = cn_db s)
       \<or> (\<exists>b i. let t = be_clock env (cn_ticks s); rc = receipt_dict (be_random env (cn_draws s)) q (it_units i) t;
            r = new_redemption q (it_units i) rc in
            redeemed q (cn_db s) b i t r \<and> v = rc \<and> cn_db s' = db_spend r (cn_db s)))
    (\<lambda>e s'. \<not> integrity_error e) s"
  (is "wp _ ?Q ?E s")
proof (cases "find (\<lambda>r. rd_request r = (rq_buyer q, rq_request_id q)) (redemptions (cn_db s))")
  case (Some r)
  then have "r \<in> set (redemptions (cn_db s))" "rd_request r = (rq_buyer q, rq_request_id q)"
    by (auto dest: find_Some_iff)
  with Some show ?thesis by (auto simp: redeem_tx_def run_simps json_payload_def split: option.splits)
next
  case None
  let ?d = "cn_db s" and ?t = "be_clock env (cn_ticks s)" and ?rid = "be_random env (cn_draws s)"
  show ?thesis
  proof (cases "book_row (rq_book q) (rq_buyer q) (rq_publisher q) ?d")
    case no_row: None
    with None show ?thesis by (simp add: redeem_tx_def redeem_new_def run_simps)
  next
    case (Some b)
    then have b: "b \<in> set (books ?d)" "bk_id b = rq_book q" "bk_buyer b = rq_buyer q" "bk_publisher b = rq_publisher q"
      by (auto simp: book_row_def dest: find_Some_iff)
    show ?thesis
    proof (cases "find_item ?d (rq_book q) (rq_resource q)")
      case no_item: None
      with None Some show ?thesis by (simp add: redeem_tx_def redeem_new_def run_simps)
    next
      case (Some i)
      then have i: "i \<in> set (items ?d)" "item_key i = (rq_book q, rq_resource q)"
        by (auto simp: find_item_def dest: find_Some_iff)
      let ?rc = "receipt_dict ?rid q (it_units i) ?t"
      let ?r = "new_redemption q (it_units i) ?rc"
      have spend: "wp (bind_act (spend_units q (it_units i) ?rc) (\<lambda>_. ret ?rc)) ?Q ?E s'"
        if s': "cn_db s' = ?d" and open_book: "\<not> bk_closed b" "bk_active b" "bk_issued b \<le> ?t" "?t < bk_expires b"
          and item: "it_content i = rq_content q" "it_terms i = rq_terms q"
          and unspent: "(rq_book q, rq_resource q) \<notin> set (map rd_key (redemptions ?d))"
          and key: "KEY_ID \<notin> set (revoked_keys ?d)" for s'
      proof -
        have "redeemable ?d b i ?r"
          using b i open_book unspent None
          by (auto simp: redeemable_def new_redemption_def rd_key_def rd_request_def find_map_None)
        moreover from this have "redeemed q ?d b i ?t ?r"
          using open_book item key by (simp add: redeemed_def new_redemption_def)
        ultimately have Q: "?Q ?rc s''" if "cn_db s'' = db_spend ?r ?d" for s''
          using that unfolding Let_def by blast
        have "wp (spend_units q (it_units i) ?rc) (\<lambda>_ s''. cn_db s'' = db_spend ?r ?d) (\<lambda>_ _. False) s'"
          using spend_units_spec [of s' b i q "it_units i" ?rc] inv \<open>redeemable ?d b i ?r\<close>
          by (simp add: s')
        then show ?thesis
          unfolding wp_bind wp_ret by (rule wp_mono) (erule Q, erule FalseE)
      qed
      show ?thesis
        using None Some \<open>book_row _ _ _ _ = Some b\<close> spend
        by (simp add: redeem_tx_def redeem_new_def run_simps Let_def)
    qed
  qed
qed

end
