(* ===== verification/AccessRuns.thy ===== *)
theory AccessRuns
  imports AccessOps
begin

text \<open>
  Histories of calls on the clearing service of \<open>AccessBook\<close>. The seven changes a call can make
  to the tables are a step relation; every method refines it, an exception leaves the tables
  unchanged, and what later calls rely on (a book's fixed fields, its closing, a redemption,
  a revocation) is never lost.
\<close>

section \<open>The step relation\<close>

inductive clearing_step :: "book_env \<Rightarrow> book_db \<Rightarrow> book_db \<Rightarrow> bool" for env where
  funded: "ac_buyer a \<notin> set (map ac_buyer (accounts d)) \<Longrightarrow> account_ok a \<Longrightarrow> ac_available a = ac_initial a
    \<Longrightarrow> ac_reserved a = 0 \<Longrightarrow> ac_redeemed a = 0
    \<Longrightarrow> clearing_step env d (d\<lparr>accounts := accounts d @ [a]\<rparr>)"
| offered: "1 \<le> of_units x \<Longrightarrow> replace_offer x d = Inr d1
    \<Longrightarrow> insert_publisher (of_publisher x) d1 = Inr d2 \<Longrightarrow> clearing_step env d d2"
| booked: "issue_ok q \<Longrightarrow> KEY_ID \<notin> set (revoked_keys d) \<Longrightarrow> issued env q d b its
    \<Longrightarrow> clearing_step env d (db_issue b its d)"
| admitted: "b \<in> set (books d) \<Longrightarrow> bk_id b = bid \<Longrightarrow> \<not> bk_closed b \<Longrightarrow> KEY_ID \<notin> set (revoked_keys d)
    \<Longrightarrow> clearing_step env d (db_activate bid d)"
| spent: "redeemed q d b i t r \<Longrightarrow> clearing_step env d (db_spend r d)"
| released: "b \<in> set (books d) \<Longrightarrow> \<not> bk_closed b \<Longrightarrow> clearing_step env d (db_release b d)"
| revoked: "KEY_ID \<notin> set (revoked_keys d)
    \<Longrightarrow> clearing_step env d (d\<lparr>revoked_keys := revoked_keys d @ [KEY_ID]\<rparr>)"

abbreviation clearing_steps :: "book_env \<Rightarrow> book_db \<Rightarrow> book_db \<Rightarrow> bool" where
  "clearing_steps env \<equiv> (clearing_step env)\<^sup>*\<^sup>*"

inductive_cases clearing_stepE: "clearing_step env d d'"

lemma revoked_inv: "book_inv d \<Longrightarrow> book_inv (d\<lparr>revoked_keys := ks\<rparr>)"
  by (simp add: book_inv_def accounts_inv_def books_inv_def items_inv_def redemptions_inv_def
      offers_inv_def money_inv_def backed_def buyer_conserved_def publisher_conserved_def unspent_def)

lemma clearing_step_inv: "clearing_step env d d' \<Longrightarrow> book_inv d \<Longrightarrow> book_inv d'"
proof (induction rule: clearing_step.induct)
  case (funded a d)
  from seed_inv [OF funded(6,1-5)] show ?case .
next
  case (offered x d d1 d2)
  from offer_inv [OF offered(4,1,2,3)] show ?case .
next
  case (booked q d b its)
  then show ?case by (simp only: issued_inv)
next
  case (admitted b d bid)
  then show ?case by (simp only: activate_inv)
next
  case (spent q d b i t r)
  then show ?case by (metis redeemed_def spend_inv)
next
  case (released b d)
  then show ?case by (simp only: release_inv)
next
  case (revoked d)
  then show ?case by (simp only: revoked_inv)
qed

lemma clearing_steps_inv: "clearing_steps env d d' \<Longrightarrow> book_inv d \<Longrightarrow> book_inv d'"
  by (induction rule: rtranclp_induct) (auto intro: clearing_step_inv)

section \<open>Every call is atomic\<close>

lemma framed_access [framed_intros]:
  "framed (authority_sign env p)" "framed (authority_verify env t v n)" "framed (now env)" "framed key_ok"
  subgoal by (auto simp: framed_def authority_sign_def split: sum.splits)
  subgoal by (auto simp: framed_def authority_verify_def split: sum.splits)
  subgoal unfolding now_def by (intro framed_intros)
  subgoal unfolding key_ok_def by (intro framed_intros)
  done

lemma framed_issue_tx [framed_intros]: "framed (issue_tx env q)"
  unfolding issue_tx_def issue_new_def Let_def by (intro framed_intros)

lemma framed_activate_tx [framed_intros]: "framed (activate_tx env b t u p)"
  unfolding activate_tx_def by (intro framed_intros)

lemma framed_redeem_tx [framed_intros]: "framed (redeem_tx env q)"
  unfolding redeem_tx_def redeem_new_def spend_units_def Let_def by (intro framed_intros)

lemma framed_release_tx [framed_intros]: "framed (release_tx b u)"
  unfolding release_tx_def Let_def by (intro framed_intros)

lemma framed_purchase_tx [framed_intros]: "framed (purchase_tx env r b p c t m q)"
  unfolding purchase_tx_def issue_def activate_def redeem_def by (intro framed_intros)

lemma book_step_atomic: "atomic (book_step env op)"
  by (cases op)
     (simp_all only: book_step.simps act_map_def seed_simulated_balance_def set_offer_def issue_def
       activate_def redeem_def release_def revoke_key_def purchase_def audit_def,
      (intro atomic_intros framed_intros)+)

section \<open>What each method does\<close>

definition issue_effect ::
    "book_env \<Rightarrow> issue_request \<Rightarrow> book_db \<Rightarrow> ustr \<Rightarrow> ustr \<Rightarrow> book_db \<Rightarrow> bool" where
  "issue_effect env q d bid token d' \<longleftrightarrow> KEY_ID \<notin> set (revoked_keys d)
     \<and> ((\<exists>b \<in> set (books d). bk_buyer b = iq_buyer q \<and> bk_request_id b = iq_request_id q
            \<and> bk_request_hash b = issue_hash q \<and> bid = bk_id b \<and> token = bk_token b \<and> d' = d)
        \<or> (\<exists>b its. issued env q d b its \<and> bid = bk_id b \<and> token = bk_token b \<and> d' = db_issue b its d))"

definition activate_effect :: "ustr \<Rightarrow> ustr \<Rightarrow> ustr \<Rightarrow> ustr \<Rightarrow> book_db \<Rightarrow> book_db \<Rightarrow> bool" where
  "activate_effect bid token buyer pub d d' \<longleftrightarrow> KEY_ID \<notin> set (revoked_keys d)
     \<and> (\<exists>b \<in> set (books d). bk_id b = bid \<and> bk_buyer b = buyer \<and> bk_publisher b = pub
          \<and> bk_token b = token \<and> \<not> bk_closed b
          \<and> (d' = d \<and> bk_active b \<or> d' = db_activate bid d))"

definition redeem_effect :: "redeem_request \<Rightarrow> int \<Rightarrow> ustr \<Rightarrow> book_db \<Rightarrow> pyval \<Rightarrow> book_db \<Rightarrow> bool" where
  "redeem_effect q t rid d v d' \<longleftrightarrow>
     (\<exists>r \<in> set (redemptions d). rd_request r = (rq_buyer q, rq_request_id q)
        \<and> rd_request_hash r = redeem_hash q \<and> loads (rd_receipt r) = Some v \<and> d' = d)
     \<or> (\<exists>b i. let rc = receipt_dict rid q (it_units i) t; r = new_redemption q (it_units i) rc in
          redeemed q d b i t r \<and> v = rc \<and> d' = db_spend r d)"

definition release_effect :: "ustr \<Rightarrow> ustr \<Rightarrow> book_db \<Rightarrow> int \<Rightarrow> book_db \<Rightarrow> bool" where
  "release_effect bid buyer d u d' \<longleftrightarrow> (\<exists>b \<in> set (books d). bk_id b = bid \<and> bk_buyer b = buyer
     \<and> (if bk_closed b then u = 0 \<and> d' = d else u = bk_remaining b \<and> d' = db_release b d))"

lemma issue_spec:
  assumes "book_inv (cn_db s)"
  shows "wp (issue env b p rs m q t)
    (\<lambda>(bid, token) s'. \<exists>r. issue_args b p rs m q t = Inr r \<and> issue_ok r
       \<and> issue_effect env r (cn_db s) bid token (cn_db s'))
    (\<lambda>e s'. integrity_error e \<longrightarrow> be_random env (cn_draws s) \<in> set (map bk_id (books (cn_db s)))) s"
proof (cases "issue_args b p rs m q t")
  case (Inl e)
  then show ?thesis using issue_args_raises [of b p rs m q t] by (simp add: issue_def run_simps raises_only_def)
next
  case (Inr r)
  then have ok: "issue_ok r" by (rule issue_args_ok)
  have "wp (transaction (issue_tx env r))
    (\<lambda>(bid, token) s'. issue_effect env r (cn_db s) bid token (cn_db s'))
    (\<lambda>e s'. integrity_error e \<longrightarrow> be_random env (cn_draws s) \<in> set (map bk_id (books (cn_db s)))) s"
    by (rule wp_saved [OF issue_tx_spec [OF _ ok]])
       (use assms in \<open>simp_all add: issue_effect_def split_beta del: set_map\<close>)
  then show ?thesis by (simp add: issue_def run_simps Inr ok)
qed


lemma activate_spec:
  assumes "book_inv (cn_db s)"
  shows "wp (activate env x t b p)
    (\<lambda>bid s'. \<exists>token buyer pub. activate_args x t b p = Inr (bid, token, buyer, pub)
       \<and> activate_effect bid token buyer pub (cn_db s) (cn_db s'))
    (\<lambda>e s'. \<not> integrity_error e) s"
proof (cases "activate_args x t b p")
  case (Inl e)
  have "raises_only (\<lambda>e. \<not> integrity_error e) (activate_args x t b p)"
    unfolding activate_args_def by (intro raises_intros; simp)
  with Inl show ?thesis by (simp add: activate_def run_simps raises_only_def)
next
  case (Inr r)
  obtain bid token buyer pub where r: "r = (bid, token, buyer, pub)" by (cases r)
  have "wp (transaction (activate_tx env bid token buyer pub))
    (\<lambda>_ s'. activate_effect bid token buyer pub (cn_db s) (cn_db s')) (\<lambda>e s'. \<not> integrity_error e) s"
    by (rule wp_saved [OF activate_tx_spec])
       (use assms in \<open>simp_all add: activate_effect_def\<close>)
  then show ?thesis by (simp add: activate_def run_simps Inr r)
qed

lemma redeem_spec:
  assumes "book_inv (cn_db s)"
  shows "wp (redeem env x r b p c t i)
    (\<lambda>v s'. \<exists>q. redeem_args x r b p c t i = Inr q \<and> redeem_effect q (be_clock env (cn_ticks s)) (be_random env (cn_draws s)) (cn_db s) v (cn_db s'))
    (\<lambda>e s'. \<not> integrity_error e) s"
proof (cases "redeem_args x r b p c t i")
  case (Inl e)
  have "raises_only (\<lambda>e. \<not> integrity_error e) (redeem_args x r b p c t i)"
    unfolding redeem_args_def by (intro raises_intros)
  with Inl show ?thesis by (simp add: redeem_def run_simps raises_only_def)
next
  case (Inr q)
  have "wp (transaction (redeem_tx env q)) (\<lambda>v s'. redeem_effect q (be_clock env (cn_ticks s)) (be_random env (cn_draws s)) (cn_db s) v (cn_db s'))
      (\<lambda>e s'. \<not> integrity_error e) s"
    by (rule wp_saved [OF redeem_tx_spec]) (use assms in \<open>simp_all add: redeem_effect_def Let_def\<close>)
  then show ?thesis by (simp add: redeem_def run_simps Inr)
qed

lemma release_spec:
  assumes "book_inv (cn_db s)"
  shows "wp (release x b)
    (\<lambda>u s'. \<exists>bid buyer. x = PStr bid \<and> b = PStr buyer \<and> release_effect bid buyer (cn_db s) u (cn_db s'))
    (\<lambda>e s'. \<not> integrity_error e) s"
proof (cases "bind_res (check_identifier x) (\<lambda>bid. bind_res (check_identifier b) (\<lambda>u. Inr (bid, u)))")
  case (Inl e)
  have "raises_only (\<lambda>e. \<not> integrity_error e)
      (bind_res (check_identifier x) (\<lambda>bid. bind_res (check_identifier b) (\<lambda>u. Inr (bid, u))))"
    by (intro raises_intros)
  with Inl show ?thesis by (simp add: release_def run_simps raises_only_def)
next
  case (Inr r)
  obtain bid buyer where r: "r = (bid, buyer)" by (cases r)
  have arg: "x = PStr bid" "b = PStr buyer"
    using Inr unfolding r by (auto simp: bind_res_Inr_iff check_identifier_Inr_iff)
  have "wp (transaction (release_tx bid buyer)) (\<lambda>u s'. release_effect bid buyer (cn_db s) u (cn_db s'))
      (\<lambda>e s'. \<not> integrity_error e) s"
    by (rule wp_saved [OF release_tx_spec]) (use assms in \<open>simp_all add: release_effect_def cong: if_cong\<close>)
  then show ?thesis unfolding release_def wp_bind wp_lift Inr r by (simp add: arg)
qed

text \<open>Each effect is a step of the relation, or none.\<close>

lemma issue_effect_steps: "issue_ok q \<Longrightarrow> issue_effect env q d x t d' \<Longrightarrow> clearing_steps env d d'"
  by (auto simp: issue_effect_def intro: clearing_step.booked)

lemma activate_effect_steps: "activate_effect x t b p d d' \<Longrightarrow> clearing_steps env d d'"
  by (auto simp: activate_effect_def intro: clearing_step.admitted)

lemma redeem_effect_steps: "redeem_effect q t rid d v d' \<Longrightarrow> clearing_steps env d d'"
  by (auto simp: redeem_effect_def Let_def intro: clearing_step.spent)

lemma release_effect_steps: "release_effect x b d u d' \<Longrightarrow> clearing_steps env d d'"
  by (auto simp: release_effect_def intro: clearing_step.released split: if_splits)


text \<open>An action refines the relation when, returning, it has made a sequence of its steps.\<close>

definition refines :: "book_env \<Rightarrow> 'a book_act \<Rightarrow> bool" where
  "refines env m \<longleftrightarrow> (\<forall>s. book_inv (cn_db s)
     \<longrightarrow> wp m (\<lambda>_ s'. clearing_steps env (cn_db s) (cn_db s')) (\<lambda>_ _. True) s)"

lemma refinesI:
  assumes "\<And>s. book_inv (cn_db s) \<Longrightarrow> wp m (\<lambda>x s'. P s x s') (E s) s"
    and "\<And>s x s'. P s x s' \<Longrightarrow> clearing_steps env (cn_db s) (cn_db s')"
  shows "refines env m"
  unfolding refines_def by (intro allI impI) (rule wp_mono [OF assms(1)], auto intro: assms(2))

named_theorems refines_intros \<open>introduction rules of \<open>refines\<close>\<close>

lemma refines_basic [refines_intros]:
  "refines env (ret x)" "refines env (query f)" "refines env (lift_res r)"
  by (auto simp: refines_def run_simps split: sum.splits)

lemma refines_bind [refines_intros]:
  assumes "refines env m" and "\<And>x. refines env (f x)"
  shows "refines env (bind_act m f)"
  unfolding refines_def
proof (intro allI impI)
  fix s :: book_conn assume inv: "book_inv (cn_db s)"
  have "wp (f x) (\<lambda>_ s2. clearing_steps env (cn_db s) (cn_db s2)) (\<lambda>_ _. True) s1"
    if s1: "clearing_steps env (cn_db s) (cn_db s1)" for x s1
    using assms(2) [of x, unfolded refines_def, THEN spec, of s1] clearing_steps_inv [OF s1 inv]
    by (auto elim!: wp_mono intro: rtranclp_trans [OF s1])
  then show "wp (bind_act m f) (\<lambda>_ s'. clearing_steps env (cn_db s) (cn_db s')) (\<lambda>_ _. True) s"
    using assms(1) inv by (auto simp: refines_def wp_bind elim!: wp_mono)
qed

lemma refines_transaction [refines_intros]:
  assumes "refines env m" shows "refines env (transaction m)"
  unfolding refines_def
proof (intro allI impI)
  fix s :: book_conn assume inv: "book_inv (cn_db s)"
  show "wp (transaction m) (\<lambda>_ s'. clearing_steps env (cn_db s) (cn_db s')) (\<lambda>_ _. True) s"
    by (rule wp_saved [OF assms [unfolded refines_def, THEN spec, THEN mp]]) (simp_all add: inv)
qed

lemma refines_if [refines_intros]:
  "refines env m \<Longrightarrow> refines env m' \<Longrightarrow> refines env (if b then m else m')"
  by simp

lemma refines_prod [refines_intros]: "(\<And>x y. refines env (f x y)) \<Longrightarrow> refines env (case p of (x, y) \<Rightarrow> f x y)"
  by (cases p) simp

lemma refines_calls [refines_intros]:
  "refines env (issue env b p rs m q t)"
  "refines env (activate env x t b p)"
  "refines env (redeem env x r b p c t q)"
  "refines env (release x b)"
  subgoal by (rule refinesI [OF issue_spec]) (auto intro: issue_effect_steps)
  subgoal by (rule refinesI [OF activate_spec]) (auto intro: activate_effect_steps)
  subgoal by (rule refinesI [OF redeem_spec]) (auto intro: redeem_effect_steps)
  subgoal by (rule refinesI [OF release_spec]) (auto intro: release_effect_steps)
  done

lemma refines_statements [refines_intros]:
  "1 \<le> n \<Longrightarrow> refines env (execute (insert_account \<lparr>ac_buyer = b, ac_initial = n, ac_available = n,
     ac_reserved = 0, ac_redeemed = 0\<rparr>))"
  "1 \<le> of_units x \<Longrightarrow> refines env (bind_act (execute (replace_offer x))
     (\<lambda>_. execute (insert_publisher (of_publisher x))))"
  "refines env revoke_key"
  subgoal by (auto simp: refines_def run_simps insert_account_def check_constraint_def account_ok_def
        intro!: r_into_rtranclp clearing_step.funded)
  subgoal by (auto simp: refines_def run_simps replace_offer_def insert_publisher_def
        intro!: r_into_rtranclp clearing_step.offered)
  subgoal by (auto simp: refines_def revoke_key_def run_simps insert_revoked_def
        intro!: r_into_rtranclp clearing_step.revoked)
  done

lemma refines_lift:
  "(\<And>x. r = Inr x \<Longrightarrow> refines env (f x)) \<Longrightarrow> refines env (bind_act (lift_res r) f)"
  by (cases r) (auto simp: refines_def run_simps)

lemma refines_seed [refines_intros]: "refines env (seed_simulated_balance b u)"
  unfolding seed_simulated_balance_def
  by (intro refines_lift refines_statements) (simp add: check_integer_Inr_iff)

lemma refines_set_offer [refines_intros]: "refines env (set_offer p r c t u v)"
  unfolding set_offer_def
  by (intro refines_lift refines_transaction refines_statements)
     (auto simp: validate_offer_def bind_res_Inr_iff check_integer_Inr_iff)

lemma refines_step: "refines env (book_step env op)"
  by (cases op)
     (simp_all only: book_step.simps act_map_def purchase_def purchase_tx_def audit_def,
      (intro refines_intros)+)

lemma book_step_spec:
  assumes "book_inv (cn_db s)"
  shows "wp (book_step env op) (\<lambda>_ s'. clearing_steps env (cn_db s) (cn_db s'))
    (\<lambda>_ s'. cn_db s' = cn_db s) s"
proof -
  from refines_step [of env op] assms
  have "wp (book_step env op) (\<lambda>_ s'. clearing_steps env (cn_db s) (cn_db s')) (\<lambda>_ _. True) s"
    by (simp add: refines_def)
  from atomic_wp [OF book_step_atomic this] show ?thesis by simp
qed

text \<open>So the service keeps its invariant, and the facts of the locale hold of its histories.\<close>

interpretation clearing: service "book_step env" book_inv for env
proof unfold_locales
  fix s :: book_conn and op e s'
  show "book_step env op s = (Inl e, s') \<Longrightarrow> cn_db s' = cn_db s"
    by (rule atomicD [OF book_step_atomic])
  assume inv: "book_inv (cn_db s)"
  obtain r s' where st: "book_step env op s = (r, s')" by fastforce
  show "book_inv (cn_db (snd (book_step env op s)))"
    using book_step_spec [OF inv, of env op] inv st
    by (cases r) (auto simp: wp_def intro: clearing_steps_inv)
qed

lemma empty_run_inv: "book_inv (cn_db init_conn)"
  by (simp add: init_conn_def empty_book_inv)

section \<open>What is never lost\<close>

definition book_fixed :: "book \<Rightarrow> ustr \<times> ustr \<times> ustr \<times> ustr \<times> ustr \<times> ustr \<times> ustr \<times> int \<times> int" where
  "book_fixed b = (bk_id b, bk_buyer b, bk_publisher b, bk_request_id b, bk_request_hash b,
     bk_payload b, bk_token b, bk_issued b, bk_expires b)"

definition kept :: "('r \<Rightarrow> 'r \<Rightarrow> bool) \<Rightarrow> 'r list \<Rightarrow> 'r list \<Rightarrow> bool" where
  "kept R rows rows' \<longleftrightarrow> (\<forall>x \<in> set rows. \<exists>y \<in> set rows'. R x y)"

definition book_later :: "book \<Rightarrow> book \<Rightarrow> bool" where
  "book_later b b' \<longleftrightarrow> book_fixed b' = book_fixed b \<and> (bk_active b \<longrightarrow> bk_active b') \<and> (bk_closed b \<longrightarrow> bk_closed b')"

definition grows :: "book_db \<Rightarrow> book_db \<Rightarrow> bool" where
  "grows d d' \<longleftrightarrow> kept book_later (books d) (books d')
     \<and> kept (\<lambda>a a'. ac_buyer a' = ac_buyer a \<and> ac_initial a' = ac_initial a) (accounts d) (accounts d')
     \<and> set (redemptions d) \<subseteq> set (redemptions d') \<and> set (items d) \<subseteq> set (items d')
     \<and> set (revoked_keys d) \<subseteq> set (revoked_keys d')
     \<and> (\<forall>b \<in> set (books d). bk_closed b \<longrightarrow>
          (\<forall>r \<in> set (redemptions d'). rd_book r = bk_id b \<longrightarrow> r \<in> set (redemptions d)))
     \<and> (KEY_ID \<in> set (revoked_keys d) \<longrightarrow>
          redemptions d' = redemptions d \<and> map bk_id (books d') = map bk_id (books d))"

lemma kept_refl: "(\<And>x. R x x) \<Longrightarrow> kept R rows rows"
  by (auto simp: kept_def)

lemma kept_trans:
  "kept R xs ys \<Longrightarrow> kept R ys zs \<Longrightarrow> (\<And>x y z. R x y \<Longrightarrow> R y z \<Longrightarrow> R x z) \<Longrightarrow> kept R xs zs"
  unfolding kept_def by meson

lemma kept_update: "(\<And>x. R x x) \<Longrightarrow> (\<And>x. P x \<Longrightarrow> R x (g x)) \<Longrightarrow> kept R rows (update_rows P g rows)"
proof -
  assume R: "\<And>x. R x x" "\<And>x. P x \<Longrightarrow> R x (g x)"
  have "\<exists>y \<in> set (update_rows P g rows). R x y" if "x \<in> set rows" for x
  proof (rule bexI)
    show "R x (if P x then g x else x)" using R by simp
    show "(if P x then g x else x) \<in> set (update_rows P g rows)"
      unfolding set_update_rows using that by blast
  qed
  then show ?thesis by (simp add: kept_def)
qed

lemma kept_append: "kept R rows rows' \<Longrightarrow> kept R rows (rows' @ new)"
  by (fastforce simp: kept_def)

lemma book_later_refl [simp]: "book_later b b"
  by (simp add: book_later_def)

lemma book_later_trans: "book_later x y \<Longrightarrow> book_later y z \<Longrightarrow> book_later x z"
  by (auto simp: book_later_def)

lemma book_later_id: "book_later b b' \<Longrightarrow> bk_id b' = bk_id b"
  by (simp add: book_later_def book_fixed_def)

lemma grows_refl: "grows d d"
  by (auto simp: grows_def intro: kept_refl)

lemma grows_trans:
  assumes "grows x y" and "grows y z"
  shows "grows x z"
proof -
  have "r \<in> set (redemptions x)"
    if b: "b \<in> set (books x)" "bk_closed b" and r: "r \<in> set (redemptions z)" "rd_book r = bk_id b" for b r
  proof -
    from b assms(1) obtain b' where "b' \<in> set (books y)" "bk_closed b'" "bk_id b' = bk_id b"
      unfolding grows_def kept_def by (metis book_later_def book_later_id)
    with r assms(2) have "r \<in> set (redemptions y)" by (auto simp: grows_def)
    with r b assms(1) show ?thesis by (auto simp: grows_def)
  qed
  moreover have "kept book_later (books x) (books z)"
    using assms by (auto simp: grows_def intro: kept_trans book_later_trans)
  moreover have "kept (\<lambda>a a'. ac_buyer a' = ac_buyer a \<and> ac_initial a' = ac_initial a) (accounts x) (accounts z)"
    using assms unfolding grows_def by (elim conjE) (rule kept_trans, assumption+, simp)
  ultimately show ?thesis using assms unfolding grows_def by (simp add: subset_iff)
qed

lemma clearing_step_grows: "clearing_step env d d' \<Longrightarrow> book_inv d \<Longrightarrow> grows d d'"
proof (induction rule: clearing_step.induct)
  case (funded a d)
  then show ?case by (auto simp: grows_def intro!: kept_refl kept_append)
next
  case (offered x d d1 d2)
  then show ?case
    by (auto simp: grows_def replace_offer_def insert_publisher_def intro!: kept_refl split: if_splits)
next
  case (booked q d b its)
  then show ?case
    by (auto simp: grows_def db_issue_def intro!: kept_refl kept_append kept_update)
next
  case (admitted b d bid)
  then show ?case
    by (auto simp: grows_def db_activate_def book_later_def book_fixed_def map_update_rows
        intro!: kept_refl kept_update)
next
  case (spent q d b i t r)
  then have b: "b \<in> set (books d)" "bk_id b = rd_book r" "\<not> bk_closed b" "KEY_ID \<notin> set (revoked_keys d)"
    by (auto simp: redeemed_def redeemable_def)
  have "rd_book r \<noteq> bk_id x" if "x \<in> set (books d)" "bk_closed x" for x
    using find_unique [of bk_id "books d" x b] book_inv_parts(2) [OF spent(2)] b that
    by (auto simp: books_inv_def)
  then have "\<forall>x \<in> set (books d). bk_closed x \<longrightarrow> rd_book r \<noteq> bk_id x" by blast
  with b(4) show ?case
    by (auto simp: grows_def db_spend_def book_later_def book_fixed_def intro!: kept_refl kept_update)
next
  case (released b d)
  then show ?case
    by (auto simp: grows_def db_release_def book_later_def book_fixed_def map_update_rows
        intro!: kept_refl kept_update)
next
  case (revoked d)
  then show ?case by (auto simp: grows_def intro: kept_refl)
qed

lemma clearing_steps_grow: "clearing_steps env d d' \<Longrightarrow> book_inv d \<Longrightarrow> grows d d'"
proof (induction rule: rtranclp_induct)
  case base
  show ?case by (rule grows_refl)
next
  case (step y z)
  with clearing_steps_inv show ?case by (blast intro: grows_trans clearing_step_grows)
qed

lemma book_step_grows:
  assumes "book_inv (cn_db s)" and "book_step env op s = (Inr v, s')"
  shows "grows (cn_db s) (cn_db s')"
  using clearing_steps_grow [OF wp_Inr [OF book_step_spec [OF assms(1)] assms(2)] assms(1)] .

lemma run_grows: "book_inv (cn_db s) \<Longrightarrow> grows (cn_db s) (cn_db (run_ops (book_step env) ops s))"
  by (rule clearing.run_relation [where R = grows])
     (auto intro: grows_refl grows_trans book_step_grows)

end
