(* ===== verification/AccessProgress.thy ===== *)
theory AccessProgress
  imports AccessRuns
begin

text \<open>
  What the clearing service of \<open>AccessBook\<close> guarantees to a caller who does everything right:
  under the documented behaviour of PyJWT and OpenSSL, and with the preconditions written out,
  the book is issued, admitted and redeemed. The bound of 4096 characters on a token is never
  in the way: the claims of a book are short.
\<close>

section \<open>The size of the claims\<close>

lemma length_dec_int: "0 \<le> i \<Longrightarrow> i < 10 ^ Suc k \<Longrightarrow> length (dec_int i) \<le> Suc k"
proof -
  assume i: "0 \<le> i" "i < 10 ^ Suc k"
  then have "nat i < 10 ^ Suc k" by (simp add: nat_less_iff)
  with i(1) length_dec_nat [of "nat i" "Suc k"] show ?thesis by (simp add: dec_int_def)
qed

text \<open>Characters that JSON text keeps as they are.\<close>

definition plain :: "ustr \<Rightarrow> bool" where
  "plain s \<longleftrightarrow> (\<forall>c \<in> set s. 32 \<le> c \<and> c \<le> 126 \<and> c \<noteq> 34 \<and> c \<noteq> 92)"

lemma length_json_str_plain: "plain s \<Longrightarrow> length (json_str s) = length s + 2"
proof -
  assume "plain s"
  then have "concat (map json_escape s) = s"
    by (induction s) (auto simp: plain_def json_escape_def)
  then show ?thesis by (simp add: json_str_def)
qed

lemma plain_identifier: "is_identifier s \<Longrightarrow> plain s"
  by (auto simp: is_identifier_def identifier_char_def plain_def)

lemma length_join_comma_sum: "length (join_comma xs) \<le> sum_list (map (\<lambda>x. Suc (length x)) xs)"
  by (induction xs rule: join_comma.induct) auto

lemma sum_list_sort_key: "sum_list (map w (sort_key f xs)) = (sum_list (map w xs) :: nat)"
  by (metis mset_map mset_sort sum_mset_sum_list)

lemma length_dumps_dict:
  "length (dumps_sorted (PDict kvs))
     \<le> 2 + (\<Sum>p\<leftarrow>kvs. length (json_str (fst p)) + length (json_text (sort_keys (snd p))) + 2)"
proof -
  let ?w = "\<lambda>p. length (json_str (fst p)) + length (json_text (snd p)) + 2"
  let ?kvs = "map (\<lambda>(k, v). (k, sort_keys v)) kvs"
  have "length (dumps_sorted (PDict kvs)) \<le> 2 + sum_list (map ?w (sort_key fst ?kvs))"
    unfolding dumps_sorted_def sort_keys.simps json_text.simps
    using length_join_comma_sum [of "map (\<lambda>(k, v). json_str k @ 58 # json_text v) (sort_key fst ?kvs)"]
    by (simp add: o_def split_beta)
  also have "sum_list (map ?w (sort_key fst ?kvs)) = sum_list (map ?w ?kvs)"
    by (rule sum_list_sort_key)
  also have "\<dots> = (\<Sum>p\<leftarrow>kvs. length (json_str (fst p)) + length (json_text (sort_keys (snd p))) + 2)"
    by (simp add: o_def split_beta)
  finally show ?thesis .
qed

lemma length_fingerprint [simp]: "length (fingerprint v) = 64"
  by (simp add: fingerprint_def sha256_hex_def)

lemma plain_hex: "plain (hex_of_bytes b)"
proof (induction b)
  case (Cons x b)
  have n: "plain [nibble_hex k]" if "k < 16" for k
    using that by (auto simp: plain_def nibble_hex_def)
  have "unat x div 16 < 16" using unat_byte_bound [of x] by simp
  with n [of "unat x div 16"] n [of "unat x mod 16"] Cons show ?case
    by (simp add: plain_def hex_of_bytes_def)
qed (simp add: plain_def hex_of_bytes_def)

lemma plain_fingerprint: "plain (fingerprint v)"
  by (simp add: fingerprint_def sha256_hex_def plain_hex)

lemma plain_lit:
  "list_all (\<lambda>c. 32 \<le> (of_char c :: nat) \<and> of_char c \<le> (126 :: nat) \<and> of_char c \<noteq> (34 :: nat)
     \<and> of_char c \<noteq> (92 :: nat)) s \<Longrightarrow> plain (lit s)"
  by (auto simp: plain_def lit_def list_all_iff)

lemma json_ok_plain: "plain s \<Longrightarrow> json_ok (PStr s)"
  by (auto simp: plain_def scalar_def)

text \<open>What \<open>issue\<close> has checked of its arguments.\<close>

definition request_ok :: "issue_request \<Rightarrow> bool" where
  "request_ok q \<longleftrightarrow> is_identifier (iq_buyer q) \<and> is_identifier (iq_publisher q)
     \<and> is_identifier (iq_request_id q) \<and> 1 \<le> iq_max_units q \<and> iq_max_units q \<le> MAX_UNITS
     \<and> 1 \<le> iq_ttl q \<and> iq_ttl q \<le> MAX_TTL \<and> length (iq_resources q) \<le> MAX_ITEMS"

lemma issue_args_request_ok:
  assumes "issue_args b p rs m q t = Inr r"
  shows "request_ok r"
proof -
  from assms obtain xs names where r: "is_identifier (iq_buyer r)" "is_identifier (iq_publisher r)"
    "is_identifier (iq_request_id r)" "1 \<le> iq_max_units r" "iq_max_units r \<le> MAX_UNITS"
    "1 \<le> iq_ttl r" "iq_ttl r \<le> MAX_TTL" "length xs \<le> MAX_ITEMS"
    "map_res check_identifier xs = Inr names" "iq_resources r = sort names"
    unfolding issue_args_def
    by (elim bind_res_Inr_E) (cases rs; auto simp: check_identifier_Inr_iff check_integer_Inr_iff split: if_splits)
  then have "length (iq_resources r) \<le> MAX_ITEMS" using map_res_length [of _ xs names] by simp
  with r show ?thesis by (simp add: request_ok_def)
qed

text \<open>The expiry lies between the time of issue and the requested end.\<close>

lemma foldl_min_le: "foldl min (x :: int) ys \<le> x"
  by (induction ys arbitrary: x) (simp_all, meson min.bounded_iff order_refl)

lemma foldl_min_greater: "t < (x :: int) \<Longrightarrow> (\<forall>y \<in> set ys. t < y) \<Longrightarrow> t < foldl min x ys"
  by (induction ys arbitrary: x) simp_all

lemma book_expires_bounds:
  assumes "live_offers d t p rs = Inr offs" and "1 \<le> iq_ttl q"
  shows "t < book_expires q t offs" and "book_expires q t offs \<le> t + iq_ttl q"
  using live_offers_Inr [OF assms(1)] assms(2) foldl_min_le
  by (auto simp: book_expires_def intro!: foldl_min_greater)

lemma claims_short:
  assumes "plain (iq_buyer q)" "length (iq_buyer q) \<le> 128" "plain (iq_publisher q)" "length (iq_publisher q) \<le> 128"
    and "plain bid" "length bid \<le> 128" and "0 \<le> t" "t < 10 ^ 13" "0 \<le> e" "e < 10 ^ 13"
    and "length offs \<le> 256" and "0 \<le> sum_list (map of_units offs)" "sum_list (map of_units offs) < 10 ^ 13"
  shows "length (dumps_sorted (book_claims bid (iq_buyer q) (iq_publisher q) t e offs)) \<le> 1024"
proof -
  have i: "length (dec_int i) \<le> 13" if "0 \<le> i" "i < 10 ^ 13" for i
    using length_dec_int [of i 12] that by simp
  have n: "length (dec_int (int (length offs))) \<le> 13" using assms(11) by (intro i) simp_all
  show ?thesis
    unfolding book_claims_def
    by (rule order_trans [OF length_dumps_dict])
       (use i [OF assms(7,8)] i [OF assms(9,10)] i [OF assms(12,13)] n assms(2,4,6)
        in \<open>simp add: length_json_str_plain plain_lit assms(1,3,5) plain_fingerprint ISSUER_def BOOK_PROFILE_def\<close>)
qed

section \<open>Tokens of the authority\<close>

text \<open>The configured public key belongs to the signing key.\<close>

definition honest :: "book_env \<Rightarrow> bool" where
  "honest env \<longleftrightarrow> ecdsa_law (be_ossl env) \<and> 1 \<le> be_private env \<and> be_private env < ORDER
     \<and> be_public env = ec_public (be_ossl env) (be_private env)"

text \<open>
  PyJWT: a compact token whose ES256 signature verifies and whose claims are a dictionary with
  the configured issuer and audience and with the required claims, of their types, decodes to
  those claims; the unverified header is the header that was signed.
\<close>

definition jwt_law :: "book_env \<Rightarrow> bool" where
  "jwt_law env \<longleftrightarrow> (\<forall>p g kvs aud.
     verify_p256 (be_ossl env) (PBytes (be_public env))
       (PBytes (sha256 (ascii_encode (signing_input KEY_ID p)))) (PBytes g)
     \<longrightarrow> loads (ascii_decode p) = Some (PDict kvs)
     \<longrightarrow> map_of kvs (lit ''iss'') = Some (PStr ISSUER) \<longrightarrow> map_of kvs (lit ''aud'') = Some (PStr aud)
     \<longrightarrow> (\<exists>x. map_of kvs (lit ''sub'') = Some (PStr x)) \<longrightarrow> (\<exists>x. map_of kvs (lit ''jti'') = Some (PStr x))
     \<longrightarrow> (\<exists>n. map_of kvs (lit ''iat'') = Some (PInt n)) \<longrightarrow> (\<exists>n. map_of kvs (lit ''exp'') = Some (PInt n))
     \<longrightarrow> be_jwt_decode env (be_public env) (compact_token KEY_ID p g) (PStr aud) = Some (PDict kvs))
   \<and> (\<forall>p g. be_jwt_header env (compact_token KEY_ID p g) = Some (jws_header KEY_ID))"

lemma authority_contract:
  assumes "honest env"
  shows "digest_signer (authority_signer env)
    (\<lambda>h g. verify_p256 (be_ossl env) (PBytes (be_public env)) (PBytes h) (PBytes g))"
proof unfold_locales
  fix hs out
  assume out: "authority_signer env hs = Inr out" and hs: "\<forall>h \<in> set hs. length h = 32"
  let ?g = "\<lambda>h. raw_signature (ecdsa_sign (be_ossl env) (be_private env) h)"
  have "valid_low_s (?g h) \<and> verify_p256 (be_ossl env) (PBytes (be_public env)) (PBytes h) (PBytes (?g h))"
    if "h \<in> set hs" for h
    using verify_raw_signature assms hs that by (simp add: honest_def)
  then show "\<exists>gs. out = Items (map PBytes gs) \<and> list_all2 (\<lambda>h g. valid_low_s g \<and>
      verify_p256 (be_ossl env) (PBytes (be_public env)) (PBytes h) (PBytes g)) hs gs"
    using out by (intro exI [of _ "map ?g hs"])
      (auto simp: authority_signer_def list_all2_map2 intro: list.rel_refl_strong)
qed

lemma key_id_ok: "key_label_ok KEY_ID"
  by (simp add: key_label_ok_def KEY_ID_def lit_def isascii_def isprintable_ascii_def)

lemma authority_token:
  assumes "honest env" and "length p \<le> 1024"
  obtains g where "sign_es256 (Items [PBytes p]) (PStr KEY_ID) (authority_signer env) = Inr [compact_token KEY_ID p g]"
    and "valid_low_s g"
    and "verify_p256 (be_ossl env) (PBytes (be_public env))
      (PBytes (sha256 (ascii_encode (signing_input KEY_ID p)))) (PBytes g)"
proof -
  have m: "py_messages (Items (map PBytes [p])) = Inr [p]"
    using assms(2) by (simp add: py_messages_Inr_iff MAX_BATCH_def MAX_PAYLOAD_def MAX_WORK_def)
  from digest_signer.signer_answer_accepted [OF authority_contract [OF assms(1)] key_id_ok m]
  obtain tokens where t: "sign_es256 (Items (map PBytes [p])) (PStr KEY_ID) (authority_signer env) = Inr tokens"
    by (auto simp: authority_signer_def)
  from digest_signer.one_token_genuine [OF authority_contract [OF assms(1)] t] t that show ?thesis
    by auto
qed

text \<open>The token of a book passes the check of the authority until the book expires.\<close>

lemma token_accepted:
  assumes laws: "honest env" "jwt_law env"
    and plain: "plain (iq_buyer q)" "plain (iq_publisher q)" "plain bid"
    and short: "length (book_payload q bid t offs) \<le> 1024"
    and g: "verify_p256 (be_ossl env) (PBytes (be_public env))
      (PBytes (sha256 (ascii_encode (signing_input KEY_ID (ascii_encode (book_payload q bid t offs)))))) (PBytes g)"
      "valid_low_s g"
    and t: "t \<le> n" "n < book_expires q t offs"
  shows "\<exists>v. loads (book_payload q bid t offs) = Some v
    \<and> authority_check env (PStr (compact_token KEY_ID (ascii_encode (book_payload q bid t offs)) g)) v n = Inr ()"
    and "length (compact_token KEY_ID (ascii_encode (book_payload q bid t offs)) g) \<le> 4096"
proof -
  let ?p = "ascii_encode (book_payload q bid t offs)" and ?e = "book_expires q t offs"
  let ?c = "book_claims bid (iq_buyer q) (iq_publisher q) t ?e offs"
  obtain kvs where c: "?c = PDict kvs" by (simp add: book_claims_def)
  have ok: "json_ok ?c"
    using json_ok_plain [OF plain(1)] json_ok_plain [OF plain(2)] json_ok_plain [OF plain(3)]
      json_ok_plain [OF plain_fingerprint]
    by (simp add: book_claims_def ISSUER_def BOOK_PROFILE_def lit_def scalar_def)
  then have "distinct (map fst kvs)" by (simp add: c)
  define kvs' where "kvs' = sort_key fst (map (\<lambda>(k, v). (k, sort_keys v)) kvs)"
  have v: "sort_keys ?c = PDict kvs'" by (simp add: c kvs'_def)
  have dis: "distinct (map fst (map (\<lambda>(k, v). (k, sort_keys v)) kvs))"
    using \<open>distinct (map fst kvs)\<close> by (simp only: map_fst_sort_keys)
  have get: "map_of kvs' k = map_of (map (\<lambda>(k, v). (k, sort_keys v)) kvs) k" for k
    unfolding kvs'_def by (simp only: map_of_sort_key [OF dis])
  have fields: "map_of kvs' (lit ''iss'') = Some (PStr ISSUER)" "map_of kvs' (lit ''aud'') = Some (PStr (iq_publisher q))"
    "map_of kvs' (lit ''sub'') = Some (PStr (iq_buyer q))" "map_of kvs' (lit ''jti'') = Some (PStr bid)"
    "map_of kvs' (lit ''iat'') = Some (PInt t)" "map_of kvs' (lit ''exp'') = Some (PInt ?e)"
    unfolding get using c by (auto simp: book_claims_def)
  have ascii: "isascii (book_payload q bid t offs)"
    using isascii_json_text [OF json_ok_sort_keys [OF ok]] by (simp add: book_payload_def dumps_sorted_def)
  have l: "loads (book_payload q bid t offs) = Some (PDict kvs')"
    using loads_dumps [OF ok] by (simp only: book_payload_def v)
  then have dec: "be_jwt_decode env (be_public env) (compact_token KEY_ID ?p g) (PStr (iq_publisher q)) = Some (PDict kvs')"
    and head: "be_jwt_header env (compact_token KEY_ID ?p g) = Some (jws_header KEY_ID)"
    using laws(2) g(1) fields ascii unfolding jwt_law_def by (simp_all add: ascii_decode_encode)
  show len: "length (compact_token KEY_ID ?p g) \<le> 4096"
    using short g(2)
    by (simp add: length_compact_token valid_low_s_def ascii_encode_def jws_header_def KEY_ID_def
        length_json_str_plain plain_lit lit_def plain_def)
  have "check_claims env (compact_token KEY_ID ?p g) (PDict kvs') n = Inr ()"
    using dec head t by (simp add: check_claims_def check_window_def py_get_def fields same_dict_def jws_header_def)
  with len l show "\<exists>v. loads (book_payload q bid t offs) = Some v
    \<and> authority_check env (PStr (compact_token KEY_ID ?p g)) v n = Inr ()"
    by (simp add: authority_check_def)
qed

section \<open>Admissible calls succeed\<close>

lemma book_row_known:
  assumes "book_inv d" and "b \<in> set (books d)"
  shows "book_row (bk_id b) (bk_buyer b) (bk_publisher b) d = Some b"
  unfolding book_row_def using book_inv_parts(2) [OF assms(1)] assms(2) find_unique [of bk_id "books d"]
  by (cases "find (\<lambda>x. bk_id x = bk_id b \<and> bk_buyer x = bk_buyer b \<and> bk_publisher x = bk_publisher b) (books d)")
     (auto simp: find_map_None books_inv_def dest!: find_Some_iff)

lemma activate_ok:
  assumes inv: "book_inv (cn_db s)" and b: "b \<in> set (books (cn_db s))" "\<not> bk_closed b" "\<not> bk_active b"
    and key: "KEY_ID \<notin> set (revoked_keys (cn_db s))"
    and ids: "is_identifier (bk_id b)" "is_identifier (bk_buyer b)" "is_identifier (bk_publisher b)"
    and token: "length (bk_token b) \<le> 4096" "loads (bk_payload b) = Some v"
      "authority_check env (PStr (bk_token b)) v (be_clock env (Suc (cn_ticks s))) = Inr ()"
    and clock: "\<And>k. k \<in> {cn_ticks s, Suc (cn_ticks s)} \<Longrightarrow>
      1 \<le> be_clock env k \<and> be_clock env k \<le> MAX_UNITS \<and> bk_issued b \<le> be_clock env k \<and> be_clock env k < bk_expires b"
  shows "wp (activate env (PStr (bk_id b)) (PStr (bk_token b)) (PStr (bk_buyer b)) (PStr (bk_publisher b)))
    (\<lambda>x s'. x = bk_id b \<and> cn_db s' = db_activate (bk_id b) (cn_db s) \<and> cn_ticks s' = cn_ticks s + 2
       \<and> cn_draws s' = cn_draws s) (\<lambda>_ _. False) s"
proof -
  have args: "activate_args (PStr (bk_id b)) (PStr (bk_token b)) (PStr (bk_buyer b)) (PStr (bk_publisher b))
      = Inr (bk_id b, bk_token b, bk_buyer b, bk_publisher b)"
    using ids token(1) by (simp add: activate_args_def check_identifier_def)
  have row: "book_row (bk_id b) (bk_buyer b) (bk_publisher b) (cn_db s) = Some b"
    by (rule book_row_known [OF inv b(1)])
  have nn: "\<forall>x \<in> set (books (cn_db s)). bk_id x = bk_id b \<longrightarrow> 0 \<le> bk_remaining x"
    using remaining_nonneg [OF inv] by blast
  show ?thesis
    using clock [of "cn_ticks s"] clock [of "Suc (cn_ticks s)"] b key token nn
    by (simp add: activate_def args run_simps activate_tx_def row json_payload_def update_books_def db_activate_def)
qed

lemma redeem_ok:
  assumes inv: "book_inv (cn_db s)" and b: "b \<in> set (books (cn_db s))" "\<not> bk_closed b" "bk_active b"
    and i: "i \<in> set (items (cn_db s))" "it_book i = bk_id b"
    and fresh: "item_key i \<notin> set (map rd_key (redemptions (cn_db s)))"
      "(bk_buyer b, rid) \<notin> set (map rd_request (redemptions (cn_db s)))"
    and key: "KEY_ID \<notin> set (revoked_keys (cn_db s))"
    and ids: "is_identifier (bk_id b)" "is_identifier (bk_buyer b)" "is_identifier (bk_publisher b)"
      "is_identifier (it_resource i)" "is_identifier rid" "is_commitment (it_content i)" "is_commitment (it_terms i)"
    and clock: "1 \<le> be_clock env (cn_ticks s)" "be_clock env (cn_ticks s) \<le> MAX_UNITS"
      "bk_issued b \<le> be_clock env (cn_ticks s)" "be_clock env (cn_ticks s) < bk_expires b"
  shows "wp (redeem env (PStr (bk_id b)) (PStr (it_resource i)) (PStr (bk_buyer b)) (PStr (bk_publisher b))
      (PStr (it_content i)) (PStr (it_terms i)) (PStr rid))
    (\<lambda>x s'. \<exists>q r. x = receipt_dict (be_random env (cn_draws s)) q (it_units i) (be_clock env (cn_ticks s))
       \<and> r = new_redemption q (it_units i) x
       \<and> q = \<lparr>rq_book = bk_id b, rq_resource = it_resource i, rq_buyer = bk_buyer b, rq_publisher = bk_publisher b,
           rq_content = it_content i, rq_terms = it_terms i, rq_request_id = rid\<rparr>
       \<and> redeemable (cn_db s) b i r \<and> cn_db s' = db_spend r (cn_db s)) (\<lambda>_ _. False) s"
  (is "wp _ ?Q _ s")
proof -
  let ?d = "cn_db s" and ?t = "be_clock env (cn_ticks s)"
  let ?q = "\<lparr>rq_book = bk_id b, rq_resource = it_resource i, rq_buyer = bk_buyer b, rq_publisher = bk_publisher b,
           rq_content = it_content i, rq_terms = it_terms i, rq_request_id = rid\<rparr>"
  let ?rc = "receipt_dict (be_random env (cn_draws s)) ?q (it_units i) ?t"
  let ?r = "new_redemption ?q (it_units i) ?rc"
  have args: "redeem_args (PStr (bk_id b)) (PStr (it_resource i)) (PStr (bk_buyer b)) (PStr (bk_publisher b))
      (PStr (it_content i)) (PStr (it_terms i)) (PStr rid) = Inr ?q"
    using ids by (simp add: redeem_args_def check_identifier_def check_commitment_def)
  have row: "book_row (bk_id b) (bk_buyer b) (bk_publisher b) ?d = Some b"
    by (rule book_row_known [OF inv b(1)])
  have itm: "find_item ?d (bk_id b) (it_resource i) = Some i"
    unfolding find_item_def using book_inv_parts(3) [OF inv] i
    by (intro find_by_key [of item_key]) (auto simp: items_inv_def item_key_def)
  have prior: "find (\<lambda>r. rd_request r = (bk_buyer b, rid)) (redemptions ?d) = None"
    using fresh(2) unfolding find_map_None by (metis image_eqI list.set_map)
  have rd: "redeemable ?d b i ?r"
    using b i fresh by (auto simp: redeemable_def new_redemption_def rd_key_def rd_request_def item_key_def)
  have spend: "wp (spend_units ?q (it_units i) ?rc) (\<lambda>_ s''. cn_db s'' = db_spend ?r ?d) (\<lambda>_ _. False) s'"
    if "cn_db s' = ?d" for s'
    using spend_units_spec [of s' b i ?q "it_units i" ?rc] inv rd by (simp add: that)
  have key': "(bk_id b, it_resource i) \<notin> set (map rd_key (redemptions ?d))"
    using fresh(1) i(2) by (simp add: item_key_def)
  have "wp (redeem_tx env ?q) (\<lambda>x s'. x = ?rc \<and> cn_db s' = db_spend ?r ?d) (\<lambda>_ _. False)
      (s\<lparr>cn_saved := x\<rparr>)" for x
    using prior row itm key key' clock b
    by (simp add: redeem_tx_def redeem_new_def run_simps Let_def del: set_map)
       (rule wp_mono [OF spend], simp_all add: run_simps)
  then show ?thesis
    unfolding redeem_def wp_bind wp_lift args sum.case
    by (rule wp_saved) (use rd in auto)
qed

lemma issue_ready:
  assumes inv: "book_inv (cn_db s)" and laws: "honest env"
    and args: "issue_args b p rs m i l = Inr q"
    and clock: "1 \<le> be_clock env (cn_ticks s)" "be_clock env (cn_ticks s) \<le> MAX_UNITS"
    and bid: "is_identifier (be_random env (cn_draws s))"
      "be_random env (cn_draws s) \<notin> set (map bk_id (books (cn_db s)))"
    and offs: "live_offers (cn_db s) (be_clock env (cn_ticks s)) (iq_publisher q) (iq_resources q) = Inr offs"
      "sum_list (map of_units offs) \<le> iq_max_units q"
    and a: "a \<in> set (accounts (cn_db s))" "ac_buyer a = iq_buyer q" "sum_list (map of_units offs) \<le> ac_available a"
  shows "issuable env q (be_clock env (cn_ticks s)) (be_random env (cn_draws s)) (cn_db s)"
    and "length (book_payload q (be_random env (cn_draws s)) (be_clock env (cn_ticks s)) offs) \<le> 1024"
proof -
  let ?t = "be_clock env (cn_ticks s)" and ?bid = "be_random env (cn_draws s)"
  note q = issue_args_request_ok [OF args, unfolded request_ok_def]
  note O = live_offers_Inr [OF offs(1)] and E = book_expires_bounds [OF offs(1), of q]
  have "length offs \<le> 256" using q O(1) by (metis MAX_ITEMS_def length_map)
  moreover have "0 \<le> sum_list (map of_units offs)"
    using O(2) book_inv_parts(5) [OF inv] by (intro sum_list_nonneg_int) (force simp: offers_inv_def)
  moreover have "sum_list (map of_units offs) < 10 ^ 13"
    using offs(2) q by (simp add: MAX_UNITS_def)
  ultimately show short: "length (book_payload q ?bid ?t offs) \<le> 1024"
    unfolding book_payload_def using q clock E bid(1)
    by (intro claims_short) (auto simp: is_identifier_def plain_identifier MAX_UNITS_def MAX_TTL_def)
  then have "length (ascii_encode (book_payload q ?bid ?t offs)) \<le> 1024" by (simp add: ascii_encode_def)
  from authority_token [OF laws this] obtain g where
    "sign_es256 (Items [PBytes (ascii_encode (book_payload q ?bid ?t offs))]) (PStr KEY_ID) (authority_signer env)
      = Inr [compact_token KEY_ID (ascii_encode (book_payload q ?bid ?t offs)) g]" .
  with clock bid offs a show "issuable env q ?t ?bid (cn_db s)" unfolding issuable_def by blast
qed

text \<open>A book is issued to a buyer who can pay for live offers within the budget.\<close>

lemma issue_ok_wp:
  assumes inv: "book_inv (cn_db s)" and laws: "honest env" and args: "issue_args b p rs m i l = Inr q"
    and fresh: "\<forall>x \<in> set (books (cn_db s)). \<not> (bk_buyer x = iq_buyer q \<and> bk_request_id x = iq_request_id q)"
    and key: "KEY_ID \<notin> set (revoked_keys (cn_db s))"
    and ready: "issuable env q (be_clock env (cn_ticks s)) (be_random env (cn_draws s)) (cn_db s)"
  shows "wp (issue env b p rs m i l) (\<lambda>(bid, token) s'. \<exists>x its. issued env q (cn_db s) x its
      \<and> bid = bk_id x \<and> token = bk_token x \<and> cn_db s' = db_issue x its (cn_db s)
      \<and> bid = be_random env (cn_draws s) \<and> bk_issued x = be_clock env (cn_ticks s)
      \<and> cn_ticks s' = Suc (cn_ticks s)) (\<lambda>_ _. False) s"
proof -
  have none: "find (\<lambda>x. bk_buyer x = iq_buyer q \<and> bk_request_id x = iq_request_id q) (books (cn_db s)) = None"
    using fresh by (auto simp: find_map_None)
  have "wp (issue_tx env q) (\<lambda>(bid, token) s'. \<exists>x its. issued env q (cn_db s) x its
      \<and> bid = bk_id x \<and> token = bk_token x \<and> cn_db s' = db_issue x its (cn_db s)
      \<and> bid = be_random env (cn_draws s) \<and> bk_issued x = be_clock env (cn_ticks s)
      \<and> cn_ticks s' = Suc (cn_ticks s)) (\<lambda>_ _. False) (s\<lparr>cn_saved := y\<rparr>)" for y
    using issue_new_spec [of "s\<lparr>cn_saved := y\<rparr>" q env] inv issue_args_ok [OF args] fresh key none ready
    by (simp add: issue_tx_def run_simps del: set_map)
  then show ?thesis
    unfolding issue_def wp_bind wp_lift args sum.case by (rule wp_saved) (auto, metis)
qed

section \<open>A purchase\<close>

text \<open>
  The conditions under which a purchase must go through: a valid request that has not been used,
  a live offer within the budget and the balance, a live key, an unused random identifier, and
  four readings of the clock before the expiry.
\<close>

definition purchasable ::
    "book_env \<Rightarrow> book_conn \<Rightarrow> offer \<Rightarrow> account \<Rightarrow> int \<Rightarrow> ustr \<Rightarrow> bool" where
  "purchasable env s x a budget rid \<longleftrightarrow>
     x \<in> set (offers (cn_db s)) \<and> a \<in> set (accounts (cn_db s))
     \<and> of_units x \<le> ac_available a \<and> of_units x \<le> budget \<and> 1 \<le> budget \<and> budget \<le> MAX_UNITS
     \<and> is_identifier (ac_buyer a) \<and> is_identifier (of_publisher x) \<and> is_identifier (of_resource x)
     \<and> is_identifier rid \<and> is_commitment (of_content x) \<and> is_commitment (of_terms x)
     \<and> KEY_ID \<notin> set (revoked_keys (cn_db s))
     \<and> (\<forall>b \<in> set (books (cn_db s)). (bk_buyer b, bk_request_id b) \<noteq> (ac_buyer a, rid))
     \<and> (\<forall>r \<in> set (redemptions (cn_db s)). rd_request r \<noteq> (ac_buyer a, rid))
     \<and> is_identifier (be_random env (cn_draws s))
     \<and> be_random env (cn_draws s) \<notin> set (map bk_id (books (cn_db s)))
     \<and> (\<forall>k \<in> {0..3}. let t = be_clock env (cn_ticks s); n = be_clock env (cn_ticks s + k)
          in 1 \<le> t \<and> t \<le> n \<and> n \<le> MAX_UNITS \<and> n < t + MAX_TTL \<and> n < of_valid_until x)"

lemma purchase_ok:
  assumes inv: "book_inv (cn_db s)" and laws: "honest env" "jwt_law env"
    and ok: "purchasable env s x a budget rid"
  shows "wp (purchase env (PStr (of_resource x)) (PStr (ac_buyer a)) (PStr (of_publisher x))
      (PStr (of_content x)) (PStr (of_terms x)) (PInt budget) (PStr rid))
    (\<lambda>(bid, token, rc) s'. bid = be_random env (cn_draws s)
       \<and> (\<exists>b its r. bk_buyer b = ac_buyer a \<and> bk_remaining b = of_units x \<and> bk_id b = bid
            \<and> rd_buyer r = ac_buyer a \<and> rd_publisher r = of_publisher x \<and> rd_units r = of_units x
            \<and> rd_request r = (ac_buyer a, rid) \<and> rd_key r = (bid, of_resource x) \<and> rd_receipt r = dumps_sorted rc
            \<and> rd_request_hash r = redeem_hash \<lparr>rq_book = bid, rq_resource = of_resource x, rq_buyer = ac_buyer a,
                rq_publisher = of_publisher x, rq_content = of_content x, rq_terms = of_terms x, rq_request_id = rid\<rparr>
            \<and> (\<exists>y. rc = receipt_dict y \<lparr>rq_book = bid, rq_resource = of_resource x, rq_buyer = ac_buyer a,
                rq_publisher = of_publisher x, rq_content = of_content x, rq_terms = of_terms x, rq_request_id = rid\<rparr>
                (of_units x) (be_clock env (cn_ticks s + 3)) \<and> (\<exists>n. y = be_random env n))
            \<and> py_get rc (lit ''units'') = Inr (PInt (of_units x))
            \<and> cn_db s' = db_spend r (db_activate bid (db_issue b its (cn_db s))))) (\<lambda>_ _. False) s"
  (is "wp _ ?R _ s")
proof -
  let ?d = "cn_db s" and ?t = "be_clock env (cn_ticks s)" and ?bid = "be_random env (cn_draws s)"
  note ok = ok [unfolded purchasable_def]
  have tick: "1 \<le> ?t \<and> ?t \<le> be_clock env (cn_ticks s + k) \<and> be_clock env (cn_ticks s + k) \<le> MAX_UNITS
      \<and> be_clock env (cn_ticks s + k) < ?t + MAX_TTL \<and> be_clock env (cn_ticks s + k) < of_valid_until x"
    if "k \<le> 3" for k using ok that by (simp add: Let_def)
  let ?q = "\<lparr>iq_buyer = ac_buyer a, iq_publisher = of_publisher x, iq_resources = [of_resource x],
    iq_max_units = budget, iq_request_id = rid, iq_ttl = MAX_TTL\<rparr>"
  have args: "issue_args (PStr (ac_buyer a)) (PStr (of_publisher x)) (PList [PStr (of_resource x)]) (PInt budget)
      (PStr rid) (PInt MAX_TTL) = Inr ?q"
    using ok by (simp add: issue_args_def check_identifier_def check_integer_def MAX_ITEMS_def MAX_TTL_def)
  have "find_offer ?d (of_publisher x) (of_resource x) = Some x"
    unfolding find_offer_def using book_inv_parts(5) [OF inv] ok
    by (intro find_by_key [of "\<lambda>x. (of_publisher x, of_resource x)"]) (auto simp: offers_inv_def)
  then have offs: "live_offers ?d ?t (of_publisher x) [of_resource x] = Inr [x]"
    using tick [of 0] by (simp add: live_offers_def)
  have E: "book_expires ?q ?t [x] = min (?t + MAX_TTL) (of_valid_until x)" by (simp add: book_expires_def)
  have ready: "issuable env ?q ?t ?bid ?d" "length (book_payload ?q ?bid ?t [x]) \<le> 1024"
    using issue_ready [OF inv laws(1) args, of "[x]" a] tick [of 0] ok offs by simp_all
  have plain: "plain (ac_buyer a)" "plain (of_publisher x)" "plain ?bid"
    using ok by (simp_all add: plain_identifier)
  have acts: "wp (bind_act (activate env (PStr bid) (PStr token) (PStr (ac_buyer a)) (PStr (of_publisher x))) (\<lambda>_.
        bind_act (redeem env (PStr bid) (PStr (of_resource x)) (PStr (ac_buyer a)) (PStr (of_publisher x))
          (PStr (of_content x)) (PStr (of_terms x)) (PStr rid)) (\<lambda>rc. ret (bid, token, rc))))
      ?R (\<lambda>_ _. False) s1"
    if new: "issued env ?q ?d b its" and bid: "bid = bk_id b" "bid = ?bid" and token: "token = bk_token b"
      and db: "cn_db s1 = db_issue b its ?d" and issued: "bk_issued b = ?t"
      and ticks: "cn_ticks s1 = Suc (cn_ticks s)" for bid token s1 b its
  proof -
    from new issued bid offs obtain tokens where b: "b = new_book ?q ?bid ?t [x] (hd tokens)"
      and its: "its = new_items ?bid [x]"
      and sign: "sign_es256 (Items (map PBytes [ascii_encode (book_payload ?q ?bid ?t [x])])) (PStr KEY_ID)
          (authority_signer env) = Inr tokens"
      by (auto simp: issued_def new_book_def)
    from digest_signer.one_token_genuine [OF authority_contract [OF laws(1)] sign] obtain g where
      g: "tokens = [compact_token KEY_ID (ascii_encode (book_payload ?q ?bid ?t [x])) g]" "valid_low_s g"
        "verify_p256 (be_ossl env) (PBytes (be_public env)) (PBytes (sha256 (ascii_encode
          (signing_input KEY_ID (ascii_encode (book_payload ?q ?bid ?t [x])))))) (PBytes g)" .
    have tok: "bk_token b = compact_token KEY_ID (ascii_encode (book_payload ?q ?bid ?t [x])) g"
      by (simp add: b g(1) new_book_def)
    have fields: "bk_id b = ?bid" "bk_buyer b = ac_buyer a" "bk_publisher b = of_publisher x"
      "bk_expires b = min (?t + MAX_TTL) (of_valid_until x)" "\<not> bk_closed b" "\<not> bk_active b"
      "bk_payload b = book_payload ?q ?bid ?t [x]" "bk_remaining b = of_units x"
      by (simp_all add: b new_book_def E)
    let ?i = "\<lparr>it_book = ?bid, it_resource = of_resource x, it_content = of_content x, it_terms = of_terms x,
      it_units = of_units x\<rparr>"
    have i: "its = [?i]" by (simp add: its new_items_def)
    have inv1: "book_inv (cn_db s1)"
      unfolding db by (rule issued_inv [OF inv issue_args_ok [OF args] new])
    have d1: "b \<in> set (books (cn_db s1))" "?i \<in> set (items (cn_db s1))"
      "revoked_keys (cn_db s1) = revoked_keys ?d" "redemptions (cn_db s1) = redemptions ?d"
      by (simp_all add: db db_issue_def i)
    have in_time: "1 \<le> be_clock env (cn_ticks s + k) \<and> be_clock env (cn_ticks s + k) \<le> MAX_UNITS
        \<and> ?t \<le> be_clock env (cn_ticks s + k) \<and> be_clock env (cn_ticks s + k) < bk_expires b" if "k \<le> 3" for k
      using tick [OF that] by (simp add: fields)
    have "?t \<le> be_clock env (Suc (cn_ticks s1))" "be_clock env (Suc (cn_ticks s1)) < book_expires ?q ?t [x]"
      using in_time [of 2] by (simp_all add: ticks E fields)
    from token_accepted [OF laws _ _ plain(3) ready(2) g(3,2) this] plain(1,2) obtain v where
      v: "loads (bk_payload b) = Some v"
        "authority_check env (PStr (bk_token b)) v (be_clock env (Suc (cn_ticks s1))) = Inr ()"
        "length (bk_token b) \<le> 4096" by (auto simp: fields tok)
    have ids: "is_identifier (bk_id b)" "is_identifier (bk_buyer b)" "is_identifier (bk_publisher b)"
      using ok by (simp_all add: fields)
    have act: "wp (activate env (PStr (bk_id b)) (PStr (bk_token b)) (PStr (bk_buyer b)) (PStr (bk_publisher b)))
      (\<lambda>y s'. y = bk_id b \<and> cn_db s' = db_activate (bk_id b) (cn_db s1) \<and> cn_ticks s' = cn_ticks s1 + 2
         \<and> cn_draws s' = cn_draws s1) (\<lambda>_ _. False) s1"
    proof (rule activate_ok [OF inv1 d1(1) fields(5,6) _ ids v(3,1,2)])
      show "KEY_ID \<notin> set (revoked_keys (cn_db s1))" using ok d1(3) by simp
      fix k assume "k \<in> {cn_ticks s1, Suc (cn_ticks s1)}"
      then show "1 \<le> be_clock env k \<and> be_clock env k \<le> MAX_UNITS \<and> bk_issued b \<le> be_clock env k
          \<and> be_clock env k < bk_expires b"
        using in_time [of 1] in_time [of 2] by (auto simp: ticks issued)
    qed
    have red: "wp (redeem env (PStr ?bid) (PStr (of_resource x)) (PStr (ac_buyer a)) (PStr (of_publisher x))
          (PStr (of_content x)) (PStr (of_terms x)) (PStr rid)) (\<lambda>rc. ?R (?bid, token, rc)) (\<lambda>_ _. False) s2"
      if db2: "cn_db s2 = db_activate ?bid (cn_db s1)" and ticks2: "cn_ticks s2 = cn_ticks s1 + 2" for s2
    proof -
      let ?b = "b\<lparr>bk_active := True\<rparr>"
      have inv2: "book_inv (cn_db s2)" unfolding db2 by (rule activate_inv [OF inv1])
      have b2: "?b \<in> set (books (cn_db s2))"
        unfolding db2 db_activate_def using d1(1) fields(1) by (auto simp: set_update_rows)
      have rest: "items (cn_db s2) = items (cn_db s1)" "redemptions (cn_db s2) = redemptions ?d"
        "revoked_keys (cn_db s2) = revoked_keys ?d" using d1 by (simp_all add: db2 db_activate_def)
      have t3: "cn_ticks s2 = cn_ticks s + 3" by (simp add: ticks ticks2)
      have unused: "item_key ?i \<notin> set (map rd_key (redemptions ?d))"
      proof
        assume "item_key ?i \<in> set (map rd_key (redemptions ?d))"
        then obtain r where "r \<in> set (redemptions ?d)" "rd_book r = ?bid"
          by (auto simp: item_key_def rd_key_def)
        with rd_book_known [OF book_inv_parts(4) [OF inv]] obtain y where "y \<in> set (books ?d)" "bk_id y = ?bid" by metis
        with ok show False by (metis image_eqI list.set_map)
      qed
      have "(ac_buyer a, rid) \<notin> set (map rd_request (redemptions ?d))" using ok by (auto simp: image_iff)
      from redeem_ok [OF inv2 b2, of ?i rid env] unused this
      have "wp (redeem env (PStr ?bid) (PStr (of_resource x)) (PStr (ac_buyer a)) (PStr (of_publisher x))
          (PStr (of_content x)) (PStr (of_terms x)) (PStr rid))
        (\<lambda>v s'. \<exists>q r. v = receipt_dict (be_random env (cn_draws s2)) q (of_units x) (be_clock env (cn_ticks s2))
           \<and> r = new_redemption q (of_units x) v
           \<and> q = \<lparr>rq_book = ?bid, rq_resource = of_resource x, rq_buyer = ac_buyer a, rq_publisher = of_publisher x,
               rq_content = of_content x, rq_terms = of_terms x, rq_request_id = rid\<rparr>
           \<and> redeemable (cn_db s2) ?b ?i r \<and> cn_db s' = db_spend r (cn_db s2)) (\<lambda>_ _. False) s2"
        using fields ok d1 rest in_time [of 3] t3 by (simp add: issued del: set_map)
      then show ?thesis
      proof (rule wp_mono)
        fix v and s' :: book_conn
        assume "\<exists>q r. v = receipt_dict (be_random env (cn_draws s2)) q (of_units x) (be_clock env (cn_ticks s2))
           \<and> r = new_redemption q (of_units x) v
           \<and> q = \<lparr>rq_book = ?bid, rq_resource = of_resource x, rq_buyer = ac_buyer a, rq_publisher = of_publisher x,
               rq_content = of_content x, rq_terms = of_terms x, rq_request_id = rid\<rparr>
           \<and> redeemable (cn_db s2) ?b ?i r \<and> cn_db s' = db_spend r (cn_db s2)"
        then obtain q r where "r = new_redemption q (of_units x) v" "cn_db s' = db_spend r (cn_db s2)"
          "v = receipt_dict (be_random env (cn_draws s2)) q (of_units x) (be_clock env (cn_ticks s2))"
          "q = \<lparr>rq_book = ?bid, rq_resource = of_resource x, rq_buyer = ac_buyer a, rq_publisher = of_publisher x,
               rq_content = of_content x, rq_terms = of_terms x, rq_request_id = rid\<rparr>" by blast
        then show "?R (?bid, token, v) s'"
          unfolding prod.case
          by (intro conjI exI [of _ b] exI [of _ its] exI [of _ r])
             (auto simp: fields db2 db t3 new_redemption_def receipt_dict_def rd_request_def rd_key_def py_get_def)
      qed simp
    qed
    show ?thesis
      unfolding wp_bind bid(2) token wp_ret
      by (rule wp_mono [OF act [unfolded fields]]) (use red fields token in auto)
  qed
  have none: "find (\<lambda>r. (PStr (rd_buyer r), PStr (rd_request_id r)) = (PStr (ac_buyer a), PStr rid))
      (redemptions (db_issue b its ?d)) = None" for b its
    using ok by (auto simp: find_map_None db_issue_def rd_request_def)
  have issue: "wp (issue env (PStr (ac_buyer a)) (PStr (of_publisher x)) (PList [PStr (of_resource x)]) (PInt budget)
        (PStr rid) (PInt MAX_TTL)) (\<lambda>(bid, token) s'. \<exists>b its. issued env ?q ?d b its
          \<and> bid = bk_id b \<and> token = bk_token b \<and> cn_db s' = db_issue b its ?d
          \<and> bid = ?bid \<and> bk_issued b = ?t \<and> cn_ticks s' = Suc (cn_ticks s)) (\<lambda>_ _. False)
        (s\<lparr>cn_saved := y\<rparr>)" for y
    using issue_ok_wp [of "s\<lparr>cn_saved := y\<rparr>" env, OF _ laws(1) args] inv ready(1) ok
    by (simp del: set_map)
  have "wp (purchase_tx env (PStr (of_resource x)) (PStr (ac_buyer a)) (PStr (of_publisher x))
      (PStr (of_content x)) (PStr (of_terms x)) (PInt budget) (PStr rid)) ?R (\<lambda>_ _. False)
      (s\<lparr>cn_saved := y\<rparr>)" for y
    unfolding purchase_tx_def wp_bind
  proof (rule wp_mono [OF issue], goal_cases)
    case (1 v s1)
    then obtain b its where v: "v = (?bid, bk_token b)" and new: "issued env ?q ?d b its" "bk_id b = ?bid"
      "cn_db s1 = db_issue b its ?d" "bk_issued b = ?t" "cn_ticks s1 = Suc (cn_ticks s)"
      by (cases v) auto
    have n: "find (\<lambda>r. (PStr (rd_buyer r), PStr (rd_request_id r)) = (PStr (ac_buyer a), PStr rid))
        (redemptions (cn_db s1)) = None" unfolding new(3) by (rule none)
    from acts [OF new(1) new(2) [symmetric] refl refl new(3,4,5)]
    show ?case
      by (simp only: v prod.case wp_bind [of "query _"] wp_query n simp_thms if_True bind_assoc bind_ret)
  qed simp
  then show ?thesis unfolding purchase_def by (rule wp_saved) (simp_all add: split_beta cong: conj_cong)
qed

end
