(* ===== verification/AccessClaims.thy ===== *)
theory AccessClaims
  imports AccessProgress
begin

text \<open>
  The properties of the clearing service of \<open>AccessBook\<close> over all histories of calls from an
  empty database: conservation of units, atomicity, retries, admission and release.
\<close>

abbreviation clearing_run :: "book_env \<Rightarrow> book_op list \<Rightarrow> book_conn" where
  "clearing_run env ops \<equiv> run_ops (book_step env) ops init_conn"

lemma run_book_inv: "book_inv (cn_db (clearing_run env ops))"
  by (rule clearing.run_inv [OF empty_run_inv])

section \<open>Refinement and atomicity\<close>

text \<open>
  C4. Every call of the clearing service, with arguments of any type and after any history,
  either returns, having made a sequence of the transitions of \<open>clearing_step\<close> (fund an account,
  publish an offer, reserve a book, admit it, spend an item, release the rest, revoke the key),
  or raises and leaves every table as it was; a purchase, which nests three transactions,
  included.
\<close>

theorem calls_refine_clearing_steps:
  "case book_step env op (clearing_run env ops) of
     (Inr v, s') \<Rightarrow> clearing_steps env (cn_db (clearing_run env ops)) (cn_db s')
   | (Inl e, s') \<Rightarrow> cn_db s' = cn_db (clearing_run env ops)"
  using book_step_spec [OF run_book_inv [of env ops], of env op] by (simp add: wp_def)

section \<open>Conservation\<close>

definition total_initial :: "book_db \<Rightarrow> int" where
  "total_initial d = sum_list (map ac_initial (accounts d))"

definition total_available :: "book_db \<Rightarrow> int" where
  "total_available d = sum_list (map ac_available (accounts d))"

definition total_reserved :: "book_db \<Rightarrow> int" where
  "total_reserved d = sum_list (map bk_remaining (books d))"

definition total_accrued :: "book_db \<Rightarrow> int" where
  "total_accrued d = sum_list (map pb_accrued (publishers d))"

lemma inv_conserves:
  assumes inv: "book_inv d"
  shows "total_initial d = total_available d + total_reserved d + total_accrued d"
proof -
  note P = book_inv_parts [OF inv] and M = money_invD [OF book_inv_parts(6) [OF inv]]
  have a: "ac_initial a = ac_available a + sum_where (\<lambda>b. bk_buyer b = ac_buyer a) bk_remaining (books d)
      + sum_where (\<lambda>r. rd_buyer r = ac_buyer a) rd_units (redemptions d)" if "a \<in> set (accounts d)" for a
    using M(2) [OF that] by (simp add: buyer_conserved_def Let_def)
  have dis: "distinct (map ac_buyer (accounts d))" using P(1) by (simp add: accounts_inv_def)
  have "total_initial d = total_available d
      + (\<Sum>a\<leftarrow>accounts d. sum_where (\<lambda>b. bk_buyer b = ac_buyer a) bk_remaining (books d))
      + (\<Sum>a\<leftarrow>accounts d. sum_where (\<lambda>r. rd_buyer r = ac_buyer a) rd_units (redemptions d))"
    unfolding total_initial_def total_available_def sum_list_addf [symmetric]
    by (rule arg_cong [where f = sum_list]) (simp add: a)
  also have "(\<Sum>a\<leftarrow>accounts d. sum_where (\<lambda>b. bk_buyer b = ac_buyer a) bk_remaining (books d)) = total_reserved d"
    using sum_where_partition [OF dis book_known(1) [OF P(2)], of "books d" id bk_remaining]
    by (simp add: total_reserved_def o_def)
  also have "(\<Sum>a\<leftarrow>accounts d. sum_where (\<lambda>r. rd_buyer r = ac_buyer a) rd_units (redemptions d))
      = sum_list (map rd_units (redemptions d))"
    using sum_where_partition [OF dis rd_known(1) [OF inv], of "redemptions d" id rd_units]
    by (simp add: o_def)
  also have "\<dots> = (\<Sum>p\<leftarrow>publishers d. sum_where (\<lambda>r. rd_publisher r = pb_id p) rd_units (redemptions d))"
    using sum_where_partition [OF M(3) rd_known(2) [OF inv], of "redemptions d" id rd_units]
    by (simp add: o_def)
  also have "\<dots> = total_accrued d"
    unfolding total_accrued_def
    by (rule arg_cong [where f = sum_list]) (simp add: M(4) [unfolded publisher_conserved_def])
  finally show ?thesis .
qed

text \<open>
  C3. After any history of calls the units ever funded are the units available to buyers, plus
  those reserved in open books, plus those accrued by publishers; no balance is negative; every
  open book holds exactly the units of its unredeemed items; no item and no request has been
  redeemed twice.
\<close>

theorem units_conserved:
  "let d = cn_db (clearing_run env ops) in
     total_initial d = total_available d + total_reserved d + total_accrued d
     \<and> list_all account_ok (accounts d) \<and> list_all (backed d) (books d)
     \<and> distinct (map rd_key (redemptions d)) \<and> distinct (map rd_request (redemptions d))"
  using inv_conserves [OF run_book_inv [of env ops]] book_inv_parts [OF run_book_inv [of env ops]]
  by (simp add: Let_def accounts_inv_def money_inv_def redemptions_inv_def list_all_iff)

text \<open>
  C34. The audit of the service never fails: after any history it returns a report, which lists
  every account and publisher in order and counts the books and the redemptions, and it changes
  nothing.
\<close>

theorem audit_never_fails:
  "\<exists>report s'. audit (clearing_run env ops) = (Inr report, s') \<and> s' = clearing_run env ops
     \<and> audit_report (cn_db s') = Inr report"
proof -
  let ?s = "clearing_run env ops"
  note M = money_invD [OF book_inv_parts(6) [OF run_book_inv [of env ops]]]
  from M(2,4) obtain report where "audit_report (cn_db ?s) = Inr report"
    by (simp add: audit_report_def)
  then show ?thesis
    by (simp add: audit_def transaction_def bind_act_def query_def lift_res_def)
qed

section \<open>Retries\<close>

lemma book_later_row:
  assumes "grows d d'" and "b \<in> set (books d)"
  obtains b' where "b' \<in> set (books d')" and "book_fixed b' = book_fixed b" and "bk_closed b \<Longrightarrow> bk_closed b'"
  using assms by (auto simp: grows_def kept_def book_later_def)

lemma issue_replay:
  assumes inv: "book_inv (cn_db s)" and args: "issue_args b p rs m i l = Inr q"
    and x: "x \<in> set (books (cn_db s))" "bk_buyer x = iq_buyer q" "bk_request_id x = iq_request_id q"
      "bk_request_hash x = issue_hash q"
    and key: "KEY_ID \<notin> set (revoked_keys (cn_db s))"
  shows "issue env b p rs m i l s = (Inr (bk_id x, bk_token x), s)"
proof (rule wp_result)
  have "find (\<lambda>b. bk_buyer b = iq_buyer q \<and> bk_request_id b = iq_request_id q) (books (cn_db s)) = Some x"
    using book_inv_parts(2) [OF inv] x(1-3)
    by (intro find_by_key [of "\<lambda>b. (bk_buyer b, bk_request_id b)"]) (auto simp: books_inv_def)
  with x(4) key show "wp (issue env b p rs m i l) (\<lambda>v s'. v = (bk_id x, bk_token x) \<and> s' = s) (\<lambda>_ _. False) s"
    by (simp add: issue_def run_simps args issue_tx_def)
qed

lemma issue_effect_stored:
  assumes "issue_effect env q d bid token d'"
  obtains x where "x \<in> set (books d')" and "bk_buyer x = iq_buyer q" and "bk_request_id x = iq_request_id q"
    and "bk_request_hash x = issue_hash q" and "bk_id x = bid" and "bk_token x = token"
proof -
  have "x \<in> set (books (db_issue x its d))" for x its by (simp add: db_issue_def)
  moreover have "bk_buyer x = iq_buyer q \<and> bk_request_id x = iq_request_id q \<and> bk_request_hash x = issue_hash q"
    if "issued env q d x its" for x its
    using that by (auto simp: issued_def new_book_def)
  ultimately show ?thesis using assms that unfolding issue_effect_def by metis
qed

lemma issue_then_retry:
  assumes inv: "book_inv (cn_db s)" and first: "issue env b p rs m i l s = (Inr (bid, token), s1)"
    and key: "KEY_ID \<notin> set (revoked_keys (cn_db (run_ops (book_step env) later s1)))"
  shows "issue env b p rs m i l (run_ops (book_step env) later s1)
    = (Inr (bid, token), run_ops (book_step env) later s1)"
proof -
  let ?s2 = "run_ops (book_step env) later s1"
  from wp_Inr [OF issue_spec [OF inv] first] obtain q where q: "issue_args b p rs m i l = Inr q" "issue_ok q"
    "issue_effect env q (cn_db s) bid token (cn_db s1)" by auto
  then have inv1: "book_inv (cn_db s1)" by (metis issue_effect_steps clearing_steps_inv inv)
  from q(3) obtain x where x: "x \<in> set (books (cn_db s1))" "bk_buyer x = iq_buyer q"
    "bk_request_id x = iq_request_id q" "bk_request_hash x = issue_hash q" "bk_id x = bid" "bk_token x = token"
    by (rule issue_effect_stored)
  from book_later_row [OF run_grows [OF inv1] x(1)] obtain y where
    y: "y \<in> set (books (cn_db ?s2))" "book_fixed y = book_fixed x" .
  from issue_replay [OF clearing.run_inv [OF inv1] q(1) y(1) _ _ _ key] y(2) x show ?thesis
    by (simp add: book_fixed_def)
qed

text \<open>
  Issuing is idempotent: once a call has returned a book and its token, the same call, made
  after any further history, returns the same book and token and changes nothing, as long as the
  issuing key has not been revoked, so that a lost answer never costs the buyer twice.
\<close>

theorem issue_retry:
  assumes "issue env b p rs m i l (clearing_run env ops) = (Inr (bid, token), s1)"
    and "KEY_ID \<notin> set (revoked_keys (cn_db (run_ops (book_step env) later s1)))"
  shows "issue env b p rs m i l (run_ops (book_step env) later s1)
    = (Inr (bid, token), run_ops (book_step env) later s1)"
  by (rule issue_then_retry [OF run_book_inv assms])

lemma redeem_replay:
  assumes inv: "book_inv (cn_db s)" and args: "redeem_args x res b p c t i = Inr q"
    and r: "r \<in> set (redemptions (cn_db s))" "rd_request r = (rq_buyer q, rq_request_id q)"
      "rd_request_hash r = redeem_hash q" "loads (rd_receipt r) = Some v"
  shows "redeem env x res b p c t i s = (Inr v, s)"
proof (rule wp_result)
  have "find (\<lambda>r. rd_request r = (rq_buyer q, rq_request_id q)) (redemptions (cn_db s)) = Some r"
    using book_inv_parts(4) [OF inv] r(1,2)
    by (intro find_by_key [of rd_request]) (auto simp: redemptions_inv_def)
  with r(3,4) show "wp (redeem env x res b p c t i) (\<lambda>w s'. w = v \<and> s' = s) (\<lambda>_ _. False) s"
    by (simp add: redeem_def run_simps args redeem_tx_def json_payload_def)
qed

lemma plain_commitment: "is_commitment s \<Longrightarrow> plain s"
  by (auto simp: is_commitment_def plain_def)

lemma redeem_args_ok:
  "redeem_args x res b p c t i = Inr q \<Longrightarrow> x = PStr (rq_book q) \<and> res = PStr (rq_resource q)
     \<and> b = PStr (rq_buyer q) \<and> p = PStr (rq_publisher q) \<and> c = PStr (rq_content q)
     \<and> t = PStr (rq_terms q) \<and> i = PStr (rq_request_id q)
     \<and> plain (rq_book q) \<and> plain (rq_resource q) \<and> plain (rq_buyer q) \<and> plain (rq_publisher q)
     \<and> plain (rq_content q) \<and> plain (rq_terms q)"
  by (auto simp: redeem_args_def bind_res_Inr_iff check_identifier_Inr_iff check_commitment_Inr_iff
      plain_identifier plain_commitment)

lemma json_ok_receipt_dict:
  assumes "plain (rq_book q)" "plain (rq_resource q)" "plain (rq_buyer q)" "plain (rq_publisher q)"
    "plain (rq_content q)" "plain (rq_terms q)" "plain y"
  shows "json_ok (receipt_dict y q n t)"
  using assms [THEN json_ok_plain] by (simp add: receipt_dict_def lit_def scalar_def)

lemma redeem_effect_stored:
  assumes eff: "redeem_effect q t y d v d'" and ok: "\<And>n. json_ok (receipt_dict y q n t)"
  obtains r w where "r \<in> set (redemptions d')" and "rd_request r = (rq_buyer q, rq_request_id q)"
    and "rd_request_hash r = redeem_hash q" and "loads (rd_receipt r) = Some w" and "w = v \<or> w = sort_keys v"
proof (cases "\<exists>r \<in> set (redemptions d). rd_request r = (rq_buyer q, rq_request_id q)
    \<and> rd_request_hash r = redeem_hash q \<and> loads (rd_receipt r) = Some v \<and> d' = d")
  case True
  with that show ?thesis by blast
next
  case False
  with eff obtain i :: item where v: "v = receipt_dict y q (it_units i) t"
    and "d' = db_spend (new_redemption q (it_units i) (receipt_dict y q (it_units i) t)) d"
    unfolding redeem_effect_def Let_def by blast
  then have d': "d' = db_spend (new_redemption q (it_units i) v) d" by simp
  show ?thesis
  proof (rule that)
    show "new_redemption q (it_units i) v \<in> set (redemptions d')" by (simp add: d' db_spend_def)
    show "loads (rd_receipt (new_redemption q (it_units i) v)) = Some (sort_keys v)"
      using loads_dumps [OF ok] by (simp add: new_redemption_def v)
  qed (simp_all add: new_redemption_def rd_request_def)
qed

lemma redeem_then_retry:
  assumes inv: "book_inv (cn_db s)" and ids: "\<forall>n. plain (be_random env n)"
    and first: "redeem env x res b p c t i s = (Inr v, s1)"
  shows "\<exists>w. (w = v \<or> w = sort_keys v)
    \<and> redeem env x res b p c t i (run_ops (book_step env) later s1) = (Inr w, run_ops (book_step env) later s1)"
proof -
  let ?s2 = "run_ops (book_step env) later s1"
  from wp_Inr [OF redeem_spec [OF inv] first] obtain q where args: "redeem_args x res b p c t i = Inr q"
    and eff: "redeem_effect q (be_clock env (cn_ticks s)) (be_random env (cn_draws s)) (cn_db s) v (cn_db s1)"
    by auto
  have ok: "json_ok (receipt_dict (be_random env (cn_draws s)) q n (be_clock env (cn_ticks s)))" for n
    using redeem_args_ok [OF args] ids by (intro json_ok_receipt_dict) simp_all
  have inv1: "book_inv (cn_db s1)" by (metis eff redeem_effect_steps clearing_steps_inv inv)
  from redeem_effect_stored [OF eff ok] obtain r w where r: "r \<in> set (redemptions (cn_db s1))"
    "rd_request r = (rq_buyer q, rq_request_id q)" "rd_request_hash r = redeem_hash q"
    "loads (rd_receipt r) = Some w" and w: "w = v \<or> w = sort_keys v" .
  have "r \<in> set (redemptions (cn_db ?s2))"
    using run_grows [OF inv1, of env later] r(1) unfolding grows_def by blast
  from redeem_replay [OF clearing.run_inv [OF inv1] args this r(2-4)] w show ?thesis by blast
qed

text \<open>
  A receipt is never lost: once a redemption has returned a receipt, the same call, made
  after any further history - expiry, release of the book and revocation of the key included -
  returns that receipt again, up to the order of its keys, and charges nothing.
\<close>

theorem redeem_retry:
  assumes "\<forall>n. plain (be_random env n)"
    and "redeem env x res b p c t i (clearing_run env ops) = (Inr v, s1)"
  shows "\<exists>w. (w = v \<or> w = sort_keys v)
    \<and> redeem env x res b p c t i (run_ops (book_step env) later s1) = (Inr w, run_ops (book_step env) later s1)"
  by (rule redeem_then_retry [OF run_book_inv assms])

section \<open>Admission\<close>

text \<open>
  C16. A redemption that changes anything is admitted: the key is not revoked; the book exists,
  belongs to the buyer and the publisher of the call, has been activated, is open, and the clock
  lies between its issue and its expiry; the resource is one of its items, with the same content
  and terms, and has not been redeemed; and then exactly the units of that item move from the
  buyer's reserve to the publisher, under a new receipt.
\<close>

theorem redeem_admission:
  "case redeem env x res b p c t i (clearing_run env ops) of
     (Inl e, s') \<Rightarrow> cn_db s' = cn_db (clearing_run env ops)
   | (Inr v, s') \<Rightarrow> cn_db s' = cn_db (clearing_run env ops) \<or>
       (\<exists>q bk it. let s = clearing_run env ops; d = cn_db s; now = be_clock env (cn_ticks s);
          r = new_redemption q (it_units it) v in
        redeem_args x res b p c t i = Inr q \<and> KEY_ID \<notin> set (revoked_keys d)
        \<and> bk \<in> set (books d) \<and> bk_id bk = rq_book q \<and> bk_buyer bk = rq_buyer q \<and> bk_publisher bk = rq_publisher q
        \<and> bk_active bk \<and> \<not> bk_closed bk \<and> bk_issued bk \<le> now \<and> now < bk_expires bk
        \<and> it \<in> set (items d) \<and> item_key it = (rq_book q, rq_resource q)
        \<and> it_content it = rq_content q \<and> it_terms it = rq_terms q
        \<and> (rq_book q, rq_resource q) \<notin> set (map rd_key (redemptions d)) \<and> cn_db s' = db_spend r d)"
  (is "case ?run of (Inl e, s') \<Rightarrow> _ s' | (Inr v, s') \<Rightarrow> _ s' \<or> ?P v s'")
proof -
  let ?d = "cn_db (clearing_run env ops)" and ?now = "be_clock env (cn_ticks (clearing_run env ops))"
  have admitted: "?P v s'" if run: "?run = (Inr v, s')" and change: "cn_db s' \<noteq> ?d" for v s'
  proof -
    from wp_Inr [OF redeem_spec [OF run_book_inv] run] change obtain q bk it where
      "redeem_args x res b p c t i = Inr q" "redeemed q ?d bk it ?now (new_redemption q (it_units it) v)"
      "cn_db s' = db_spend (new_redemption q (it_units it) v) ?d"
      by (auto simp: redeem_effect_def Let_def)
    then show ?thesis
      unfolding Let_def by (intro exI [of _ q] exI [of _ bk] exI [of _ it])
        (auto simp: redeemed_def redeemable_def new_redemption_def rd_key_def simp del: set_map)
  qed
  have "atomic (book_step env (Redeem x res b p c t i))" by (rule book_step_atomic)
  then have failed: "cn_db s' = ?d" if "?run = (Inl e, s')" for e s' using that by (auto dest: atomicD)
  show ?thesis
  proof (cases ?run)
    case (Pair r s')
    with admitted failed show ?thesis by (cases r) (simp_all only: prod.case sum.case, blast)
  qed
qed

section \<open>Release and revocation\<close>

lemma release_replay:
  assumes "book_inv (cn_db s)" and "b \<in> set (books (cn_db s))" and "bk_closed b"
    and "is_identifier (bk_id b)" and "is_identifier (bk_buyer b)"
  shows "release (PStr (bk_id b)) (PStr (bk_buyer b)) s = (Inr 0, s)"
proof (rule wp_result)
  have "find (\<lambda>x. bk_id x = bk_id b \<and> bk_buyer x = bk_buyer b) (books (cn_db s)) = Some b"
    using book_inv_parts(2) [OF assms(1)] assms(2) find_unique [of bk_id "books (cn_db s)"]
    by (cases "find (\<lambda>x. bk_id x = bk_id b \<and> bk_buyer x = bk_buyer b) (books (cn_db s))")
       (auto simp: find_map_None books_inv_def dest!: find_Some_iff)
  with assms(3-5) show "wp (release (PStr (bk_id b)) (PStr (bk_buyer b))) (\<lambda>v s'. v = 0 \<and> s' = s) (\<lambda>_ _. False) s"
    by (simp add: release_def run_simps check_identifier_def release_tx_def)
qed

lemma release_final_run:
  assumes inv: "book_inv (cn_db s)" and first: "release (PStr bid) (PStr buyer) s = (Inr u, s1)"
  shows "let s2 = run_ops (book_step env) later s1 in
    (\<forall>r \<in> set (redemptions (cn_db s2)). rd_book r = bid \<longrightarrow> r \<in> set (redemptions (cn_db s)))
    \<and> release (PStr bid) (PStr buyer) s2 = (Inr 0, s2)"
proof -
  let ?s2 = "run_ops (book_step env) later s1"
  have ids: "is_identifier bid" "is_identifier buyer"
    using first by (auto simp: release_def bind_act_def lift_res_def check_identifier_def split: if_splits)
  from wp_Inr [OF release_spec [OF inv] first] have eff: "release_effect bid buyer (cn_db s) u (cn_db s1)" by auto
  then obtain x where x: "x \<in> set (books (cn_db s))" "bk_id x = bid" "bk_buyer x = buyer"
    "if bk_closed x then cn_db s1 = cn_db s else cn_db s1 = db_release x (cn_db s)"
    by (auto simp: release_effect_def split: if_splits)
  let ?b = "if bk_closed x then x else x\<lparr>bk_closed := True, bk_remaining := 0\<rparr>"
  have b: "?b \<in> set (books (cn_db s1))" "bk_id ?b = bid" "bk_buyer ?b = buyer" "bk_closed ?b"
    using x by (auto simp: db_release_def set_update_rows intro!: bexI [of _ x])
  have rds: "redemptions (cn_db s1) = redemptions (cn_db s)"
    using x(4) by (simp add: db_release_def split: if_splits)
  have inv1: "book_inv (cn_db s1)" by (metis eff release_effect_steps clearing_steps_inv inv)
  note G = run_grows [OF inv1, of env later]
  from book_later_row [OF G b(1)] b(4) obtain y where
    y: "y \<in> set (books (cn_db ?s2))" "book_fixed y = book_fixed ?b" "bk_closed y" by blast
  then have y': "bk_id y = bid" "bk_buyer y = buyer" using b by (simp_all add: book_fixed_def)
  have "release (PStr bid) (PStr buyer) ?s2 = (Inr 0, ?s2)"
    using release_replay [OF clearing.run_inv [OF inv1] y(1,3)] ids y' by simp
  moreover have "\<forall>r \<in> set (redemptions (cn_db ?s2)). rd_book r = bid \<longrightarrow> r \<in> set (redemptions (cn_db s))"
    using G b rds by (auto simp: grows_def)
  ultimately show ?thesis by (simp add: Let_def)
qed

text \<open>
  C32. Releasing a book is final: whatever is called afterwards, no further item of the book is
  redeemed - the redemptions of the book are those made before the release - and releasing it
  again returns no unit and changes nothing.
\<close>

theorem release_final:
  assumes "release (PStr bid) (PStr buyer) (clearing_run env ops) = (Inr u, s1)"
  shows "let s2 = run_ops (book_step env) later s1 in
    (\<forall>r \<in> set (redemptions (cn_db s2)). rd_book r = bid
       \<longrightarrow> r \<in> set (redemptions (cn_db (clearing_run env ops))))
    \<and> release (PStr bid) (PStr buyer) s2 = (Inr 0, s2)"
  by (rule release_final_run [OF run_book_inv assms])

text \<open>
  C33. Revocation stops the service for good: once the issuing key is revoked, no history of calls
  issues a book or redeems an item any more, whatever was admitted before.
\<close>

theorem revocation_final:
  assumes "KEY_ID \<in> set (revoked_keys (cn_db (clearing_run env ops)))"
  shows "let d = cn_db (clearing_run env ops); d' = cn_db (clearing_run env (ops @ later)) in
    redemptions d' = redemptions d \<and> map bk_id (books d') = map bk_id (books d)"
  using run_grows [OF run_book_inv [of env ops], of env later] assms
  by (simp add: grows_def run_ops_append Let_def)

section \<open>No statement violates a constraint\<close>

lemma purchase_integrity:
  assumes inv: "book_inv (cn_db s)"
  shows "wp (purchase env r b p c t m i) (\<lambda>_ _. True)
    (\<lambda>e s'. integrity_error e \<longrightarrow> be_random env (cn_draws s) \<in> set (map bk_id (books (cn_db s)))) s"
proof -
  have rest: "wp (bind_act (if prior = None then bind_act (activate env (PStr x) (PStr y) b p) (\<lambda>_. ret ()) else ret ())
      (\<lambda>_. bind_act (redeem env (PStr x) r b p c t i) (\<lambda>rc. ret (x, y, rc)))) (\<lambda>_ _. True)
      (\<lambda>e s'. \<not> integrity_error e) s1"
    if inv1: "book_inv (cn_db s1)" for prior x y and s1 :: book_conn
  proof -
    have red: "wp (redeem env (PStr x) r b p c t i) (\<lambda>_ _. True) (\<lambda>e s'. \<not> integrity_error e) s2"
      if "book_inv (cn_db s2)" for s2
      by (rule wp_mono [OF redeem_spec [OF that]]) auto
    have act: "wp (activate env (PStr x) (PStr y) b p) (\<lambda>_ s2. book_inv (cn_db s2)) (\<lambda>e s'. \<not> integrity_error e) s1"
      by (rule wp_mono [OF activate_spec [OF inv1]])
         (use inv1 in \<open>auto dest: activate_effect_steps [of _ _ _ _ _ _ env] clearing_steps_inv\<close>)
    show ?thesis
    proof (cases "prior = None")
      case True
      show ?thesis
        unfolding if_P [OF True] bind_assoc wp_bind bind_ret
        by (rule wp_mono [OF act]) (auto simp: wp_bind wp_ret_fun wp_ret intro: red)
    next
      case False
      show ?thesis
        unfolding if_not_P [OF False] bind_ret wp_bind wp_ret_fun by (rule red [OF inv1])
    qed
  qed
  have "wp (purchase_tx env r b p c t m i) (\<lambda>_ _. True)
      (\<lambda>e s'. integrity_error e \<longrightarrow> be_random env (cn_draws s) \<in> set (map bk_id (books (cn_db s))))
      (s\<lparr>cn_saved := x\<rparr>)" for x
    unfolding purchase_tx_def wp_bind
  proof (rule wp_mono [OF issue_spec [of "s\<lparr>cn_saved := x\<rparr>"]], goal_cases)
    case (2 v s1)
    then have "book_inv (cn_db s1)"
      using inv by (cases v) (auto dest: issue_effect_steps clearing_steps_inv)
    then have r: "wp (bind_act (if prior = None then bind_act (activate env (PStr y) (PStr z) b p) (\<lambda>_. ret ()) else ret ())
        (\<lambda>_. bind_act (redeem env (PStr y) r b p c t i) (\<lambda>rc. ret (y, z, rc)))) (\<lambda>_ _. True)
        (\<lambda>e s'. integrity_error e \<longrightarrow> be_random env (cn_draws s) \<in> set (map bk_id (books (cn_db s)))) s1"
      for prior y z by (rule wp_mono [OF rest]) auto
    show ?case
      by (cases v) (simp only: prod.case wp_bind [of "query _"] wp_query r)
  qed (use inv in auto)
  then show ?thesis unfolding purchase_def by (rule wp_saved) auto
qed

text \<open>
  No call trips over a constraint of the schema: after any history an \<open>IntegrityError\<close> leaves
  the service only from a second funding of the same buyer, or when the random source returns
  the identifier of an existing book. Every other check of the tables is one the code has
  already made.
\<close>

theorem integrity_errors:
  assumes "book_step env op (clearing_run env ops) = (Inl e, s')" and "integrity_error e"
  shows "(\<exists>b u. op = Seed b u)
    \<or> be_random env (cn_draws (clearing_run env ops)) \<in> set (map bk_id (books (cn_db (clearing_run env ops))))"
proof -
  let ?s = "clearing_run env ops"
  note inv = run_book_inv [of env ops]
  have map_wp: "wp (act_map f m) (\<lambda>_ _. True) E s \<longleftrightarrow> wp m (\<lambda>_ _. True) E s" for f m E s
    by (simp add: act_map_def wp_bind wp_ret_fun)
  let ?E = "\<lambda>e (s' :: book_conn). integrity_error e \<longrightarrow> be_random env (cn_draws ?s) \<in> set (map bk_id (books (cn_db ?s)))"
  have "wp (book_step env op) (\<lambda>_ _. True) ?E ?s" if "\<nexists>b u. op = Seed b u"
  proof (cases op)
    case (Seed b u)
    with that show ?thesis by blast
  next
    case (SetOffer p r c t u v)
    have "raises_only (\<lambda>e. \<not> integrity_error e) (validate_offer p r c t u v)"
      unfolding validate_offer_def by (intro raises_intros)
    then show ?thesis
      unfolding SetOffer book_step.simps map_wp
      by (cases "validate_offer p r c t u v")
         (auto simp: set_offer_def run_simps replace_offer_def insert_publisher_def raises_only_def)
  next
    case (Issue b p rs m q t)
    show ?thesis
      unfolding Issue book_step.simps map_wp by (rule wp_mono [OF issue_spec [OF inv]]) auto
  next
    case (Activate x t b p)
    show ?thesis
      unfolding Activate book_step.simps map_wp by (rule wp_mono [OF activate_spec [OF inv]]) auto
  next
    case (Redeem x r b p c t q)
    show ?thesis
      unfolding Redeem book_step.simps by (rule wp_mono [OF redeem_spec [OF inv]]) auto
  next
    case (Release x b)
    show ?thesis
      unfolding Release book_step.simps map_wp by (rule wp_mono [OF release_spec [OF inv]]) auto
  next
    case RevokeKey
    show ?thesis
      unfolding RevokeKey book_step.simps map_wp by (auto simp: revoke_key_def run_simps insert_revoked_def)
  next
    case (Purchase r b p c t m q)
    show ?thesis
      unfolding Purchase book_step.simps map_wp by (rule purchase_integrity [OF inv])
  next
    case Audit
    show ?thesis
      unfolding Audit book_step.simps by (auto simp: audit_def run_simps audit_report_def split: sum.splits)
  qed
  with assms show ?thesis by (auto dest: wp_Inl)
qed

section \<open>A purchase goes through\<close>

lemma purchase_balances:
  assumes inv: "book_inv d" and a: "a \<in> set (accounts d)" and price: "0 \<le> n" "n \<le> ac_available a"
    and b: "bk_buyer b = ac_buyer a" "bk_remaining b = n"
    and r: "rd_buyer r = ac_buyer a" "rd_units r = n" "rd_publisher r \<in> set (map pb_id (publishers d))"
  shows "a\<lparr>ac_available := ac_available a - n, ac_redeemed := ac_redeemed a + n\<rparr>
      \<in> set (accounts (db_spend r (db_activate x (db_issue b its d))))"
    and "total_accrued (db_spend r (db_activate x (db_issue b its d))) = total_accrued d + n"
proof -
  show "a\<lparr>ac_available := ac_available a - n, ac_redeemed := ac_redeemed a + n\<rparr>
      \<in> set (accounts (db_spend r (db_activate x (db_issue b its d))))"
    using a price b r
    by (auto simp: db_spend_def db_activate_def db_issue_def update_rows_def image_iff intro!: bexI [of _ a])
  from r(3) obtain p where p: "p \<in> set (publishers d)" "pb_id p = rd_publisher r" by auto
  have total: "total_accrued d = sum_where (\<lambda>_. True) pb_accrued (publishers d)" for d
    by (simp add: total_accrued_def sum_where_def)
  show "total_accrued (db_spend r (db_activate x (db_issue b its d))) = total_accrued d + n"
    using sum_where_update_one [of pb_id "publishers d" p "rd_publisher r" "\<lambda>_. True"
        "\<lambda>p. p\<lparr>pb_accrued := pb_accrued p + n\<rparr>" pb_accrued]
      money_invD(3) [OF book_inv_parts(6) [OF inv]] p r(2)
    by (simp add: total db_spend_def db_activate_def db_issue_def)
qed

text \<open>
  C17. A purchase goes through. Under the documented behaviour of OpenSSL and PyJWT, with the
  consumer's key that of the issuer, and under the conditions of \<open>purchasable\<close> - a fresh valid
  request for a live offer within the budget and the balance, a live key and a working clock and
  random source - the call returns a book, a token and a receipt for exactly the price, the price
  moves from the buyer's available units to the redeemed ones, and the publisher accrues it.
\<close>

theorem purchase_completes:
  assumes "honest env" and "jwt_law env" and "purchasable env (clearing_run env ops) x a budget rid"
  shows "\<exists>bid token rc s'. purchase env (PStr (of_resource x)) (PStr (ac_buyer a)) (PStr (of_publisher x))
        (PStr (of_content x)) (PStr (of_terms x)) (PInt budget) (PStr rid) (clearing_run env ops)
      = (Inr (bid, token, rc), s')
    \<and> py_get rc (lit ''units'') = Inr (PInt (of_units x))
    \<and> a\<lparr>ac_available := ac_available a - of_units x, ac_redeemed := ac_redeemed a + of_units x\<rparr>
        \<in> set (accounts (cn_db s'))
    \<and> total_accrued (cn_db s') = total_accrued (cn_db (clearing_run env ops)) + of_units x"
proof -
  let ?s = "clearing_run env ops"
  note inv = run_book_inv [of env ops]
  obtain v s' where run: "purchase env (PStr (of_resource x)) (PStr (ac_buyer a)) (PStr (of_publisher x))
        (PStr (of_content x)) (PStr (of_terms x)) (PInt budget) (PStr rid) ?s = (v, s')" by fastforce
  note W = purchase_ok [OF inv assms]
  from W run obtain y where v: "v = Inr y" by (cases v) (auto simp: wp_def)
  obtain bid token rc where y: "y = (bid, token, rc)" by (cases y)
  from wp_Inr [OF W run [unfolded v]] obtain b its r where db: "bk_buyer b = ac_buyer a" "bk_remaining b = of_units x"
    "rd_buyer r = ac_buyer a" "rd_publisher r = of_publisher x" "rd_units r = of_units x"
    "py_get rc (lit ''units'') = Inr (PInt (of_units x))"
    "cn_db s' = db_spend r (db_activate bid (db_issue b its (cn_db ?s)))"
    unfolding y by auto
  have x: "x \<in> set (offers (cn_db ?s))" "a \<in> set (accounts (cn_db ?s))" "of_units x \<le> ac_available a"
    using assms(3) by (simp_all add: purchasable_def)
  with book_inv_parts(5) [OF inv] have "1 \<le> of_units x" "of_publisher x \<in> set (map pb_id (publishers (cn_db ?s)))"
    by (auto simp: offers_inv_def simp del: set_map)
  with purchase_balances [OF inv x(2) _ x(3) db(1,2,3,5), of bid its] db show ?thesis
    unfolding run v y by (simp del: set_map)
qed

section \<open>A concrete history\<close>

text \<open>
  A PyJWT that verifies the signature and returns the payload, a constant clock and a source of
  distinct identifiers: an environment in which the laws above hold.
\<close>

definition demo_decode :: "bytes \<Rightarrow> ustr \<Rightarrow> pyval \<Rightarrow> pyval option" where
  "demo_decode pub token aud = (case split_dot token of
     [h, p, g] \<Rightarrow> (case (unb64 (PStr p), unb64 (PStr g)) of
         (Inr p', Inr g') \<Rightarrow>
           if verify_p256 demo_ossl (PBytes pub) (PBytes (sha256 (ascii_encode (h @ [46] @ p)))) (PBytes g')
           then loads (ascii_decode p') else None
       | _ \<Rightarrow> None)
   | _ \<Rightarrow> None)"

definition demo_env :: book_env where
  "demo_env = \<lparr>be_ossl = demo_ossl, be_private = 1, be_public = ec_public demo_ossl 1,
     be_jwt_decode = demo_decode, be_jwt_header = (\<lambda>_. Some (jws_header KEY_ID)),
     be_clock = (\<lambda>_. 10), be_random = (\<lambda>n. replicate (Suc n) 98)\<rparr>"

lemma demo_honest: "honest demo_env"
  using demo_ecdsa_law ORDER_bounds by (simp add: honest_def demo_env_def)

lemma demo_jwt_law: "jwt_law demo_env"
proof -
  have "demo_decode (be_public demo_env) (compact_token KEY_ID p g) (PStr aud) = Some v"
    if "verify_p256 demo_ossl (PBytes (be_public demo_env))
          (PBytes (sha256 (ascii_encode (signing_input KEY_ID p)))) (PBytes g)"
      and "loads (ascii_decode p) = Some v" for p g aud v
  proof -
    have "loads [] = None" by (simp add: loads_def json_loads_def skip_ws_def)
    with that(2) have "p \<noteq> []" by (auto simp: ascii_decode_def)
    moreover have "g \<noteq> []" using that(1) by (auto simp: verify_p256_def)
    ultimately show ?thesis
      using that by (simp add: demo_decode_def split_compact_token signing_input_def)
  qed
  then show ?thesis by (simp add: jwt_law_def demo_env_def)
qed

definition demo_hash :: ustr where "demo_hash = replicate 64 48"

definition demo_ops :: "book_op list" where
  "demo_ops = [Seed (PStr (lit ''alice'')) (PInt 100),
     SetOffer (PStr (lit ''pub'')) (PStr (lit ''article'')) (PStr demo_hash) (PStr demo_hash) (PInt 5) (PInt 1000)]"

definition demo_account :: account where
  "demo_account = \<lparr>ac_buyer = lit ''alice'', ac_initial = 100, ac_available = 100, ac_reserved = 0, ac_redeemed = 0\<rparr>"

definition demo_offer :: offer where
  "demo_offer = \<lparr>of_publisher = lit ''pub'', of_resource = lit ''article'', of_content = demo_hash,
     of_terms = demo_hash, of_units = 5, of_valid_until = 1000\<rparr>"

lemma demo_ids: "is_identifier (lit ''alice'')" "is_identifier (lit ''pub'')" "is_identifier (lit ''article'')"
  "is_identifier (lit ''r1'')" "is_commitment demo_hash"
  by (simp_all add: is_identifier_def identifier_char_def lit_def is_commitment_def demo_hash_def)

lemma demo_run: "clearing_run demo_env demo_ops = init_conn\<lparr>cn_db := empty_book_db\<lparr>accounts := [demo_account],
    offers := [demo_offer], publishers := [\<lparr>pb_id = lit ''pub'', pb_accrued = 0\<rparr>]\<rparr>\<rparr>"
  by (simp add: demo_ops_def demo_account_def demo_offer_def act_map_def bind_act_def lift_res_def
      seed_simulated_balance_def check_identifier_def demo_ids check_integer_def MAX_UNITS_def execute_def
      insert_account_def check_constraint_def account_ok_def init_conn_def empty_book_db_def ret_def
      set_offer_def validate_offer_def check_commitment_def transaction_def replace_offer_def insert_publisher_def)

lemma demo_state:
  "accounts (cn_db (clearing_run demo_env demo_ops)) = [demo_account]"
  "offers (cn_db (clearing_run demo_env demo_ops)) = [demo_offer]"
  "books (cn_db (clearing_run demo_env demo_ops)) = []"
  "redemptions (cn_db (clearing_run demo_env demo_ops)) = []"
  "revoked_keys (cn_db (clearing_run demo_env demo_ops)) = []"
  "cn_ticks (clearing_run demo_env demo_ops) = 0" "cn_draws (clearing_run demo_env demo_ops) = 0"
  unfolding demo_run by (simp_all add: init_conn_def empty_book_db_def)

lemma demo_env_fields: "be_clock demo_env n = 10" "be_random demo_env n = replicate (Suc n) 98"
  by (simp_all add: demo_env_def)

lemma demo_purchasable:
  "purchasable demo_env (clearing_run demo_env demo_ops) demo_offer demo_account 50 (lit ''r1'')"
  unfolding demo_run
  by (simp add: purchasable_def init_conn_def empty_book_db_def demo_offer_def demo_account_def demo_ids
      demo_env_def MAX_UNITS_def MAX_TTL_def is_identifier_def identifier_char_def Let_def)
     (simp add: lit_def)

theorem purchase_completes_witness:
  "\<exists>bid token rc s'. purchase demo_env (PStr (of_resource demo_offer)) (PStr (ac_buyer demo_account))
        (PStr (of_publisher demo_offer)) (PStr (of_content demo_offer)) (PStr (of_terms demo_offer)) (PInt 50)
        (PStr (lit ''r1'')) (clearing_run demo_env demo_ops) = (Inr (bid, token, rc), s')
    \<and> py_get rc (lit ''units'') = Inr (PInt 5)
    \<and> demo_account\<lparr>ac_available := 95, ac_redeemed := 5\<rparr> \<in> set (accounts (cn_db s'))
    \<and> total_accrued (cn_db s') = 5"
proof -
  have e: "total_accrued (cn_db (clearing_run demo_env demo_ops)) = 0" "of_units demo_offer = 5"
    "ac_available demo_account - 5 = 95" "ac_redeemed demo_account + 5 = 5"
    by (simp_all add: demo_run total_accrued_def demo_offer_def demo_account_def)
  show ?thesis
    using purchase_completes [OF demo_honest demo_jwt_law demo_purchasable] unfolding e by simp
qed

lemma demo_issue_args: "issue_args (PStr (lit ''alice'')) (PStr (lit ''pub'')) (PList [PStr (lit ''article'')]) (PInt 50)
    (PStr (lit ''r1'')) (PInt 300) = Inr \<lparr>iq_buyer = lit ''alice'', iq_publisher = lit ''pub'',
      iq_resources = [lit ''article''], iq_max_units = 50, iq_request_id = lit ''r1'', iq_ttl = 300\<rparr>"
  by (simp add: issue_args_def check_identifier_def check_integer_def demo_ids MAX_ITEMS_def MAX_TTL_def MAX_UNITS_def)

lemma demo_issued:
  obtains bid token s1 where
    "issue demo_env (PStr (lit ''alice'')) (PStr (lit ''pub'')) (PList [PStr (lit ''article'')]) (PInt 50)
       (PStr (lit ''r1'')) (PInt 300) (clearing_run demo_env demo_ops) = (Inr (bid, token), s1)"
    and "revoked_keys (cn_db s1) = []"
proof -
  let ?s = "clearing_run demo_env demo_ops"
  let ?q = "\<lparr>iq_buyer = lit ''alice'', iq_publisher = lit ''pub'',
      iq_resources = [lit ''article''], iq_max_units = 50, iq_request_id = lit ''r1'', iq_ttl = 300\<rparr>"
  have offs: "live_offers (cn_db ?s) 10 (iq_publisher ?q) (iq_resources ?q) = Inr [demo_offer]"
    by (simp add: demo_state live_offers_def find_offer_def demo_offer_def)
  have ready: "issuable demo_env ?q (be_clock demo_env (cn_ticks ?s)) (be_random demo_env (cn_draws ?s)) (cn_db ?s)"
    by (rule issue_ready [OF run_book_inv [of demo_env demo_ops] demo_honest demo_issue_args, of "[demo_offer]" demo_account])
       (use offs in \<open>simp_all add: demo_state demo_env_fields MAX_UNITS_def
          demo_offer_def demo_account_def is_identifier_def identifier_char_def\<close>)
  obtain v s1 where run: "issue demo_env (PStr (lit ''alice'')) (PStr (lit ''pub'')) (PList [PStr (lit ''article'')])
      (PInt 50) (PStr (lit ''r1'')) (PInt 300) ?s = (v, s1)" by fastforce
  note W = issue_ok_wp [OF run_book_inv [of demo_env demo_ops] demo_honest demo_issue_args _ _ ready]
  from W run demo_state obtain bid token where "v = Inr (bid, token)" "revoked_keys (cn_db s1) = []"
    by (cases v) (auto simp: wp_def db_issue_def)
  with run that show ?thesis by blast
qed

theorem issue_retry_witness:
  "\<exists>bid token s1. issue demo_env (PStr (lit ''alice'')) (PStr (lit ''pub'')) (PList [PStr (lit ''article'')]) (PInt 50)
       (PStr (lit ''r1'')) (PInt 300) (clearing_run demo_env demo_ops) = (Inr (bid, token), s1)
     \<and> issue demo_env (PStr (lit ''alice'')) (PStr (lit ''pub'')) (PList [PStr (lit ''article'')]) (PInt 50)
       (PStr (lit ''r1'')) (PInt 300) s1 = (Inr (bid, token), s1)"
proof (rule demo_issued)
  fix bid token s1
  assume "issue demo_env (PStr (lit ''alice'')) (PStr (lit ''pub'')) (PList [PStr (lit ''article'')]) (PInt 50)
       (PStr (lit ''r1'')) (PInt 300) (clearing_run demo_env demo_ops) = (Inr (bid, token), s1)"
    and "revoked_keys (cn_db s1) = []"
  with issue_retry [OF this(1), of "[]"] show ?thesis by auto
qed

text \<open>The history in which the purchase above has been made.\<close>

definition demo_sold :: "book_op list" where
  "demo_sold = demo_ops @ [Purchase (PStr (lit ''article'')) (PStr (lit ''alice'')) (PStr (lit ''pub''))
     (PStr demo_hash) (PStr demo_hash) (PInt 50) (PStr (lit ''r1''))]"

lemma demo_sold_db:
  obtains b its r rc y where "bk_buyer b = lit ''alice''" and "bk_id b = [98]"
    and "rd_request r = (lit ''alice'', lit ''r1'')" and "rd_receipt r = dumps_sorted rc"
    and "rd_request_hash r = redeem_hash \<lparr>rq_book = [98], rq_resource = lit ''article'', rq_buyer = lit ''alice'',
      rq_publisher = lit ''pub'', rq_content = demo_hash, rq_terms = demo_hash, rq_request_id = lit ''r1''\<rparr>"
    and "rc = receipt_dict (be_random demo_env y) \<lparr>rq_book = [98], rq_resource = lit ''article'',
      rq_buyer = lit ''alice'', rq_publisher = lit ''pub'', rq_content = demo_hash, rq_terms = demo_hash,
      rq_request_id = lit ''r1''\<rparr> 5 10"
    and "cn_db (clearing_run demo_env demo_sold) = db_spend r (db_activate [98] (db_issue b its
      (cn_db (clearing_run demo_env demo_ops))))"
proof -
  let ?s = "clearing_run demo_env demo_ops"
  let ?buy = "purchase demo_env (PStr (lit ''article'')) (PStr (lit ''alice'')) (PStr (lit ''pub''))
     (PStr demo_hash) (PStr demo_hash) (PInt 50) (PStr (lit ''r1''))"
  have names: "of_resource demo_offer = lit ''article''" "ac_buyer demo_account = lit ''alice''"
    "of_publisher demo_offer = lit ''pub''" "of_content demo_offer = demo_hash" "of_terms demo_offer = demo_hash"
    "of_units demo_offer = 5" "be_random demo_env (cn_draws ?s) = [98]" "be_clock demo_env n = 10" for n
    by (simp_all add: demo_offer_def demo_account_def demo_state demo_env_fields)
  note W = purchase_ok [OF run_book_inv demo_honest demo_jwt_law demo_purchasable, unfolded names]
  obtain v s' where run: "?buy ?s = (v, s')" by fastforce
  with W obtain bid token rc where v: "v = Inr (bid, token, rc)"
    by (cases v) (auto simp: wp_def)
  have "cn_db (clearing_run demo_env demo_sold) = cn_db s'"
    using run by (simp add: demo_sold_def run_ops_append act_map_def bind_act_def ret_def v)
  with wp_Inr [OF W run [unfolded v]] that show ?thesis unfolding prod.case by (elim conjE exE) metis
qed

lemma demo_redeem_args: "redeem_args (PStr [98]) (PStr (lit ''article'')) (PStr (lit ''alice'')) (PStr (lit ''pub''))
    (PStr demo_hash) (PStr demo_hash) (PStr (lit ''r1'')) = Inr \<lparr>rq_book = [98], rq_resource = lit ''article'',
      rq_buyer = lit ''alice'', rq_publisher = lit ''pub'', rq_content = demo_hash, rq_terms = demo_hash,
      rq_request_id = lit ''r1''\<rparr>"
  by (simp add: redeem_args_def check_identifier_def check_commitment_def demo_ids)
     (simp add: is_identifier_def identifier_char_def)

lemma demo_plain: "\<forall>n. plain (be_random demo_env n)"
  by (simp add: demo_env_fields plain_def)

theorem redeem_retry_witness:
  "\<exists>v. redeem demo_env (PStr [98]) (PStr (lit ''article'')) (PStr (lit ''alice'')) (PStr (lit ''pub''))
       (PStr demo_hash) (PStr demo_hash) (PStr (lit ''r1'')) (clearing_run demo_env (demo_sold @ [RevokeKey]))
     = (Inr v, clearing_run demo_env (demo_sold @ [RevokeKey]))"
proof (rule demo_sold_db)
  fix b its r rc y
  let ?q = "\<lparr>rq_book = [98], rq_resource = lit ''article'', rq_buyer = lit ''alice'', rq_publisher = lit ''pub'',
      rq_content = demo_hash, rq_terms = demo_hash, rq_request_id = lit ''r1''\<rparr>"
  assume r: "rd_request r = (lit ''alice'', lit ''r1'')" "rd_receipt r = dumps_sorted rc"
    "rd_request_hash r = redeem_hash ?q" and rc: "rc = receipt_dict (be_random demo_env y) ?q 5 10"
    and db: "cn_db (clearing_run demo_env demo_sold) = db_spend r (db_activate [98] (db_issue b its
      (cn_db (clearing_run demo_env demo_ops))))"
  have "json_ok rc"
    unfolding rc using redeem_args_ok [OF demo_redeem_args] demo_plain by (intro json_ok_receipt_dict) simp_all
  then have "loads (rd_receipt r) = Some (sort_keys rc)" unfolding r(2) by (rule loads_dumps)
  moreover have "r \<in> set (redemptions (cn_db (clearing_run demo_env demo_sold)))" unfolding db by (simp add: db_spend_def)
  ultimately have "redeem demo_env (PStr [98]) (PStr (lit ''article'')) (PStr (lit ''alice'')) (PStr (lit ''pub''))
       (PStr demo_hash) (PStr demo_hash) (PStr (lit ''r1'')) (clearing_run demo_env demo_sold)
     = (Inr (sort_keys rc), clearing_run demo_env demo_sold)"
    using redeem_replay [OF run_book_inv demo_redeem_args] r by simp
  from redeem_retry [OF demo_plain this, of "[RevokeKey]"] show ?thesis by (auto simp: run_ops_append)
qed

lemma release_known:
  assumes inv: "book_inv (cn_db s)" and b: "b \<in> set (books (cn_db s))" "bk_id b = bid" "bk_buyer b = buyer"
    and ids: "is_identifier bid" "is_identifier buyer"
  shows "\<exists>u s'. release (PStr bid) (PStr buyer) s = (Inr u, s')"
proof -
  have "find (\<lambda>b. bk_id b = bid \<and> bk_buyer b = buyer) (books (cn_db s)) \<noteq> None"
    using b by (auto simp: find_map_None)
  then have "wp (release_tx bid buyer) (\<lambda>_ _. True) (\<lambda>e s'. e \<noteq> Denied ''unknown book'') (s\<lparr>cn_saved := y\<rparr>)" for y
    by (auto simp: release_tx_def run_simps Let_def update_accounts_def update_books_def check_constraint_def)
  moreover have "wp (release_tx bid buyer) (\<lambda>_ _. True) (\<lambda>e s'. e = Denied ''unknown book'') (s\<lparr>cn_saved := y\<rparr>)" for y
    by (rule wp_mono [OF release_tx_spec]) (simp_all add: inv)
  ultimately have "wp (release_tx bid buyer) (\<lambda>_ _. True) (\<lambda>e s'. False) (s\<lparr>cn_saved := y\<rparr>)" for y
    by (rule wp_mono [OF wp_conj]) simp_all
  then have "wp (transaction (release_tx bid buyer)) (\<lambda>_ _. True) (\<lambda>e s'. False) s" by (rule wp_saved) simp_all
  then have "wp (release (PStr bid) (PStr buyer)) (\<lambda>_ _. True) (\<lambda>e s'. False) s"
    using ids by (simp add: release_def wp_bind wp_lift check_identifier_def)
  then show ?thesis by (auto simp: wp_def split: prod.splits sum.splits)
qed

theorem release_final_witness:
  "\<exists>u s1. release (PStr [98]) (PStr (lit ''alice'')) (clearing_run demo_env demo_sold) = (Inr u, s1)
     \<and> release (PStr [98]) (PStr (lit ''alice'')) s1 = (Inr 0, s1)"
proof (rule demo_sold_db)
  fix b its r
  assume b: "bk_buyer b = lit ''alice''" "bk_id b = [98]"
    and db: "cn_db (clearing_run demo_env demo_sold) = db_spend r (db_activate [98] (db_issue b its
      (cn_db (clearing_run demo_env demo_ops))))"
  let ?s = "clearing_run demo_env demo_sold"
  obtain x where "x \<in> set (books (cn_db ?s))" "bk_id x = [98]" "bk_buyer x = lit ''alice''"
    unfolding db by (simp add: db_spend_def db_activate_def db_issue_def demo_state update_rows_def b)
  moreover have "is_identifier [98]" by (simp add: is_identifier_def identifier_char_def)
  ultimately obtain u s1 where "release (PStr [98]) (PStr (lit ''alice'')) ?s = (Inr u, s1)"
    using release_known [OF run_book_inv, of _ demo_env demo_sold] demo_ids by blast
  with release_final [OF this, of "[]"] show ?thesis by auto
qed

theorem revocation_final_witness:
  "redemptions (cn_db (clearing_run demo_env [RevokeKey, Audit])) = []"
proof -
  have "KEY_ID \<in> set (revoked_keys (cn_db (clearing_run demo_env [RevokeKey])))"
    and "redemptions (cn_db (clearing_run demo_env [RevokeKey])) = []"
    by (simp_all add: act_map_def revoke_key_def bind_act_def ret_def execute_def insert_revoked_def init_conn_def
        empty_book_db_def)
  with revocation_final [of demo_env "[RevokeKey]" "[Audit]"] show ?thesis by (simp add: Let_def del: run_ops_simps)
qed

theorem integrity_errors_witness:
  "\<exists>s'. book_step demo_env (Seed (PStr (lit ''alice'')) (PInt 7)) (clearing_run demo_env demo_ops)
     = (Inl (IntegrityError ''constraint failed''), s')
     \<and> ((\<exists>b u. Seed (PStr (lit ''alice'')) (PInt 7) = Seed b u)
        \<or> be_random demo_env (cn_draws (clearing_run demo_env demo_ops))
            \<in> set (map bk_id (books (cn_db (clearing_run demo_env demo_ops)))))"
proof -
  obtain s' where "book_step demo_env (Seed (PStr (lit ''alice'')) (PInt 7)) (clearing_run demo_env demo_ops)
     = (Inl (IntegrityError ''constraint failed''), s')"
    by (simp add: act_map_def bind_act_def lift_res_def seed_simulated_balance_def check_identifier_def demo_ids
        check_integer_def MAX_UNITS_def execute_def insert_account_def demo_state demo_account_def)
  with integrity_errors [OF this] show ?thesis by auto
qed

end
