(* ===== verification/LedgerBook.thy ===== *)
theory LedgerBook
  imports Txn Jws
begin

text \<open>
  \<open>examples/http_access/ledger.py\<close>: the online ledger behind the two HTTP roles. It issues
  batches of books, whose tokens are signed outside the write transaction, spends from a book or
  directly from a balance, cancels books one at a time or many at once, and audits itself.

  The catalogue, the clock, the random identifiers and the signing keys are the environment; the
  keys are an object with a state of its own, carried by the connection (\<open>Keys\<close> of
  \<open>signing.py\<close> is the theory \<open>Signing\<close>). Timings are not modelled here, and the connection
  pool is the theory \<open>LedgerPool\<close>: a borrowed connection runs one transaction.
\<close>

section \<open>Validation\<close>

definition lg_char :: "nat \<Rightarrow> bool" where
  "lg_char c \<longleftrightarrow> (97 \<le> c \<and> c \<le> 122) \<or> (65 \<le> c \<and> c \<le> 90) \<or> (48 \<le> c \<and> c \<le> 57)
     \<or> c = 46 \<or> c = 95 \<or> c = 45"

definition is_name :: "ustr \<Rightarrow> bool" where
  "is_name s \<longleftrightarrow> (\<forall>c \<in> set s. lg_char c) \<and> 1 \<le> length s \<and> length s \<le> 96"

definition check_name :: "pyval \<Rightarrow> ustr result" where
  "check_name v = (case as_str v of
     None \<Rightarrow> Inl (Denied ''invalid identifier'')
   | Some s \<Rightarrow> if is_name s then Inr s else Inl (Denied ''invalid identifier''))"

definition check_range :: "pyval \<Rightarrow> int \<Rightarrow> int \<Rightarrow> int result" where
  "check_range v low high = (case as_int v of
     None \<Rightarrow> Inl (Denied ''invalid integer'')
   | Some n \<Rightarrow> if low \<le> n \<and> n \<le> high then Inr n else Inl (Denied ''invalid integer''))"

definition lg_digest :: "pyval \<Rightarrow> ustr" where
  "lg_digest v = sha256_hex (ascii_encode (dumps_sorted v))"

lemma check_name_Inr_iff: "check_name v = Inr s \<longleftrightarrow> v = PStr s \<and> is_name s"
  by (cases v) (auto simp: check_name_def)

lemma check_range_Inr_iff: "check_range v lo hi = Inr n \<longleftrightarrow> v = PInt n \<and> lo \<le> n \<and> n \<le> hi"
  by (cases v) (auto simp: check_range_def)

section \<open>Tables and environment\<close>

record lg_offer =
  lo_content :: ustr
  lo_terms :: ustr
  lo_units :: int

record lg_account =
  la_buyer :: ustr
  la_initial :: int
  la_available :: int
  la_reserved :: int
  la_spent :: int

record lg_book =
  lb_id :: ustr
  lb_buyer :: ustr
  lb_kid :: ustr
  lb_token :: ustr
  lb_issued :: int
  lb_expires :: int
  lb_remaining :: int
  lb_closed :: bool

record lg_item =
  li_book :: ustr
  li_resource :: ustr
  li_content :: ustr
  li_terms :: ustr
  li_units :: int

text \<open>A row of \<open>issues\<close> or \<open>cancellations\<close>, and what the look-up of a retry reads of \<open>receipts\<close>.\<close>

record lg_row =
  lr_buyer :: ustr
  lr_request_id :: ustr
  lr_fingerprint :: ustr
  lr_response :: ustr

record lg_receipt = lg_row +
  lc_book :: "ustr option"
  lc_resource :: ustr
  lc_units :: int

record ledger_db =
  lg_accounts :: "lg_account list"
  lg_books :: "lg_book list"
  lg_items :: "lg_item list"
  lg_issues :: "lg_row list"
  lg_receipts :: "lg_receipt list"
  lg_revoked :: "ustr list"
  lg_cancellations :: "lg_row list"
  lg_accrued :: int

definition empty_ledger_db :: ledger_db where
  "empty_ledger_db = \<lparr>lg_accounts = [], lg_books = [], lg_items = [], lg_issues = [], lg_receipts = [],
     lg_revoked = [], lg_cancellations = [], lg_accrued = 0\<rparr>"

type_synonym manifest = "(ustr \<times> lg_offer) list"

record 'k ledger_env =
  le_catalog :: "(ustr \<times> lg_offer) list"
  le_clock :: "nat \<Rightarrow> int"
  le_random :: "nat \<Rightarrow> ustr"
  le_sign :: "pyval list \<Rightarrow> 'k \<Rightarrow> (ustr \<times> ustr list) result \<times> 'k"

record 'k ledger_conn = "ledger_db conn" +
  lg_keys :: 'k

type_synonym ('k, 'a) lg_act = "'k ledger_conn \<Rightarrow> 'a result \<times> 'k ledger_conn"

definition keys_sign :: "'k ledger_env \<Rightarrow> pyval list \<Rightarrow> ('k, ustr \<times> ustr list) lg_act" where
  "keys_sign env claims s = (case le_sign env claims (lg_keys s) of (r, k) \<Rightarrow> (r, s\<lparr>lg_keys := k\<rparr>))"

fun draws :: "(nat \<Rightarrow> ustr) \<Rightarrow> nat \<Rightarrow> ('db, 'z, ustr list) act" where
  "draws random 0 = ret []"
| "draws random (Suc n) =
     bind_act (draw random) (\<lambda>x. bind_act (draws random n) (\<lambda>xs. ret (x # xs)))"

section \<open>Statements\<close>

definition lg_account_ok :: "lg_account \<Rightarrow> bool" where
  "lg_account_ok a \<longleftrightarrow> la_initial a = la_available a + la_reserved a + la_spent a
     \<and> 0 \<le> la_available a \<and> 0 \<le> la_reserved a \<and> 0 \<le> la_spent a"

definition lg_insert_account :: "lg_account \<Rightarrow> ledger_db \<Rightarrow> ledger_db result" where
  "lg_insert_account a d = check_constraint
     (la_buyer a \<notin> set (map la_buyer (lg_accounts d)) \<and> lg_account_ok a)
     (d\<lparr>lg_accounts := lg_accounts d @ [a]\<rparr>)"

definition lg_update_accounts ::
    "(lg_account \<Rightarrow> bool) \<Rightarrow> (lg_account \<Rightarrow> lg_account) \<Rightarrow> ledger_db \<Rightarrow> ledger_db result" where
  "lg_update_accounts P g d = check_constraint (\<forall>a \<in> set (lg_accounts d). P a \<longrightarrow> lg_account_ok (g a))
     (d\<lparr>lg_accounts := update_rows P g (lg_accounts d)\<rparr>)"

definition lg_update_books ::
    "(lg_book \<Rightarrow> bool) \<Rightarrow> (lg_book \<Rightarrow> lg_book) \<Rightarrow> ledger_db \<Rightarrow> ledger_db result" where
  "lg_update_books P g d = check_constraint (\<forall>b \<in> set (lg_books d). P b \<longrightarrow> 0 \<le> lb_remaining (g b))
     (d\<lparr>lg_books := update_rows P g (lg_books d)\<rparr>)"

definition lg_insert_book :: "lg_book \<Rightarrow> ledger_db \<Rightarrow> ledger_db result" where
  "lg_insert_book b d = check_constraint
     (lb_id b \<notin> set (map lb_id (lg_books d)) \<and> lb_buyer b \<in> set (map la_buyer (lg_accounts d))
      \<and> 0 \<le> lb_remaining b)
     (d\<lparr>lg_books := lg_books d @ [b]\<rparr>)"

definition li_key :: "lg_item \<Rightarrow> ustr \<times> ustr" where
  "li_key i = (li_book i, li_resource i)"

definition lg_insert_items :: "lg_item list \<Rightarrow> ledger_db \<Rightarrow> ledger_db result" where
  "lg_insert_items new d = check_constraint
     (distinct (map li_key new) \<and> set (map li_key new) \<inter> set (map li_key (lg_items d)) = {}
      \<and> (\<forall>i \<in> set new. li_book i \<in> set (map lb_id (lg_books d))))
     (d\<lparr>lg_items := lg_items d @ new\<rparr>)"

definition lr_key :: "'z lg_row_scheme \<Rightarrow> ustr \<times> ustr" where
  "lr_key r = (lr_buyer r, lr_request_id r)"

definition lg_insert_issue :: "lg_row \<Rightarrow> ledger_db \<Rightarrow> ledger_db result" where
  "lg_insert_issue r d = check_constraint (lr_key r \<notin> set (map lr_key (lg_issues d)))
     (d\<lparr>lg_issues := lg_issues d @ [r]\<rparr>)"

definition lg_insert_cancellation :: "lg_row \<Rightarrow> ledger_db \<Rightarrow> ledger_db result" where
  "lg_insert_cancellation r d = check_constraint
     (lr_key r \<notin> set (map lr_key (lg_cancellations d)) \<and> lr_buyer r \<in> set (map la_buyer (lg_accounts d)))
     (d\<lparr>lg_cancellations := lg_cancellations d @ [r]\<rparr>)"

text \<open>\<open>UNIQUE(book,resource)\<close> does not count rows whose book is \<open>NULL\<close>.\<close>

definition lc_key :: "lg_receipt \<Rightarrow> (ustr \<times> ustr) option" where
  "lc_key r = map_option (\<lambda>b. (b, lc_resource r)) (lc_book r)"

definition lg_insert_receipt :: "lg_receipt \<Rightarrow> ledger_db \<Rightarrow> ledger_db result" where
  "lg_insert_receipt r d = check_constraint
     (lr_key r \<notin> set (map lr_key (lg_receipts d)) \<and> lr_buyer r \<in> set (map la_buyer (lg_accounts d))
      \<and> (lc_key r \<noteq> None \<longrightarrow> lc_key r \<notin> set (map lc_key (lg_receipts d))))
     (d\<lparr>lg_receipts := lg_receipts d @ [r]\<rparr>)"

definition lg_add_accrued :: "int \<Rightarrow> ledger_db \<Rightarrow> ledger_db result" where
  "lg_add_accrued n d = check_constraint (0 \<le> lg_accrued d + n) (d\<lparr>lg_accrued := lg_accrued d + n\<rparr>)"

definition lg_insert_revoked :: "ustr \<Rightarrow> ledger_db \<Rightarrow> ledger_db result" where
  "lg_insert_revoked kid d = Inr (if kid \<in> set (lg_revoked d) then d
     else d\<lparr>lg_revoked := lg_revoked d @ [kid]\<rparr>)"

section \<open>Funding, offers and retries\<close>

definition lg_seed :: "pyval \<Rightarrow> pyval \<Rightarrow> ('k, unit) lg_act" where
  "lg_seed buyer units =
     bind_act (lift_res (bind_res (check_name buyer) (\<lambda>b.
                bind_res (check_range units 1 (10 ^ 12)) (\<lambda>n. Inr (b, n)))))
       (\<lambda>(b, n). transaction (execute (lg_insert_account \<lparr>la_buyer = b, la_initial = n,
          la_available = n, la_reserved = 0, la_spent = 0\<rparr>)))"

definition lg_offer_of :: "(ustr \<times> lg_offer) list \<Rightarrow> pyval \<Rightarrow> lg_offer result" where
  "lg_offer_of catalog resource = bind_res (check_name resource) (\<lambda>r.
     case map_of catalog r of None \<Rightarrow> Inl (Denied ''unknown content'') | Some x \<Rightarrow> Inr x)"

definition stored_json :: "ustr \<Rightarrow> pyval result" where
  "stored_json t = (case loads t of Some v \<Rightarrow> Inr v | None \<Rightarrow> Inl (ValueError ''invalid JSON''))"

definition lg_prior :: "(ledger_db \<Rightarrow> 'z lg_row_scheme list) \<Rightarrow> ustr \<Rightarrow> ustr \<Rightarrow> ustr \<Rightarrow> ('k, pyval) lg_act" where
  "lg_prior table buyer request_id fp =
     bind_act (query (\<lambda>d. find (\<lambda>r. lr_buyer r = buyer \<and> lr_request_id r = request_id) (table d))) (\<lambda>row.
       case row of
         None \<Rightarrow> ret PNone
       | Some r \<Rightarrow>
           if lr_fingerprint r \<noteq> fp then raise (Denied ''retry conflict'')
           else lift_res (stored_json (lr_response r)))"

section \<open>Issuing\<close>

record lg_request =
  ri_buyer :: ustr
  ri_request :: ustr
  ri_manifests :: "manifest list"
  ri_max_units :: int
  ri_ttl :: int
  ri_fp :: ustr

text \<open>The loop over the requested books; the number of items so far accumulates.\<close>

fun lg_groups :: "(ustr \<times> lg_offer) list \<Rightarrow> nat \<Rightarrow> pyval list \<Rightarrow> manifest list result" where
  "lg_groups catalog n [] = Inr []"
| "lg_groups catalog n (g # gs) =
     (case as_list g of
        None \<Rightarrow> Inl (Denied ''invalid book'')
      | Some rs \<Rightarrow>
          if \<not> (1 \<le> length rs \<and> length rs \<le> 32) then Inl (Denied ''invalid book'')
          else if 2048 < n + length rs then Inl (Denied ''ready batch has too many manifest items'')
          else bind_res (map_res check_name rs) (\<lambda>names.
            if \<not> distinct (sort names) then Inl (Denied ''duplicate resource'')
            else bind_res (map_res (\<lambda>r. bind_res (lg_offer_of catalog (PStr r)) (\<lambda>x. Inr (r, x))) (sort names))
              (\<lambda>m. bind_res (lg_groups catalog (n + length rs) gs) (\<lambda>ms. Inr (m # ms)))))"

definition lg_issue_args ::
    "(ustr \<times> lg_offer) list \<Rightarrow> pyval \<Rightarrow> pyval \<Rightarrow> pyval \<Rightarrow> pyval \<Rightarrow> pyval \<Rightarrow> lg_request result" where
  "lg_issue_args catalog buyer request_id books max_units ttl =
     bind_res (check_name buyer) (\<lambda>b.
     bind_res (check_name request_id) (\<lambda>q.
     bind_res (check_range max_units 1 (10 ^ 12)) (\<lambda>m.
     bind_res (check_range ttl 1 300) (\<lambda>t.
       case as_list books of
         None \<Rightarrow> Inl (Denied ''invalid ready batch'')
       | Some gs \<Rightarrow>
           if \<not> (1 \<le> length gs \<and> length gs \<le> 256) then Inl (Denied ''invalid ready batch'')
           else bind_res (lg_groups catalog 0 gs) (\<lambda>ms.
             Inr \<lparr>ri_buyer = b, ri_request = q, ri_manifests = ms, ri_max_units = m, ri_ttl = t,
               ri_fp = lg_digest (PList [books, max_units, ttl])\<rparr>)))))"

definition manifest_units :: "manifest \<Rightarrow> int" where
  "manifest_units m = sum_list (map (\<lambda>(r, x). lo_units x) m)"

definition manifest_value :: "manifest \<Rightarrow> pyval" where
  "manifest_value m = PList (map (\<lambda>(r, x). PDict [(lit ''resource'', PStr r), (lit ''content'', PStr (lo_content x)),
     (lit ''terms'', PStr (lo_terms x)), (lit ''units'', PInt (lo_units x))]) m)"

definition lg_claims :: "lg_request \<Rightarrow> int \<Rightarrow> ustr \<Rightarrow> manifest \<Rightarrow> pyval" where
  "lg_claims q now bid m =
     PDict [(lit ''iss'', PStr (lit ''local-reference'')), (lit ''aud'', PStr (lit ''publisher'')),
       (lit ''sub'', PStr (ri_buyer q)), (lit ''iat'', PInt now), (lit ''exp'', PInt (now + ri_ttl q)),
       (lit ''jti'', PStr bid), (lit ''scope'', PStr (lit ''content:read'')),
       (lit ''profile'', PStr (lit ''local-http-v1'')),
       (lit ''manifest_sha256'', PStr (lg_digest (manifest_value m)))]"

definition lg_response :: "(ustr \<times> ustr \<times> manifest) list \<Rightarrow> pyval" where
  "lg_response bs = PList (map (\<lambda>(bid, token, m). PDict [(lit ''book'', PStr bid), (lit ''token'', PStr token),
     (lit ''manifest'', manifest_value m)]) bs)"

definition lg_new_book :: "lg_request \<Rightarrow> int \<Rightarrow> ustr \<Rightarrow> ustr \<times> ustr \<times> manifest \<Rightarrow> lg_book" where
  "lg_new_book q now kid = (\<lambda>(bid, token, m). \<lparr>lb_id = bid, lb_buyer = ri_buyer q, lb_kid = kid, lb_token = token,
     lb_issued = now, lb_expires = now + ri_ttl q, lb_remaining = manifest_units m, lb_closed = False\<rparr>)"

definition lg_new_items :: "ustr \<times> ustr \<times> manifest \<Rightarrow> lg_item list" where
  "lg_new_items = (\<lambda>(bid, token, m). map (\<lambda>(r, x). \<lparr>li_book = bid, li_resource = r, li_content = lo_content x,
     li_terms = lo_terms x, li_units = lo_units x\<rparr>) m)"

fun lg_insert_books :: "lg_request \<Rightarrow> int \<Rightarrow> ustr \<Rightarrow> (ustr \<times> ustr \<times> manifest) list \<Rightarrow> ('k, unit) lg_act" where
  "lg_insert_books q now kid [] = ret ()"
| "lg_insert_books q now kid (b # bs) =
     bind_act (execute (lg_insert_book (lg_new_book q now kid b))) (\<lambda>_.
     bind_act (execute (lg_insert_items (lg_new_items b))) (\<lambda>_.
       lg_insert_books q now kid bs))"

text \<open>An update that moves units of one buyer, with the number of rows it changes.\<close>

definition lg_move ::
    "ustr \<Rightarrow> (lg_account \<Rightarrow> bool) \<Rightarrow> (lg_account \<Rightarrow> lg_account) \<Rightarrow> ('k, nat) lg_act" where
  "lg_move buyer P g =
     bind_act (query (\<lambda>d. length (filter (\<lambda>a. la_buyer a = buyer \<and> P a) (lg_accounts d)))) (\<lambda>rowcount.
     bind_act (execute (lg_update_accounts (\<lambda>a. la_buyer a = buyer \<and> P a) g)) (\<lambda>_. ret rowcount))"

definition lg_issue_tx ::
    "'k ledger_env \<Rightarrow> lg_request \<Rightarrow> int \<Rightarrow> ustr \<Rightarrow> (ustr \<times> ustr \<times> manifest) list \<Rightarrow> ('k, pyval) lg_act" where
  "lg_issue_tx env q now kid bs =
     bind_act (lg_prior lg_issues (ri_buyer q) (ri_request q) (ri_fp q)) (\<lambda>prior.
       if prior \<noteq> PNone then ret prior
       else
         bind_act (read_clock (le_clock env)) (\<lambda>t.
         bind_act (guard (now \<le> t \<and> t < now + ri_ttl q) (Denied ''expired during preparation'')) (\<lambda>_.
         bind_act (query lg_revoked) (\<lambda>ks.
         bind_act (guard (kid \<notin> set ks) (Denied ''key revoked during preparation'')) (\<lambda>_.
           let total = sum_list (map manifest_units (ri_manifests q)) in
           bind_act (lg_move (ri_buyer q) (\<lambda>a. total \<le> la_available a)
             (\<lambda>a. a\<lparr>la_available := la_available a - total, la_reserved := la_reserved a + total\<rparr>)) (\<lambda>changed.
           bind_act (guard (changed = 1) (Denied ''insufficient simulated balance'')) (\<lambda>_.
           bind_act (lg_insert_books q now kid bs) (\<lambda>_.
           bind_act (execute (lg_insert_issue \<lparr>lr_buyer = ri_buyer q, lr_request_id = ri_request q,
               lr_fingerprint = ri_fp q, lr_response = dumps_sorted (lg_response bs)\<rparr>)) (\<lambda>_.
             ret (lg_response bs))))))))))"

definition lg_prepare :: "'k ledger_env \<Rightarrow> lg_request \<Rightarrow> ('k, pyval) lg_act" where
  "lg_prepare env q =
     bind_act (guard (sum_list (map manifest_units (ri_manifests q)) \<le> ri_max_units q)
       (Denied ''budget exceeded'')) (\<lambda>_.
     bind_act (read_clock (le_clock env)) (\<lambda>now.
     bind_act (draws (le_random env) (length (ri_manifests q))) (\<lambda>ids.
     bind_act (keys_sign env (map2 (lg_claims q now) ids (ri_manifests q))) (\<lambda>(kid, tokens).
       transaction (lg_issue_tx env q now kid (zip ids (zip tokens (ri_manifests q))))))))"

definition lg_issue ::
    "'k ledger_env \<Rightarrow> pyval \<Rightarrow> pyval \<Rightarrow> pyval \<Rightarrow> pyval \<Rightarrow> pyval \<Rightarrow> ('k, pyval) lg_act" where
  "lg_issue env buyer request_id books max_units ttl =
     bind_act (lift_res (lg_issue_args (le_catalog env) buyer request_id books max_units ttl)) (\<lambda>q.
     bind_act (transaction (lg_prior lg_issues (ri_buyer q) (ri_request q) (ri_fp q))) (\<lambda>prior.
       if prior \<noteq> PNone then ret prior else lg_prepare env q))"

section \<open>Spending\<close>

record lg_spend_request =
  sq_buyer :: ustr
  sq_request :: ustr
  sq_resource :: ustr
  sq_max_units :: int
  sq_book :: "ustr option"
  sq_token :: pyval
  sq_offer :: lg_offer
  sq_fp :: ustr

definition lg_book_arg :: "pyval \<Rightarrow> ustr option result" where
  "lg_book_arg book = (if book = PNone then Inr None else bind_res (check_name book) (\<lambda>b. Inr (Some b)))"

definition lg_spend_args ::
    "(ustr \<times> lg_offer) list \<Rightarrow> pyval \<Rightarrow> pyval \<Rightarrow> pyval \<Rightarrow> pyval \<Rightarrow> pyval \<Rightarrow> pyval \<Rightarrow> pyval \<Rightarrow> pyval
      \<Rightarrow> lg_spend_request result" where
  "lg_spend_args catalog buyer request_id resource content terms max_units book token =
     bind_res (check_name buyer) (\<lambda>b.
     bind_res (check_name request_id) (\<lambda>q.
     bind_res (check_name resource) (\<lambda>r.
     bind_res (check_range max_units 1 (10 ^ 12)) (\<lambda>m.
     bind_res (lg_book_arg book) (\<lambda>bk.
     bind_res (lg_offer_of catalog resource) (\<lambda>x.
       if content \<noteq> PStr (lo_content x) \<or> terms \<noteq> PStr (lo_terms x)
       then Inl (Denied ''content or terms mismatch'')
       else Inr \<lparr>sq_buyer = b, sq_request = q, sq_resource = r, sq_max_units = m, sq_book = bk,
         sq_token = token, sq_offer = x,
         sq_fp = lg_digest (PList [book, resource, content, terms, max_units])\<rparr>))))))"

text \<open>The two ways to pay: from a book, or from the available balance.\<close>

definition lg_pay_book :: "'k ledger_env \<Rightarrow> lg_spend_request \<Rightarrow> ustr \<Rightarrow> ('k, unit) lg_act" where
  "lg_pay_book env q bid =
     (let units = lo_units (sq_offer q) in
     bind_act (query (\<lambda>d. find (\<lambda>b. lb_id b = bid \<and> lb_buyer b = sq_buyer q) (lg_books d))) (\<lambda>row.
       case row of
         None \<Rightarrow> raise (Denied ''book unavailable'')
       | Some b \<Rightarrow>
           bind_act (guard (sq_token q = PStr (lb_token b) \<and> \<not> lb_closed b) (Denied ''book unavailable'')) (\<lambda>_.
           bind_act (read_clock (le_clock env)) (\<lambda>t.
           bind_act (guard (lb_issued b \<le> t \<and> t < lb_expires b) (Denied ''book expired'')) (\<lambda>_.
           bind_act (query lg_revoked) (\<lambda>ks.
           bind_act (guard (lb_kid b \<notin> set ks) (Denied ''key revoked'')) (\<lambda>_.
           bind_act (query (\<lambda>d. find (\<lambda>i. li_key i = (bid, sq_resource q)) (lg_items d))) (\<lambda>found.
             case found of
               None \<Rightarrow> raise (Denied ''wrong book scope'')
             | Some i \<Rightarrow>
                 bind_act (guard (li_content i = lo_content (sq_offer q) \<and> li_terms i = lo_terms (sq_offer q)
                   \<and> li_units i = units) (Denied ''wrong book scope'')) (\<lambda>_.
                 bind_act (query lg_receipts) (\<lambda>rs.
                 bind_act (guard (Some (bid, sq_resource q) \<notin> set (map lc_key rs)) (Denied ''already redeemed'')) (\<lambda>_.
                 bind_act (execute (lg_update_books (\<lambda>x. lb_id x = bid)
                   (\<lambda>x. x\<lparr>lb_remaining := lb_remaining x - units\<rparr>))) (\<lambda>_.
                   execute (lg_update_accounts (\<lambda>a. la_buyer a = sq_buyer q)
                     (\<lambda>a. a\<lparr>la_reserved := la_reserved a - units, la_spent := la_spent a + units\<rparr>))))))))))))))"

definition lg_pay_direct :: "lg_spend_request \<Rightarrow> ('k, unit) lg_act" where
  "lg_pay_direct q =
     (let units = lo_units (sq_offer q) in
     bind_act (lg_move (sq_buyer q) (\<lambda>a. units \<le> la_available a)
       (\<lambda>a. a\<lparr>la_available := la_available a - units, la_spent := la_spent a + units\<rparr>)) (\<lambda>changed.
       guard (changed = 1) (Denied ''insufficient simulated balance'')))"

definition lg_receipt_value :: "lg_spend_request \<Rightarrow> ustr \<Rightarrow> int \<Rightarrow> pyval" where
  "lg_receipt_value q rid t =
     PDict [(lit ''id'', PStr rid), (lit ''buyer'', PStr (sq_buyer q)), (lit ''publisher'', PStr (lit ''publisher'')),
       (lit ''book'', (case sq_book q of None \<Rightarrow> PNone | Some b \<Rightarrow> PStr b)),
       (lit ''resource'', PStr (sq_resource q)), (lit ''content'', PStr (lo_content (sq_offer q))),
       (lit ''terms'', PStr (lo_terms (sq_offer q))), (lit ''units'', PInt (lo_units (sq_offer q))),
       (lit ''committed_at'', PInt t)]"

definition lg_new_receipt :: "lg_spend_request \<Rightarrow> pyval \<Rightarrow> lg_receipt" where
  "lg_new_receipt q v = \<lparr>lr_buyer = sq_buyer q, lr_request_id = sq_request q, lr_fingerprint = sq_fp q,
     lr_response = dumps_sorted v, lc_book = sq_book q, lc_resource = sq_resource q,
     lc_units = lo_units (sq_offer q)\<rparr>"

definition lg_spend_tx :: "'k ledger_env \<Rightarrow> lg_spend_request \<Rightarrow> ('k, pyval) lg_act" where
  "lg_spend_tx env q =
     bind_act (lg_prior lg_receipts (sq_buyer q) (sq_request q) (sq_fp q)) (\<lambda>prior.
       if prior \<noteq> PNone then ret prior
       else
         bind_act (guard (lo_units (sq_offer q) \<le> sq_max_units q) (Denied ''budget exceeded'')) (\<lambda>_.
         bind_act (case sq_book q of Some b \<Rightarrow> lg_pay_book env q b | None \<Rightarrow> lg_pay_direct q) (\<lambda>_.
         bind_act (draw (le_random env)) (\<lambda>rid.
         bind_act (read_clock (le_clock env)) (\<lambda>t.
           let v = lg_receipt_value q rid t in
           bind_act (execute (lg_insert_receipt (lg_new_receipt q v))) (\<lambda>_.
           bind_act (execute (lg_add_accrued (lo_units (sq_offer q)))) (\<lambda>_. ret v)))))))"

definition lg_spend ::
    "'k ledger_env \<Rightarrow> pyval \<Rightarrow> pyval \<Rightarrow> pyval \<Rightarrow> pyval \<Rightarrow> pyval \<Rightarrow> pyval \<Rightarrow> pyval \<Rightarrow> pyval \<Rightarrow> ('k, pyval) lg_act" where
  "lg_spend env buyer request_id resource content terms max_units book token =
     bind_act (lift_res (lg_spend_args (le_catalog env) buyer request_id resource content terms max_units book
       token)) (\<lambda>q. transaction (lg_spend_tx env q))"

section \<open>Cancelling, revoking, auditing\<close>

definition released_value :: "int \<Rightarrow> pyval" where
  "released_value units = PDict [(lit ''released'', PInt units)]"

text \<open>\<open>UPDATE books SET remaining=0,closed=1\<close> for each of the identifiers.\<close>

fun lg_close_books :: "ustr list \<Rightarrow> ('k, unit) lg_act" where
  "lg_close_books [] = ret ()"
| "lg_close_books (bid # ids) =
     bind_act (execute (lg_update_books (\<lambda>b. lb_id b = bid) (\<lambda>b. b\<lparr>lb_remaining := 0, lb_closed := True\<rparr>)))
       (\<lambda>_. lg_close_books ids)"

definition lg_refund :: "ustr \<Rightarrow> int \<Rightarrow> ('k, unit) lg_act" where
  "lg_refund buyer units = execute (lg_update_accounts (\<lambda>a. la_buyer a = buyer)
     (\<lambda>a. a\<lparr>la_reserved := la_reserved a - units, la_available := la_available a + units\<rparr>))"

definition lg_cancel_tx :: "ustr \<Rightarrow> ustr \<Rightarrow> ('k, pyval) lg_act" where
  "lg_cancel_tx buyer bid =
     bind_act (query (\<lambda>d. find (\<lambda>b. lb_id b = bid \<and> lb_buyer b = buyer) (lg_books d))) (\<lambda>row.
       case row of
         None \<Rightarrow> raise (Denied ''unknown book'')
       | Some b \<Rightarrow>
           bind_act (lg_refund buyer (lb_remaining b)) (\<lambda>_.
           bind_act (lg_close_books [bid]) (\<lambda>_. ret (released_value (lb_remaining b)))))"

definition lg_cancel :: "ustr \<Rightarrow> pyval \<Rightarrow> ('k, pyval) lg_act" where
  "lg_cancel buyer book = bind_act (lift_res (check_name book)) (\<lambda>bid. transaction (lg_cancel_tx buyer bid))"

definition lg_cancel_args :: "pyval \<Rightarrow> pyval \<Rightarrow> pyval \<Rightarrow> (ustr \<times> ustr \<times> ustr list) result" where
  "lg_cancel_args buyer request_id books =
     bind_res (check_name buyer) (\<lambda>b.
     bind_res (check_name request_id) (\<lambda>q.
       case as_list books of
         None \<Rightarrow> Inl (Denied ''invalid cancellation batch'')
       | Some bs \<Rightarrow>
           if \<not> (1 \<le> length bs \<and> length bs \<le> 256) then Inl (Denied ''invalid cancellation batch'')
           else bind_res (map_res check_name bs) (\<lambda>names.
             if \<not> distinct (sort names) then Inl (Denied ''duplicate book'')
             else Inr (b, q, sort names))))"

definition cancelled_value :: "int \<Rightarrow> nat \<Rightarrow> pyval" where
  "cancelled_value units n = PDict [(lit ''released'', PInt units), (lit ''books'', PInt (int n))]"

definition lg_cancel_many_tx :: "ustr \<Rightarrow> ustr \<Rightarrow> ustr list \<Rightarrow> ('k, pyval) lg_act" where
  "lg_cancel_many_tx buyer request_id ids =
     (let fp = lg_digest (PList (map PStr ids)) in
     bind_act (lg_prior lg_cancellations buyer request_id fp) (\<lambda>prior.
       if prior \<noteq> PNone then ret prior
       else
         bind_act (query (\<lambda>d. map (\<lambda>bid. find (\<lambda>b. lb_id b = bid \<and> lb_buyer b = buyer) (lg_books d)) ids)) (\<lambda>rows.
         bind_act (guard (None \<notin> set rows) (Denied ''unknown book or wrong buyer'')) (\<lambda>_.
           let units = sum_list (map (lb_remaining o the) rows); v = cancelled_value units (length ids) in
           bind_act (lg_refund buyer units) (\<lambda>_.
           bind_act (lg_close_books ids) (\<lambda>_.
           bind_act (execute (lg_insert_cancellation \<lparr>lr_buyer = buyer, lr_request_id = request_id,
             lr_fingerprint = fp, lr_response = dumps_sorted v\<rparr>)) (\<lambda>_. ret v)))))))"

definition lg_cancel_many :: "pyval \<Rightarrow> pyval \<Rightarrow> pyval \<Rightarrow> ('k, pyval) lg_act" where
  "lg_cancel_many buyer request_id books =
     bind_act (lift_res (lg_cancel_args buyer request_id books))
       (\<lambda>(b, q, ids). transaction (lg_cancel_many_tx b q ids))"

definition lg_revoke :: "ustr \<Rightarrow> ('k, unit) lg_act" where
  "lg_revoke kid = transaction (execute (lg_insert_revoked kid))"

definition lg_account_conserved :: "ledger_db \<Rightarrow> lg_account \<Rightarrow> bool" where
  "lg_account_conserved d a \<longleftrightarrow>
     (let reserved = sum_where (\<lambda>b. lb_buyer b = la_buyer a) lb_remaining (lg_books d);
          redeemed = sum_where (\<lambda>r. lr_buyer r = la_buyer a) lc_units (lg_receipts d)
      in la_reserved a = reserved \<and> la_spent a = redeemed
         \<and> la_initial a = la_available a + reserved + redeemed)"

definition lg_account_value :: "lg_account \<Rightarrow> pyval" where
  "lg_account_value a = PDict [(lit ''buyer'', PStr (la_buyer a)), (lit ''initial'', PInt (la_initial a)),
     (lit ''available'', PInt (la_available a)), (lit ''reserved'', PInt (la_reserved a)),
     (lit ''spent'', PInt (la_spent a))]"

definition lg_audit_report :: "ledger_db \<Rightarrow> pyval result" where
  "lg_audit_report d =
     (let spent = sum_list (map lc_units (lg_receipts d)) in
      if \<exists>a \<in> set (lg_accounts d). \<not> lg_account_conserved d a
      then Inl (RuntimeError ''buyer conservation failed'')
      else if lg_accrued d \<noteq> spent \<or> sum_list (map la_spent (lg_accounts d)) \<noteq> spent
      then Inl (RuntimeError ''publisher conservation failed'')
      else Inr (PDict
        [(lit ''accounts'', PList (map lg_account_value (sort_key la_buyer (lg_accounts d)))),
         (lit ''receipts'', PInt (int (length (lg_receipts d)))),
         (lit ''publisher_accrued'', PInt (lg_accrued d)),
         (lit ''books'', PInt (int (length (lg_books d))))]))"

definition lg_audit :: "('k, pyval) lg_act" where
  "lg_audit = transaction (bind_act (query lg_audit_report) lift_res)"

section \<open>The ledger\<close>

datatype lg_op =
    LSeed pyval pyval
  | LIssue pyval pyval pyval pyval pyval
  | LSpend pyval pyval pyval pyval pyval pyval pyval pyval
  | LCancel ustr pyval
  | LCancelMany pyval pyval pyval
  | LRevoke ustr
  | LAudit

fun lg_step :: "'k ledger_env \<Rightarrow> lg_op \<Rightarrow> ('k, pyval) lg_act" where
  "lg_step env (LSeed b u) = bind_act (lg_seed b u) (\<lambda>_. ret PNone)"
| "lg_step env (LIssue b q bs m t) = lg_issue env b q bs m t"
| "lg_step env (LSpend b q r c t m bk tok) = lg_spend env b q r c t m bk tok"
| "lg_step env (LCancel b x) = lg_cancel b x"
| "lg_step env (LCancelMany b q xs) = lg_cancel_many b q xs"
| "lg_step env (LRevoke k) = bind_act (lg_revoke k) (\<lambda>_. ret PNone)"
| "lg_step env LAudit = lg_audit"

definition init_ledger :: "'k \<Rightarrow> 'k ledger_conn" where
  "init_ledger k = \<lparr>cn_db = empty_ledger_db, cn_saved = [], cn_ticks = 0, cn_draws = 0, lg_keys = k\<rparr>"

end
