(* ===== verification/LedgerInv.thy ===== *)
theory LedgerInv
  imports LedgerBook
begin

text \<open>
  The invariant of the ledger of \<open>LedgerBook\<close> and its preservation by the changes the methods
  make: unique keys, references that resolve, open books that hold exactly the units of their
  unspent items, and balances that are the sums the audit recomputes.
\<close>

section \<open>The invariant\<close>

definition lg_accounts_inv :: "ledger_db \<Rightarrow> bool" where
  "lg_accounts_inv d \<longleftrightarrow> distinct (map la_buyer (lg_accounts d)) \<and> (\<forall>a \<in> set (lg_accounts d). lg_account_ok a)"

definition lg_books_inv :: "ledger_db \<Rightarrow> bool" where
  "lg_books_inv d \<longleftrightarrow> distinct (map lb_id (lg_books d))
     \<and> (\<forall>b \<in> set (lg_books d). lb_buyer b \<in> set (map la_buyer (lg_accounts d)))"

definition lg_items_inv :: "ledger_db \<Rightarrow> bool" where
  "lg_items_inv d \<longleftrightarrow> distinct (map li_key (lg_items d))
     \<and> (\<forall>i \<in> set (lg_items d). 0 \<le> li_units i \<and> li_book i \<in> set (map lb_id (lg_books d)))"

definition lg_receipt_ok :: "ledger_db \<Rightarrow> lg_receipt \<Rightarrow> bool" where
  "lg_receipt_ok d r \<longleftrightarrow> lr_buyer r \<in> set (map la_buyer (lg_accounts d)) \<and> 0 \<le> lc_units r
     \<and> (\<forall>bid. lc_book r = Some bid \<longrightarrow>
          (bid, lr_buyer r) \<in> set (map (\<lambda>b. (lb_id b, lb_buyer b)) (lg_books d))
          \<and> ((bid, lc_resource r), lc_units r) \<in> set (map (\<lambda>i. (li_key i, li_units i)) (lg_items d)))"

definition lg_receipts_inv :: "ledger_db \<Rightarrow> bool" where
  "lg_receipts_inv d \<longleftrightarrow> distinct (map lr_key (lg_receipts d))
     \<and> distinct (filter (\<lambda>k. k \<noteq> None) (map lc_key (lg_receipts d)))
     \<and> (\<forall>r \<in> set (lg_receipts d). lg_receipt_ok d r)"

definition lg_unspent :: "ledger_db \<Rightarrow> ustr \<Rightarrow> int" where
  "lg_unspent d bid = sum_where (\<lambda>i. li_book i = bid \<and> Some (li_key i) \<notin> set (map lc_key (lg_receipts d)))
     li_units (lg_items d)"

definition lg_backed :: "ledger_db \<Rightarrow> lg_book \<Rightarrow> bool" where
  "lg_backed d b \<longleftrightarrow> lb_remaining b = (if lb_closed b then 0 else lg_unspent d (lb_id b))"

definition lg_money_inv :: "ledger_db \<Rightarrow> bool" where
  "lg_money_inv d \<longleftrightarrow> (\<forall>b \<in> set (lg_books d). lg_backed d b)
     \<and> (\<forall>a \<in> set (lg_accounts d). lg_account_conserved d a)
     \<and> lg_accrued d = sum_list (map lc_units (lg_receipts d))"

definition lg_inv :: "ledger_db \<Rightarrow> bool" where
  "lg_inv d \<longleftrightarrow> lg_accounts_inv d \<and> lg_books_inv d \<and> lg_items_inv d \<and> lg_receipts_inv d \<and> lg_money_inv d
     \<and> distinct (map lr_key (lg_issues d)) \<and> distinct (map lr_key (lg_cancellations d))"

lemma lg_inv_parts:
  assumes "lg_inv d"
  shows "lg_accounts_inv d" "lg_books_inv d" "lg_items_inv d" "lg_receipts_inv d" "lg_money_inv d"
    "distinct (map lr_key (lg_issues d))" "distinct (map lr_key (lg_cancellations d))"
  using assms by (simp_all add: lg_inv_def)

lemma empty_ledger_inv: "lg_inv empty_ledger_db"
  by (simp add: lg_inv_def empty_ledger_db_def lg_accounts_inv_def lg_books_inv_def lg_items_inv_def
      lg_receipts_inv_def lg_money_inv_def)

lemma lg_moneyD:
  assumes "lg_inv d"
  shows "b \<in> set (lg_books d) \<Longrightarrow> lg_backed d b" and "a \<in> set (lg_accounts d) \<Longrightarrow> lg_account_conserved d a"
    and "lg_accrued d = sum_list (map lc_units (lg_receipts d))"
  using lg_inv_parts(5) [OF assms] by (simp_all add: lg_money_inv_def)

lemma lg_moneyI:
  assumes "\<And>b. b \<in> set (lg_books d) \<Longrightarrow> lg_backed d b"
    and "\<And>a. a \<in> set (lg_accounts d) \<Longrightarrow> lg_account_conserved d a"
    and "lg_accrued d = sum_list (map lc_units (lg_receipts d))"
  shows "lg_money_inv d"
  using assms by (simp add: lg_money_inv_def)

lemma lg_invI:
  assumes "lg_accounts_inv d" "lg_books_inv d" "lg_items_inv d" "lg_receipts_inv d" "lg_money_inv d"
    "distinct (map lr_key (lg_issues d))" "distinct (map lr_key (lg_cancellations d))"
  shows "lg_inv d"
  using assms by (simp add: lg_inv_def)

text \<open>No amount is negative.\<close>

lemma lg_remaining_nonneg: "lg_inv d \<Longrightarrow> b \<in> set (lg_books d) \<Longrightarrow> 0 \<le> lb_remaining b"
proof -
  assume inv: "lg_inv d" and b: "b \<in> set (lg_books d)"
  have "0 \<le> lg_unspent d (lb_id b)"
    unfolding lg_unspent_def using lg_inv_parts(3) [OF inv] by (intro sum_where_nonneg) (simp add: lg_items_inv_def)
  with lg_moneyD(1) [OF inv b] show ?thesis by (simp add: lg_backed_def)
qed

lemma lg_reserved_eq:
  "lg_inv d \<Longrightarrow> a \<in> set (lg_accounts d)
    \<Longrightarrow> la_reserved a = sum_where (\<lambda>b. lb_buyer b = la_buyer a) lb_remaining (lg_books d)"
  using lg_moneyD(2) by (simp add: lg_account_conserved_def Let_def)

lemma lg_units_le_remaining:
  assumes "lg_inv d" and "b \<in> set (lg_books d)" and "\<not> lb_closed b" and "i \<in> set (lg_items d)"
    and "li_book i = lb_id b" and "Some (li_key i) \<notin> set (map lc_key (lg_receipts d))"
  shows "li_units i \<le> lb_remaining b"
proof -
  have "lb_remaining b = lg_unspent d (lb_id b)"
    using lg_moneyD(1) [OF assms(1,2)] assms(3) by (simp add: lg_backed_def)
  moreover have "li_units i \<le> lg_unspent d (lb_id b)"
    unfolding lg_unspent_def using assms(4-6) lg_inv_parts(3) [OF assms(1)]
    by (intro member_le_sum_where) (auto simp: lg_items_inv_def)
  ultimately show ?thesis by simp
qed

lemma lg_remaining_le_reserved:
  assumes "lg_inv d" and "b \<in> set (lg_books d)" and "a \<in> set (lg_accounts d)" and "lb_buyer b = la_buyer a"
  shows "lb_remaining b \<le> la_reserved a"
  unfolding lg_reserved_eq [OF assms(1,3)]
  using assms lg_remaining_nonneg [OF assms(1)] by (intro member_le_sum_where) auto

lemma lg_book_buyer: "lg_inv d \<Longrightarrow> b \<in> set (lg_books d) \<Longrightarrow> lb_buyer b \<in> set (map la_buyer (lg_accounts d))"
  using lg_inv_parts(2) by (auto simp: lg_books_inv_def simp del: set_map)

lemma lg_receipt_buyer: "lg_inv d \<Longrightarrow> r \<in> set (lg_receipts d) \<Longrightarrow> lr_buyer r \<in> set (map la_buyer (lg_accounts d))"
  using lg_inv_parts(4) by (auto simp: lg_receipts_inv_def lg_receipt_ok_def simp del: set_map)

text \<open>Updates that keep the keys keep everything but the clauses on amounts.\<close>

definition lb_key :: "lg_book \<Rightarrow> ustr \<times> ustr" where
  "lb_key b = (lb_id b, lb_buyer b)"

definition lg_same :: "ledger_db \<Rightarrow> ledger_db \<Rightarrow> bool" where
  "lg_same d d' \<longleftrightarrow> map la_buyer (lg_accounts d') = map la_buyer (lg_accounts d)
     \<and> map lb_key (lg_books d') = map lb_key (lg_books d) \<and> lg_items d' = lg_items d"

lemma lg_books_inv_keys:
  "lg_books_inv d \<longleftrightarrow> distinct (map fst (map lb_key (lg_books d)))
     \<and> (\<forall>k \<in> set (map lb_key (lg_books d)). snd k \<in> set (map la_buyer (lg_accounts d)))"
  by (auto simp: lg_books_inv_def lb_key_def o_def)

lemma lg_same_inv:
  assumes "lg_same d d'"
  shows "lg_books_inv d \<Longrightarrow> lg_books_inv d'" and "lg_items_inv d \<Longrightarrow> lg_items_inv d'"
    and "lg_receipt_ok d' r \<longleftrightarrow> lg_receipt_ok d r"
proof -
  have ids: "map lb_id (lg_books x) = map fst (map lb_key (lg_books x))" for x by (simp add: lb_key_def)
  have keys: "map (\<lambda>b. (lb_id b, lb_buyer b)) (lg_books x) = map lb_key (lg_books x)" for x
    by (simp add: lb_key_def)
  show "lg_books_inv d \<Longrightarrow> lg_books_inv d'"
    using assms unfolding lg_books_inv_keys lg_same_def by (simp del: set_map map_map)
  show "lg_items_inv d \<Longrightarrow> lg_items_inv d'"
    using assms unfolding lg_items_inv_def lg_same_def ids by (simp del: set_map map_map)
  show "lg_receipt_ok d' r \<longleftrightarrow> lg_receipt_ok d r"
    using assms unfolding lg_receipt_ok_def lg_same_def keys by (simp del: set_map map_map)
qed

section \<open>Funding and revocation\<close>

lemma lg_fund_inv:
  assumes inv: "lg_inv d" and new: "la_buyer a \<notin> set (map la_buyer (lg_accounts d))"
    and a: "lg_account_ok a" "la_available a = la_initial a" "la_reserved a = 0" "la_spent a = 0"
  shows "lg_inv (d\<lparr>lg_accounts := lg_accounts d @ [a]\<rparr>)"
proof -
  note P = lg_inv_parts [OF inv]
  let ?d = "d\<lparr>lg_accounts := lg_accounts d @ [a]\<rparr>"
  have "sum_where (\<lambda>b. lb_buyer b = la_buyer a) lb_remaining (lg_books d) = 0"
    using lg_book_buyer [OF inv] new by (intro sum_where_none) metis
  moreover have "sum_where (\<lambda>r. lr_buyer r = la_buyer a) lc_units (lg_receipts d) = 0"
    using lg_receipt_buyer [OF inv] new by (intro sum_where_none) metis
  ultimately have "lg_account_conserved ?d a" using a by (simp add: lg_account_conserved_def)
  moreover have "lg_backed ?d b \<longleftrightarrow> lg_backed d b" "lg_account_conserved ?d a' \<longleftrightarrow> lg_account_conserved d a'" for b a'
    by (simp_all add: lg_backed_def lg_unspent_def lg_account_conserved_def)
  ultimately have "lg_money_inv ?d" using P(5) by (simp add: lg_money_inv_def)
  moreover have "lg_receipts_inv ?d"
    using P(4) by (auto simp: lg_receipts_inv_def lg_receipt_ok_def simp del: set_map)
  ultimately show ?thesis
    using P a(1) new
    by (intro lg_invI) (auto simp: lg_accounts_inv_def lg_books_inv_def lg_items_inv_def)
qed

lemma lg_revoked_inv: "lg_inv d \<Longrightarrow> lg_inv (d\<lparr>lg_revoked := ks\<rparr>)"
  by (simp add: lg_inv_def lg_accounts_inv_def lg_books_inv_def lg_items_inv_def lg_receipts_inv_def
      lg_receipt_ok_def lg_money_inv_def lg_backed_def lg_unspent_def lg_account_conserved_def)

lemma lg_cancellation_inv:
  "lg_inv d \<Longrightarrow> lr_key r \<notin> set (map lr_key (lg_cancellations d))
    \<Longrightarrow> lg_inv (d\<lparr>lg_cancellations := lg_cancellations d @ [r]\<rparr>)"
  by (simp add: lg_inv_def lg_accounts_inv_def lg_books_inv_def lg_items_inv_def lg_receipts_inv_def
      lg_receipt_ok_def lg_money_inv_def lg_backed_def lg_unspent_def lg_account_conserved_def)

section \<open>Closing books\<close>

definition lg_db_close :: "ustr \<Rightarrow> ustr list \<Rightarrow> int \<Rightarrow> ledger_db \<Rightarrow> ledger_db" where
  "lg_db_close u ids n d = d\<lparr>
     lg_accounts := update_rows (\<lambda>a. la_buyer a = u)
       (\<lambda>a. a\<lparr>la_reserved := la_reserved a - n, la_available := la_available a + n\<rparr>) (lg_accounts d),
     lg_books := update_rows (\<lambda>b. lb_id b \<in> set ids) (\<lambda>b. b\<lparr>lb_remaining := 0, lb_closed := True\<rparr>) (lg_books d)\<rparr>"

text \<open>The books \<open>ids\<close> of buyer \<open>u\<close> hold \<open>n\<close> units together.\<close>

definition closable :: "ledger_db \<Rightarrow> ustr \<Rightarrow> ustr list \<Rightarrow> int \<Rightarrow> bool" where
  "closable d u ids n \<longleftrightarrow> distinct ids \<and> n = sum_where (\<lambda>b. lb_id b \<in> set ids) lb_remaining (lg_books d)
     \<and> (\<forall>b \<in> set (lg_books d). lb_id b \<in> set ids \<longrightarrow> lb_buyer b = u)"

lemma sum_where_close:
  "sum_where (\<lambda>b. lb_buyer b = y) lb_remaining
     (update_rows (\<lambda>b. lb_id b \<in> S) (\<lambda>b. b\<lparr>lb_remaining := 0, lb_closed := True\<rparr>) bs)
   = sum_where (\<lambda>b. lb_buyer b = y) lb_remaining bs - sum_where (\<lambda>b. lb_buyer b = y \<and> lb_id b \<in> S) lb_remaining bs"
  by (induction bs) (auto simp: update_rows_def)

lemma closable_bound:
  assumes inv: "lg_inv d" and c: "closable d u ids n"
  shows "0 \<le> n" and "a \<in> set (lg_accounts d) \<Longrightarrow> la_buyer a = u \<Longrightarrow> n \<le> la_reserved a"
    and "sum_where (\<lambda>b. lb_buyer b = y \<and> lb_id b \<in> set ids) lb_remaining (lg_books d) = (if y = u then n else 0)"
proof -
  have nn: "0 \<le> lb_remaining b" if "b \<in> set (lg_books d)" for b by (rule lg_remaining_nonneg [OF inv that])
  have n: "n = sum_where (\<lambda>b. lb_id b \<in> set ids) lb_remaining (lg_books d)" using c by (simp add: closable_def)
  show "0 \<le> n" unfolding n by (rule sum_where_nonneg) (rule nn)
  have "sum_where (\<lambda>b. lb_id b \<in> set ids) lb_remaining bs \<le> sum_where (\<lambda>b. lb_buyer b = u) lb_remaining bs"
    if "\<forall>b \<in> set bs. 0 \<le> lb_remaining b \<and> (lb_id b \<in> set ids \<longrightarrow> lb_buyer b = u)" for bs
    using that by (induction bs) auto
  then show "a \<in> set (lg_accounts d) \<Longrightarrow> la_buyer a = u \<Longrightarrow> n \<le> la_reserved a"
    using c nn lg_reserved_eq [OF inv] unfolding n by (auto simp: closable_def)
  show "sum_where (\<lambda>b. lb_buyer b = y \<and> lb_id b \<in> set ids) lb_remaining (lg_books d) = (if y = u then n else 0)"
    using c unfolding n by (auto simp: closable_def intro!: sum_where_cong sum_where_none)
qed

lemma lg_close_inv:
  assumes inv: "lg_inv d" and c: "closable d u ids n"
  shows "lg_inv (lg_db_close u ids n d)"
proof -
  note P = lg_inv_parts [OF inv] and bound = closable_bound [OF inv c]
  let ?d = "lg_db_close u ids n d"
  have same: "lg_same d ?d" by (simp add: lg_same_def lg_db_close_def map_update_rows lb_key_def)
  have as: "lg_accounts ?d = update_rows (\<lambda>a. la_buyer a = u)
       (\<lambda>a. a\<lparr>la_reserved := la_reserved a - n, la_available := la_available a + n\<rparr>) (lg_accounts d)"
    and bs: "lg_books ?d = update_rows (\<lambda>b. lb_id b \<in> set ids) (\<lambda>b. b\<lparr>lb_remaining := 0, lb_closed := True\<rparr>) (lg_books d)"
    and rest: "lg_receipts ?d = lg_receipts d" "lg_items ?d = lg_items d" "lg_accrued ?d = lg_accrued d"
    by (simp_all add: lg_db_close_def)
  have s: "sum_where (\<lambda>b. lb_buyer b = y) lb_remaining (lg_books ?d)
      = sum_where (\<lambda>b. lb_buyer b = y) lb_remaining (lg_books d) - (if y = u then n else 0)" for y
    unfolding bs sum_where_close bound(3) ..
  have "lg_accounts_inv ?d"
    using P(1) bound(1,2)
    by (auto simp: lg_accounts_inv_def as map_update_rows set_update_rows lg_account_ok_def)
  moreover have "lg_receipts_inv ?d"
    using P(4) by (simp add: lg_receipts_inv_def rest lg_same_inv(3) [OF same])
  moreover have "lg_money_inv ?d"
  proof (rule lg_moneyI)
    fix b assume "b \<in> set (lg_books ?d)"
    then show "lg_backed ?d b"
      unfolding bs by (elim update_rows_E)
        (auto simp: lg_backed_def lg_unspent_def rest dest!: lg_moneyD(1) [OF inv])
  next
    fix a assume "a \<in> set (lg_accounts ?d)"
    then show "lg_account_conserved ?d a"
      unfolding as by (elim update_rows_E)
        (auto simp: lg_account_conserved_def Let_def s rest dest!: lg_moneyD(2) [OF inv])
  qed (use lg_moneyD(3) [OF inv] in \<open>simp add: rest\<close>)
  ultimately show ?thesis
    using lg_same_inv(1,2) [OF same] P(2,3,6,7) by (intro lg_invI) (simp_all add: lg_db_close_def)
qed

section \<open>Paying\<close>

definition lg_db_pay :: "lg_receipt \<Rightarrow> ledger_db \<Rightarrow> ledger_db" where
  "lg_db_pay r d = d\<lparr>
     lg_accounts := update_rows (\<lambda>a. la_buyer a = lr_buyer r)
       (\<lambda>a. if lc_book r = None
            then a\<lparr>la_available := la_available a - lc_units r, la_spent := la_spent a + lc_units r\<rparr>
            else a\<lparr>la_reserved := la_reserved a - lc_units r, la_spent := la_spent a + lc_units r\<rparr>) (lg_accounts d),
     lg_books := update_rows (\<lambda>b. Some (lb_id b) = lc_book r)
       (\<lambda>b. b\<lparr>lb_remaining := lb_remaining b - lc_units r\<rparr>) (lg_books d),
     lg_receipts := lg_receipts d @ [r], lg_accrued := lg_accrued d + lc_units r\<rparr>"

text \<open>A new receipt is covered by an open book with an unspent item, or by the available balance.\<close>

definition covered :: "ledger_db \<Rightarrow> lg_receipt \<Rightarrow> bool" where
  "covered d r \<longleftrightarrow> 0 \<le> lc_units r \<and> lr_key r \<notin> set (map lr_key (lg_receipts d))
     \<and> (case lc_book r of
          None \<Rightarrow> \<exists>a \<in> set (lg_accounts d). la_buyer a = lr_buyer r \<and> lc_units r \<le> la_available a
        | Some bid \<Rightarrow>
            (\<exists>b \<in> set (lg_books d). lb_id b = bid \<and> lb_buyer b = lr_buyer r \<and> \<not> lb_closed b)
            \<and> (\<exists>i \<in> set (lg_items d). li_key i = (bid, lc_resource r) \<and> li_units i = lc_units r)
            \<and> lc_key r \<notin> set (map lc_key (lg_receipts d)))"

lemma covered_bounds:
  assumes inv: "lg_inv d" and c: "covered d r"
  shows "a \<in> set (lg_accounts d) \<Longrightarrow> la_buyer a = lr_buyer r
      \<Longrightarrow> lc_units r \<le> (if lc_book r = None then la_available a else la_reserved a)"
    and "b \<in> set (lg_books d) \<Longrightarrow> lc_book r = Some (lb_id b)
      \<Longrightarrow> lc_units r \<le> lb_remaining b \<and> lb_buyer b = lr_buyer r \<and> \<not> lb_closed b"
    and "lr_buyer r \<in> set (map la_buyer (lg_accounts d))"
proof -
  note P = lg_inv_parts [OF inv]
  have uniq: "x = y" if "x \<in> set (lg_accounts d)" "y \<in> set (lg_accounts d)" "la_buyer x = la_buyer y" for x y
    using find_unique [of la_buyer "lg_accounts d"] that P(1) by (simp add: lg_accounts_inv_def)
  have book: "lc_units r \<le> lb_remaining b \<and> lb_buyer b = lr_buyer r \<and> \<not> lb_closed b"
    if b: "b \<in> set (lg_books d)" "lc_book r = Some (lb_id b)" for b
  proof -
    from c b(2) obtain b' i where b': "b' \<in> set (lg_books d)" "lb_id b' = lb_id b" "lb_buyer b' = lr_buyer r"
      "\<not> lb_closed b'" and i: "i \<in> set (lg_items d)" "li_key i = (lb_id b, lc_resource r)" "li_units i = lc_units r"
      and new: "lc_key r \<notin> set (map lc_key (lg_receipts d))" by (auto simp: covered_def)
    have "b' = b" using find_unique [of lb_id "lg_books d" b' b] P(2) b' b by (simp add: lg_books_inv_def)
    moreover have "Some (li_key i) \<notin> set (map lc_key (lg_receipts d))"
      using new i(2) b(2) by (simp add: lc_key_def)
    ultimately show ?thesis
      using lg_units_le_remaining [OF inv b(1) _ i(1)] b' i(2,3) by (simp add: li_key_def)
  qed
  then show "b \<in> set (lg_books d) \<Longrightarrow> lc_book r = Some (lb_id b)
      \<Longrightarrow> lc_units r \<le> lb_remaining b \<and> lb_buyer b = lr_buyer r \<and> \<not> lb_closed b" .
  show "a \<in> set (lg_accounts d) \<Longrightarrow> la_buyer a = lr_buyer r
      \<Longrightarrow> lc_units r \<le> (if lc_book r = None then la_available a else la_reserved a)"
  proof (cases "lc_book r")
    case None
    with c uniq show "a \<in> set (lg_accounts d) \<Longrightarrow> la_buyer a = lr_buyer r \<Longrightarrow> ?thesis" by (fastforce simp: covered_def)
  next
    case (Some bid)
    with c obtain b where b: "b \<in> set (lg_books d)" "lb_id b = bid" by (auto simp: covered_def)
    assume a: "a \<in> set (lg_accounts d)" "la_buyer a = lr_buyer r"
    with lg_remaining_le_reserved [OF inv b(1) a(1)] book [of b] b Some show ?thesis by simp
  qed
  show "lr_buyer r \<in> set (map la_buyer (lg_accounts d))"
  proof (cases "lc_book r")
    case None
    with c obtain a where "a \<in> set (lg_accounts d)" "la_buyer a = lr_buyer r" by (auto simp: covered_def)
    then show ?thesis by (metis image_eqI list.set_map)
  next
    case (Some bid)
    with c obtain b where "b \<in> set (lg_books d)" "lb_buyer b = lr_buyer r" by (auto simp: covered_def)
    with lg_book_buyer [OF inv] show ?thesis by metis
  qed
qed

lemma lg_unspent_pay:
  assumes inv: "lg_inv d" and c: "covered d r"
  shows "lg_unspent (lg_db_pay r d) x = lg_unspent d x - (if lc_book r = Some x then lc_units r else 0)"
proof (cases "lc_book r")
  case None
  then show ?thesis by (simp add: lg_unspent_def lg_db_pay_def lc_key_def)
next
  case (Some bid)
  with c obtain i where i: "i \<in> set (lg_items d)" "li_key i = (bid, lc_resource r)" "li_units i = lc_units r"
    and new: "lc_key r \<notin> set (map lc_key (lg_receipts d))" by (auto simp: covered_def)
  have key: "lc_key r = Some (li_key i)" by (simp add: lc_key_def Some i(2))
  have dis: "distinct (map (Some o li_key) (lg_items d))"
    using lg_inv_parts(3) [OF inv] by (simp add: lg_items_inv_def distinct_map comp_inj_on)
  have "(Some o li_key) i \<notin> set (map lc_key (lg_receipts d))" using new key by simp
  from sum_where_spend [OF dis i(1) this, of li_book x li_units] i key Some show ?thesis
    by (simp add: lg_unspent_def lg_db_pay_def li_key_def eq_commute [of x])
qed

lemma lg_pay_inv:
  assumes inv: "lg_inv d" and c: "covered d r"
  shows "lg_inv (lg_db_pay r d)"
proof -
  note P = lg_inv_parts [OF inv] and bound = covered_bounds [OF inv c]
  let ?d = "lg_db_pay r d"
  have n: "0 \<le> lc_units r" and fresh: "lr_key r \<notin> set (map lr_key (lg_receipts d))"
    using c by (simp_all add: covered_def)
  have same: "lg_same d ?d" by (simp add: lg_same_def lg_db_pay_def map_update_rows lb_key_def)
  have bs: "lg_books ?d = update_rows (\<lambda>b. Some (lb_id b) = lc_book r)
       (\<lambda>b. b\<lparr>lb_remaining := lb_remaining b - lc_units r\<rparr>) (lg_books d)"
    and rest: "lg_receipts ?d = lg_receipts d @ [r]" "lg_items ?d = lg_items d"
      "lg_accrued ?d = lg_accrued d + lc_units r"
    by (simp_all add: lg_db_pay_def)
  have s: "sum_where (\<lambda>b. lb_buyer b = y) lb_remaining (lg_books ?d)
      = sum_where (\<lambda>b. lb_buyer b = y) lb_remaining (lg_books d)
        - (if lc_book r \<noteq> None \<and> lr_buyer r = y then lc_units r else 0)" for y
  proof (cases "lc_book r")
    case None
    then show ?thesis by (simp add: bs update_rows_def)
  next
    case (Some bid)
    with c obtain b where b: "b \<in> set (lg_books d)" "lb_id b = bid" "lb_buyer b = lr_buyer r"
      by (auto simp: covered_def)
    have "(\<lambda>b. Some (lb_id b) = lc_book r) = (\<lambda>b. lb_id b = bid)" by (simp add: Some)
    then show ?thesis
      unfolding bs using sum_where_update_one [of lb_id "lg_books d" b bid "\<lambda>b. lb_buyer b = y"] P(2) b Some
      by (simp add: lg_books_inv_def)
  qed
  have "lg_accounts_inv ?d"
    using P(1) n bound(1)
    by (cases "lc_book r") (auto simp: lg_accounts_inv_def lg_db_pay_def map_update_rows set_update_rows lg_account_ok_def)
  moreover have "lg_receipts_inv ?d"
  proof -
    have "lg_receipt_ok d r"
    proof -
      have "(bid, lr_buyer r) \<in> set (map (\<lambda>b. (lb_id b, lb_buyer b)) (lg_books d))"
        and "((bid, lc_resource r), lc_units r) \<in> set (map (\<lambda>i. (li_key i, li_units i)) (lg_items d))"
        if "lc_book r = Some bid" for bid
        using c that by (force simp: covered_def)+
      with n bound(3) show ?thesis by (simp add: lg_receipt_ok_def)
    qed
    moreover have "lc_key r \<noteq> None \<Longrightarrow> lc_key r \<notin> set (map lc_key (lg_receipts d))"
      using c by (cases "lc_book r") (auto simp: covered_def lc_key_def)
    ultimately show ?thesis
      using P(4) fresh by (auto simp: lg_receipts_inv_def rest lg_same_inv(3) [OF same])
  qed
  moreover have "lg_money_inv ?d"
  proof (rule lg_moneyI)
    fix b assume "b \<in> set (lg_books ?d)"
    then show "lg_backed ?d b"
      unfolding bs
    proof (cases rule: update_rows_E)
      case (1 y)
      with bound(2) [of y] lg_moneyD(1) [OF inv 1(1)] show ?thesis
        by (simp add: lg_backed_def lg_unspent_pay [OF inv c])
    next
      case 2
      with lg_moneyD(1) [OF inv 2(1)] show ?thesis
        by (auto simp: lg_backed_def lg_unspent_pay [OF inv c])
    qed
  next
    fix a assume "a \<in> set (lg_accounts ?d)"
    then have "a \<in> set (update_rows (\<lambda>a. la_buyer a = lr_buyer r)
       (\<lambda>a. if lc_book r = None
            then a\<lparr>la_available := la_available a - lc_units r, la_spent := la_spent a + lc_units r\<rparr>
            else a\<lparr>la_reserved := la_reserved a - lc_units r, la_spent := la_spent a + lc_units r\<rparr>) (lg_accounts d))"
      by (simp add: lg_db_pay_def)
    then show "lg_account_conserved ?d a"
      by (elim update_rows_E) (auto simp: lg_account_conserved_def Let_def s rest dest!: lg_moneyD(2) [OF inv])
  qed (use lg_moneyD(3) [OF inv] in \<open>simp add: rest\<close>)
  ultimately show ?thesis
    using lg_same_inv(1,2) [OF same] P(2,3,6,7) by (intro lg_invI) (simp_all add: lg_db_pay_def)
qed

section \<open>Issuing\<close>

definition lg_db_issue :: "ustr \<Rightarrow> lg_book list \<Rightarrow> lg_item list \<Rightarrow> lg_row \<Rightarrow> ledger_db \<Rightarrow> ledger_db" where
  "lg_db_issue u bs its row d = (let n = sum_list (map lb_remaining bs) in d\<lparr>
     lg_accounts := update_rows (\<lambda>a. la_buyer a = u \<and> n \<le> la_available a)
       (\<lambda>a. a\<lparr>la_available := la_available a - n, la_reserved := la_reserved a + n\<rparr>) (lg_accounts d),
     lg_books := lg_books d @ bs, lg_items := lg_items d @ its, lg_issues := lg_issues d @ [row]\<rparr>)"

definition lg_issuable :: "ledger_db \<Rightarrow> ustr \<Rightarrow> lg_book list \<Rightarrow> lg_item list \<Rightarrow> lg_row \<Rightarrow> bool" where
  "lg_issuable d u bs its row \<longleftrightarrow>
     (\<exists>a \<in> set (lg_accounts d). la_buyer a = u \<and> sum_list (map lb_remaining bs) \<le> la_available a)
     \<and> distinct (map lb_id bs) \<and> set (map lb_id bs) \<inter> set (map lb_id (lg_books d)) = {}
     \<and> (\<forall>b \<in> set bs. lb_buyer b = u \<and> \<not> lb_closed b \<and> 0 \<le> lb_remaining b
          \<and> lb_remaining b = sum_where (\<lambda>i. li_book i = lb_id b) li_units its)
     \<and> distinct (map li_key its) \<and> (\<forall>i \<in> set its. 0 \<le> li_units i \<and> li_book i \<in> set (map lb_id bs))
     \<and> lr_key row \<notin> set (map lr_key (lg_issues d))"

lemma lg_issue_inv:
  assumes inv: "lg_inv d" and i: "lg_issuable d u bs its row"
  shows "lg_inv (lg_db_issue u bs its row d)"
proof -
  note P = lg_inv_parts [OF inv] and I = i [unfolded lg_issuable_def]
  let ?d = "lg_db_issue u bs its row d" and ?n = "sum_list (map lb_remaining bs)"
  from I obtain a0 where a0: "a0 \<in> set (lg_accounts d)" "la_buyer a0 = u" "?n \<le> la_available a0" by blast
  have n: "0 \<le> ?n" using I by (intro sum_list_nonneg) auto
  have as: "lg_accounts ?d = update_rows (\<lambda>a. la_buyer a = u \<and> ?n \<le> la_available a)
       (\<lambda>a. a\<lparr>la_available := la_available a - ?n, la_reserved := la_reserved a + ?n\<rparr>) (lg_accounts d)"
    and rest: "lg_books ?d = lg_books d @ bs" "lg_items ?d = lg_items d @ its" "lg_receipts ?d = lg_receipts d"
      "lg_accrued ?d = lg_accrued d" "lg_issues ?d = lg_issues d @ [row]" "lg_cancellations ?d = lg_cancellations d"
    by (simp_all add: lg_db_issue_def Let_def)
  have buyers: "map la_buyer (lg_accounts ?d) = map la_buyer (lg_accounts d)" by (simp add: as map_update_rows)
  have old_item: "li_book x \<in> set (map lb_id (lg_books d))" if "x \<in> set (lg_items d)" for x
    using P(3) that by (auto simp: lg_items_inv_def simp del: set_map)
  have new_item: "li_book x \<in> set (map lb_id bs)" if "x \<in> set its" for x using I that by blast
  have apart: "x \<notin> set (map lb_id (lg_books d))" if "x \<in> set (map lb_id bs)" for x using I that by blast
  have used: "fst k \<in> set (map lb_id (lg_books d))" if "Some k \<in> set (map lc_key (lg_receipts d))" for k
  proof -
    from that obtain r where "r \<in> set (lg_receipts d)" "lc_key r = Some k" by auto
    then have "(fst k, lr_buyer r) \<in> set (map (\<lambda>b. (lb_id b, lb_buyer b)) (lg_books d))"
      using P(4) by (auto simp: lg_receipts_inv_def lg_receipt_ok_def lc_key_def simp del: set_map)
    then show ?thesis by auto
  qed
  have unsp_old: "lg_unspent ?d x = lg_unspent d x" if "x \<in> set (map lb_id (lg_books d))" for x
  proof -
    have "sum_where (\<lambda>i. li_book i = x \<and> Some (li_key i) \<notin> set (map lc_key (lg_receipts d))) li_units its = 0"
      using new_item apart that by (intro sum_where_none) blast
    then show ?thesis by (simp add: lg_unspent_def rest)
  qed
  have unsp_new: "lg_unspent ?d x = sum_where (\<lambda>i. li_book i = x) li_units its" if "x \<in> set (map lb_id bs)" for x
  proof -
    have "sum_where (\<lambda>i. li_book i = x \<and> Some (li_key i) \<notin> set (map lc_key (lg_receipts d))) li_units (lg_items d) = 0"
      using old_item apart that by (intro sum_where_none) blast
    moreover have "Some (li_key i) \<notin> set (map lc_key (lg_receipts d))" if "i \<in> set its" for i
      using used [of "li_key i"] apart [OF new_item [OF that]] by (auto simp: li_key_def)
    then have "sum_where (\<lambda>i. li_book i = x \<and> Some (li_key i) \<notin> set (map lc_key (lg_receipts d))) li_units its
        = sum_where (\<lambda>i. li_book i = x) li_units its"
      by (intro sum_where_cong) auto
    ultimately show ?thesis by (simp add: lg_unspent_def rest)
  qed
  have s: "sum_where (\<lambda>b. lb_buyer b = y) lb_remaining bs = (if y = u then ?n else 0)" for y
    using I by (auto intro!: sum_where_all sum_where_none)
  have "lg_accounts_inv ?d"
    using P(1) n buyers by (auto simp: lg_accounts_inv_def as set_update_rows lg_account_ok_def)
  moreover have "lg_books_inv ?d"
  proof -
    have "u \<in> set (map la_buyer (lg_accounts d))" using a0(1,2) by (metis image_eqI list.set_map)
    with P(2) I show ?thesis
      unfolding lg_books_inv_def buyers rest by (auto simp del: set_map)
  qed
  moreover have "lg_items_inv ?d"
  proof -
    have "set (map li_key its) \<inter> set (map li_key (lg_items d)) = {}"
    proof -
      have "fst k \<in> set (map lb_id (lg_books d))" if "k \<in> set (map li_key (lg_items d))" for k
      proof -
        from that obtain j where "j \<in> set (lg_items d)" "k = li_key j" by auto
        with old_item show ?thesis by (simp add: li_key_def del: set_map)
      qed
      moreover have "fst k \<in> set (map lb_id bs)" if "k \<in> set (map li_key its)" for k
      proof -
        from that obtain j where "j \<in> set its" "k = li_key j" by auto
        with new_item show ?thesis by (simp add: li_key_def del: set_map)
      qed
      ultimately show ?thesis using apart by blast
    qed
    then show ?thesis using P(3) I by (auto simp: lg_items_inv_def rest)
  qed
  moreover have "lg_receipts_inv ?d"
    using P(4) unfolding lg_receipts_inv_def lg_receipt_ok_def buyers rest by auto
  moreover have "lg_money_inv ?d"
  proof (rule lg_moneyI)
    fix b assume "b \<in> set (lg_books ?d)"
    then consider "b \<in> set (lg_books d)" | "b \<in> set bs" by (auto simp: rest)
    then show "lg_backed ?d b"
    proof cases
      case 1
      then have "lb_id b \<in> set (map lb_id (lg_books d))" by simp
      with lg_moneyD(1) [OF inv 1] show ?thesis by (simp add: lg_backed_def unsp_old del: set_map)
    next
      case 2
      then have "lb_id b \<in> set (map lb_id bs)" by simp
      with 2 I show ?thesis by (simp add: lg_backed_def unsp_new del: set_map)
    qed
  next
    fix x assume "x \<in> set (lg_accounts ?d)"
    then show "lg_account_conserved ?d x"
      unfolding as
    proof (cases rule: update_rows_E)
      case (1 r)
      with lg_moneyD(2) [OF inv 1(1)] show ?thesis by (simp add: lg_account_conserved_def Let_def rest s)
    next
      case 2
      have "la_buyer x \<noteq> u"
      proof
        assume "la_buyer x = u"
        with a0 2 P(1) have "x = a0" by (intro find_unique [of la_buyer]) (auto simp: lg_accounts_inv_def)
        with a0 2(2) show False by simp
      qed
      with lg_moneyD(2) [OF inv 2(1)] show ?thesis by (simp add: lg_account_conserved_def Let_def rest s)
    qed
  qed (use lg_moneyD(3) [OF inv] in \<open>simp add: rest\<close>)
  ultimately show ?thesis using P(6,7) I by (intro lg_invI) (simp_all add: rest del: set_map)
qed

end
