(* ===== verification/LedgerOps.thy ===== *)
theory LedgerOps
  imports LedgerInv
begin

text \<open>
  What each method of the ledger of \<open>LedgerBook\<close> does to a database that satisfies the invariant,
  and that the invariant is kept. The methods rely on an environment whose prices are not
  negative and whose signer returns one token for each set of claims: the contract
  \<open>ledger_laws\<close>, which the theory \<open>Service\<close> discharges for the program's own catalogue and keys.
\<close>

section \<open>Rules for the actions of this service\<close>

lemma wp_keys_sign [run_simps]:
  "wp (keys_sign env claims) Q E s =
     (case le_sign env claims (lg_keys s) of
        (Inr x, k) \<Rightarrow> Q x (s\<lparr>lg_keys := k\<rparr>) | (Inl e, k) \<Rightarrow> E e (s\<lparr>lg_keys := k\<rparr>))"
  by (auto simp: wp_def keys_sign_def split: prod.splits sum.splits)

lemma wp_bind_fun: "wp (bind_act m f) Q E = wp m (\<lambda>x. wp (f x) Q E) E"
  by (rule ext) (rule wp_bind)

lemma wp_draws [run_simps]:
  "wp (draws r n) Q E s = Q (map r [cn_draws s..<cn_draws s + n]) (s\<lparr>cn_draws := cn_draws s + n\<rparr>)"
proof (induction n arbitrary: Q s)
  case (Suc n)
  have "[cn_draws s..<cn_draws s + Suc n] = cn_draws s # [Suc (cn_draws s)..<Suc (cn_draws s) + n]"
    by (simp add: upt_rec)
  with Suc show ?case by (simp add: run_simps)
qed (simp add: run_simps)

lemma length_draws: "length (map r [m..<m + n]) = n"
  by simp

lemma framed_lg [framed_intros]:
  "framed (keys_sign env claims)" "framed (draws r n)" "framed (lg_prior table u i fp)"
  "framed (lg_move u P g)" "framed (lg_insert_books q now kid bs)" "framed (lg_close_books ids)"
  subgoal by (simp add: framed_def keys_sign_def split: prod.splits)
  subgoal by (induction n) (auto intro!: framed_intros)
  subgoal unfolding lg_prior_def by (intro framed_intros)
  subgoal unfolding lg_move_def by (intro framed_intros)
  subgoal by (induction bs) (auto intro!: framed_intros)
  subgoal by (induction ids) (auto intro!: framed_intros)
  done

lemma reads_lg [reads_intros]:
  "reads (keys_sign env claims)" "reads (draws r n)" "reads (lg_prior table u i fp)"
  subgoal by (simp add: reads_def keys_sign_def split: prod.splits)
  subgoal by (induction n) (auto intro!: reads_intros)
  subgoal unfolding lg_prior_def by (intro reads_intros)
  done

section \<open>Atomicity\<close>

lemma framed_lg_tx [framed_intros]:
  "framed (lg_issue_tx env q now kid bs)" "framed (lg_spend_tx env sq)" "framed (lg_cancel_tx u x)"
  "framed (lg_cancel_many_tx u i ids)"
  subgoal unfolding lg_issue_tx_def Let_def by (intro framed_intros)
  subgoal unfolding lg_spend_tx_def lg_pay_book_def lg_pay_direct_def Let_def by (intro framed_intros)
  subgoal unfolding lg_cancel_tx_def lg_refund_def by (intro framed_intros)
  subgoal unfolding lg_cancel_many_tx_def lg_refund_def Let_def by (intro framed_intros)
  done

lemma atomic_if: "atomic m \<Longrightarrow> atomic m' \<Longrightarrow> atomic (if b then m else m')"
  by simp

lemma atomic_prepare: "atomic (lg_prepare env q)"
  unfolding lg_prepare_def
  by (intro atomic_after_reads reads_intros atomic_prod atomic_transaction framed_intros)

lemma atomic_lg_issue: "atomic (lg_issue env b q bs m t)"
  unfolding lg_issue_def
  by (intro atomic_lift_bind atomic_after_reads atomic_if atomic_prepare reads_intros framed_intros
      atomic_reads [OF reads_basic(1)])

lemma lg_step_atomic: "atomic (lg_step env op)"
proof (cases op)
  case (LIssue b q bs m t)
  then show ?thesis by (simp only: lg_step.simps atomic_lg_issue)
qed (simp_all only: lg_step.simps lg_seed_def lg_spend_def lg_cancel_def lg_cancel_many_def lg_revoke_def lg_audit_def,
  (intro atomic_intros framed_intros)+)

section \<open>Issuing\<close>

lemma lg_new_book_simps:
  "lb_id (lg_new_book q now kid b) = fst b" "lb_buyer (lg_new_book q now kid b) = ri_buyer q"
  "lb_remaining (lg_new_book q now kid b) = manifest_units (snd (snd b))"
  "lb_closed (lg_new_book q now kid b) = False"
  by (simp_all add: lg_new_book_def split_beta)

lemma lg_new_items_book: "i \<in> set (lg_new_items b) \<Longrightarrow> li_book i = fst b"
  by (auto simp: lg_new_items_def split_beta)

lemma lg_new_items_units: "sum_list (map li_units (lg_new_items b)) = manifest_units (snd (snd b))"
  by (simp add: lg_new_items_def manifest_units_def case_prod_unfold o_def)

lemma insert_books_spec:
  "wp (lg_insert_books q now kid bs)
     (\<lambda>_ s'. cn_db s' = (cn_db s)\<lparr>lg_books := lg_books (cn_db s) @ map (lg_new_book q now kid) bs,
          lg_items := lg_items (cn_db s) @ concat (map lg_new_items bs)\<rparr>
        \<and> distinct (map fst bs) \<and> set (map fst bs) \<inter> set (map lb_id (lg_books (cn_db s))) = {}
        \<and> distinct (map li_key (concat (map lg_new_items bs)))) (\<lambda>_ _. True) s"
proof (induction bs arbitrary: s)
  case Nil
  then show ?case by (simp add: run_simps)
next
  case (Cons b bs)
  let ?d = "cn_db s" and ?b = "lg_new_book q now kid b"
  show ?case
  proof (cases "lg_insert_book ?b ?d")
    case (Inl e)
    then show ?thesis by (simp add: run_simps)
  next
    case (Inr d1)
    then have d1: "d1 = ?d\<lparr>lg_books := lg_books ?d @ [?b]\<rparr>" "fst b \<notin> set (map lb_id (lg_books ?d))"
      by (simp_all add: lg_insert_book_def lg_new_book_simps del: set_map)
    show ?thesis
    proof (cases "lg_insert_items (lg_new_items b) d1")
      case (Inl e)
      with Inr show ?thesis by (simp add: run_simps)
    next
      case inr2: (Inr d2)
      then have d2: "d2 = d1\<lparr>lg_items := lg_items ?d @ lg_new_items b\<rparr>" "distinct (map li_key (lg_new_items b))"
        by (simp_all add: lg_insert_items_def d1(1) del: set_map)
      have apart: "set (map li_key (lg_new_items b)) \<inter> set (map li_key (concat (map lg_new_items bs))) = {}"
        if "fst b \<notin> set (map fst bs)"
      proof -
        have "fst k \<in> set (map fst bs)" if "k \<in> set (map li_key (concat (map lg_new_items bs)))" for k
        proof -
          from that obtain b' i where "b' \<in> set bs" "i \<in> set (lg_new_items b')" "k = li_key i" by auto
          then show ?thesis by (auto simp: li_key_def lg_new_items_book)
        qed
        moreover have "fst k = fst b" if "k \<in> set (map li_key (lg_new_items b))" for k
        proof -
          from that obtain i where "i \<in> set (lg_new_items b)" "k = li_key i" by auto
          then show ?thesis by (simp add: li_key_def lg_new_items_book)
        qed
        ultimately show ?thesis using that by (metis disjoint_iff)
      qed
      have "wp (lg_insert_books q now kid bs) (\<lambda>_ s'. cn_db s' = ?d\<lparr>lg_books := lg_books ?d @ map (lg_new_book q now kid) (b # bs),
          lg_items := lg_items ?d @ concat (map lg_new_items (b # bs))\<rparr>
        \<and> distinct (map fst (b # bs)) \<and> set (map fst (b # bs)) \<inter> set (map lb_id (lg_books ?d)) = {}
        \<and> distinct (map li_key (concat (map lg_new_items (b # bs))))) (\<lambda>_ _. True) (s\<lparr>cn_db := d2\<rparr>)"
      proof (rule wp_mono [OF Cons.IH])
        fix v and s' :: "'a ledger_conn"
        assume "cn_db s' = (cn_db (s\<lparr>cn_db := d2\<rparr>))\<lparr>lg_books := lg_books (cn_db (s\<lparr>cn_db := d2\<rparr>)) @ map (lg_new_book q now kid) bs,
          lg_items := lg_items (cn_db (s\<lparr>cn_db := d2\<rparr>)) @ concat (map lg_new_items bs)\<rparr>
          \<and> distinct (map fst bs) \<and> set (map fst bs) \<inter> set (map lb_id (lg_books (cn_db (s\<lparr>cn_db := d2\<rparr>)))) = {}
          \<and> distinct (map li_key (concat (map lg_new_items bs)))"
        then have db: "cn_db s' = d2\<lparr>lg_books := lg_books d2 @ map (lg_new_book q now kid) bs,
            lg_items := lg_items d2 @ concat (map lg_new_items bs)\<rparr>"
          and dis: "distinct (map fst bs)" "set (map fst bs) \<inter> set (map lb_id (lg_books d2)) = {}"
            "distinct (map li_key (concat (map lg_new_items bs)))" by simp_all
        have d2b: "lg_books d2 = lg_books ?d @ [?b]" by (simp add: d1(1) d2(1))
        have b: "fst b \<notin> set (map fst bs)" and old: "set (map fst bs) \<inter> set (map lb_id (lg_books ?d)) = {}"
          using dis(2) unfolding d2b by (auto simp: lg_new_book_simps)
        have "distinct (map li_key (concat (map lg_new_items (b # bs))))"
          using dis(3) d2(2) apart [OF b] by (simp del: set_map)
        moreover have "set (map fst (b # bs)) \<inter> set (map lb_id (lg_books ?d)) = {}"
          using old d1(2) by (simp del: set_map)
        moreover have "cn_db s' = ?d\<lparr>lg_books := lg_books ?d @ map (lg_new_book q now kid) (b # bs),
            lg_items := lg_items ?d @ concat (map lg_new_items (b # bs))\<rparr>"
          by (simp add: db d2(1) d1(1))
        ultimately show "cn_db s' = ?d\<lparr>lg_books := lg_books ?d @ map (lg_new_book q now kid) (b # bs),
            lg_items := lg_items ?d @ concat (map lg_new_items (b # bs))\<rparr>
          \<and> distinct (map fst (b # bs)) \<and> set (map fst (b # bs)) \<inter> set (map lb_id (lg_books ?d)) = {}
          \<and> distinct (map li_key (concat (map lg_new_items (b # bs))))"
          using b dis(1) by (intro conjI) simp_all
      qed simp
      with Inr inr2 show ?thesis by (simp add: run_simps)
    qed
  qed
qed

lemma new_items_units:
  "distinct (map fst bs) \<Longrightarrow> b \<in> set bs
    \<Longrightarrow> sum_where (\<lambda>i. li_book i = fst b) li_units (concat (map lg_new_items bs)) = manifest_units (snd (snd b))"
proof (induction bs)
  case (Cons c bs)
  show ?case
  proof (cases "b = c")
    case True
    have "li_book i \<noteq> fst c" if i: "i \<in> set (concat (map lg_new_items bs))" for i
    proof -
      from i obtain b' where "b' \<in> set bs" "i \<in> set (lg_new_items b')" by auto
      with Cons.prems(1) show ?thesis by (auto simp: lg_new_items_book image_iff)
    qed
    then have "sum_where (\<lambda>i. li_book i = fst c) li_units (concat (map lg_new_items bs)) = 0"
      by (rule sum_where_none)
    moreover have "sum_where (\<lambda>i. li_book i = fst c) li_units (lg_new_items c) = manifest_units (snd (snd c))"
      unfolding lg_new_items_units [symmetric] by (rule sum_where_all) (rule lg_new_items_book)
    ultimately show ?thesis using True by simp
  next
    case False
    with Cons.prems have b: "b \<in> set bs" "fst b \<noteq> fst c" by (auto simp: image_iff)
    then have "sum_where (\<lambda>i. li_book i = fst b) li_units (lg_new_items c) = 0"
      by (intro sum_where_none) (simp add: lg_new_items_book)
    with Cons b show ?thesis by simp
  qed
qed simp

text \<open>What a retry finds.\<close>

definition prior_row :: "'z lg_row_scheme list \<Rightarrow> ustr \<Rightarrow> ustr \<Rightarrow> ustr \<Rightarrow> pyval \<Rightarrow> bool" where
  "prior_row rows buyer request_id fp v \<longleftrightarrow> (\<exists>r \<in> set rows. lr_buyer r = buyer \<and> lr_request_id r = request_id
     \<and> lr_fingerprint r = fp \<and> loads (lr_response r) = Some v) \<and> v \<noteq> PNone"

lemma lg_prior_spec:
  "wp (lg_prior table u i fp)
     (\<lambda>v s'. cn_db s' = cn_db s \<and> cn_ticks s' = cn_ticks s \<and> lg_keys s' = lg_keys s
        \<and> (v = PNone \<or> prior_row (table (cn_db s)) u i fp v))
     (\<lambda>_ s'. cn_db s' = cn_db s) s"
proof (cases "find (\<lambda>r. lr_buyer r = u \<and> lr_request_id r = i) (table (cn_db s))")
  case None
  then show ?thesis by (simp add: lg_prior_def run_simps)
next
  case (Some r)
  then have "r \<in> set (table (cn_db s))" "lr_buyer r = u" "lr_request_id r = i"
    by (auto dest: find_SomeD)
  with Some show ?thesis
    by (auto simp: lg_prior_def run_simps stored_json_def prior_row_def split: option.splits)
qed

lemma lg_move_spec:
  "wp (lg_move u P g)
     (\<lambda>n s'. cn_db s' = (cn_db s)\<lparr>lg_accounts := update_rows (\<lambda>a. la_buyer a = u \<and> P a) g (lg_accounts (cn_db s))\<rparr>
        \<and> (n = 1 \<longrightarrow> (\<exists>a \<in> set (lg_accounts (cn_db s)). la_buyer a = u \<and> P a))) (\<lambda>_ _. True) s"
proof -
  have "\<exists>a \<in> set xs. la_buyer a = u \<and> P a" if "length (filter (\<lambda>a. la_buyer a = u \<and> P a) xs) = 1" for xs
  proof -
    from that have "filter (\<lambda>a. la_buyer a = u \<and> P a) xs \<noteq> []" by auto
    then show ?thesis unfolding filter_empty_conv by blast
  qed
  then show ?thesis
    by (auto simp: lg_move_def run_simps lg_update_accounts_def check_constraint_def)
qed

text \<open>The books and rows one batch adds.\<close>

definition lg_issue_row :: "lg_request \<Rightarrow> (ustr \<times> ustr \<times> manifest) list \<Rightarrow> lg_row" where
  "lg_issue_row q bs = \<lparr>lr_buyer = ri_buyer q, lr_request_id = ri_request q, lr_fingerprint = ri_fp q,
     lr_response = dumps_sorted (lg_response bs)\<rparr>"

definition lg_batch_effect ::
    "lg_request \<Rightarrow> int \<Rightarrow> ustr \<Rightarrow> (ustr \<times> ustr \<times> manifest) list \<Rightarrow> ledger_db \<Rightarrow> ledger_db \<Rightarrow> bool" where
  "lg_batch_effect q now kid bs d d' \<longleftrightarrow> kid \<notin> set (lg_revoked d) \<and> map (snd o snd) bs = ri_manifests q
     \<and> lg_issuable d (ri_buyer q) (map (lg_new_book q now kid) bs) (concat (map lg_new_items bs)) (lg_issue_row q bs)
     \<and> d' = lg_db_issue (ri_buyer q) (map (lg_new_book q now kid) bs) (concat (map lg_new_items bs))
         (lg_issue_row q bs) d"

definition priced :: "(ustr \<times> lg_offer) list \<Rightarrow> bool" where
  "priced m \<longleftrightarrow> (\<forall>x \<in> set m. 0 \<le> lo_units (snd x))"

lemma priced_units: "priced m \<Longrightarrow> 0 \<le> manifest_units m"
  by (fastforce simp: priced_def manifest_units_def intro!: sum_list_nonneg)

lemma issuable_batch:
  assumes bs: "distinct (map fst bs)" "set (map fst bs) \<inter> set (map lb_id (lg_books d)) = {}"
      "distinct (map li_key (concat (map lg_new_items bs)))"
    and m: "\<And>b. b \<in> set bs \<Longrightarrow> priced (snd (snd b))"
    and a: "a \<in> set (lg_accounts d)" "la_buyer a = ri_buyer q"
      "sum_list (map (manifest_units o snd o snd) bs) \<le> la_available a"
    and row: "(ri_buyer q, ri_request q) \<notin> set (map lr_key (lg_issues d))"
  shows "lg_issuable d (ri_buyer q) (map (lg_new_book q now kid) bs) (concat (map lg_new_items bs)) (lg_issue_row q bs)"
proof -
  have ids: "map lb_id (map (lg_new_book q now kid) bs) = map fst bs" by (simp add: lg_new_book_simps)
  have units: "map lb_remaining (map (lg_new_book q now kid) bs) = map (manifest_units o snd o snd) bs"
    by (simp add: lg_new_book_simps)
  have "\<exists>a \<in> set (lg_accounts d). la_buyer a = ri_buyer q
      \<and> sum_list (map lb_remaining (map (lg_new_book q now kid) bs)) \<le> la_available a"
    unfolding units using a by blast
  moreover have "lb_buyer b = ri_buyer q \<and> \<not> lb_closed b \<and> 0 \<le> lb_remaining b
        \<and> lb_remaining b = sum_where (\<lambda>i. li_book i = lb_id b) li_units (concat (map lg_new_items bs))"
    if b: "b \<in> set (map (lg_new_book q now kid) bs)" for b
  proof -
    from b obtain c where c: "c \<in> set bs" "b = lg_new_book q now kid c" by auto
    then show ?thesis
      using priced_units [OF m [OF c(1)]] new_items_units [OF bs(1) c(1)] by (simp add: lg_new_book_simps)
  qed
  moreover have "0 \<le> li_units i \<and> li_book i \<in> set (map lb_id (map (lg_new_book q now kid) bs))"
    if i: "i \<in> set (concat (map lg_new_items bs))" for i
  proof -
    from i obtain b where b: "b \<in> set bs" "i \<in> set (lg_new_items b)" by auto
    then have "0 \<le> li_units i" using m [OF b(1)] by (auto simp: lg_new_items_def split_beta priced_def)
    moreover have "li_book i \<in> set (map fst bs)" using b lg_new_items_book by (metis image_eqI list.set_map)
    ultimately show ?thesis unfolding ids by blast
  qed
  moreover have "lr_key (lg_issue_row q bs) \<notin> set (map lr_key (lg_issues d))"
    using row by (simp add: lg_issue_row_def lr_key_def)
  ultimately show ?thesis
    using bs unfolding lg_issuable_def ids by blast
qed

lemma lg_issue_tx_spec:
  assumes m: "\<And>m. m \<in> set (ri_manifests q) \<Longrightarrow> priced m" and bs: "map (snd o snd) bs = ri_manifests q"
  shows "wp (lg_issue_tx env q now kid bs)
     (\<lambda>v s'. cn_db s' = cn_db s \<and> prior_row (lg_issues (cn_db s)) (ri_buyer q) (ri_request q) (ri_fp q) v
        \<or> lg_batch_effect q now kid bs (cn_db s) (cn_db s') \<and> v = lg_response bs) (\<lambda>_ _. True) s"
proof -
  let ?P = "\<lambda>v s'. cn_db s' = cn_db s \<and> prior_row (lg_issues (cn_db s)) (ri_buyer q) (ri_request q) (ri_fp q) v
        \<or> lg_batch_effect q now kid bs (cn_db s) (cn_db s') \<and> v = lg_response bs"
  let ?total = "sum_list (map manifest_units (ri_manifests q))"
  have total: "?total = sum_list (map (manifest_units o snd o snd) bs)"
    unfolding bs [symmetric] by (simp add: o_assoc)
  have new: "wp (lg_insert_books q now kid bs) (\<lambda>_. wp (execute (lg_insert_issue (lg_issue_row q bs)))
      (\<lambda>_. ?P (lg_response bs)) (\<lambda>_ _. True)) (\<lambda>_ _. True) s2"
    if s2: "cn_db s2 = (cn_db s)\<lparr>lg_accounts := update_rows (\<lambda>a. la_buyer a = ri_buyer q \<and> ?total \<le> la_available a)
          (\<lambda>a. a\<lparr>la_available := la_available a - ?total, la_reserved := la_reserved a + ?total\<rparr>) (lg_accounts (cn_db s))\<rparr>"
      and a: "a \<in> set (lg_accounts (cn_db s))" "la_buyer a = ri_buyer q" "?total \<le> la_available a"
      and kid: "kid \<notin> set (lg_revoked (cn_db s))" for a and s2 :: "'a ledger_conn"
  proof (rule wp_mono [OF insert_books_spec])
    fix v and s3 :: "'a ledger_conn"
    assume s3: "cn_db s3 = (cn_db s2)\<lparr>lg_books := lg_books (cn_db s2) @ map (lg_new_book q now kid) bs,
          lg_items := lg_items (cn_db s2) @ concat (map lg_new_items bs)\<rparr>
        \<and> distinct (map fst bs) \<and> set (map fst bs) \<inter> set (map lb_id (lg_books (cn_db s2))) = {}
        \<and> distinct (map li_key (concat (map lg_new_items bs)))"
    have "lg_batch_effect q now kid bs (cn_db s) d'"
      if d': "lg_insert_issue (lg_issue_row q bs) (cn_db s3) = Inr d'" for d'
    proof -
      have fresh: "(ri_buyer q, ri_request q) \<notin> set (map lr_key (lg_issues (cn_db s)))"
        and d'': "d' = (cn_db s3)\<lparr>lg_issues := lg_issues (cn_db s) @ [lg_issue_row q bs]\<rparr>"
        using d' s2 s3 by (simp_all add: lg_insert_issue_def lg_issue_row_def lr_key_def del: set_map)
      have "lg_issuable (cn_db s) (ri_buyer q) (map (lg_new_book q now kid) bs) (concat (map lg_new_items bs)) (lg_issue_row q bs)"
      proof (rule issuable_batch)
        show "priced (snd (snd b))" if "b \<in> set bs" for b
          using m that arg_cong [OF bs, of set] by force
      qed (use s2 s3 a fresh in \<open>simp_all add: total del: set_map\<close>)
      moreover have "sum_list (map lb_remaining (map (lg_new_book q now kid) bs)) = ?total"
        by (simp add: total lg_new_book_simps o_def)
      then have "d' = lg_db_issue (ri_buyer q) (map (lg_new_book q now kid) bs) (concat (map lg_new_items bs)) (lg_issue_row q bs) (cn_db s)"
        using s3 by (simp only: lg_db_issue_def Let_def) (simp add: d'' s2)
      ultimately show ?thesis using kid bs by (simp add: lg_batch_effect_def)
    qed
    then show "wp (execute (lg_insert_issue (lg_issue_row q bs))) (\<lambda>_. ?P (lg_response bs)) (\<lambda>_ _. True) s3"
      by (auto simp: run_simps split: sum.splits)
  qed simp
  have move: "wp (lg_move (ri_buyer q) (\<lambda>a. ?total \<le> la_available a)
        (\<lambda>a. a\<lparr>la_available := la_available a - ?total, la_reserved := la_reserved a + ?total\<rparr>))
      (\<lambda>n. wp (bind_act (guard (n = 1) e) (\<lambda>_. bind_act (lg_insert_books q now kid bs) (\<lambda>_.
         bind_act (execute (lg_insert_issue (lg_issue_row q bs))) (\<lambda>_. ret (lg_response bs))))) ?P (\<lambda>_ _. True))
      (\<lambda>_ _. True) s1"
    if s1: "cn_db s1 = cn_db s" "kid \<notin> set (lg_revoked (cn_db s))" for e and s1 :: "'a ledger_conn"
  proof (rule wp_mono [OF lg_move_spec])
    fix n and s2 :: "'a ledger_conn"
    assume s2: "cn_db s2 = (cn_db s1)\<lparr>lg_accounts := update_rows (\<lambda>a. la_buyer a = ri_buyer q \<and> ?total \<le> la_available a)
          (\<lambda>a. a\<lparr>la_available := la_available a - ?total, la_reserved := la_reserved a + ?total\<rparr>) (lg_accounts (cn_db s1))\<rparr>
        \<and> (n = 1 \<longrightarrow> (\<exists>a \<in> set (lg_accounts (cn_db s1)). la_buyer a = ri_buyer q \<and> ?total \<le> la_available a))"
    show "wp (bind_act (guard (n = 1) e) (\<lambda>_. bind_act (lg_insert_books q now kid bs) (\<lambda>_.
         bind_act (execute (lg_insert_issue (lg_issue_row q bs))) (\<lambda>_. ret (lg_response bs))))) ?P (\<lambda>_ _. True) s2"
    proof (cases "n = 1")
      case True
      with s2 s1(1) obtain a where a: "a \<in> set (lg_accounts (cn_db s))" "la_buyer a = ri_buyer q" "?total \<le> la_available a"
        by auto
      have "wp (lg_insert_books q now kid bs) (\<lambda>_. wp (execute (lg_insert_issue (lg_issue_row q bs)))
          (\<lambda>_. ?P (lg_response bs)) (\<lambda>_ _. True)) (\<lambda>_ _. True) s2"
        by (rule new [OF _ a s1(2)]) (use s2 s1(1) in simp)
      then show ?thesis by (simp only: wp_bind wp_bind_fun wp_guard wp_ret_fun True if_True simp_thms)
    qed (simp add: run_simps)
  qed simp
  show ?thesis
    unfolding lg_issue_tx_def wp_bind [of "lg_prior lg_issues (ri_buyer q) (ri_request q) (ri_fp q)"]
  proof (rule wp_mono [OF lg_prior_spec])
    fix v and s1 :: "'a ledger_conn"
    assume v: "cn_db s1 = cn_db s \<and> cn_ticks s1 = cn_ticks s \<and> lg_keys s1 = lg_keys s \<and> (v = PNone
        \<or> prior_row (lg_issues (cn_db s)) (ri_buyer q) (ri_request q) (ri_fp q) v)"
    show "wp (if v \<noteq> PNone then ret v
         else bind_act (read_clock (le_clock env)) (\<lambda>t.
         bind_act (guard (now \<le> t \<and> t < now + ri_ttl q) (Denied ''expired during preparation'')) (\<lambda>_.
         bind_act (query lg_revoked) (\<lambda>ks.
         bind_act (guard (kid \<notin> set ks) (Denied ''key revoked during preparation'')) (\<lambda>_.
           let total = ?total in
           bind_act (lg_move (ri_buyer q) (\<lambda>a. total \<le> la_available a)
             (\<lambda>a. a\<lparr>la_available := la_available a - total, la_reserved := la_reserved a + total\<rparr>)) (\<lambda>changed.
           bind_act (guard (changed = 1) (Denied ''insufficient simulated balance'')) (\<lambda>_.
           bind_act (lg_insert_books q now kid bs) (\<lambda>_.
           bind_act (execute (lg_insert_issue \<lparr>lr_buyer = ri_buyer q, lr_request_id = ri_request q,
               lr_fingerprint = ri_fp q, lr_response = dumps_sorted (lg_response bs)\<rparr>)) (\<lambda>_.
             ret (lg_response bs)))))))))) ?P (\<lambda>_ _. True) s1"
    proof (cases "v = PNone")
      case True
      then show ?thesis
        unfolding Let_def lg_issue_row_def [symmetric]
        by (simp add: wp_bind [of "read_clock c" for c] wp_bind [of "guard b e" for b e] wp_bind [of "query f" for f]
            wp_clock wp_guard wp_query del: One_nat_def)
          (simp add: v wp_bind [of "lg_move u P g" for u P g] move del: One_nat_def)
    next
      case False
      with v show ?thesis by (simp add: run_simps)
    qed
  qed simp
qed

section \<open>Spending\<close>

text \<open>What must hold of the tables for a new receipt: the book pays, or the available balance.\<close>

definition lg_admits :: "lg_spend_request \<Rightarrow> int \<Rightarrow> ledger_db \<Rightarrow> bool" where
  "lg_admits q t d \<longleftrightarrow> lo_units (sq_offer q) \<le> sq_max_units q
     \<and> (case sq_book q of
          None \<Rightarrow> \<exists>a \<in> set (lg_accounts d). la_buyer a = sq_buyer q \<and> lo_units (sq_offer q) \<le> la_available a
        | Some bid \<Rightarrow>
            (\<exists>b \<in> set (lg_books d). lb_id b = bid \<and> lb_buyer b = sq_buyer q \<and> sq_token q = PStr (lb_token b)
               \<and> \<not> lb_closed b \<and> lb_issued b \<le> t \<and> t < lb_expires b \<and> lb_kid b \<notin> set (lg_revoked d))
            \<and> (\<exists>i \<in> set (lg_items d). li_key i = (bid, sq_resource q) \<and> li_content i = lo_content (sq_offer q)
               \<and> li_terms i = lo_terms (sq_offer q) \<and> li_units i = lo_units (sq_offer q))
            \<and> Some (bid, sq_resource q) \<notin> set (map lc_key (lg_receipts d)))"

definition lg_pay_effect :: "lg_spend_request \<Rightarrow> ustr \<Rightarrow> int \<Rightarrow> int \<Rightarrow> ledger_db \<Rightarrow> ledger_db \<Rightarrow> bool" where
  "lg_pay_effect q rid t t' d d' \<longleftrightarrow> (let r = lg_new_receipt q (lg_receipt_value q rid t') in
     lg_admits q t d \<and> covered d r \<and> d' = lg_db_pay r d)"

definition lg_paid :: "lg_spend_request \<Rightarrow> ledger_db \<Rightarrow> ledger_db" where
  "lg_paid q d = (let n = lo_units (sq_offer q) in d\<lparr>
     lg_accounts := update_rows (\<lambda>a. la_buyer a = sq_buyer q)
       (\<lambda>a. if sq_book q = None
            then a\<lparr>la_available := la_available a - n, la_spent := la_spent a + n\<rparr>
            else a\<lparr>la_reserved := la_reserved a - n, la_spent := la_spent a + n\<rparr>) (lg_accounts d),
     lg_books := update_rows (\<lambda>b. Some (lb_id b) = sq_book q)
       (\<lambda>b. b\<lparr>lb_remaining := lb_remaining b - n\<rparr>) (lg_books d)\<rparr>)"

lemma update_rows_cong:
  "(\<And>r. r \<in> set rows \<Longrightarrow> P r \<longleftrightarrow> P' r) \<Longrightarrow> (\<And>r. P' r \<Longrightarrow> g r = g' r) \<Longrightarrow> update_rows P g rows = update_rows P' g' rows"
  by (auto simp: update_rows_def)

lemma update_rows_none: "(\<And>r. \<not> P r) \<Longrightarrow> update_rows P g rows = rows"
  by (simp add: update_rows_def)

lemma lg_pay_direct_spec:
  assumes inv: "lg_inv (cn_db s)" and book: "sq_book q = None"
  shows "wp (lg_pay_direct q) (\<lambda>_ s'. cn_db s' = lg_paid q (cn_db s)
      \<and> (\<exists>a \<in> set (lg_accounts (cn_db s)). la_buyer a = sq_buyer q \<and> lo_units (sq_offer q) \<le> la_available a))
     (\<lambda>_ _. True) s"
  unfolding lg_pay_direct_def Let_def wp_bind
proof (rule wp_mono [OF lg_move_spec])
  fix n and s2 :: "'a ledger_conn"
  let ?n = "lo_units (sq_offer q)" and ?d = "cn_db s"
  let ?g = "\<lambda>a. a\<lparr>la_available := la_available a - ?n, la_spent := la_spent a + ?n\<rparr>"
  assume s2: "cn_db s2 = ?d\<lparr>lg_accounts := update_rows (\<lambda>a. la_buyer a = sq_buyer q \<and> ?n \<le> la_available a) ?g (lg_accounts ?d)\<rparr>
      \<and> (n = 1 \<longrightarrow> (\<exists>a \<in> set (lg_accounts ?d). la_buyer a = sq_buyer q \<and> ?n \<le> la_available a))"
  have "cn_db s2 = lg_paid q ?d"
    if a: "a \<in> set (lg_accounts ?d)" "la_buyer a = sq_buyer q" "?n \<le> la_available a" for a
  proof -
    have "x = a" if "x \<in> set (lg_accounts ?d)" "la_buyer x = sq_buyer q" for x
      using find_unique [of la_buyer "lg_accounts ?d" x a] that a lg_inv_parts(1) [OF inv] by (simp add: lg_accounts_inv_def)
    then have "x \<in> set (lg_accounts ?d) \<Longrightarrow> la_buyer x = sq_buyer q \<and> ?n \<le> la_available x \<longleftrightarrow> la_buyer x = sq_buyer q" for x
      using a(3) by blast
    then have "update_rows (\<lambda>a. la_buyer a = sq_buyer q \<and> ?n \<le> la_available a) ?g (lg_accounts ?d)
        = update_rows (\<lambda>a. la_buyer a = sq_buyer q) ?g (lg_accounts ?d)"
      by (intro update_rows_cong) blast+
    then show ?thesis using s2 by (simp add: lg_paid_def Let_def book update_rows_none)
  qed
  then show "wp (guard (n = 1) (Denied ''insufficient simulated balance'')) (\<lambda>_ s'. cn_db s' = lg_paid q ?d
      \<and> (\<exists>a \<in> set (lg_accounts ?d). la_buyer a = sq_buyer q \<and> ?n \<le> la_available a)) (\<lambda>_ _. True) s2"
    using s2 by (simp only: wp_guard) meson
qed simp

lemma lg_pay_book_spec:
  assumes "sq_book q = Some bid"
  shows "wp (lg_pay_book env q bid) (\<lambda>_ s'. cn_db s' = lg_paid q (cn_db s)
      \<and> (\<exists>b \<in> set (lg_books (cn_db s)). lb_id b = bid \<and> lb_buyer b = sq_buyer q \<and> sq_token q = PStr (lb_token b)
           \<and> \<not> lb_closed b \<and> lb_issued b \<le> le_clock env (cn_ticks s) \<and> le_clock env (cn_ticks s) < lb_expires b
           \<and> lb_kid b \<notin> set (lg_revoked (cn_db s)))
      \<and> (\<exists>i \<in> set (lg_items (cn_db s)). li_key i = (bid, sq_resource q) \<and> li_content i = lo_content (sq_offer q)
           \<and> li_terms i = lo_terms (sq_offer q) \<and> li_units i = lo_units (sq_offer q))
      \<and> Some (bid, sq_resource q) \<notin> set (map lc_key (lg_receipts (cn_db s))))
     (\<lambda>_ _. True) s"
proof (cases "find (\<lambda>b. lb_id b = bid \<and> lb_buyer b = sq_buyer q) (lg_books (cn_db s))")
  case None
  then show ?thesis by (simp add: lg_pay_book_def Let_def run_simps)
next
  case found: (Some b)
  then have b: "b \<in> set (lg_books (cn_db s))" "lb_id b = bid" "lb_buyer b = sq_buyer q" by (auto dest: find_SomeD)
  show ?thesis
  proof (cases "find (\<lambda>i. li_key i = (bid, sq_resource q)) (lg_items (cn_db s))")
    case None
    with found show ?thesis by (simp add: lg_pay_book_def Let_def run_simps)
  next
    case (Some i)
    then have i: "i \<in> set (lg_items (cn_db s))" "li_key i = (bid, sq_resource q)" by (auto dest: find_SomeD)
    have eq: "(\<lambda>b. Some (lb_id b) = sq_book q) = (\<lambda>b. lb_id b = bid)" by (simp add: assms)
    have upd: "lg_update_books (\<lambda>x. lb_id x = bid) f d = Inr d' \<Longrightarrow>
        d' = d\<lparr>lg_books := update_rows (\<lambda>b. Some (lb_id b) = sq_book q) f (lg_books d)\<rparr>" for f d d'
      by (simp add: lg_update_books_def check_constraint_def assms split: if_splits)
    have upd_acc: "lg_update_accounts P f d = Inr d' \<Longrightarrow> d' = d\<lparr>lg_accounts := update_rows P f (lg_accounts d)\<rparr>" for P f d d'
      by (simp add: lg_update_accounts_def check_constraint_def split: if_splits)
    let ?t = "le_clock env (cn_ticks s)"
    show ?thesis
    proof (cases "sq_token q = PStr (lb_token b) \<and> \<not> lb_closed b \<and> lb_issued b \<le> ?t \<and> ?t < lb_expires b
        \<and> lb_kid b \<notin> set (lg_revoked (cn_db s)) \<and> li_content i = lo_content (sq_offer q)
        \<and> li_terms i = lo_terms (sq_offer q) \<and> li_units i = lo_units (sq_offer q)
        \<and> Some (bid, sq_resource q) \<notin> set (map lc_key (lg_receipts (cn_db s)))")
      case True
      then have P: "sq_token q = PStr (lb_token b)" "\<not> lb_closed b" "lb_issued b \<le> ?t" "?t < lb_expires b"
        "lb_kid b \<notin> set (lg_revoked (cn_db s))" "li_content i = lo_content (sq_offer q)"
        "li_terms i = lo_terms (sq_offer q)" "li_units i = lo_units (sq_offer q)"
        "Some (bid, sq_resource q) \<notin> set (map lc_key (lg_receipts (cn_db s)))" by blast+
      have "wp (lg_pay_book env q bid) (\<lambda>_ s'. cn_db s' = lg_paid q (cn_db s)) (\<lambda>_ _. True) s"
        unfolding lg_pay_book_def Let_def
        by (simp add: run_simps Some found P del: set_map split: sum.splits)
          (auto dest!: upd upd_acc simp: lg_paid_def Let_def assms)
      then show ?thesis
        by (rule wp_mono) (use b i P in blast)+
    next
      case False
      then show ?thesis
        by (auto simp: lg_pay_book_def Let_def run_simps Some found simp del: set_map)
    qed
  qed
qed

lemma lg_new_receipt_simps:
  "lr_buyer (lg_new_receipt q v) = sq_buyer q" "lr_request_id (lg_new_receipt q v) = sq_request q"
  "lc_book (lg_new_receipt q v) = sq_book q" "lc_resource (lg_new_receipt q v) = sq_resource q"
  "lc_units (lg_new_receipt q v) = lo_units (sq_offer q)"
  by (simp_all add: lg_new_receipt_def)

lemma paid_covered:
  assumes a: "lg_admits q t d" and n: "0 \<le> lo_units (sq_offer q)"
    and r: "lg_insert_receipt (lg_new_receipt q v) (lg_paid q d) = Inr d1"
    and d': "lg_add_accrued (lo_units (sq_offer q)) d1 = Inr d'"
  shows "covered d (lg_new_receipt q v) \<and> d' = lg_db_pay (lg_new_receipt q v) d"
proof -
  have d1: "d1 = (lg_paid q d)\<lparr>lg_receipts := lg_receipts d @ [lg_new_receipt q v]\<rparr>"
    and fresh: "lr_key (lg_new_receipt q v) \<notin> set (map lr_key (lg_receipts d))"
    using r by (simp_all add: lg_insert_receipt_def lg_paid_def Let_def del: set_map)
  have "covered d (lg_new_receipt q v)"
    using a n fresh
    by (cases "sq_book q") (auto simp: covered_def lg_admits_def lg_new_receipt_simps lc_key_def simp del: set_map)
  moreover have "d' = lg_db_pay (lg_new_receipt q v) d"
    using d' by (simp add: lg_add_accrued_def d1 lg_db_pay_def lg_paid_def Let_def lg_new_receipt_simps cong: if_cong)
  ultimately show ?thesis ..
qed

lemma lg_spend_tx_spec:
  assumes inv: "lg_inv (cn_db s)" and n: "0 \<le> lo_units (sq_offer q)"
  shows "wp (lg_spend_tx env q)
     (\<lambda>v s'. cn_db s' = cn_db s \<and> prior_row (lg_receipts (cn_db s)) (sq_buyer q) (sq_request q) (sq_fp q) v
        \<or> (\<exists>rid t'. rid \<in> range (le_random env) \<and> v = lg_receipt_value q rid t' \<and> lg_pay_effect q rid (le_clock env (cn_ticks s)) t' (cn_db s) (cn_db s'))) (\<lambda>_ _. True) s"
  unfolding lg_spend_tx_def wp_bind [of "lg_prior lg_receipts (sq_buyer q) (sq_request q) (sq_fp q)"]
proof (rule wp_mono [OF lg_prior_spec])
  fix v and s1 :: "'a ledger_conn"
  let ?P = "\<lambda>v s'. cn_db s' = cn_db s \<and> prior_row (lg_receipts (cn_db s)) (sq_buyer q) (sq_request q) (sq_fp q) v
        \<or> (\<exists>rid t'. rid \<in> range (le_random env) \<and> v = lg_receipt_value q rid t' \<and> lg_pay_effect q rid (le_clock env (cn_ticks s)) t' (cn_db s) (cn_db s'))"
  let ?rest = "\<lambda>_ :: unit. bind_act (draw (le_random env)) (\<lambda>rid. bind_act (read_clock (le_clock env)) (\<lambda>t.
           let v = lg_receipt_value q rid t in
           bind_act (execute (lg_insert_receipt (lg_new_receipt q v))) (\<lambda>_.
           bind_act (execute (lg_add_accrued (lo_units (sq_offer q)))) (\<lambda>_. ret v))))"
  assume v: "cn_db s1 = cn_db s \<and> cn_ticks s1 = cn_ticks s \<and> lg_keys s1 = lg_keys s \<and> (v = PNone
        \<or> prior_row (lg_receipts (cn_db s)) (sq_buyer q) (sq_request q) (sq_fp q) v)"
  have rest: "wp (?rest u) ?P (\<lambda>_ _. True) s2"
    if "cn_db s2 = lg_paid q (cn_db s)" "lg_admits q (le_clock env (cn_ticks s)) (cn_db s)" for u and s2 :: "'a ledger_conn"
  proof -
    let ?t = "le_clock env (cn_ticks s)"
    have "lg_pay_effect q rid ?t t' (cn_db s) d'"
      if "lg_insert_receipt (lg_new_receipt q (lg_receipt_value q rid t')) (lg_paid q (cn_db s)) = Inr d1"
        "lg_add_accrued (lo_units (sq_offer q)) d1 = Inr d'" for rid t' d1 d'
      using paid_covered [OF \<open>lg_admits q ?t (cn_db s)\<close> n that] \<open>lg_admits q ?t (cn_db s)\<close>
      by (auto simp: lg_pay_effect_def Let_def)
    then show ?thesis using that(1) by (simp add: run_simps Let_def split: sum.splits) blast
  qed
  have pay: "wp (bind_act (case sq_book q of Some b \<Rightarrow> lg_pay_book env q b | None \<Rightarrow> lg_pay_direct q) ?rest) ?P (\<lambda>_ _. True) s1"
    if max: "lo_units (sq_offer q) \<le> sq_max_units q"
  proof (cases "sq_book q")
    case None
    have rest': "wp (?rest u) ?P (\<lambda>_ _. True) s2"
      if "cn_db s2 = lg_paid q (cn_db s1)" "a \<in> set (lg_accounts (cn_db s1))" "la_buyer a = sq_buyer q"
        "lo_units (sq_offer q) \<le> la_available a" for u a and s2 :: "'a ledger_conn"
      by (rule rest) (use that v max None in \<open>auto simp: lg_admits_def\<close>)
    have "wp (lg_pay_direct q) (\<lambda>u. wp (?rest u) ?P (\<lambda>_ _. True)) (\<lambda>_ _. True) s1"
    proof (rule wp_mono [OF lg_pay_direct_spec [OF _ None]])
      show "lg_inv (cn_db s1)" using inv v by simp
    qed (blast intro: rest')+
    then show ?thesis by (simp add: wp_bind None)
  next
    case (Some bid)
    have "wp (lg_pay_book env q bid) (\<lambda>u. wp (?rest u) ?P (\<lambda>_ _. True)) (\<lambda>_ _. True) s1"
    proof (rule wp_mono [OF lg_pay_book_spec [OF Some]])
      fix u and s2 :: "'a ledger_conn"
      assume A: "cn_db s2 = lg_paid q (cn_db s1)
        \<and> (\<exists>b \<in> set (lg_books (cn_db s1)). lb_id b = bid \<and> lb_buyer b = sq_buyer q \<and> sq_token q = PStr (lb_token b)
             \<and> \<not> lb_closed b \<and> lb_issued b \<le> le_clock env (cn_ticks s1) \<and> le_clock env (cn_ticks s1) < lb_expires b
             \<and> lb_kid b \<notin> set (lg_revoked (cn_db s1)))
        \<and> (\<exists>i \<in> set (lg_items (cn_db s1)). li_key i = (bid, sq_resource q) \<and> li_content i = lo_content (sq_offer q)
             \<and> li_terms i = lo_terms (sq_offer q) \<and> li_units i = lo_units (sq_offer q))
        \<and> Some (bid, sq_resource q) \<notin> set (map lc_key (lg_receipts (cn_db s1)))"
      have "lg_admits q (le_clock env (cn_ticks s)) (cn_db s)"
        unfolding lg_admits_def Some option.case using A v max by simp
      then show "wp (?rest u) ?P (\<lambda>_ _. True) s2" using A v by (intro rest) simp_all
    qed simp
    then show ?thesis by (simp add: wp_bind Some)
  qed
  show "wp (if v \<noteq> PNone then ret v
       else bind_act (guard (lo_units (sq_offer q) \<le> sq_max_units q) (Denied ''budget exceeded''))
         (\<lambda>_. bind_act (case sq_book q of Some b \<Rightarrow> lg_pay_book env q b | None \<Rightarrow> lg_pay_direct q) ?rest)) ?P (\<lambda>_ _. True) s1"
  proof (cases "v = PNone")
    case True
    then show ?thesis using pay by (simp add: wp_bind [of "guard b e" for b e] wp_guard)
  next
    case False
    with v show ?thesis by (simp add: run_simps)
  qed
qed simp

section \<open>Cancelling\<close>

lemma close_books_spec:
  "wp (lg_close_books ids) (\<lambda>_ s'. cn_db s' = (cn_db s)\<lparr>lg_books :=
      update_rows (\<lambda>b. lb_id b \<in> set ids) (\<lambda>b. b\<lparr>lb_remaining := 0, lb_closed := True\<rparr>) (lg_books (cn_db s))\<rparr>)
     (\<lambda>_ _. True) s"
proof (induction ids arbitrary: s)
  case Nil
  then show ?case by (simp add: run_simps update_rows_none)
next
  case (Cons bid ids)
  let ?g = "\<lambda>b. b\<lparr>lb_remaining := 0, lb_closed := True\<rparr>"
  have "update_rows (\<lambda>b. lb_id b \<in> set ids) ?g (update_rows (\<lambda>b. lb_id b = bid) ?g bs)
      = update_rows (\<lambda>b. lb_id b \<in> set (bid # ids)) ?g bs" for bs :: "lg_book list"
    by (induction bs) (auto simp: update_rows_def)
  then show ?case
    using Cons [of "s\<lparr>cn_db := (cn_db s)\<lparr>lg_books := update_rows (\<lambda>b. lb_id b = bid) ?g (lg_books (cn_db s))\<rparr>\<rparr>"]
    by (simp add: run_simps lg_update_books_def del: set_simps)
qed

lemma sum_where_key:
  assumes "distinct (map k rows)" and "r \<in> set rows" and "k r \<notin> S"
  shows "sum_where (\<lambda>x. k x \<in> insert (k r) S) f rows = f r + sum_where (\<lambda>x. k x \<in> S) f rows"
  using assms
proof (induction rows)
  case (Cons x rows)
  show ?case
  proof (cases "x = r")
    case True
    with Cons.prems have "k y \<noteq> k r" if "y \<in> set rows" for y using that by (auto simp: image_iff)
    then have "sum_where (\<lambda>x. k x \<in> insert (k r) S) f rows = sum_where (\<lambda>x. k x \<in> S) f rows"
      by (intro sum_where_cong) auto
    with True Cons.prems(3) show ?thesis by simp
  next
    case False
    with Cons.prems have "k x \<noteq> k r" by (auto simp: image_iff)
    with False Cons show ?thesis by auto
  qed
qed simp

text \<open>The books found for distinct identifiers of one buyer hold what their sum says.\<close>

lemma found_books:
  assumes inv: "lg_inv d" and "distinct ids"
    and "None \<notin> set (map (\<lambda>bid. find (\<lambda>b. lb_id b = bid \<and> lb_buyer b = u) (lg_books d)) ids)"
  shows "closable d u ids
    (\<Sum>bid\<leftarrow>ids. lb_remaining (the (find (\<lambda>b. lb_id b = bid \<and> lb_buyer b = u) (lg_books d))))"
  using assms(2,3)
proof (induction ids)
  case Nil
  then show ?case by (simp add: closable_def sum_where_none)
next
  case (Cons bid ids)
  have dis: "distinct (map lb_id (lg_books d))" using lg_inv_parts(2) [OF inv] by (simp add: lg_books_inv_def)
  obtain b where f: "find (\<lambda>b. lb_id b = bid \<and> lb_buyer b = u) (lg_books d) = Some b"
    using Cons.prems(2) by (cases "find (\<lambda>b. lb_id b = bid \<and> lb_buyer b = u) (lg_books d)") auto
  then have b: "b \<in> set (lg_books d)" "lb_id b = bid" "lb_buyer b = u" by (auto dest: find_SomeD)
  have uniq: "x = b" if "x \<in> set (lg_books d)" "lb_id x = bid" for x
    using find_unique [of lb_id "lg_books d" x b] dis that b by simp
  have IH: "closable d u ids
    (\<Sum>bid\<leftarrow>ids. lb_remaining (the (find (\<lambda>b. lb_id b = bid \<and> lb_buyer b = u) (lg_books d))))"
    by (rule Cons.IH) (use Cons.prems in simp_all)
  have "sum_where (\<lambda>x. lb_id x \<in> insert (lb_id b) (set ids)) lb_remaining (lg_books d)
      = lb_remaining b + sum_where (\<lambda>x. lb_id x \<in> set ids) lb_remaining (lg_books d)"
    by (rule sum_where_key) (use dis b Cons.prems in auto)
  moreover have "lb_buyer x = u" if "x \<in> set (lg_books d)" "lb_id x \<in> insert bid (set ids)" for x
    using that IH uniq b(3) by (cases "lb_id x = bid") (auto simp: closable_def)
  ultimately show ?case
    using IH Cons.prems(1) by (simp add: closable_def f b(2))
qed

lemma lg_refund_spec:
  "wp (lg_refund u n) (\<lambda>_ s'. cn_db s' = (cn_db s)\<lparr>lg_accounts := update_rows (\<lambda>a. la_buyer a = u)
      (\<lambda>a. a\<lparr>la_reserved := la_reserved a - n, la_available := la_available a + n\<rparr>) (lg_accounts (cn_db s))\<rparr>)
    (\<lambda>_ _. True) s"
  by (auto simp: lg_refund_def run_simps lg_update_accounts_def check_constraint_def)

text \<open>The two statements of a cancellation together.\<close>

lemma lg_close_spec:
  "wp (bind_act (lg_refund u n) (\<lambda>_. lg_close_books ids)) (\<lambda>_ s'. cn_db s' = lg_db_close u ids n (cn_db s))
    (\<lambda>_ _. True) s"
  unfolding wp_bind
  by (rule wp_mono [OF lg_refund_spec]) (auto intro: wp_mono [OF close_books_spec] simp: lg_db_close_def)

lemma lg_cancel_tx_spec:
  assumes inv: "lg_inv (cn_db s)"
  shows "wp (lg_cancel_tx u bid) (\<lambda>v s'. \<exists>n. v = released_value n \<and> closable (cn_db s) u [bid] n
      \<and> cn_db s' = lg_db_close u [bid] n (cn_db s)) (\<lambda>_ _. True) s"
proof (cases "find (\<lambda>b. lb_id b = bid \<and> lb_buyer b = u) (lg_books (cn_db s))")
  case None
  then show ?thesis by (simp add: lg_cancel_tx_def run_simps)
next
  case (Some b)
  have "closable (cn_db s) u [bid] (lb_remaining b)"
    using found_books [OF inv, of "[bid]" u] Some by simp
  moreover have "wp (bind_act (bind_act (lg_refund u (lb_remaining b)) (\<lambda>_. lg_close_books [bid])) (\<lambda>_. ret (released_value (lb_remaining b))))
      (\<lambda>v s'. v = released_value (lb_remaining b) \<and> cn_db s' = lg_db_close u [bid] (lb_remaining b) (cn_db s)) (\<lambda>_ _. True) s"
    unfolding wp_bind [of "bind_act m f" for m f] by (rule wp_mono [OF lg_close_spec]) (simp_all add: wp_ret)
  ultimately show ?thesis
    unfolding lg_cancel_tx_def wp_bind [of "query f" for f] wp_query Some option.case bind_assoc
    by (elim wp_mono) auto
qed

definition lg_cancel_row :: "ustr \<Rightarrow> ustr \<Rightarrow> ustr list \<Rightarrow> int \<Rightarrow> lg_row" where
  "lg_cancel_row u i ids n = \<lparr>lr_buyer = u, lr_request_id = i, lr_fingerprint = lg_digest (PList (map PStr ids)),
     lr_response = dumps_sorted (cancelled_value n (length ids))\<rparr>"

definition lg_cancel_effect :: "ustr \<Rightarrow> ustr \<Rightarrow> ustr list \<Rightarrow> int \<Rightarrow> ledger_db \<Rightarrow> ledger_db \<Rightarrow> bool" where
  "lg_cancel_effect u i ids n d d' \<longleftrightarrow> closable d u ids n \<and> (u, i) \<notin> set (map lr_key (lg_cancellations d))
     \<and> d' = (lg_db_close u ids n d)\<lparr>lg_cancellations := lg_cancellations d @ [lg_cancel_row u i ids n]\<rparr>"

lemma lg_cancel_many_tx_spec:
  assumes inv: "lg_inv (cn_db s)" and dis: "distinct ids"
  shows "wp (lg_cancel_many_tx u i ids)
     (\<lambda>v s'. cn_db s' = cn_db s
          \<and> prior_row (lg_cancellations (cn_db s)) u i (lg_digest (PList (map PStr ids))) v
        \<or> (\<exists>n. v = cancelled_value n (length ids) \<and> lg_cancel_effect u i ids n (cn_db s) (cn_db s'))) (\<lambda>_ _. True) s"
  unfolding lg_cancel_many_tx_def Let_def wp_bind [of "lg_prior lg_cancellations u i fp" for fp]
proof (rule wp_mono [OF lg_prior_spec])
  fix v and s1 :: "'a ledger_conn"
  let ?d = "cn_db s"
  let ?rows = "map (\<lambda>bid. find (\<lambda>b. lb_id b = bid \<and> lb_buyer b = u) (lg_books ?d)) ids"
  let ?n = "sum_list (map (lb_remaining o the) ?rows)" and ?fp = "lg_digest (PList (map PStr ids))"
  let ?P = "\<lambda>v s'. cn_db s' = ?d \<and> prior_row (lg_cancellations ?d) u i ?fp v
        \<or> (\<exists>n. v = cancelled_value n (length ids) \<and> lg_cancel_effect u i ids n ?d (cn_db s'))"
  assume v: "cn_db s1 = ?d \<and> cn_ticks s1 = cn_ticks s \<and> lg_keys s1 = lg_keys s \<and> (v = PNone
        \<or> prior_row (lg_cancellations ?d) u i ?fp v)"
  have new: "wp (bind_act (bind_act (lg_refund u ?n) (\<lambda>_. lg_close_books ids))
      (\<lambda>_. bind_act (execute (lg_insert_cancellation (lg_cancel_row u i ids ?n)))
        (\<lambda>_. ret (cancelled_value ?n (length ids))))) ?P (\<lambda>_ _. True) s1" if "None \<notin> set ?rows"
    unfolding wp_bind [of "bind_act m f" for m f]
  proof (rule wp_mono [OF lg_close_spec])
    fix x and s2 :: "'a ledger_conn"
    assume s2: "cn_db s2 = lg_db_close u ids ?n (cn_db s1)"
    have "closable ?d u ids ?n" using found_books [OF inv dis that] by (simp add: o_def)
    then have "lg_cancel_effect u i ids ?n ?d d'"
      if "lg_insert_cancellation (lg_cancel_row u i ids ?n) (lg_db_close u ids ?n ?d) = Inr d'" for d'
      using that by (simp add: lg_cancel_effect_def lg_insert_cancellation_def lg_cancel_row_def lr_key_def lg_db_close_def
          del: set_map)
    then show "wp (bind_act (execute (lg_insert_cancellation (lg_cancel_row u i ids ?n)))
        (\<lambda>_. ret (cancelled_value ?n (length ids)))) ?P (\<lambda>_ _. True) s2"
      using s2 v by (simp add: run_simps del: set_map map_map split: sum.splits) blast
  qed simp
  show "wp (if v \<noteq> PNone then ret v
       else bind_act (query (\<lambda>d. map (\<lambda>bid. find (\<lambda>b. lb_id b = bid \<and> lb_buyer b = u) (lg_books d)) ids)) (\<lambda>rows.
         bind_act (guard (None \<notin> set rows) (Denied ''unknown book or wrong buyer'')) (\<lambda>_.
           bind_act (lg_refund u (sum_list (map (lb_remaining o the) rows))) (\<lambda>_.
           bind_act (lg_close_books ids) (\<lambda>_.
           bind_act (execute (lg_insert_cancellation \<lparr>lr_buyer = u, lr_request_id = i, lr_fingerprint = ?fp,
             lr_response = dumps_sorted (cancelled_value (sum_list (map (lb_remaining o the) rows)) (length ids))\<rparr>))
             (\<lambda>_. ret (cancelled_value (sum_list (map (lb_remaining o the) rows)) (length ids)))))))) ?P (\<lambda>_ _. True) s1"
  proof (cases "v = PNone")
    case True
    then show ?thesis
      using new v unfolding lg_cancel_row_def bind_assoc
      by (simp add: wp_bind [of "query f" for f] wp_query wp_bind [of "guard b e" for b e] wp_guard
          del: map_map set_map)
  next
    case False
    with v show ?thesis by (simp add: run_simps)
  qed
qed simp

end
