(* ===== verification/LedgerRuns.thy ===== *)
theory LedgerRuns
  imports LedgerOps
begin

text \<open>
  Histories of calls on the ledger of \<open>LedgerBook\<close>. What the ledger needs of its environment is
  the contract \<open>ledger_laws\<close>: no price is negative, and the signer returns one token for each set
  of claims. Under it every call makes one of the changes of the relation \<open>ledger_step\<close> or none,
  and the invariant holds after every history. The theory \<open>Fixture\<close> discharges the contract for
  the catalogue and the keys of the program.
\<close>

section \<open>The changes a call can make\<close>

inductive ledger_step :: "ledger_db \<Rightarrow> ledger_db \<Rightarrow> bool" where
  opened: "la_buyer a \<notin> set (map la_buyer (lg_accounts d)) \<Longrightarrow> lg_account_ok a \<Longrightarrow> la_available a = la_initial a
    \<Longrightarrow> la_reserved a = 0 \<Longrightarrow> la_spent a = 0 \<Longrightarrow> ledger_step d (d\<lparr>lg_accounts := lg_accounts d @ [a]\<rparr>)"
| batched: "lg_batch_effect q now kid bs d d' \<Longrightarrow> ledger_step d d'"
| paid: "lg_pay_effect q rid t t' d d' \<Longrightarrow> ledger_step d d'"
| closed: "closable d u ids n \<Longrightarrow> ledger_step d (lg_db_close u ids n d)"
| cancelled: "lg_cancel_effect u i ids n d d' \<Longrightarrow> ledger_step d d'"
| barred: "kid \<notin> set (lg_revoked d) \<Longrightarrow> ledger_step d (d\<lparr>lg_revoked := lg_revoked d @ [kid]\<rparr>)"

inductive_cases ledger_stepE: "ledger_step d d'"

lemma ledger_step_inv: "ledger_step d d' \<Longrightarrow> lg_inv d \<Longrightarrow> lg_inv d'"
proof (induction rule: ledger_step.induct)
  case (opened a d)
  then show ?case by (intro lg_fund_inv)
next
  case (batched q now kid bs d d')
  then show ?case by (auto simp: lg_batch_effect_def intro: lg_issue_inv)
next
  case (paid q rid t t' d d')
  then show ?case by (auto simp: lg_pay_effect_def Let_def intro: lg_pay_inv)
next
  case (closed d u ids n)
  then show ?case by (intro lg_close_inv)
next
  case (cancelled u i ids n d d')
  then have c: "closable d u ids n" "(u, i) \<notin> set (map lr_key (lg_cancellations d))"
    and d': "d' = (lg_db_close u ids n d)\<lparr>lg_cancellations := lg_cancellations d @ [lg_cancel_row u i ids n]\<rparr>"
    by (simp_all add: lg_cancel_effect_def)
  have same: "lg_cancellations (lg_db_close u ids n d) = lg_cancellations d" by (simp add: lg_db_close_def)
  from lg_cancellation_inv [OF lg_close_inv [OF cancelled(2) c(1)], of "lg_cancel_row u i ids n"] c(2)
  show ?case by (simp add: d' same lg_cancel_row_def lr_key_def)
next
  case (barred kid d)
  then show ?case by (intro lg_revoked_inv)
qed

section \<open>Arguments\<close>

lemma offer_priced: "priced catalog \<Longrightarrow> lg_offer_of catalog v = Inr x \<Longrightarrow> 0 \<le> lo_units x"
  by (fastforce simp: lg_offer_of_def priced_def split: option.splits dest!: map_of_SomeD)

lemma groups_priced:
  "priced catalog \<Longrightarrow> lg_groups catalog n gs = Inr ms \<Longrightarrow> m \<in> set ms \<Longrightarrow> priced m"
proof (induction gs arbitrary: n ms)
  case (Cons g gs)
  from Cons.prems(2) obtain k names m0 ms' where
    m0: "map_res (\<lambda>r. bind_res (lg_offer_of catalog (PStr r)) (\<lambda>x. Inr (r, x))) names = Inr m0"
    and ms': "lg_groups catalog k gs = Inr ms'" and ms: "ms = m0 # ms'"
    by (auto split: option.splits if_splits)
  have "0 \<le> lo_units (snd p)" if p: "p \<in> set m0" for p
  proof -
    from m0 p obtain r where "bind_res (lg_offer_of catalog (PStr r)) (\<lambda>x. Inr (r, x)) = Inr p"
      unfolding map_res_Inr_iff list_all2_conv_all_nth in_set_conv_nth by metis
    then obtain x where "lg_offer_of catalog (PStr r) = Inr x" "p = (r, x)" by auto
    with offer_priced [OF Cons.prems(1)] show ?thesis by simp
  qed
  then have "priced m0" by (simp add: priced_def)
  with Cons ms' show ?case by (auto simp: ms)
qed simp

lemma issue_args_groups:
  "lg_issue_args catalog b i bs m t = Inr q \<Longrightarrow> \<exists>gs. bs = PList gs \<and> lg_groups catalog 0 gs = Inr (ri_manifests q)"
  by (auto simp: lg_issue_args_def split: option.splits if_splits)

lemma issue_args_priced:
  "priced catalog \<Longrightarrow> lg_issue_args catalog b i bs m t = Inr q \<Longrightarrow> x \<in> set (ri_manifests q) \<Longrightarrow> priced x"
  using issue_args_groups groups_priced by blast

lemma spend_args_offer:
  "lg_spend_args catalog b i r c t m bk tok = Inr q \<Longrightarrow> lg_offer_of catalog r = Inr (sq_offer q)"
  by (auto simp: lg_spend_args_def split: if_splits)

lemma spend_args_priced:
  "priced catalog \<Longrightarrow> lg_spend_args catalog b i r c t m bk tok = Inr q \<Longrightarrow> 0 \<le> lo_units (sq_offer q)"
  using spend_args_offer offer_priced by blast

section \<open>The contract of the environment\<close>

text \<open>A batch of books was signed at \<open>now\<close> by the keys \<open>k\<close>: fresh identifiers, one token per set of claims.\<close>

definition batch_signed ::
    "'k ledger_env \<Rightarrow> 'k \<Rightarrow> lg_request \<Rightarrow> int \<Rightarrow> ustr \<Rightarrow> (ustr \<times> ustr \<times> manifest) list \<Rightarrow> bool" where
  "batch_signed env k q now kid bs \<longleftrightarrow> set (map fst bs) \<subseteq> range (le_random env)
     \<and> fst (le_sign env (map2 (lg_claims q now) (map fst bs) (ri_manifests q)) k) = Inr (kid, map (fst o snd) bs)"

locale ledger_laws =
  fixes env :: "'k ledger_env"
  assumes prices: "priced (le_catalog env)"
    and one_token_each: "fst (le_sign env claims k) = Inr (kid, tokens) \<Longrightarrow> length tokens = length claims"
begin

lemma wp_draws_length: "wp (draws r n) (\<lambda>xs s'. length xs = n \<and> cn_db s' = cn_db s) (\<lambda>_ _. False) s"
  by (simp add: wp_draws)

lemma prepare_spec:
  assumes m: "\<And>m. m \<in> set (ri_manifests q) \<Longrightarrow> priced m"
  shows "wp (lg_prepare env q)
     (\<lambda>v s'. cn_db s' = cn_db s \<and> prior_row (lg_issues (cn_db s)) (ri_buyer q) (ri_request q) (ri_fp q) v
        \<or> (\<exists>now kid bs. v = lg_response bs \<and> batch_signed env (lg_keys s) q now kid bs \<and> lg_batch_effect q now kid bs (cn_db s) (cn_db s'))) (\<lambda>_ _. True) s"
    (is "wp _ ?P _ s")
proof -
  have tx: "wp (transaction (lg_issue_tx env q now kid (zip ids (zip tokens (ri_manifests q))))) ?P (\<lambda>_ _. True) s1"
    if s1: "cn_db s1 = cn_db s" and len: "length ids = length (ri_manifests q)" "length tokens = length (ri_manifests q)"
      and sign: "set ids \<subseteq> range (le_random env)"
        "fst (le_sign env (map2 (lg_claims q now) ids (ri_manifests q)) (lg_keys s)) = Inr (kid, tokens)"
    for now kid ids tokens and s1 :: "'k ledger_conn"
  proof -
    have bs: "map (snd o snd) (zip ids (zip tokens (ri_manifests q))) = ri_manifests q"
      using len by (simp flip: map_map)
    have signed: "batch_signed env (lg_keys s) q now kid (zip ids (zip tokens (ri_manifests q)))"
      using len sign by (simp add: batch_signed_def flip: map_map)
    show ?thesis
      by (rule wp_saved [OF lg_issue_tx_spec [OF m bs]]) (use s1 signed in auto)
  qed
  show ?thesis
  proof (cases "sum_list (map manifest_units (ri_manifests q)) \<le> ri_max_units q")
    case True
    let ?now = "le_clock env (cn_ticks s)" and ?n = "length (ri_manifests q)"
    let ?ids = "map (le_random env) [cn_draws s..<cn_draws s + ?n]"
    let ?claims = "map2 (lg_claims q ?now) ?ids (ri_manifests q)"
    show ?thesis
    proof (cases "le_sign env ?claims (lg_keys s)")
      case (Pair r k)
      show ?thesis
      proof (cases r)
        case (Inl e)
        with Pair True show ?thesis by (simp add: lg_prepare_def run_simps)
      next
        case (Inr p)
        obtain kid tokens where p: "p = (kid, tokens)" by (cases p)
        have "length tokens = ?n" using one_token_each [of ?claims "lg_keys s" kid tokens] Pair Inr p by simp
        with Pair Inr p True tx [of "s\<lparr>cn_ticks := Suc (cn_ticks s), cn_draws := cn_draws s + ?n, lg_keys := k\<rparr>" ?ids tokens ?now kid]
        show ?thesis by (simp add: lg_prepare_def wp_bind wp_guard wp_clock wp_draws wp_keys_sign image_mono)
      qed
    qed
  next
    case False
    then show ?thesis by (simp add: lg_prepare_def run_simps)
  qed
qed

lemma issuing_spec:
  "wp (lg_issue env b i bs m t)
     (\<lambda>v s'. \<exists>q. lg_issue_args (le_catalog env) b i bs m t = Inr q
        \<and> (cn_db s' = cn_db s \<and> prior_row (lg_issues (cn_db s)) (ri_buyer q) (ri_request q) (ri_fp q) v
           \<or> (\<exists>now kid bs. v = lg_response bs \<and> batch_signed env (lg_keys s) q now kid bs \<and> lg_batch_effect q now kid bs (cn_db s) (cn_db s')))) (\<lambda>_ _. True) s"
    (is "wp _ ?P _ s")
proof (cases "lg_issue_args (le_catalog env) b i bs m t")
  case (Inl e)
  then show ?thesis by (simp add: lg_issue_def run_simps)
next
  case (Inr q)
  have prior: "wp (transaction (lg_prior lg_issues (ri_buyer q) (ri_request q) (ri_fp q)))
      (\<lambda>v s'. cn_db s' = cn_db s \<and> lg_keys s' = lg_keys s \<and> (v = PNone \<or> prior_row (lg_issues (cn_db s)) (ri_buyer q) (ri_request q) (ri_fp q) v))
      (\<lambda>_ _. True) s"
    by (rule wp_saved [OF lg_prior_spec]) auto
  have next_part: "wp (if v \<noteq> PNone then ret v else lg_prepare env q) ?P (\<lambda>_ _. True) s1"
    if "cn_db s1 = cn_db s \<and> lg_keys s1 = lg_keys s \<and> (v = PNone \<or> prior_row (lg_issues (cn_db s)) (ri_buyer q) (ri_request q) (ri_fp q) v)"
    for v and s1 :: "'k ledger_conn"
  proof (cases "v = PNone")
    case True
    have "wp (lg_prepare env q) ?P (\<lambda>_ _. True) s1"
      by (rule wp_mono [OF prepare_spec [OF issue_args_priced [OF prices Inr]]]) (use that Inr in auto)
    with True show ?thesis by simp
  next
    case False
    with that Inr show ?thesis by (simp add: wp_ret)
  qed
  have "wp (transaction (lg_prior lg_issues (ri_buyer q) (ri_request q) (ri_fp q)))
      (\<lambda>v. wp (if v \<noteq> PNone then ret v else lg_prepare env q) ?P (\<lambda>_ _. True)) (\<lambda>_ _. True) s"
    by (rule wp_mono [OF prior next_part]) simp_all
  then show ?thesis
    unfolding lg_issue_def wp_bind [of "lift_res r" for r] wp_lift Inr sum.case
      wp_bind [of "transaction m" for m] .
qed

lemma spend_spec:
  assumes "lg_inv (cn_db s)"
  shows "wp (lg_spend env b i r c t m bk tok)
     (\<lambda>v s'. \<exists>q. lg_spend_args (le_catalog env) b i r c t m bk tok = Inr q
        \<and> (cn_db s' = cn_db s \<and> prior_row (lg_receipts (cn_db s)) (sq_buyer q) (sq_request q) (sq_fp q) v
           \<or> (\<exists>rid t'. rid \<in> range (le_random env) \<and> v = lg_receipt_value q rid t' \<and> lg_pay_effect q rid (le_clock env (cn_ticks s)) t' (cn_db s) (cn_db s')))) (\<lambda>_ _. True) s"
proof (cases "lg_spend_args (le_catalog env) b i r c t m bk tok")
  case (Inl e)
  then show ?thesis by (simp add: lg_spend_def run_simps)
next
  case (Inr q)
  have "wp (transaction (lg_spend_tx env q))
     (\<lambda>v s'. cn_db s' = cn_db s \<and> prior_row (lg_receipts (cn_db s)) (sq_buyer q) (sq_request q) (sq_fp q) v
        \<or> (\<exists>rid t'. rid \<in> range (le_random env) \<and> v = lg_receipt_value q rid t' \<and> lg_pay_effect q rid (le_clock env (cn_ticks s)) t' (cn_db s) (cn_db s'))) (\<lambda>_ _. True) s"
    by (rule wp_saved [OF lg_spend_tx_spec [OF _ spend_args_priced [OF prices Inr]]]) (use assms in auto)
  then show ?thesis by (simp add: lg_spend_def wp_bind wp_lift Inr)
qed

lemma cancel_spec:
  assumes "lg_inv (cn_db s)"
  shows "wp (lg_cancel u x) (\<lambda>v s'. \<exists>bid n. x = PStr bid \<and> v = released_value n \<and> closable (cn_db s) u [bid] n
      \<and> cn_db s' = lg_db_close u [bid] n (cn_db s)) (\<lambda>_ _. True) s"
proof (cases "check_name x")
  case (Inr bid)
  have "wp (transaction (lg_cancel_tx u bid)) (\<lambda>v s'. \<exists>n. v = released_value n \<and> closable (cn_db s) u [bid] n
      \<and> cn_db s' = lg_db_close u [bid] n (cn_db s)) (\<lambda>_ _. True) s"
    by (rule wp_saved [OF lg_cancel_tx_spec]) (use assms in auto)
  moreover have "x = PStr bid" using Inr by (simp add: check_name_Inr_iff)
  ultimately show ?thesis by (simp add: lg_cancel_def wp_bind wp_lift Inr [unfolded \<open>x = PStr bid\<close>])
qed (simp add: lg_cancel_def run_simps)

lemma cancel_args_distinct: "lg_cancel_args b i xs = Inr (u, j, ids) \<Longrightarrow> distinct ids"
  by (auto simp: lg_cancel_args_def split: option.splits if_splits)

lemma cancel_many_spec:
  assumes "lg_inv (cn_db s)"
  shows "wp (lg_cancel_many b i xs)
     (\<lambda>v s'. \<exists>u j ids. lg_cancel_args b i xs = Inr (u, j, ids)
        \<and> (cn_db s' = cn_db s \<and> prior_row (lg_cancellations (cn_db s)) u j (lg_digest (PList (map PStr ids))) v
           \<or> (\<exists>n. v = cancelled_value n (length ids) \<and> lg_cancel_effect u j ids n (cn_db s) (cn_db s')))) (\<lambda>_ _. True) s"
proof (cases "lg_cancel_args b i xs")
  case (Inr p)
  obtain u j ids where p: "p = (u, j, ids)" by (cases p)
  have "wp (transaction (lg_cancel_many_tx u j ids))
     (\<lambda>v s'. cn_db s' = cn_db s \<and> prior_row (lg_cancellations (cn_db s)) u j (lg_digest (PList (map PStr ids))) v
        \<or> (\<exists>n. v = cancelled_value n (length ids) \<and> lg_cancel_effect u j ids n (cn_db s) (cn_db s'))) (\<lambda>_ _. True) s"
    by (rule wp_saved [OF lg_cancel_many_tx_spec]) (use assms cancel_args_distinct Inr p in auto)
  with Inr p show ?thesis by (simp add: lg_cancel_many_def wp_bind wp_lift)
qed (simp add: lg_cancel_many_def run_simps)

lemma seed_spec:
  "wp (lg_seed b n) (\<lambda>_ s'. ledger_step (cn_db s) (cn_db s')) (\<lambda>_ _. True) s"
proof (cases "bind_res (check_name b) (\<lambda>b. bind_res (check_range n 1 (10 ^ 12)) (\<lambda>n. Inr (b, n)))")
  case (Inr p)
  obtain u m where p: "p = (u, m)" by (cases p)
  with Inr have "1 \<le> m" by (auto simp: check_range_Inr_iff)
  then show ?thesis
    using Inr p unfolding lg_seed_def wp_bind wp_lift Inr sum.case p prod.case wp_transaction
    by (auto simp: run_simps lg_insert_account_def check_constraint_def lg_account_ok_def intro!: ledger_step.opened)
qed (simp only: lg_seed_def wp_bind wp_lift sum.case)

lemma revoke_spec:
  "wp (lg_revoke k) (\<lambda>_ s'. cn_db s' = cn_db s \<or> ledger_step (cn_db s) (cn_db s')) (\<lambda>_ _. True) s"
  by (auto simp: lg_revoke_def run_simps lg_insert_revoked_def intro: ledger_step.barred)

lemma audit_reads: "wp lg_audit (\<lambda>_ s'. cn_db s' = cn_db s) (\<lambda>_ _. True) s"
  by (auto simp: lg_audit_def run_simps split: sum.splits)

text \<open>Every call makes one change of the relation, or none.\<close>

abbreviation stays_or_steps :: "ledger_db \<Rightarrow> ledger_db \<Rightarrow> bool" where
  "stays_or_steps d d' \<equiv> d' = d \<or> ledger_step d d'"

lemma step_spec:
  assumes "lg_inv (cn_db s)"
  shows "wp (lg_step env op) (\<lambda>_ s'. stays_or_steps (cn_db s) (cn_db s')) (\<lambda>_ s'. cn_db s' = cn_db s) s"
proof -
  have "wp (lg_step env op) (\<lambda>_ s'. stays_or_steps (cn_db s) (cn_db s')) (\<lambda>_ _. True) s"
  proof (cases op)
    case (LSeed b n)
    then show ?thesis by (simp add: wp_bind wp_ret_fun) (rule wp_mono [OF seed_spec], simp_all)
  next
    case (LIssue b i bs m t)
    then show ?thesis by simp (rule wp_mono [OF issuing_spec], auto intro: ledger_step.batched)
  next
    case (LSpend b i r c t m bk tok)
    then show ?thesis by simp (rule wp_mono [OF spend_spec [OF assms]], auto intro: ledger_step.paid)
  next
    case (LCancel b x)
    then show ?thesis by simp (rule wp_mono [OF cancel_spec [OF assms]], auto intro: ledger_step.closed)
  next
    case (LCancelMany b i xs)
    then show ?thesis by simp (rule wp_mono [OF cancel_many_spec [OF assms]], auto intro: ledger_step.cancelled)
  next
    case (LRevoke k)
    then show ?thesis by (simp add: wp_bind wp_ret_fun) (rule revoke_spec)
  next
    case LAudit
    then show ?thesis by simp (rule wp_mono [OF audit_reads], simp_all)
  qed
  from atomic_wp [OF lg_step_atomic this] show ?thesis by simp
qed

end

text \<open>So under the contract the ledger is a service in the sense of \<open>Txn\<close>.\<close>

sublocale ledger_laws \<subseteq> ledger: service "lg_step env" lg_inv
proof unfold_locales
  fix s :: "'k ledger_conn" and op e s'
  show "lg_step env op s = (Inl e, s') \<Longrightarrow> cn_db s' = cn_db s"
    by (rule atomicD [OF lg_step_atomic])
  assume inv: "lg_inv (cn_db s)"
  obtain r s' where st: "lg_step env op s = (r, s')" by fastforce
  show "lg_inv (cn_db (snd (lg_step env op s)))"
    using step_spec [OF inv, of op] inv st by (cases r) (auto simp: wp_def intro: ledger_step_inv)
qed

end
