(* ===== verification/Effects.thy ===== *)
theory Effects
  imports Core
begin

text \<open>
  Methods that change the attributes of an object and may raise: a function from the object's
  state to a result and the state it leaves, which an exception does not undo. The components
  that keep a state of their own outside the database (the runtime of the native library, the
  verified signer, the connection pool, the key store) are written with these combinators, and
  \<open>post\<close> is the postcondition their lemmas are stated with.
\<close>

section \<open>Combinators\<close>

type_synonym ('s, 'a) eff = "'s \<Rightarrow> 'a result \<times> 's"

definition eret :: "'a \<Rightarrow> ('s, 'a) eff" where
  "eret x s = (Inr x, s)"

definition eraise :: "exn \<Rightarrow> ('s, 'a) eff" where
  "eraise e s = (Inl e, s)"

definition ebind :: "('s, 'a) eff \<Rightarrow> ('a \<Rightarrow> ('s, 'b) eff) \<Rightarrow> ('s, 'b) eff" where
  "ebind m f s = (case m s of (Inl e, s') \<Rightarrow> (Inl e, s') | (Inr x, s') \<Rightarrow> f x s')"

definition elift :: "'a result \<Rightarrow> ('s, 'a) eff" where
  "elift r s = (r, s)"

definition eguard :: "bool \<Rightarrow> exn \<Rightarrow> ('s, unit) eff" where
  "eguard b e s = (if b then Inr () else Inl e, s)"

definition eget :: "('s \<Rightarrow> 'a) \<Rightarrow> ('s, 'a) eff" where
  "eget f s = (Inr (f s), s)"

definition emod :: "('s \<Rightarrow> 's) \<Rightarrow> ('s, unit) eff" where
  "emod f s = (Inr (), f s)"

text \<open>\<open>try: m except E: h\<close>; the handler sees the exception and the state the body left.\<close>

definition ecatch :: "('s, 'a) eff \<Rightarrow> (exn \<Rightarrow> ('s, 'a) eff) \<Rightarrow> ('s, 'a) eff" where
  "ecatch m h s = (case m s of (Inl e, s') \<Rightarrow> h e s' | (Inr x, s') \<Rightarrow> (Inr x, s'))"

text \<open>A method of an object that is an attribute of this one.\<close>

definition ezoom :: "('s \<Rightarrow> 't) \<Rightarrow> ('t \<Rightarrow> 's \<Rightarrow> 's) \<Rightarrow> ('t, 'a) eff \<Rightarrow> ('s, 'a) eff" where
  "ezoom get put m s = (case m (get s) of (r, t) \<Rightarrow> (r, put t s))"

fun eeach :: "('a \<Rightarrow> ('s, 'b) eff) \<Rightarrow> 'a list \<Rightarrow> ('s, 'b list) eff" where
  "eeach f [] = eret []"
| "eeach f (x # xs) = ebind (f x) (\<lambda>y. ebind (eeach f xs) (\<lambda>ys. eret (y # ys)))"

section \<open>Postconditions\<close>

definition post :: "('s, 'a) eff \<Rightarrow> ('a \<Rightarrow> 's \<Rightarrow> bool) \<Rightarrow> (exn \<Rightarrow> 's \<Rightarrow> bool) \<Rightarrow> 's \<Rightarrow> bool" where
  "post m Q E s \<longleftrightarrow> (case m s of (Inr x, s') \<Rightarrow> Q x s' | (Inl e, s') \<Rightarrow> E e s')"

named_theorems post_simps \<open>rules that compute \<open>post\<close> along the structure of an action\<close>

lemma post_basic [post_simps]:
  "post (eret x) Q E s \<longleftrightarrow> Q x s"
  "post (eraise e) Q E s \<longleftrightarrow> E e s"
  "post (eguard b e) U E s \<longleftrightarrow> (if b then U () s else E e s)"
  "post (eget f) V E s \<longleftrightarrow> V (f s) s"
  "post (emod g) U E s \<longleftrightarrow> U () (g s)"
  "post (elift r) W E s \<longleftrightarrow> (case r of Inr x \<Rightarrow> W x s | Inl e \<Rightarrow> E e s)"
  by (simp_all add: post_def eret_def eraise_def eguard_def eget_def emod_def elift_def split: sum.split)

lemma post_bind [post_simps]: "post (ebind m f) Q E s \<longleftrightarrow> post m (\<lambda>x. post (f x) Q E) E s"
  by (auto simp: post_def ebind_def split: prod.splits sum.splits)

lemma post_catch [post_simps]: "post (ecatch m h) Q E s \<longleftrightarrow> post m Q (\<lambda>e. post (h e) Q E) s"
  by (auto simp: post_def ecatch_def split: prod.splits sum.splits)

lemma post_zoom [post_simps]:
  "post (ezoom get put m) Q E s \<longleftrightarrow> post m (\<lambda>x t. Q x (put t s)) (\<lambda>e t. E e (put t s)) (get s)"
  by (auto simp: post_def ezoom_def split: prod.splits sum.splits)

lemma post_if [post_simps]: "post (if b then m else m') Q E s \<longleftrightarrow> (if b then post m Q E s else post m' Q E s)"
  by simp

lemma post_ret_fun: "post (eret x) Q E = Q x"
  by (rule ext) (simp add: post_simps)

lemma post_mono:
  "post m Q E s \<Longrightarrow> (\<And>x s'. Q x s' \<Longrightarrow> Q' x s') \<Longrightarrow> (\<And>e s'. E e s' \<Longrightarrow> E' e s') \<Longrightarrow> post m Q' E' s"
  by (auto simp: post_def split: prod.splits sum.splits)

lemma postI:
  "(\<And>x s'. m s = (Inr x, s') \<Longrightarrow> Q x s') \<Longrightarrow> (\<And>e s'. m s = (Inl e, s') \<Longrightarrow> E e s') \<Longrightarrow> post m Q E s"
  by (auto simp: post_def split: prod.splits sum.splits)

lemma post_Inr: "post m Q E s \<Longrightarrow> m s = (Inr x, s') \<Longrightarrow> Q x s'"
  by (simp add: post_def)

lemma post_Inl: "post m Q E s \<Longrightarrow> m s = (Inl e, s') \<Longrightarrow> E e s'"
  by (simp add: post_def)

lemma post_eq: "post m (\<lambda>x s'. x = v \<and> s' = t) (\<lambda>_ _. False) s \<Longrightarrow> m s = (Inr v, t)"
  by (auto simp: post_def split: prod.splits sum.splits)

lemma post_True: "post m (\<lambda>_ _. True) (\<lambda>_ _. True) s"
  by (auto simp: post_def split: prod.splits sum.splits)

lemma post_conj: "post m Q E s \<Longrightarrow> post m Q' E' s \<Longrightarrow> post m (\<lambda>x s. Q x s \<and> Q' x s) (\<lambda>e s. E e s \<and> E' e s) s"
  by (auto simp: post_def split: prod.splits sum.splits)

text \<open>A condition on the state that every outcome of an action keeps.\<close>

definition keeps :: "('s \<Rightarrow> bool) \<Rightarrow> ('s, 'a) eff \<Rightarrow> bool" where
  "keeps I m \<longleftrightarrow> (\<forall>s. I s \<longrightarrow> post m (\<lambda>_. I) (\<lambda>_. I) s)"

named_theorems keeps_intros \<open>introduction rules of \<open>keeps\<close>\<close>

lemma keeps_basic [keeps_intros]:
  "keeps I (eret x)" "keeps I (eraise e)" "keeps I (eguard b e)" "keeps I (eget f)" "keeps I (elift r)"
  by (auto simp: keeps_def post_simps split: sum.split)

lemma keeps_bind [keeps_intros]:
  "keeps I m \<Longrightarrow> (\<And>x. keeps I (f x)) \<Longrightarrow> keeps I (ebind m f)"
  by (auto simp: keeps_def post_bind elim!: post_mono)

lemma keeps_catch [keeps_intros]:
  "keeps I m \<Longrightarrow> (\<And>e. keeps I (h e)) \<Longrightarrow> keeps I (ecatch m h)"
  by (auto simp: keeps_def post_catch elim!: post_mono)

lemma keeps_if [keeps_intros]: "keeps I m \<Longrightarrow> keeps I m' \<Longrightarrow> keeps I (if b then m else m')"
  by simp

lemma keeps_option [keeps_intros]:
  "keeps I m \<Longrightarrow> (\<And>x. keeps I (f x)) \<Longrightarrow> keeps I (case v of None \<Rightarrow> m | Some x \<Rightarrow> f x)"
  by (cases v) simp_all

lemma keeps_prod [keeps_intros]: "(\<And>x y. keeps I (f x y)) \<Longrightarrow> keeps I (case p of (x, y) \<Rightarrow> f x y)"
  by (cases p) simp

lemma keeps_each [keeps_intros]: "(\<And>x. keeps I (f x)) \<Longrightarrow> keeps I (eeach f xs)"
proof (induction xs)
  case (Cons x xs)
  show ?case unfolding eeach.simps by (intro keeps_bind keeps_basic Cons.IH Cons.prems)
qed (simp add: keeps_basic)

lemma keeps_let [keeps_intros]: "keeps I (f x) \<Longrightarrow> keeps I (let y = x in f y)"
  by simp

lemma keeps_mod: "(\<And>s. I s \<Longrightarrow> I (g s)) \<Longrightarrow> keeps I (emod g)"
  by (simp add: keeps_def post_simps)

lemma keepsD: "keeps I m \<Longrightarrow> I s \<Longrightarrow> I (snd (m s))"
  by (cases "m s"; cases "fst (m s)") (auto simp: keeps_def post_def)

end
