(* ===== verification/Native.thy ===== *)
theory Native
  imports Effects
begin

text \<open>
  \<open>python/batchcrypto/__init__.py\<close>, the CUDA backend: the class \<open>Cuda\<close>, which calls the native
  library once per batch, and the class \<open>Runtime\<close>, which owns a native context with key slots.

  The native library (\<open>include/batchcrypto.h\<close>) is C++ and CUDA code: its entry points are the
  fields of the record \<open>native\<close>, functions of the arguments and of a state \<open>'n\<close> that is opaque
  here. An output buffer is what the library wrote into a buffer of zeros, \<open>buffer n b\<close>; the
  status bytes are a buffer too. The declarations of argument types for \<open>ctypes\<close> and the
  clearing of buffers have no counterpart.
\<close>

section \<open>The native library\<close>

record report =
  rp_submitted :: nat
  rp_completed :: nat
  rp_errors :: nat
  rp_key_epoch :: nat

record 'o native_call =
  nc_rc :: nat
  nc_status :: bytes
  nc_out :: 'o
  nc_report :: report

text \<open>
  Entry points take the device or the context handle, then the arguments; the \<open>_at_epoch\<close> variant
  of a keyed call is the one with \<open>Some\<close> epoch.
\<close>

record 'n native =
  nv_error_string :: "nat \<Rightarrow> string"
  nv_has :: "string \<Rightarrow> bool"
  nv_abi :: nat
  nv_create :: "nat \<Rightarrow> 'n \<Rightarrow> (nat \<times> nat) \<times> 'n"
  nv_destroy :: "nat \<Rightarrow> 'n \<Rightarrow> 'n"
  nv_set_backend :: "nat \<Rightarrow> nat \<Rightarrow> 'n \<Rightarrow> nat \<times> 'n"
  nv_get_backend :: "nat \<Rightarrow> 'n \<Rightarrow> (nat \<times> nat) \<times> 'n"
  nv_key_put :: "nat \<Rightarrow> nat \<Rightarrow> nat \<Rightarrow> bytes \<Rightarrow> nat \<Rightarrow> 'n \<Rightarrow> (nat \<times> nat) \<times> 'n"
  nv_key_remove :: "nat \<Rightarrow> nat \<Rightarrow> nat \<Rightarrow> 'n \<Rightarrow> (nat \<times> nat) \<times> 'n"
  nv_get_stats :: "nat \<Rightarrow> 'n \<Rightarrow> (nat \<times> nat list) \<times> 'n"
  nv_aead :: "bool \<Rightarrow> nat \<Rightarrow> nat \<Rightarrow> nat option \<Rightarrow> aead_record list \<Rightarrow> 'n \<Rightarrow> bytes list native_call \<times> 'n"
  nv_sign :: "nat \<Rightarrow> nat \<Rightarrow> nat option \<Rightarrow> bytes list \<Rightarrow> 'n \<Rightarrow> bytes native_call \<times> 'n"
  nv_hash :: "nat \<Rightarrow> bytes list \<Rightarrow> 'n \<Rightarrow> bytes native_call \<times> 'n"
  nv_export :: "nat \<Rightarrow> nat \<Rightarrow> 'n \<Rightarrow> (nat \<times> bytes \<times> nat) \<times> 'n"
  nv_device_aead :: "bool \<Rightarrow> nat \<Rightarrow> bytes \<Rightarrow> aead_record list \<Rightarrow> 'n \<Rightarrow> (nat \<times> bytes \<times> bytes list) \<times> 'n"
  nv_device_sign :: "nat \<Rightarrow> bytes \<Rightarrow> bytes list \<Rightarrow> 'n \<Rightarrow> (nat \<times> bytes \<times> bytes) \<times> 'n"
  nv_device_hash :: "nat \<Rightarrow> bytes list \<Rightarrow> 'n \<Rightarrow> (nat \<times> bytes \<times> bytes) \<times> 'n"
  nv_device_public :: "nat \<Rightarrow> bytes \<Rightarrow> 'n \<Rightarrow> (nat \<times> bytes) \<times> 'n"

definition buffer :: "nat \<Rightarrow> bytes \<Rightarrow> bytes" where
  "buffer n b = take n (b @ replicate n 0)"

lemma length_buffer [simp]: "length (buffer n b) = n"
  by (simp add: buffer_def)

lemma buffer_full [simp]: "length b = n \<Longrightarrow> buffer n b = b"
  by (simp add: buffer_def)

text \<open>\<open>isinstance(value, int)\<close>, which a \<open>bool\<close> satisfies.\<close>

fun as_index :: "pyval \<Rightarrow> int option" where
  "as_index (PInt n) = Some n"
| "as_index (PBool b) = Some (if b then 1 else 0)"
| "as_index _ = None"

definition check_index :: "pyval \<Rightarrow> int \<Rightarrow> string \<Rightarrow> nat result" where
  "check_index v bound msg = (case as_index v of
     None \<Rightarrow> Inl (ValueError msg)
   | Some n \<Rightarrow> if 0 \<le> n \<and> n < bound then Inr (nat n) else Inl (ValueError msg))"

section \<open>One call per batch: the class \<open>Cuda\<close>\<close>

record cuda =
  cu_device :: nat

definition check_status :: "'n native \<Rightarrow> nat \<Rightarrow> ('s, unit) eff" where
  "check_status lib status = eguard (status = 0) (RuntimeError (nv_error_string lib status))"

text \<open>A native call changes the state of the library and returns; it does not raise.\<close>

definition native_step :: "('n \<Rightarrow> 'a \<times> 'n) \<Rightarrow> ('n, 'a) eff" where
  "native_step f n = (case f n of (x, n') \<Rightarrow> (Inr x, n'))"

definition cuda_init :: "'n native \<Rightarrow> pyval \<Rightarrow> cuda result" where
  "cuda_init lib device =
     bind_res (check_index device (2 ^ 31) ''invalid device index'') (\<lambda>d.
     if nv_abi lib \<noteq> 1 then Inl (RuntimeError ''unsupported native ABI'') else Inr \<lparr>cu_device = d\<rparr>)"

text \<open>The size of a record's output, and the loop that reads the statuses.\<close>

definition out_size :: "bool \<Rightarrow> aead_record \<Rightarrow> nat" where
  "out_size opening r = (if opening then length (rec_data r) - 16 else length (rec_data r) + 16)"

definition read_record ::
    "'n native \<Rightarrow> bool \<Rightarrow> byte \<times> aead_record \<times> bytes \<Rightarrow> ('s, bytes option) eff" where
  "read_record lib opening = (\<lambda>(st, r, out).
     if opening \<and> st = 3 then eret None
     else ebind (check_status lib (unat st)) (\<lambda>_.
       eret (Some (take (out_size opening r) (buffer (max 1 (out_size opening r)) out)))))"

definition cuda_aead ::
    "'n native \<Rightarrow> pyval \<Rightarrow> pyval iterable \<Rightarrow> bool
      \<Rightarrow> (bytes \<Rightarrow> aead_record list \<Rightarrow> ('s, nat \<times> bytes \<times> bytes list) eff) \<Rightarrow> ('s, bytes option list) eff" where
  "cuda_aead lib key rs opening invoke =
     ebind (elift (py_records key rs opening)) (\<lambda>(k, records).
       if records = [] then eret []
       else ebind (invoke k records) (\<lambda>(rc, status, outs).
         ebind (check_status lib rc) (\<lambda>_.
           eeach (read_record lib opening) (zip (buffer (length records) status)
             (zip records (take (length records) (outs @ replicate (length records) [])))))))"

definition cuda_seal :: "'n native \<Rightarrow> cuda \<Rightarrow> pyval \<Rightarrow> pyval iterable \<Rightarrow> ('n, bytes option list) eff" where
  "cuda_seal lib c key rs =
     cuda_aead lib key rs False (\<lambda>k records. native_step (nv_device_aead lib False (cu_device c) k records))"

definition cuda_open :: "'n native \<Rightarrow> cuda \<Rightarrow> pyval \<Rightarrow> pyval iterable \<Rightarrow> ('n, bytes option list) eff" where
  "cuda_open lib c key rs =
     cuda_aead lib key rs True (\<lambda>k records. native_step (nv_device_aead lib True (cu_device c) k records))"

text \<open>Fixed-size outputs in one buffer: check every status, then cut the buffer.\<close>

definition cut :: "nat \<Rightarrow> nat \<Rightarrow> bytes \<Rightarrow> bytes list" where
  "cut w n raw = map (\<lambda>i. take w (drop (i * w) raw)) [0..<n]"

definition read_fixed :: "'n native \<Rightarrow> nat \<Rightarrow> nat \<Rightarrow> nat \<times> bytes \<times> bytes \<Rightarrow> ('s, bytes list) eff" where
  "read_fixed lib w n = (\<lambda>(rc, status, out).
     ebind (check_status lib rc) (\<lambda>_.
     ebind (eeach (\<lambda>st. check_status lib (unat st)) (buffer n status)) (\<lambda>_.
       eret (cut w n (buffer (n * w) out)))))"

definition cuda_sign :: "'n native \<Rightarrow> cuda \<Rightarrow> pyval \<Rightarrow> pyval iterable \<Rightarrow> ('n, bytes list) eff" where
  "cuda_sign lib c key hs =
     ebind (elift (py_digests key hs)) (\<lambda>(d, digests).
       if digests = [] then eret []
       else ebind (native_step (nv_device_sign lib (cu_device c) (to_bytes_big 32 d) digests))
         (read_fixed lib 64 (length digests)))"

definition cuda_sha256 ::
    "'n native \<Rightarrow> pyval iterable \<Rightarrow> (bytes list \<Rightarrow> ('s, nat \<times> bytes \<times> bytes) eff) \<Rightarrow> ('s, bytes list) eff" where
  "cuda_sha256 lib ms invoke =
     ebind (elift (py_messages ms)) (\<lambda>messages.
       if messages = [] then eret []
       else ebind (invoke messages) (read_fixed lib 32 (length messages)))"

definition cuda_hash :: "'n native \<Rightarrow> cuda \<Rightarrow> pyval iterable \<Rightarrow> ('n, bytes list) eff" where
  "cuda_hash lib c ms = cuda_sha256 lib ms (\<lambda>messages. native_step (nv_device_hash lib (cu_device c) messages))"

definition cuda_public_key :: "'n native \<Rightarrow> cuda \<Rightarrow> pyval \<Rightarrow> ('n, bytes) eff" where
  "cuda_public_key lib c key =
     ebind (elift (py_digests key (Items []))) (\<lambda>(d, _).
     ebind (native_step (nv_device_public lib (cu_device c) (to_bytes_big 32 d))) (\<lambda>(rc, out).
     ebind (check_status lib rc) (\<lambda>_. eret (buffer 65 out))))"

section \<open>The class \<open>Runtime\<close>\<close>

text \<open>A null handle is the closed runtime. The report is the attribute \<open>last_report\<close>, \<open>{}\<close> before the first call.\<close>

record 'n runtime =
  rt_handle :: nat
  rt_report :: "report option"
  rt_lib :: 'n

type_synonym ('n, 'a) rt = "('n runtime, 'a) eff"

definition rt_native :: "(nat \<Rightarrow> 'n \<Rightarrow> 'a \<times> 'n) \<Rightarrow> ('n, 'a) rt" where
  "rt_native f s = (case f (rt_handle s) (rt_lib s) of (x, n) \<Rightarrow> (Inr x, s\<lparr>rt_lib := n\<rparr>))"

definition live :: "('n, unit) rt" where
  "live = ebind (eget rt_handle) (\<lambda>h. eguard (h \<noteq> 0) (RuntimeError ''runtime is closed''))"

definition check_slot :: "pyval \<Rightarrow> nat result" where
  "check_slot v = check_index v 16 ''slot must be 0..15''"

definition check_epoch :: "pyval \<Rightarrow> nat result" where
  "check_epoch v = check_index v (2 ^ 64) ''epoch must be uint64''"

definition save_report :: "report \<Rightarrow> ('n, unit) rt" where
  "save_report r = emod (\<lambda>s. s\<lparr>rt_report := Some r\<rparr>)"

definition rt_close :: "'n native \<Rightarrow> ('n, unit) rt" where
  "rt_close lib = emod (\<lambda>s. if rt_handle s = 0 then s
     else s\<lparr>rt_lib := nv_destroy lib (rt_handle s) (rt_lib s), rt_handle := 0\<rparr>)"

definition backend_index :: "pyval \<Rightarrow> nat result" where
  "backend_index v =
     (if v = PStr (lit ''reference'') then Inr 0
      else if v = PStr (lit ''comb_w8'') then Inr 1
      else if v = PStr (lit ''full_window_w8'') then Inr 2
      else Inl (ValueError ''unknown P-256 backend''))"

definition set_p256_backend :: "'n native \<Rightarrow> pyval \<Rightarrow> ('n, unit) rt" where
  "set_p256_backend lib backend =
     ebind (elift (backend_index backend)) (\<lambda>i.
     ebind live (\<lambda>_.
     ebind (rt_native (\<lambda>h. nv_set_backend lib h i)) (check_status lib)))"

definition p256_backend :: "'n native \<Rightarrow> ('n, ustr) rt" where
  "p256_backend lib =
     ebind live (\<lambda>_.
     ebind (rt_native (nv_get_backend lib)) (\<lambda>(rc, mode).
     ebind (check_status lib rc) (\<lambda>_.
       if mode = 0 then eret (lit ''reference'')
       else if mode = 1 then eret (lit ''comb_w8'')
       else if mode = 2 then eret (lit ''full_window_w8'')
       else eraise (IndexError ''tuple index out of range''))))"

text \<open>\<open>Runtime(library, device, p256_backend)\<close> on a library in state \<open>n\<close>.\<close>

definition closed_runtime :: "'n \<Rightarrow> 'n runtime" where
  "closed_runtime n = \<lparr>rt_handle = 0, rt_report = None, rt_lib = n\<rparr>"

definition runtime_init :: "'n native \<Rightarrow> pyval \<Rightarrow> pyval \<Rightarrow> ('n, unit) rt" where
  "runtime_init lib device backend =
     ebind (elift (cuda_init lib device)) (\<lambda>c.
     ebind (rt_native (\<lambda>_. nv_create lib (cu_device c))) (\<lambda>(rc, h).
     ebind (emod (\<lambda>s. s\<lparr>rt_handle := h\<rparr>)) (\<lambda>_.
     ebind (check_status lib rc) (\<lambda>_.
     ebind (ecatch (set_p256_backend lib backend) (\<lambda>e. ebind (rt_close lib) (\<lambda>_. eraise e))) (\<lambda>_.
       emod (\<lambda>s. s\<lparr>rt_report := None\<rparr>))))))"

definition load_key :: "'n native \<Rightarrow> pyval \<Rightarrow> pyval \<Rightarrow> pyval \<Rightarrow> pyval \<Rightarrow> ('n, nat) rt" where
  "load_key lib slot key kind expected =
     ebind (elift (check_slot slot)) (\<lambda>i.
     ebind (elift (check_epoch expected)) (\<lambda>e.
     ebind (elift (key_bytes key)) (\<lambda>k.
     ebind (eguard (kind = PStr (lit ''aes'') \<or> kind = PStr (lit ''p256'')) (ValueError ''kind must be aes or p256'')) (\<lambda>_.
     ebind live (\<lambda>_.
     ebind (rt_native (\<lambda>h. nv_key_put lib h i (if kind = PStr (lit ''aes'') then 1 else 2) k e)) (\<lambda>(rc, epoch).
     ebind (check_status lib rc) (\<lambda>_. eret epoch)))))))"

definition retire_key :: "'n native \<Rightarrow> pyval \<Rightarrow> pyval \<Rightarrow> ('n, nat) rt" where
  "retire_key lib slot expected =
     ebind (elift (check_slot slot)) (\<lambda>i.
     ebind (elift (check_epoch expected)) (\<lambda>e.
     ebind live (\<lambda>_.
     ebind (rt_native (\<lambda>h. nv_key_remove lib h i e)) (\<lambda>(rc, epoch).
     ebind (check_status lib rc) (\<lambda>_. eret epoch)))))"

definition stats :: "'n native \<Rightarrow> ('n, nat list) rt" where
  "stats lib =
     ebind live (\<lambda>_.
     ebind (rt_native (nv_get_stats lib)) (\<lambda>(rc, values).
     ebind (check_status lib rc) (\<lambda>_. eret values)))"

text \<open>\<open>_keyed_call\<close>: which entry point a keyed call uses; \<open>None\<close> is the one without an epoch.\<close>

definition keyed_epoch :: "'n native \<Rightarrow> string \<Rightarrow> pyval \<Rightarrow> nat option result" where
  "keyed_epoch lib name expected =
     (if expected = PNone then Inr None
      else bind_res (check_epoch expected) (\<lambda>e.
        if \<not> nv_has lib (name @ ''_at_epoch'')
        then Inl (RuntimeError ''epoch-bound operations require native library v0.3+'')
        else Inr (Some e)))"

definition keyed_call ::
    "'n native \<Rightarrow> string \<Rightarrow> pyval \<Rightarrow> (nat option \<Rightarrow> nat \<Rightarrow> 'n \<Rightarrow> 'o native_call \<times> 'n) \<Rightarrow> ('n, 'o native_call) rt" where
  "keyed_call lib name expected f =
     ebind (elift (keyed_epoch lib name expected)) (\<lambda>e.
     ebind (rt_native (f e)) (\<lambda>c.
     ebind (save_report (nc_report c)) (\<lambda>_. eret c)))"

definition rt_aead :: "'n native \<Rightarrow> pyval \<Rightarrow> pyval iterable \<Rightarrow> bool \<Rightarrow> pyval \<Rightarrow> ('n, bytes option list) rt" where
  "rt_aead lib slot rs opening expected =
     ebind (elift (check_slot slot)) (\<lambda>i.
     ebind live (\<lambda>_.
       let invoke = (\<lambda>records. keyed_call lib (if opening then ''bc_open'' else ''bc_seal'') expected
             (\<lambda>e h. nv_aead lib opening h i e records))
       in ebind (cuda_aead lib (PBytes (replicate 32 0)) rs opening
              (\<lambda>_ records. ebind (invoke records) (\<lambda>c. eret (nc_rc c, nc_status c, nc_out c)))) (\<lambda>result.
          if result = [] then ebind (invoke []) (\<lambda>c. ebind (check_status lib (nc_rc c)) (\<lambda>_. eret []))
          else eret result)))"

definition rt_seal :: "'n native \<Rightarrow> pyval \<Rightarrow> pyval iterable \<Rightarrow> pyval \<Rightarrow> ('n, bytes option list) rt" where
  "rt_seal lib slot rs expected = rt_aead lib slot rs False expected"

definition rt_open :: "'n native \<Rightarrow> pyval \<Rightarrow> pyval iterable \<Rightarrow> pyval \<Rightarrow> ('n, bytes option list) rt" where
  "rt_open lib slot rs expected = rt_aead lib slot rs True expected"

definition rt_sign :: "'n native \<Rightarrow> pyval \<Rightarrow> pyval iterable \<Rightarrow> pyval \<Rightarrow> ('n, bytes list) rt" where
  "rt_sign lib slot hs expected =
     ebind (elift (check_slot slot)) (\<lambda>i.
     ebind (elift (py_digests (PBytes (to_bytes_big 32 1)) hs)) (\<lambda>(_, digests).
     ebind live (\<lambda>_.
     ebind (keyed_call lib ''bc_sign'' expected (\<lambda>e h. nv_sign lib h i e digests)) (\<lambda>c.
       read_fixed lib 64 (length digests) (nc_rc c, nc_status c, nc_out c)))))"

definition rt_hash_call :: "'n native \<Rightarrow> bytes list \<Rightarrow> ('n, bytes native_call) rt" where
  "rt_hash_call lib messages =
     ebind (rt_native (\<lambda>h. nv_hash lib h messages)) (\<lambda>c.
     ebind (save_report (nc_report c)) (\<lambda>_. eret c))"

definition rt_sha256 :: "'n native \<Rightarrow> pyval iterable \<Rightarrow> ('n, bytes list) rt" where
  "rt_sha256 lib ms =
     ebind live (\<lambda>_.
     ebind (cuda_sha256 lib ms (\<lambda>messages.
       ebind (rt_hash_call lib messages) (\<lambda>c. eret (nc_rc c, nc_status c, nc_out c)))) (\<lambda>result.
       if result = [] then ebind (rt_hash_call lib []) (\<lambda>c. ebind (check_status lib (nc_rc c)) (\<lambda>_. eret []))
       else eret result))"

definition rt_public_key :: "'n native \<Rightarrow> pyval \<Rightarrow> ('n, bytes \<times> nat) rt" where
  "rt_public_key lib slot =
     ebind (elift (check_slot slot)) (\<lambda>i.
     ebind live (\<lambda>_.
     ebind (rt_native (\<lambda>h. nv_export lib h i)) (\<lambda>(rc, out, epoch).
     ebind (check_status lib rc) (\<lambda>_. eret (buffer 65 out, epoch)))))"

end
