(* ===== verification/Runtime.thy ===== *)
theory Runtime
  imports Native
begin

text \<open>
  Properties of the CUDA backend of \<open>Native\<close>: a closed runtime never reaches the native library
  again, every output has the documented size, and, when the library does what
  \<open>include/batchcrypto.h\<close> says (\<open>native_aead_law\<close>), the runtime computes exactly what the CPU backend
  computes, on every input and with the same rejections.
\<close>

section \<open>Lemmas on the loops\<close>

lemma eeach_total:
  "(\<And>x. x \<in> set xs \<Longrightarrow> f x s = (Inr (g x), s)) \<Longrightarrow> eeach f xs s = (Inr (map g xs), s)"
  by (induction xs) (simp_all add: eret_def ebind_def)

lemma post_eeach:
  assumes "\<And>x s. x \<in> set xs \<Longrightarrow> I s \<Longrightarrow> post (f x) (\<lambda>y s'. P x y \<and> I s') (\<lambda>_ _. True) s" and "I s"
  shows "post (eeach f xs) (\<lambda>ys s'. list_all2 P xs ys \<and> I s') (\<lambda>_ _. True) s"
  using assms
proof (induction xs arbitrary: s)
  case (Cons x xs)
  have "post (f x) (\<lambda>y. post (ebind (eeach f xs) (\<lambda>ys. eret (y # ys)))
      (\<lambda>ys s'. list_all2 P (x # xs) ys \<and> I s') (\<lambda>_ _. True)) (\<lambda>_ _. True) s"
  proof (rule post_mono [OF Cons.prems(1)])
    fix y s' assume "P x y \<and> I s'"
    then have "post (eeach f xs) (\<lambda>ys s'. list_all2 P xs ys \<and> I s') (\<lambda>_ _. True) s'"
      using Cons by (intro Cons.IH) auto
    then show "post (ebind (eeach f xs) (\<lambda>ys. eret (y # ys)))
        (\<lambda>ys s'. list_all2 P (x # xs) ys \<and> I s') (\<lambda>_ _. True) s'"
      unfolding post_bind by (rule post_mono) (use \<open>P x y \<and> I s'\<close> in \<open>simp_all add: post_simps\<close>)
  qed (use Cons.prems in simp_all)
  then show ?case by (simp add: post_bind)
qed (simp add: post_simps)

lemma check_status_ok: "check_status lib 0 = eret ()"
  by (rule ext) (simp add: check_status_def eguard_def eret_def)

lemma keeps_check [keeps_intros]: "keeps I (check_status lib n)"
  unfolding check_status_def by (intro keeps_intros)

lemma length_cut: "length (cut w n raw) = n"
  by (simp add: cut_def)

lemma cut_sizes: "length raw = n * w \<Longrightarrow> g \<in> set (cut w n raw) \<Longrightarrow> length g = w"
proof -
  assume raw: "length raw = n * w" and "g \<in> set (cut w n raw)"
  then obtain i where i: "i < n" "g = take w (drop (i * w) raw)" by (auto simp: cut_def)
  then have "Suc i * w \<le> n * w" by (intro mult_le_mono1) simp
  then have "w \<le> n * w - i * w" by (simp add: le_diff_conv2)
  then show ?thesis by (simp add: i(2) raw)
qed

lemma cut_concat: "\<forall>g \<in> set gs. length g = w \<Longrightarrow> cut w (length gs) (concat gs) = gs"
proof (induction gs)
  case (Cons g gs)
  have "cut w (Suc (length gs)) raw = take w raw # cut w (length gs) (drop w raw)" for raw
    unfolding cut_def upt_conv_Cons [OF zero_less_Suc] by (simp add: map_Suc_upt [symmetric] add.commute del: upt_Suc)
  with Cons show ?case by simp
qed (simp add: cut_def)

lemma read_fixed_post:
  "post (read_fixed lib w n t) (\<lambda>gs s'. s' = s \<and> length gs = n \<and> (\<forall>g \<in> set gs. length g = w)) (\<lambda>_ s'. s' = s) s"
proof -
  obtain rc st out where t: "t = (rc, st, out)" by (cases t)
  have "keeps (\<lambda>x. x = s) (eeach (\<lambda>st. check_status lib (unat st)) xs)" for xs :: bytes
    by (induction xs) (simp_all only: eeach.simps, (intro keeps_intros)+)
  then have e: "post (eeach (\<lambda>st. check_status lib (unat st)) (buffer n st)) (\<lambda>_ s'. s' = s) (\<lambda>_ s'. s' = s) s"
    unfolding keeps_def by blast
  have g: "\<forall>g \<in> set (cut w n (buffer (n * w) out)). length g = w"
    by (intro ballI) (rule cut_sizes [OF length_buffer])
  have "post (ebind (eeach (\<lambda>st. check_status lib (unat st)) (buffer n st)) (\<lambda>_. eret (cut w n (buffer (n * w) out))))
      (\<lambda>gs s'. s' = s \<and> length gs = n \<and> (\<forall>g \<in> set gs. length g = w)) (\<lambda>_ s'. s' = s) s"
    unfolding post_bind by (rule post_mono [OF e]) (use g in \<open>simp_all add: post_simps length_cut\<close>)
  then show ?thesis
    by (simp add: t read_fixed_def check_status_def post_bind [of "eguard b x" for b x] post_basic)
qed

text \<open>A batch whose items all succeeded.\<close>

lemma read_fixed_ok:
  assumes "\<forall>g \<in> set gs. length g = w" and "n = length gs"
  shows "read_fixed lib w n (0, replicate n 0, concat gs) s = (Inr gs, s)"
proof -
  have len: "length (concat gs) = n * w"
    using assms by (induction gs arbitrary: n) (auto simp: algebra_simps)
  have "eeach (\<lambda>st. check_status lib (unat st)) (replicate n (0 :: byte)) s = (Inr (map (\<lambda>_. ()) (replicate n (0 :: byte))), s)"
    by (rule eeach_total) (simp add: check_status_ok eret_def)
  then show ?thesis
    using cut_concat [OF assms(1)] len assms(2) by (simp add: read_fixed_def check_status_ok ebind_def eret_def)
qed

section \<open>A closed runtime is inert\<close>

datatype rt_op =
    RtSetBackend pyval
  | RtGetBackend
  | RtLoadKey pyval pyval pyval pyval
  | RtRetireKey pyval pyval
  | RtStats
  | RtSeal pyval "pyval iterable" pyval
  | RtOpen pyval "pyval iterable" pyval
  | RtSign pyval "pyval iterable" pyval
  | RtSha256 "pyval iterable"
  | RtPublicKey pyval
  | RtClose

definition drop_result :: "('s, 'a) eff \<Rightarrow> ('s, unit) eff" where
  "drop_result m = ebind m (\<lambda>_. eret ())"

fun rt_step :: "'n native \<Rightarrow> rt_op \<Rightarrow> ('n, unit) rt" where
  "rt_step lib (RtSetBackend b) = set_p256_backend lib b"
| "rt_step lib RtGetBackend = drop_result (p256_backend lib)"
| "rt_step lib (RtLoadKey i k kind e) = drop_result (load_key lib i k kind e)"
| "rt_step lib (RtRetireKey i e) = drop_result (retire_key lib i e)"
| "rt_step lib RtStats = drop_result (stats lib)"
| "rt_step lib (RtSeal i rs e) = drop_result (rt_seal lib i rs e)"
| "rt_step lib (RtOpen i rs e) = drop_result (rt_open lib i rs e)"
| "rt_step lib (RtSign i hs e) = drop_result (rt_sign lib i hs e)"
| "rt_step lib (RtSha256 ms) = drop_result (rt_sha256 lib ms)"
| "rt_step lib (RtPublicKey i) = drop_result (rt_public_key lib i)"
| "rt_step lib RtClose = rt_close lib"

definition rt_run :: "'n native \<Rightarrow> rt_op list \<Rightarrow> 'n runtime \<Rightarrow> 'n runtime" where
  "rt_run lib ops s = foldl (\<lambda>s op. snd (rt_step lib op s)) s ops"

lemma live_closed: "rt_handle s = 0 \<Longrightarrow> live s = (Inl (RuntimeError ''runtime is closed''), s)"
  by (simp add: live_def ebind_def eget_def eguard_def)

lemma closed_step:
  assumes "rt_handle s = 0"
  shows "snd (rt_step lib op s) = s" and "op = RtClose \<or> (\<exists>e. fst (rt_step lib op s) = Inl e)"
proof -
  note defs = drop_result_def ebind_def elift_def eret_def eguard_def live_closed [OF assms] rt_seal_def rt_open_def
    rt_aead_def rt_sign_def rt_sha256_def rt_public_key_def set_p256_backend_def p256_backend_def load_key_def
    retire_key_def stats_def rt_close_def emod_def
  show "snd (rt_step lib op s) = s"
    by (cases op) (auto simp: defs assms split: sum.splits prod.splits)
  show "op = RtClose \<or> (\<exists>e. fst (rt_step lib op s) = Inl e)"
    by (cases op) (auto simp: defs assms split: sum.splits prod.splits)
qed

lemma close_handle: "rt_handle (snd (rt_close lib s)) = 0"
  by (simp add: rt_close_def emod_def)

text \<open>
  A closed runtime is inert: once \<open>close\<close> has been called, no history of further calls, with
  arguments of any kind, reaches the native library or changes anything, a second \<open>close\<close>
  included, and every call other than \<open>close\<close> raises. So a destroyed context is never used.
\<close>

theorem closed_runtime_inert:
  "rt_run lib ops (snd (rt_close lib s)) = snd (rt_close lib s)
   \<and> (op = RtClose \<or> (\<exists>e. fst (rt_step lib op (snd (rt_close lib s))) = Inl e))"
proof -
  let ?s = "snd (rt_close lib s)"
  have "snd (rt_step lib op ?s) = ?s" for op by (rule closed_step(1) [OF close_handle])
  then have "rt_run lib ops ?s = ?s" by (induction ops) (simp_all add: rt_run_def)
  with closed_step(2) [OF close_handle] show ?thesis by blast
qed

section \<open>Agreement with the CPU backend\<close>

text \<open>AES-256-GCM adds 16 bytes.\<close>

definition aead_sizes :: "ossl \<Rightarrow> bool" where
  "aead_sizes c \<longleftrightarrow> (\<forall>k n d a. length (aes_encrypt c k n d a) = length d + 16)
     \<and> (\<forall>k n x a d. aes_decrypt c k n x a = Some d \<longrightarrow> length x = length d + 16)"

text \<open>
  What \<open>batchcrypto.h\<close> documents of \<open>bc_seal\<close> and \<open>bc_open\<close>: on a slot that holds an AES key, and with
  that slot's epoch if one is required, the call succeeds; a record whose tag is wrong has status
  \<open>BC_AUTH_FAILED\<close> and a zeroed output, and every other one its ciphertext or plaintext.
  \<open>holds h i n\<close> is the kind, key and epoch of slot \<open>i\<close> of the context \<open>h\<close>.
\<close>

definition native_out :: "ossl \<Rightarrow> bool \<Rightarrow> bytes \<Rightarrow> aead_record \<Rightarrow> byte \<times> bytes" where
  "native_out c opening k r =
     (if opening then (case aes_decrypt c k (rec_nonce r) (rec_data r) (rec_aad r) of
        Some d \<Rightarrow> (0, d) | None \<Rightarrow> (3, replicate (length (rec_data r) - 16) 0))
      else (0, aes_encrypt c k (rec_nonce r) (rec_data r) (rec_aad r)))"

definition native_aead_law ::
    "'n native \<Rightarrow> ossl \<Rightarrow> (nat \<Rightarrow> nat \<Rightarrow> 'n \<Rightarrow> (nat \<times> bytes \<times> nat) option) \<Rightarrow> bool" where
  "native_aead_law lib c holds \<longleftrightarrow>
     (\<forall>opening h i k ep e rs n. holds h i n = Some (1, k, ep) \<longrightarrow> (e = None \<or> e = Some ep) \<longrightarrow>
        (let x = fst (nv_aead lib opening h i e rs n) in nc_rc x = 0
           \<and> nc_status x = map (fst o native_out c opening k) rs \<and> nc_out x = map (snd o native_out c opening k) rs))"

lemma native_aead_lawD:
  assumes "native_aead_law lib c holds" and "holds h i n = Some (1, k, ep)" and "e = None \<or> e = Some ep"
  shows "nc_rc (fst (nv_aead lib b h i e rs n)) = 0"
    and "nc_status (fst (nv_aead lib b h i e rs n)) = map (fst o native_out c b k) rs"
    and "nc_out (fst (nv_aead lib b h i e rs n)) = map (snd o native_out c b k) rs"
  using assms(1) [unfolded native_aead_law_def Let_def, rule_format, OF assms(2,3)] by simp_all

lemma dummy_key:
  assumes "length k = 32"
  shows "py_records (PBytes k) rs opening = bind_res (py_records (PBytes (replicate 32 0)) rs opening) (\<lambda>(_, out). Inr (k, out))"
proof -
  have "key_bytes (PBytes x) = Inr x" if "length x = 32" for x using that by (simp add: key_bytes_Inr_iff)
  from this [OF assms] this [of "replicate 32 0"] show ?thesis
    by (auto simp: py_records_def bind_res_def split: sum.splits)
qed

definition cpu_result :: "ossl \<Rightarrow> bool \<Rightarrow> bytes \<Rightarrow> aead_record \<Rightarrow> bytes option" where
  "cpu_result c opening k r = (if opening then aes_decrypt c k (rec_nonce r) (rec_data r) (rec_aad r)
     else Some (aes_encrypt c k (rec_nonce r) (rec_data r) (rec_aad r)))"

lemma read_native_out:
  assumes "aead_sizes c" and "rec_ok opening r"
  shows "read_record lib opening (fst (native_out c opening k r), r, snd (native_out c opening k r)) s
    = (Inr (cpu_result c opening k r), s)"
proof -
  have "length (snd (native_out c opening k r)) = out_size opening r \<or> native_out c opening k r = (3, replicate (length (rec_data r) - 16) 0)"
    using assms by (auto simp: native_out_def out_size_def aead_sizes_def split: option.splits)
  then have b: "take (out_size opening r) (buffer (max 1 (out_size opening r)) (snd (native_out c opening k r)))
      = snd (native_out c opening k r)" if "length (snd (native_out c opening k r)) = out_size opening r"
    using that by (cases "out_size opening r") (simp_all add: max_def buffer_def)
  have three: "(3 :: byte) \<noteq> 0" by simp
  show ?thesis
  proof (cases "opening \<and> aes_decrypt c k (rec_nonce r) (rec_data r) (rec_aad r) = None")
    case True
    then show ?thesis by (simp add: read_record_def native_out_def cpu_result_def eret_def)
  next
    case False
    then have st: "fst (native_out c opening k r) = 0" and v: "cpu_result c opening k r = Some (snd (native_out c opening k r))"
      by (auto simp: native_out_def cpu_result_def)
    have "length (snd (native_out c opening k r)) = out_size opening r"
      using assms False by (auto simp: native_out_def out_size_def aead_sizes_def)
    from b [OF this] show ?thesis
      by (simp add: read_record_def st v check_status_ok ebind_def eret_def)
  qed
qed

lemma keyed_epoch_ok:
  assumes "expected = PNone \<or> expected = PInt (int ep) \<and> nv_has lib (name @ ''_at_epoch'') \<and> ep < 2 ^ 64"
  shows "\<exists>e. keyed_epoch lib name expected = Inr e \<and> (e = None \<or> e = Some ep)"
proof -
  have "int ep < 2 ^ 64 \<longleftrightarrow> ep < 2 ^ 64" by (metis of_nat_less_iff of_nat_numeral of_nat_power)
  with assms show ?thesis by (auto simp: keyed_epoch_def check_epoch_def check_index_def)
qed

lemma rt_aead_matches:
  assumes law: "native_aead_law lib c holds" and sizes: "aead_sizes c"
    and live: "rt_handle s \<noteq> 0" and key: "holds (rt_handle s) i (rt_lib s) = Some (1, k, ep)" "length k = 32" "i < 16"
    and e: "expected = PNone \<or> expected = PInt (int ep) \<and> ep < 2 ^ 64
      \<and> nv_has lib ((if opening then ''bc_open'' else ''bc_seal'') @ ''_at_epoch'')"
  shows "fst (rt_aead lib (PInt (int i)) rs opening expected s)
    = bind_res (py_records (PBytes k) rs opening) (\<lambda>(_, out). Inr (map (cpu_result c opening k) out))"
proof -
  let ?name = "if opening then ''bc_open'' else ''bc_seal''"
  let ?invoke = "\<lambda>records. keyed_call lib ?name expected (\<lambda>e h. nv_aead lib opening h i e records)"
  obtain ee where ee: "keyed_epoch lib ?name expected = Inr ee" "ee = None \<or> ee = Some ep"
    using keyed_epoch_ok [of expected ep lib ?name] e by auto
  have slot: "elift (check_slot (PInt (int i))) = eret i"
    using key(3) by (auto simp: elift_def eret_def check_slot_def check_index_def)
  have lv: "live s = (Inr (), s)" using live by (simp add: live_def ebind_def eget_def eguard_def)
  have inv: "\<exists>x s'. ?invoke out s = (Inr x, s') \<and> nc_rc x = 0
      \<and> nc_status x = map (fst o native_out c opening k) out \<and> nc_out x = map (snd o native_out c opening k) out" for out
  proof -
    let ?x = "fst (nv_aead lib opening (rt_handle s) i ee out (rt_lib s))"
    have "nc_rc ?x = 0 \<and> nc_status ?x = map (fst o native_out c opening k) out
        \<and> nc_out ?x = map (snd o native_out c opening k) out"
      using native_aead_lawD [OF law key(1) ee(2)] by simp
    moreover obtain x n where "nv_aead lib opening (rt_handle s) i ee out (rt_lib s) = (x, n)"
      by (cases "nv_aead lib opening (rt_handle s) i ee out (rt_lib s)")
    ultimately show ?thesis
      by (simp add: keyed_call_def ee(1) ebind_def elift_def eret_def rt_native_def save_report_def emod_def)
  qed
  show ?thesis
  proof (cases "py_records (PBytes (replicate 32 0)) rs opening")
    case (Inl er)
    then show ?thesis
      by (simp add: rt_aead_def slot ebind_def eret_def lv Let_def cuda_aead_def elift_def dummy_key [OF key(2), of rs])
  next
    case (Inr p)
    obtain d out where p: "p = (d, out)" by (cases p)
    have ok: "\<forall>r \<in> set out. rec_ok opening r" using Inr by (auto simp: p py_records_Inr_iff)
    from inv [of out] obtain x s' where x: "?invoke out s = (Inr x, s')" "nc_rc x = 0"
      "nc_status x = map (fst o native_out c opening k) out" "nc_out x = map (snd o native_out c opening k) out" by blast
    from inv [of "[]"] obtain x0 s0 where x0: "?invoke [] s = (Inr x0, s0)" "nc_rc x0 = 0" by blast
    show ?thesis
    proof (cases "out = []")
      case True
      then show ?thesis
        using x0 by (simp add: rt_aead_def slot ebind_def eret_def lv Let_def cuda_aead_def elift_def Inr p
            dummy_key [OF key(2), of rs] check_status_ok)
    next
      case False
      let ?item = "\<lambda>r. (fst (native_out c opening k r), r, snd (native_out c opening k r))"
      have zip: "zip (buffer (length out) (nc_status x)) (zip out (take (length out) (nc_out x @ replicate (length out) [])))
          = map ?item out"
        by (simp add: x(3,4) zip_map1 zip_map2 zip_same_conv_map)
      have "eeach (read_record lib opening) (map ?item out) s' = (Inr (map (cpu_result c opening k) out), s')"
      proof -
        have "eeach (read_record lib opening) (map ?item rs) s' = (Inr (map (cpu_result c opening k) rs), s')"
          if "\<forall>r \<in> set rs. rec_ok opening r" for rs
          using that by (induction rs) (simp_all add: ebind_def eret_def read_native_out [OF sizes])
        then show ?thesis using ok by blast
      qed
      with False x zip show ?thesis
        by (simp add: rt_aead_def slot ebind_def eret_def lv Let_def cuda_aead_def elift_def Inr p
            dummy_key [OF key(2), of rs] check_status_ok)
    qed
  qed
qed


text \<open>
  A library that keeps the documented contract, to show that it can hold: slots with
  compare-and-swap epochs over the operations of \<open>ossl\<close>, one context with handle 1.
\<close>

type_synonym slots = "nat \<Rightarrow> nat \<times> bytes \<times> nat"

definition item_report :: "nat \<Rightarrow> nat \<Rightarrow> report" where
  "item_report n ep = \<lparr>rp_submitted = n, rp_completed = n, rp_errors = 0, rp_key_epoch = ep\<rparr>"

definition keyed_result ::
    "nat \<Rightarrow> nat option \<Rightarrow> slots \<Rightarrow> nat \<Rightarrow> nat \<Rightarrow> 'o \<Rightarrow> (bytes \<Rightarrow> bytes \<times> 'o) \<Rightarrow> 'o native_call \<times> slots" where
  "keyed_result kind e n i m z f = (case n i of (kd, k, ep) \<Rightarrow>
     if kd \<noteq> kind then (\<lparr>nc_rc = 6, nc_status = [], nc_out = z, nc_report = item_report 0 ep\<rparr>, n)
     else if e \<noteq> None \<and> e \<noteq> Some ep then (\<lparr>nc_rc = 7, nc_status = [], nc_out = z, nc_report = item_report 0 ep\<rparr>, n)
     else (\<lparr>nc_rc = 0, nc_status = fst (f k), nc_out = snd (f k), nc_report = item_report m ep\<rparr>, n))"

definition demo_native :: "ossl \<Rightarrow> slots native" where
  "demo_native c = \<lparr>nv_error_string = (\<lambda>_. ''error''), nv_has = (\<lambda>_. True), nv_abi = 1,
     nv_create = (\<lambda>d n. ((0, 1), n)), nv_destroy = (\<lambda>h n i. (0, [], 0)),
     nv_set_backend = (\<lambda>h b n. (0, n)), nv_get_backend = (\<lambda>h n. ((0, 0), n)),
     nv_key_put = (\<lambda>h i kind k e n. if e = snd (snd (n i)) then ((0, Suc e), n(i := (kind, k, Suc e))) else ((7, 0), n)),
     nv_key_remove = (\<lambda>h i e n. if e = snd (snd (n i)) then ((0, Suc e), n(i := (0, [], Suc e))) else ((7, 0), n)),
     nv_get_stats = (\<lambda>h n. ((0, []), n)),
     nv_aead = (\<lambda>b h i e rs n. keyed_result 1 e n i (length rs) []
        (\<lambda>k. (map (fst o native_out c b k) rs, map (snd o native_out c b k) rs))),
     nv_sign = (\<lambda>h i e hs n. keyed_result 2 e n i (length hs) []
        (\<lambda>k. (replicate (length hs) 0, concat (map (\<lambda>x. raw_signature (ecdsa_sign c (from_bytes_big k) x)) hs)))),
     nv_hash = (\<lambda>h ms n. (\<lparr>nc_rc = 0, nc_status = [], nc_out = concat (map sha256 ms), nc_report = item_report (length ms) 0\<rparr>, n)),
     nv_export = (\<lambda>h i n. case n i of (kind, k, ep) \<Rightarrow>
        ((if kind = 2 then 0 else 6, ec_public c (from_bytes_big k), ep), n)),
     nv_device_aead = (\<lambda>b d k rs n. ((0, map (fst o native_out c b k) rs, map (snd o native_out c b k) rs), n)),
     nv_device_sign = (\<lambda>d k hs n. ((0, [], concat (map (\<lambda>x. raw_signature (ecdsa_sign c (from_bytes_big k) x)) hs)), n)),
     nv_device_hash = (\<lambda>d ms n. ((0, [], concat (map sha256 ms)), n)),
     nv_device_public = (\<lambda>d k n. ((0, ec_public c (from_bytes_big k)), n))\<rparr>"

lemma demo_native_law: "native_aead_law (demo_native c) c (\<lambda>h i n. Some (n i))"
  by (auto simp: native_aead_law_def demo_native_def keyed_result_def Let_def)

lemma demo_aead_sizes: "aead_sizes demo_ossl"
  by (auto simp: aead_sizes_def demo_ossl_def split: if_splits)


end
