(* ===== verification/Verified.thy ===== *)
theory Verified
  imports Runtime Jws
begin

text \<open>
  \<open>python/batchcrypto/verified.py\<close>: the signer that owns a runtime, pins the public key of every
  key it loads, derived on the CPU, and verifies each signature of the native library under that
  pin before it returns a batch. Any failure of the backend or of a check closes it.

  A pinned public-key object is the encoded point that OpenSSL derives from the private scalar.
  The lock serialises the methods, so each is one step on the state.
\<close>

section \<open>The signer\<close>

record 'n vsigner =
  vs_closed :: bool
  vs_keys :: "nat \<rightharpoonup> nat \<times> bytes"
  vs_rt :: "'n runtime"

type_synonym ('n, 'a) vs = "('n vsigner, 'a) eff"

definition on_rt :: "('n, 'a) rt \<Rightarrow> ('n, 'a) vs" where
  "on_rt = ezoom vs_rt (\<lambda>t s. s\<lparr>vs_rt := t\<rparr>)"

definition vs_live :: "('n, unit) vs" where
  "vs_live = ebind (eget vs_closed) (\<lambda>b. eguard (\<not> b) (RuntimeError ''verified signer is closed or quarantined''))"

definition vs_close :: "'n native \<Rightarrow> ('n, unit) vs" where
  "vs_close lib = ebind (emod (\<lambda>s. s\<lparr>vs_closed := True, vs_keys := Map.empty\<rparr>)) (\<lambda>_. on_rt (rt_close lib))"

definition vs_fault :: "'n native \<Rightarrow> string \<Rightarrow> ('n, 'a) vs" where
  "vs_fault lib msg = ebind (vs_close lib) (\<lambda>_. eraise (VerificationError msg))"

text \<open>The handler of the signing call: a \<open>VerificationError\<close> is raised again, anything else becomes one.\<close>

definition vs_quarantine :: "'n native \<Rightarrow> exn \<Rightarrow> ('n, 'a) vs" where
  "vs_quarantine lib exc = ebind (vs_close lib) (\<lambda>_. case exc of
     VerificationError m \<Rightarrow> eraise (VerificationError m)
   | _ \<Rightarrow> eraise (VerificationError ''signing failed independent verification; signer closed''))"

text \<open>\<open>VerifiedSigner(library, device, p256_backend)\<close> on a library in state \<open>n\<close>.\<close>

definition fresh_signer :: "'n \<Rightarrow> 'n vsigner" where
  "fresh_signer n = \<lparr>vs_closed = False, vs_keys = Map.empty, vs_rt = closed_runtime n\<rparr>"

definition vs_init :: "'n native \<Rightarrow> pyval \<Rightarrow> pyval \<Rightarrow> ('n, unit) vs" where
  "vs_init lib device backend =
     ebind (on_rt (runtime_init lib device backend)) (\<lambda>_.
       if nv_has lib ''bc_sign_at_epoch'' then eret ()
       else ebind (vs_close lib) (\<lambda>_. eraise (RuntimeError ''VerifiedSigner requires native library v0.3+'')))"

text \<open>\<open>except Exception\<close>: the signer closes, and what leaves it is a \<open>VerificationError\<close>.\<close>

definition vs_import :: "'n native \<Rightarrow> pyval \<Rightarrow> pyval \<Rightarrow> pyval \<Rightarrow> bytes \<Rightarrow> ('n, nat) vs" where
  "vs_import lib slot key expected encoded =
     ebind vs_live (\<lambda>_.
     ebind (on_rt (load_key lib slot key (PStr (lit ''p256'')) expected)) (\<lambda>epoch.
     ebind (ecatch
         (ebind (on_rt (rt_public_key lib slot)) (\<lambda>(actual, used).
            if actual \<noteq> encoded \<or> used \<noteq> epoch
            then vs_fault lib ''public-key export failed independent verification''
            else eret ()))
         (\<lambda>_. ebind (vs_close lib) (\<lambda>_.
            eraise (VerificationError ''public-key validation failed; signer closed'')))) (\<lambda>_. eret epoch)))"

definition vs_load_key :: "ossl \<Rightarrow> 'n native \<Rightarrow> pyval \<Rightarrow> pyval \<Rightarrow> pyval \<Rightarrow> ('n, nat) vs" where
  "vs_load_key c lib slot key expected =
     ebind (elift (check_slot slot)) (\<lambda>i.
     ebind (elift (check_epoch expected)) (\<lambda>_.
     ebind (elift (py_digests key (Items []))) (\<lambda>(d, _).
       let encoded = ec_public c d in
       ebind (vs_import lib slot key expected encoded) (\<lambda>epoch.
       ebind (emod (\<lambda>s. s\<lparr>vs_keys := (vs_keys s)(i \<mapsto> (epoch, encoded))\<rparr>)) (\<lambda>_. eret epoch)))))"

definition vs_public_key :: "pyval \<Rightarrow> ('n, bytes \<times> nat) vs" where
  "vs_public_key slot =
     ebind (elift (check_slot slot)) (\<lambda>i.
     ebind vs_live (\<lambda>_.
     ebind (eget (\<lambda>s. vs_keys s i)) (\<lambda>entry.
       case entry of None \<Rightarrow> eraise (KeyError ''slot'') | Some (epoch, encoded) \<Rightarrow> eret (encoded, epoch))))"

definition vs_retire_key :: "'n native \<Rightarrow> pyval \<Rightarrow> pyval \<Rightarrow> ('n, nat) vs" where
  "vs_retire_key lib slot expected =
     ebind (elift (check_slot slot)) (\<lambda>i.
     ebind (elift (check_epoch expected)) (\<lambda>_.
     ebind vs_live (\<lambda>_.
     ebind (on_rt (retire_key lib slot expected)) (\<lambda>epoch.
     ebind (emod (\<lambda>s. s\<lparr>vs_keys := (vs_keys s)(i := None)\<rparr>)) (\<lambda>_. eret epoch)))))"

text \<open>The check of one signature of the batch.\<close>

definition check_output :: "ossl \<Rightarrow> 'n native \<Rightarrow> bytes \<Rightarrow> bytes \<times> bytes \<Rightarrow> ('n, unit) vs" where
  "check_output c lib public = (\<lambda>(h, g).
     if length g \<noteq> 64 then vs_fault lib ''malformed signing output''
     else let r = sig_r g; s = sig_s g in
       if \<not> (0 < r \<and> r < ORDER \<and> 0 < s \<and> s \<le> ORDER div 2) then vs_fault lib ''non-canonical signing output''
       else eguard (ecdsa_verify c public r s h) InvalidSignature)"

definition expected_report :: "nat \<Rightarrow> nat \<Rightarrow> report" where
  "expected_report n epoch = \<lparr>rp_submitted = n, rp_completed = n, rp_errors = 0, rp_key_epoch = epoch\<rparr>"

definition vs_checked :: "ossl \<Rightarrow> 'n native \<Rightarrow> pyval \<Rightarrow> bytes list \<Rightarrow> nat \<Rightarrow> bytes \<Rightarrow> ('n, bytes list) vs" where
  "vs_checked c lib slot digests epoch public =
     ebind (on_rt (rt_sign lib slot (Items (map PBytes digests)) (PInt (int epoch)))) (\<lambda>signatures.
     ebind (eget (\<lambda>s. rt_report (vs_rt s))) (\<lambda>report.
       if length signatures \<noteq> length digests \<or> report \<noteq> Some (expected_report (length digests) epoch)
       then vs_fault lib ''signing report failed verification''
       else ebind (eeach (check_output c lib public) (zip digests signatures)) (\<lambda>_. eret signatures)))"

definition vs_sign :: "ossl \<Rightarrow> 'n native \<Rightarrow> pyval \<Rightarrow> pyval iterable \<Rightarrow> pyval \<Rightarrow> ('n, bytes list) vs" where
  "vs_sign c lib slot hs expected =
     ebind (elift (check_slot slot)) (\<lambda>i.
     ebind (elift (check_epoch expected)) (\<lambda>epoch.
     ebind (elift (py_digests (PBytes (to_bytes_big 32 1)) hs)) (\<lambda>(_, digests).
     ebind vs_live (\<lambda>_.
     ebind (eget (\<lambda>s. vs_keys s i)) (\<lambda>entry.
       case entry of
         None \<Rightarrow> eraise (RuntimeError ''key slot or required epoch does not match'')
       | Some (e, public) \<Rightarrow>
           if e \<noteq> epoch then eraise (RuntimeError ''key slot or required epoch does not match'')
           else ecatch (vs_checked c lib slot digests epoch public) (vs_quarantine lib))))))"

section \<open>Closing\<close>

definition shut :: "'n native \<Rightarrow> 'n vsigner \<Rightarrow> 'n vsigner" where
  "shut lib s = s\<lparr>vs_closed := True, vs_keys := Map.empty, vs_rt := snd (rt_close lib (vs_rt s))\<rparr>"

lemma post_close [post_simps]: "post (vs_close lib) Q E s \<longleftrightarrow> Q () (shut lib s)"
  by (simp add: vs_close_def on_rt_def rt_close_def post_simps shut_def emod_def)

lemma post_fault [post_simps]: "post (vs_fault lib m) Q E s \<longleftrightarrow> E (VerificationError m) (shut lib s)"
  by (simp add: vs_fault_def post_simps)

definition quarantine_error :: "exn \<Rightarrow> exn" where
  "quarantine_error e = (case e of VerificationError m \<Rightarrow> e
     | _ \<Rightarrow> VerificationError ''signing failed independent verification; signer closed'')"

lemma post_quarantine [post_simps]:
  "post (vs_quarantine lib e) Q E s \<longleftrightarrow> E (quarantine_error e) (shut lib s)"
  by (cases e) (simp_all add: vs_quarantine_def quarantine_error_def post_simps)

lemma post_vs_live [post_simps]: "post vs_live Q E s \<longleftrightarrow> (if vs_closed s
    then E (RuntimeError ''verified signer is closed or quarantined'') s else Q () s)"
  by (simp add: vs_live_def post_simps)

lemma post_on_rt [post_simps]:
  "post (on_rt m) Q E s \<longleftrightarrow> post m (\<lambda>x t. Q x (s\<lparr>vs_rt := t\<rparr>)) (\<lambda>e t. E e (s\<lparr>vs_rt := t\<rparr>)) (vs_rt s)"
  by (simp add: on_rt_def post_simps)

section \<open>What a returned batch has passed\<close>

definition batch_verified :: "ossl \<Rightarrow> bytes \<Rightarrow> bytes list \<Rightarrow> bytes list \<Rightarrow> bool" where
  "batch_verified c pub digests signatures \<longleftrightarrow>
     list_all2 (\<lambda>h g. valid_low_s g \<and> ecdsa_verify c pub (sig_r g) (sig_s g) h) digests signatures"

lemma check_output_post:
  "post (check_output c lib pub p)
     (\<lambda>_ s'. valid_low_s (snd p) \<and> ecdsa_verify c pub (sig_r (snd p)) (sig_s (snd p)) (fst p)) (\<lambda>_ _. True) s"
  by (cases p) (simp add: check_output_def vs_fault_def vs_close_def on_rt_def rt_close_def post_simps Let_def valid_low_s_def)

lemma list_all2_zip: "length xs = length ys \<Longrightarrow> list_all2 P (zip xs ys) zs \<Longrightarrow> (\<And>p z. P p z \<Longrightarrow> R (fst p) (snd p)) \<Longrightarrow> list_all2 R xs ys"
  by (auto simp: list_all2_conv_all_nth)

lemma vs_checked_post:
  "post (vs_checked c lib slot digests epoch pub) (\<lambda>gs _. batch_verified c pub digests gs) (\<lambda>_ _. True) s"
proof -
  have loop: "post (eeach (check_output c lib pub) (zip digests gs)) (\<lambda>_ _. batch_verified c pub digests gs) (\<lambda>_ _. True) s'"
    if "length gs = length digests" for gs s'
  proof (rule post_mono [OF post_eeach [where I = "\<lambda>_. True"
        and P = "\<lambda>p (_ :: unit). valid_low_s (snd p) \<and> ecdsa_verify c pub (sig_r (snd p)) (sig_s (snd p)) (fst p)"]])
    show "post (check_output c lib pub x)
        (\<lambda>y s'. (valid_low_s (snd x) \<and> ecdsa_verify c pub (sig_r (snd x)) (sig_s (snd x)) (fst x)) \<and> True) (\<lambda>_ _. True) s" for x s
      using check_output_post by (rule post_mono) simp_all
  qed (use that in \<open>auto simp: batch_verified_def intro: list_all2_zip\<close>)
  show ?thesis
    unfolding vs_checked_def post_bind post_if post_basic post_ret_fun
    by (rule post_mono [OF post_True]) (use loop in \<open>simp add: vs_fault_def vs_close_def on_rt_def rt_close_def post_simps\<close>)
qed

lemma vs_sign_post:
  "post (vs_sign c lib slot hs expected)
     (\<lambda>gs _. \<not> vs_closed s \<and> (\<exists>i epoch pub ds. check_slot slot = Inr i \<and> check_epoch expected = Inr epoch
        \<and> vs_keys s i = Some (epoch, pub) \<and> hs = Items (map PBytes ds) \<and> batch_verified c pub ds gs)) (\<lambda>_ _. True) s"
proof (cases "py_digests (PBytes (to_bytes_big 32 1)) hs")
  case (Inl e)
  then show ?thesis by (simp add: vs_sign_def post_simps split: sum.split)
next
  case (Inr p)
  obtain d ds where p: "p = (d, ds)" by (cases p)
  then have hs: "hs = Items (map PBytes ds)" using Inr by (simp add: py_digests_Inr_iff)
  have q: "post (ecatch (vs_checked c lib slot ds epoch pub) (vs_quarantine lib)) (\<lambda>gs _. batch_verified c pub ds gs) (\<lambda>_ _. True) s"
    for epoch pub
    unfolding post_catch by (rule post_mono [OF vs_checked_post]) (simp_all add: post_simps)
  show ?thesis
  proof (cases "check_slot slot")
    case (Inl e)
    then show ?thesis by (simp add: vs_sign_def post_simps)
  next
    case i: (Inr i)
    show ?thesis
    proof (cases "check_epoch expected")
      case (Inl e)
      with i show ?thesis by (simp add: vs_sign_def post_simps)
    next
      case ep: (Inr epoch)
      show ?thesis
      proof (cases "\<not> vs_closed s \<and> (\<exists>pub. vs_keys s i = Some (epoch, pub))")
        case True
        then obtain pub where "vs_keys s i = Some (epoch, pub)" by blast
        moreover from this True have "post (ecatch (vs_checked c lib slot ds epoch pub) (vs_quarantine lib))
          (\<lambda>gs _. \<not> vs_closed s \<and> (\<exists>i epoch pub ds. check_slot slot = Inr i \<and> check_epoch expected = Inr epoch
            \<and> vs_keys s i = Some (epoch, pub) \<and> hs = Items (map PBytes ds) \<and> batch_verified c pub ds gs)) (\<lambda>_ _. True) s"
          by (intro post_mono [OF q]) (use i ep hs in auto)
        ultimately show ?thesis using True i ep Inr p
          by (simp add: vs_sign_def post_bind post_basic post_vs_live)
      next
        case False
        with i ep Inr p show ?thesis
          by (auto simp: vs_sign_def post_bind post_basic post_vs_live split: option.split)
      qed
    qed
  qed
qed

section \<open>Histories\<close>

datatype vs_op =
    VsLoadKey pyval pyval pyval
  | VsPublicKey pyval
  | VsRetireKey pyval pyval
  | VsSign pyval "pyval iterable" pyval
  | VsClose

fun vs_step :: "ossl \<Rightarrow> 'n native \<Rightarrow> vs_op \<Rightarrow> ('n, unit) vs" where
  "vs_step c lib (VsLoadKey slot key e) = drop_result (vs_load_key c lib slot key e)"
| "vs_step c lib (VsPublicKey slot) = drop_result (vs_public_key slot)"
| "vs_step c lib (VsRetireKey slot e) = drop_result (vs_retire_key lib slot e)"
| "vs_step c lib (VsSign slot hs e) = drop_result (vs_sign c lib slot hs e)"
| "vs_step c lib VsClose = vs_close lib"

definition vs_run :: "ossl \<Rightarrow> 'n native \<Rightarrow> vs_op list \<Rightarrow> 'n vsigner \<Rightarrow> 'n vsigner" where
  "vs_run c lib ops s = foldl (\<lambda>s op. snd (vs_step c lib op s)) s ops"

text \<open>Pins are dropped at any time, and added only by loading a key.\<close>

lemma keeps_on_rt: "(\<And>s t. I s \<Longrightarrow> I (s\<lparr>vs_rt := t\<rparr>)) \<Longrightarrow> keeps I (on_rt m)"
  unfolding keeps_def post_on_rt by (intro allI impI post_mono [OF post_True])

abbreviation pins_le :: "(nat \<rightharpoonup> nat \<times> bytes) \<Rightarrow> 'n vsigner \<Rightarrow> bool" where
  "pins_le K s \<equiv> vs_keys s \<subseteq>\<^sub>m K"

lemma pins_basic [keeps_intros]:
  "keeps (pins_le K) (on_rt m)" "keeps (pins_le K) vs_live" "keeps (pins_le K) (vs_close lib)"
  "keeps (pins_le K) (vs_fault lib msg)" "keeps (pins_le K) (vs_quarantine lib e)"
  subgoal by (rule keeps_on_rt) simp
  subgoal by (simp add: keeps_def post_simps)
  subgoal by (simp add: keeps_def post_simps shut_def)
  subgoal by (simp add: keeps_def post_simps shut_def)
  subgoal by (simp add: keeps_def post_simps shut_def)
  done

lemma pins_retire [keeps_intros]: "keeps (pins_le K) (emod (\<lambda>s. s\<lparr>vs_keys := (vs_keys s)(i := None)\<rparr>))"
  by (rule keeps_mod) (auto simp: map_le_def split: if_splits)

lemma pins_checked [keeps_intros]: "keeps (pins_le K) (vs_checked c lib slot ds epoch pub)"
  unfolding vs_checked_def check_output_def by (intro keeps_intros)

lemma pins_calls:
  "keeps (pins_le K) (vs_sign c lib slot hs e)" "keeps (pins_le K) (vs_retire_key lib slot e)"
  "keeps (pins_le K) (vs_public_key slot)"
  unfolding vs_sign_def vs_retire_key_def vs_public_key_def by (intro keeps_intros)+

definition loads_pin :: "ossl \<Rightarrow> vs_op \<Rightarrow> nat \<Rightarrow> bytes \<Rightarrow> bool" where
  "loads_pin c op i pub \<longleftrightarrow> (\<exists>slot key e d. op = VsLoadKey slot key e \<and> check_slot slot = Inr i
     \<and> py_digests key (Items []) = Inr (d, []) \<and> pub = ec_public c d)"

definition pins_from :: "ossl \<Rightarrow> vs_op \<Rightarrow> (nat \<rightharpoonup> nat \<times> bytes) \<Rightarrow> 'n vsigner \<Rightarrow> bool" where
  "pins_from c op K s \<longleftrightarrow> (\<forall>i epoch pub. vs_keys s i = Some (epoch, pub) \<longrightarrow> K i = Some (epoch, pub) \<or> loads_pin c op i pub)"

lemma pins_le_from: "pins_le K s \<Longrightarrow> pins_from c op K s"
  by (auto simp: pins_from_def map_le_def dom_def)

lemma pins_refl: "pins_from c op (vs_keys s) s"
  by (simp add: pins_from_def)

lemma post_keeps: "keeps I m \<Longrightarrow> I s \<Longrightarrow> post m (\<lambda>_. I) (\<lambda>_. I) s"
  by (simp add: keeps_def)

lemma pins_only:
  assumes "keeps (pins_le (vs_keys s)) m"
  shows "post m (\<lambda>_. pins_from c op (vs_keys s)) (\<lambda>_. pins_from c op (vs_keys s)) s"
  using post_keeps [OF assms] by (rule post_mono) (simp_all add: pins_le_from)

lemma load_pins:
  "post (vs_load_key c lib slot key e) (\<lambda>_. pins_from c (VsLoadKey slot key e) (vs_keys s))
    (\<lambda>_. pins_from c (VsLoadKey slot key e) (vs_keys s)) s"
proof (cases "check_slot slot")
  case (Inl er)
  then show ?thesis by (simp add: vs_load_key_def post_bind post_basic pins_from_def)
next
  case i: (Inr i)
  show ?thesis
  proof (cases "py_digests key (Items [])")
    case (Inl er)
    with i show ?thesis by (simp add: vs_load_key_def post_bind post_basic pins_from_def split: sum.split)
  next
    case (Inr p)
    then obtain d where p: "py_digests key (Items []) = Inr (d, [])"
      by (cases p) (auto simp: py_digests_Inr_iff)
    let ?F = "pins_from c (VsLoadKey slot key e) (vs_keys s)"
    have new: "?F (s'\<lparr>vs_keys := (vs_keys s')(i \<mapsto> (epoch, ec_public c d))\<rparr>)" if "pins_le (vs_keys s) s'" for s' epoch
      using that i p by (auto simp: pins_from_def loads_pin_def map_le_def dom_def)
    let ?m = "vs_import lib slot key e (ec_public c d)"
    have "keeps (pins_le (vs_keys s)) ?m" unfolding vs_import_def by (intro keeps_intros)
    then have "post ?m (\<lambda>_. pins_le (vs_keys s)) (\<lambda>_. pins_le (vs_keys s)) s" by (rule post_keeps) simp
    then have "post (ebind ?m (\<lambda>epoch. ebind (emod (\<lambda>s. s\<lparr>vs_keys := (vs_keys s)(i \<mapsto> (epoch, ec_public c d))\<rparr>))
        (\<lambda>_. eret epoch))) (\<lambda>_. ?F) (\<lambda>_. ?F) s"
      unfolding post_bind [of ?m] by (rule post_mono) (simp_all add: post_simps new pins_le_from)
    then show ?thesis
      using i p by (simp add: vs_load_key_def post_bind post_basic Let_def pins_refl split: sum.split)
  qed
qed

lemma vs_step_pins: "pins_from c op (vs_keys s) (snd (vs_step c lib op s))"
proof -
  have "post (vs_step c lib op) (\<lambda>_. pins_from c op (vs_keys s)) (\<lambda>_. pins_from c op (vs_keys s)) s"
  proof (cases op)
    case (VsLoadKey slot key e)
    then show ?thesis using load_pins by (simp add: drop_result_def post_bind post_ret_fun)
  next
    case VsClose
    then show ?thesis by (simp add: post_simps shut_def pins_from_def)
  next
    case (VsPublicKey slot)
    then show ?thesis using pins_only [OF pins_calls(3)] by (simp add: drop_result_def post_bind post_ret_fun)
  next
    case (VsRetireKey slot e)
    then show ?thesis using pins_only [OF pins_calls(2)] by (simp add: drop_result_def post_bind post_ret_fun)
  next
    case (VsSign slot hs e)
    then show ?thesis using pins_only [OF pins_calls(1)] by (simp add: drop_result_def post_bind post_ret_fun)
  qed
  then show ?thesis by (cases "vs_step c lib op s"; cases "fst (vs_step c lib op s)") (auto simp: post_def)
qed

lemma vs_run_pins:
  "vs_keys s = Map.empty \<Longrightarrow> vs_keys (vs_run c lib ops s) i = Some (epoch, pub) \<Longrightarrow> \<exists>op \<in> set ops. loads_pin c op i pub"
proof (induction ops arbitrary: epoch rule: rev_induct)
  case Nil
  then show ?case by (simp add: vs_run_def)
next
  case (snoc op ops)
  then show ?case
    using vs_step_pins [of c op "vs_run c lib ops s" lib]
    by (auto simp: vs_run_def pins_from_def)
qed

lemma vs_init_pins: "vs_init lib device backend (fresh_signer n) = (Inr (), s) \<Longrightarrow> vs_keys s = Map.empty"
proof -
  have "keeps (pins_le Map.empty) (vs_init lib device backend)"
    unfolding vs_init_def by (intro keeps_intros)
  moreover assume "vs_init lib device backend (fresh_signer n) = (Inr (), s)"
  ultimately have "pins_le Map.empty s"
    using keepsD [of "pins_le Map.empty" "vs_init lib device backend" "fresh_signer n"] by (simp add: fresh_signer_def)
  then show ?thesis by (metis map_le_antisym map_le_empty)
qed

text \<open>
  C23. Every signature a verified signer returns is genuine. Whatever the native library does, and
  after any history of calls on a new signer, a batch that \<open>sign\<close> returns has one 64-byte low-s
  signature per digest, in order, and each of them verifies under the public key that OpenSSL
  derives from a private key which the caller itself loaded into that slot; the slot's current
  epoch is the one the call required.
\<close>

theorem signed_batch_verified:
  assumes "vs_init lib device backend (fresh_signer n) = (Inr (), s)"
    and "fst (vs_sign c lib slot hs expected (vs_run c lib ops s)) = Inr gs"
  shows "\<exists>i epoch pub ds. check_slot slot = Inr i \<and> check_epoch expected = Inr epoch
     \<and> vs_keys (vs_run c lib ops s) i = Some (epoch, pub) \<and> (\<exists>op \<in> set ops. loads_pin c op i pub)
     \<and> hs = Items (map PBytes ds) \<and> batch_verified c pub ds gs"
proof -
  obtain s' where "vs_sign c lib slot hs expected (vs_run c lib ops s) = (Inr gs, s')"
    using assms(2) by (metis prod.collapse)
  from post_Inr [OF vs_sign_post this] obtain i epoch pub ds where b: "check_slot slot = Inr i"
    "check_epoch expected = Inr epoch" "vs_keys (vs_run c lib ops s) i = Some (epoch, pub)"
    "hs = Items (map PBytes ds)" "batch_verified c pub ds gs" by blast
  with vs_run_pins [OF vs_init_pins [OF assms(1)] b(3)] show ?thesis by blast
qed

section \<open>Failing closed\<close>

definition is_shut :: "'n vsigner \<Rightarrow> bool" where
  "is_shut s \<longleftrightarrow> vs_closed s \<and> vs_keys s = Map.empty \<and> rt_handle (vs_rt s) = 0"

lemma is_shut_shut: "is_shut (shut lib s)"
  by (simp add: is_shut_def shut_def close_handle)

lemma shut_again: "is_shut s \<Longrightarrow> shut lib s = s"
  by (simp add: is_shut_def shut_def rt_close_def emod_def)

lemma vs_close_eq: "vs_close lib s = (Inr (), shut lib s)"
  by (rule post_eq) (simp add: post_simps)

lemma shut_step:
  assumes "is_shut s"
  shows "snd (vs_step c lib op s) = s" and "op = VsClose \<or> (\<exists>e. fst (vs_step c lib op s) = Inl e)"
proof -
  have "vs_closed s" using assms by (simp add: is_shut_def)
  then have lv: "vs_live s = (Inl (RuntimeError ''verified signer is closed or quarantined''), s)"
    by (simp add: vs_live_def ebind_def eget_def eguard_def)
  note defs = drop_result_def ebind_def elift_def eret_def lv vs_close_eq shut_again [OF assms] vs_load_key_def
    vs_import_def
    vs_public_key_def vs_retire_key_def vs_sign_def Let_def
  show "snd (vs_step c lib op s) = s"
    by (cases op) (auto simp: defs split: sum.splits prod.splits)
  show "op = VsClose \<or> (\<exists>e. fst (vs_step c lib op s) = Inl e)"
    by (cases op) (auto simp: defs split: sum.splits prod.splits)
qed

fun verification_error :: "exn \<Rightarrow> bool" where
  "verification_error (VerificationError m) = True"
| "verification_error _ = False"

text \<open>The native calls before a key is pinned or dropped raise no \<open>VerificationError\<close>.\<close>

lemma check_index_error: "check_index v n m = Inl e \<Longrightarrow> \<not> verification_error e"
  by (auto simp: check_index_def split: option.splits if_splits)

lemma key_calls_errors:
  "post (load_key lib slot key kind e) (\<lambda>_ _. True) (\<lambda>e _. \<not> verification_error e) s"
  "post (retire_key lib slot e) (\<lambda>_ _. True) (\<lambda>e _. \<not> verification_error e) s"
proof -
  have n: "post (rt_native f) Q E s \<longleftrightarrow> Q (fst (f (rt_handle s) (rt_lib s))) (s\<lparr>rt_lib := snd (f (rt_handle s) (rt_lib s))\<rparr>)"
    for f :: "nat \<Rightarrow> 'a \<Rightarrow> 'x \<times> 'a" and Q E s by (simp add: post_def rt_native_def split_beta)
  have k: "key_bytes v = Inl er \<Longrightarrow> \<not> verification_error er" for v er
    by (auto simp: key_bytes_def split: option.splits if_splits)
  show "post (load_key lib slot key kind e) (\<lambda>_ _. True) (\<lambda>e _. \<not> verification_error e) s"
    using check_index_error k
    by (auto simp: load_key_def post_simps n check_slot_def check_epoch_def live_def check_status_def split: sum.splits prod.splits)
  show "post (retire_key lib slot e) (\<lambda>_ _. True) (\<lambda>e _. \<not> verification_error e) s"
    using check_index_error
    by (auto simp: retire_key_def post_simps n check_slot_def check_epoch_def live_def check_status_def split: sum.splits prod.splits)
qed

text \<open>The caller's own iterator may raise anything; these are the calls where it raises nothing.\<close>

fun quiet_args :: "vs_op \<Rightarrow> bool" where
  "quiet_args (VsSign slot (Raising xs e) expected) = False"
| "quiet_args _ = True"

lemma py_digests_error:
  "py_digests key hs = Inl e \<Longrightarrow> (\<forall>xs x. hs \<noteq> Raising xs x) \<Longrightarrow> \<not> verification_error e"
  by (cases hs) (auto simp: py_digests_def key_bytes_def py_batch_def bind_res_def split: sum.splits option.splits if_splits)

lemma quarantine_verification_error: "verification_error (quarantine_error e)"
  by (cases e) (simp_all add: quarantine_error_def)

lemma import_fails_shut:
  "post (vs_import lib slot key e enc) (\<lambda>_ _. True) (\<lambda>e s'. verification_error e \<longrightarrow> is_shut s') s"
proof -
  have "post (on_rt (load_key lib slot key (PStr (lit ''p256'')) e))
      (\<lambda>_ _. True) (\<lambda>e s'. verification_error e \<longrightarrow> is_shut s') s"
    unfolding post_on_rt by (rule post_mono [OF key_calls_errors(1)]) simp_all
  note load = this
  have check: "post (ebind (ecatch m (\<lambda>_. ebind (vs_close lib) (\<lambda>_. eraise (VerificationError msg)))) (\<lambda>_. eret epoch))
      (\<lambda>_ _. True) (\<lambda>e s'. verification_error e \<longrightarrow> is_shut s') s'" for m :: "('a, unit) vs" and epoch :: nat and msg s'
    unfolding post_bind post_catch by (rule post_mono [OF post_True]) (simp_all add: post_simps is_shut_shut)
  have "post (ebind (on_rt (load_key lib slot key (PStr (lit ''p256'')) e)) f)
      (\<lambda>_ _. True) (\<lambda>e s'. verification_error e \<longrightarrow> is_shut s') s"
    if "\<And>epoch s'. post (f epoch) (\<lambda>_ _. True) (\<lambda>e s'. verification_error e \<longrightarrow> is_shut s') s'" for f :: "nat \<Rightarrow> ('a, nat) vs"
    unfolding post_bind by (rule post_mono [OF load]) (use that in simp_all)
  from this [OF check] show ?thesis
    unfolding vs_import_def post_bind [of vs_live] post_vs_live by simp
qed

lemma sign_fails_shut:
  assumes "\<forall>xs x. hs \<noteq> Raising xs x"
  shows "post (vs_sign c lib slot hs e) (\<lambda>_ _. True) (\<lambda>e s'. verification_error e \<longrightarrow> is_shut s') s"
proof -
  have q: "post (ecatch (vs_checked c lib slot ds epoch pub) (vs_quarantine lib)) (\<lambda>_ _. True)
      (\<lambda>e s'. verification_error e \<longrightarrow> is_shut s') s" for ds epoch pub
    unfolding post_catch by (rule post_mono [OF post_True]) (simp_all add: post_simps is_shut_shut)
  show ?thesis
    using q py_digests_error [OF _ assms] check_index_error
    by (auto simp: vs_sign_def post_bind post_basic post_vs_live check_slot_def check_epoch_def
        split: sum.split option.split prod.split)
qed

lemma step_fails_shut:
  assumes "quiet_args op"
  shows "post (vs_step c lib op) (\<lambda>_ _. True) (\<lambda>e s'. verification_error e \<longrightarrow> is_shut s') s"
proof (cases op)
  case (VsLoadKey slot key e)
  have "post (vs_load_key c lib slot key e) (\<lambda>_ _. True) (\<lambda>e s'. verification_error e \<longrightarrow> is_shut s') s"
    using check_index_error py_digests_error [of key "Items []"]
    by (auto simp: vs_load_key_def post_bind post_basic check_slot_def check_epoch_def Let_def
        split: sum.split prod.split intro!: post_mono [OF import_fails_shut])
  then show ?thesis by (simp add: VsLoadKey drop_result_def post_bind post_ret_fun)
next
  case (VsSign slot hs e)
  with assms have "\<forall>xs x. hs \<noteq> Raising xs x" by (cases hs) auto
  from sign_fails_shut [OF this] show ?thesis by (simp add: VsSign drop_result_def post_bind post_ret_fun)
next
  case (VsPublicKey slot)
  then show ?thesis using check_index_error
    by (auto simp: drop_result_def vs_public_key_def post_bind post_basic post_vs_live post_ret_fun check_slot_def
        split: sum.split option.split)
next
  case (VsRetireKey slot e)
  have "post (on_rt (retire_key lib slot e)) (\<lambda>_ _. True) (\<lambda>e s'. verification_error e \<longrightarrow> is_shut s') s"
    unfolding post_on_rt by (rule post_mono [OF key_calls_errors(2)]) simp_all
  then have "post (vs_retire_key lib slot e) (\<lambda>_ _. True) (\<lambda>e s'. verification_error e \<longrightarrow> is_shut s') s"
    using check_index_error
    by (auto simp: vs_retire_key_def post_bind post_basic post_vs_live check_slot_def check_epoch_def
        split: sum.split elim!: post_mono)
  then show ?thesis by (simp add: VsRetireKey drop_result_def post_bind post_ret_fun)
qed (simp add: post_simps)

text \<open>
  C24. The signer fails closed. Whenever a call on it raises a \<open>VerificationError\<close> (because the native
  library reported an error, returned a wrong report, a malformed or an invalid signature, or exported
  another public key), the signer is closed for good: no later history of calls changes it or
  reaches the native library, and every later call except \<open>close\<close> raises.
\<close>

theorem verification_failure_is_final:
  assumes "quiet_args op" and "vs_step c lib op s = (Inl (VerificationError m), s')"
  shows "is_shut s' \<and> vs_run c lib ops s' = s' \<and> (op' = VsClose \<or> (\<exists>e. fst (vs_step c lib op' s') = Inl e))"
proof -
  have "is_shut s'" using post_Inl [OF step_fails_shut [OF assms(1)] assms(2)] by simp
  moreover have "vs_run c lib ops s' = s'"
    using shut_step(1) [OF calculation] by (induction ops) (simp_all add: vs_run_def)
  ultimately show ?thesis using shut_step(2) by blast
qed

section \<open>The contract of a signing callback\<close>

definition vs_signer :: "ossl \<Rightarrow> 'n native \<Rightarrow> nat \<Rightarrow> nat \<Rightarrow> 'n vsigner \<Rightarrow> signer" where
  "vs_signer c lib i epoch s hs =
     bind_res (fst (vs_sign c lib (PInt (int i)) (Items (map PBytes hs)) (PInt (int epoch)) s)) (\<lambda>gs. Inr (Items (map PBytes gs)))"

text \<open>\<open>VerifiedSigner.sign\<close> as a callback: its signatures verify under the pin of its slot.\<close>

interpretation verified: digest_signer "vs_signer c lib i epoch s"
    "\<lambda>h g. \<exists>pub. vs_keys s i = Some (epoch, pub) \<and> ecdsa_verify c pub (sig_r g) (sig_s g) h"
  for c :: ossl and lib :: "'n native" and i :: nat and epoch :: nat and s :: "'n vsigner"
proof unfold_locales
  fix hs out assume "vs_signer c lib i epoch s hs = Inr out"
  then obtain gs s' where gs: "vs_sign c lib (PInt (int i)) (Items (map PBytes hs)) (PInt (int epoch)) s = (Inr gs, s')"
    and out: "out = Items (map PBytes gs)"
    by (auto simp: vs_signer_def bind_res_Inr_iff) (metis prod.collapse)
  have "inj PBytes" by (simp add: inj_def)
  with post_Inr [OF vs_sign_post gs] obtain pub where "vs_keys s i = Some (epoch, pub)" "batch_verified c pub hs gs"
    by (auto simp: check_slot_def check_epoch_def check_index_def inj_map_eq_map split: if_splits)
  then show "\<exists>gs. out = Items (map PBytes gs)
      \<and> list_all2 (\<lambda>h g. valid_low_s g \<and> (\<exists>pub. vs_keys s i = Some (epoch, pub) \<and> ecdsa_verify c pub (sig_r g) (sig_s g) h)) hs gs"
    using out by (auto simp: batch_verified_def elim!: list_all2_mono)
qed

section \<open>Examples\<close>

definition demo_signer :: "slots \<Rightarrow> (nat \<rightharpoonup> nat \<times> bytes) \<Rightarrow> report option \<Rightarrow> slots vsigner" where
  "demo_signer n K rep = \<lparr>vs_closed = False, vs_keys = K, vs_rt = \<lparr>rt_handle = 1, rt_report = rep, rt_lib = n\<rparr>\<rparr>"

abbreviation demo_scalar :: bytes where
  "demo_scalar \<equiv> replicate 31 0 @ [1]"

lemma demo_init:
  "nv_create lib = (\<lambda>d n. ((0, 1), n)) \<Longrightarrow> nv_set_backend lib = (\<lambda>h b n. (0, n)) \<Longrightarrow> nv_abi lib = 1
    \<Longrightarrow> nv_has lib = (\<lambda>_. True)
    \<Longrightarrow> vs_init lib (PInt 0) (PStr (lit ''full_window_w8'')) (fresh_signer n) = (Inr (), demo_signer n Map.empty None)"
  by (rule post_eq) (simp add: vs_init_def post_simps fresh_signer_def closed_runtime_def runtime_init_def cuda_init_def
      check_index_def rt_native_def post_def ebind_def elift_def emod_def ecatch_def check_status_def eguard_def
      set_p256_backend_def backend_index_def live_def eget_def on_rt_def ezoom_def eret_def demo_signer_def)

lemma demo_digests: "py_digests (PBytes demo_scalar) (Items []) = Inr (1, [])"
proof -
  have "py_digests (PBytes demo_scalar) (Items (map PBytes [])) = Inr (1, [])"
    unfolding py_digests_Inr_iff using demo_key ORDER_bounds(1) by auto
  then show ?thesis by simp
qed

lemma demo_load:
  assumes "nv_key_put lib = nv_key_put (demo_native demo_ossl)" "nv_export lib = nv_export (demo_native demo_ossl)"
  shows "vs_load_key demo_ossl lib (PInt 0) (PBytes demo_scalar) (PInt 0) (demo_signer (\<lambda>_. (0, [], 0)) Map.empty None)
    = (Inr 1, demo_signer ((\<lambda>_. (0, [], 0))(0 := (2, demo_scalar, 1))) [0 \<mapsto> (1, ec_public demo_ossl 1)] None)"
proof -
  have k: "key_bytes (PBytes demo_scalar) = Inr demo_scalar" by (simp add: key_bytes_Inr_iff)
  have l: "length (ec_public demo_ossl d) = 65" for d by (simp add: demo_ossl_def)
  show ?thesis
    using demo_key(2)
    by (simp add: vs_load_key_def vs_import_def demo_digests ebind_def elift_def check_slot_def check_epoch_def check_index_def
        vs_live_def eget_def eguard_def on_rt_def ezoom_def load_key_def k live_def rt_native_def check_status_def assms
        demo_native_def demo_signer_def eret_def emod_def ecatch_def rt_public_key_def l Let_def)
qed

lemma demo_batch: "length h = 32 \<Longrightarrow> py_digests (PBytes (to_bytes_big 32 1)) (Items [PBytes h]) = Inr (1, [h])"
proof -
  assume h: "length h = 32"
  have "py_digests (PBytes (to_bytes_big 32 1)) (Items (map PBytes [h])) = Inr (1, [h])"
    unfolding py_digests_Inr_iff using h ORDER_bounds(1) from_to_bytes_big [of 1 32] by (auto simp: MAX_BATCH_def)
  then show ?thesis by simp
qed

lemma demo_fields:
  "nv_has (demo_native c) x"
  "nv_sign (demo_native c) h i e hs n = keyed_result 2 e n i (length hs) []
     (\<lambda>k. (replicate (length hs) 0, concat (map (\<lambda>x. raw_signature (ecdsa_sign c (from_bytes_big k) x)) hs)))"
  by (simp_all add: demo_native_def)

lemma demo_sign:
  assumes h: "length h = 32" and n: "n 0 = (2, demo_scalar, 1)"
  shows "\<exists>g s'. vs_sign demo_ossl (demo_native demo_ossl) (PInt 0) (Items [PBytes h]) (PInt 1)
      (demo_signer n [0 \<mapsto> (1, ec_public demo_ossl 1)] rep) = (Inr [g], s')"
proof -
  let ?g = "raw_signature (ecdsa_sign demo_ossl 1 h)"
  let ?s = "demo_signer n [0 \<mapsto> (1, ec_public demo_ossl 1)] (Some (expected_report 1 1))"
  have d: "(1 :: nat) < ORDER" using ORDER_bounds(1) by simp
  note v = verify_raw_signature [OF demo_ecdsa_law _ d h, simplified]
  have low: "valid_low_s ?g" and ver: "ecdsa_verify demo_ossl (ec_public demo_ossl 1) (sig_r ?g) (sig_s ?g) h"
    using v by (auto simp: verify_p256_def Let_def split: if_splits)
  then have len: "length ?g = 64" by (simp add: valid_low_s_def)
  have fixed: "read_fixed lib 64 (Suc 0) (0, [0], ?g) t = (Inr [?g], t)" for lib :: "slots native" and t :: "slots runtime"
    using read_fixed_ok [of "[?g]" 64 1 lib t] len by simp
  have out: "check_output demo_ossl lib (ec_public demo_ossl 1) (h, ?g) t = (Inr (), t)"
    for lib :: "slots native" and t :: "slots vsigner"
    using low ver by (simp add: check_output_def Let_def valid_low_s_def eguard_def)
  have "vs_sign demo_ossl (demo_native demo_ossl) (PInt 0) (Items [PBytes h]) (PInt 1)
      (demo_signer n [0 \<mapsto> (1, ec_public demo_ossl 1)] rep) = (Inr [?g], ?s)"
    by (simp add: vs_sign_def ebind_def elift_def check_slot_def check_epoch_def check_index_def demo_batch [OF h, unfolded One_nat_def]
        vs_live_def eget_def eguard_def demo_signer_def ecatch_def vs_checked_def on_rt_def ezoom_def rt_sign_def live_def
        keyed_call_def keyed_epoch_def demo_fields rt_native_def keyed_result_def n save_report_def emod_def eret_def
        fixed [unfolded One_nat_def] out [unfolded One_nat_def] demo_key(2) [unfolded One_nat_def] item_report_def expected_report_def)
  then show ?thesis by blast
qed

theorem signed_batch_verified_witness:
  "\<exists>gs. fst (vs_sign demo_ossl (demo_native demo_ossl) (PInt 0) (Items [PBytes (sha256 [])]) (PInt 1)
      (vs_run demo_ossl (demo_native demo_ossl) [VsLoadKey (PInt 0) (PBytes demo_scalar) (PInt 0)]
        (demo_signer (\<lambda>_. (0, [], 0)) Map.empty None))) = Inr gs
     \<and> batch_verified demo_ossl (ec_public demo_ossl 1) [sha256 []] gs"
proof -
  let ?lib = "demo_native demo_ossl" and ?ops = "[VsLoadKey (PInt 0) (PBytes demo_scalar) (PInt 0)]"
  let ?s = "demo_signer (\<lambda>_. (0, [], 0)) Map.empty None"
  have init: "vs_init ?lib (PInt 0) (PStr (lit ''full_window_w8'')) (fresh_signer (\<lambda>_. (0, [], 0))) = (Inr (), ?s)"
    by (rule demo_init) (simp_all add: demo_native_def)
  have run: "vs_run demo_ossl ?lib ?ops ?s
      = demo_signer ((\<lambda>_. (0, [], 0))(0 := (2, demo_scalar, 1))) [0 \<mapsto> (1, ec_public demo_ossl 1)] None"
    by (simp add: vs_run_def drop_result_def ebind_def demo_load eret_def)
  obtain g s' where g: "vs_sign demo_ossl ?lib (PInt 0) (Items [PBytes (sha256 [])]) (PInt 1)
      (vs_run demo_ossl ?lib ?ops ?s) = (Inr [g], s')"
    unfolding run using demo_sign [of "sha256 []" "(\<lambda>_. (0, [], 0))(0 := (2, demo_scalar, 1))" None]
    by (auto simp: length_sha256)
  have inj: "Items [PBytes (sha256 [])] = Items (map PBytes ds) \<Longrightarrow> ds = [sha256 []]" for ds
    by (cases ds) auto
  have "\<exists>i epoch pub ds. check_slot (PInt 0) = Inr i \<and> vs_keys (vs_run demo_ossl ?lib ?ops ?s) i = Some (epoch, pub)
     \<and> Items [PBytes (sha256 [])] = Items (map PBytes ds) \<and> batch_verified demo_ossl pub ds [g]"
    using signed_batch_verified [OF init, of demo_ossl "PInt 0" "Items [PBytes (sha256 [])]" "PInt 1" ?ops "[g]",
      unfolded g fst_conv, OF refl] by (elim exE conjE) (intro exI conjI, assumption+)
  then obtain pub where "vs_keys (vs_run demo_ossl ?lib ?ops ?s) 0 = Some (1, pub)" "batch_verified demo_ossl pub [sha256 []] [g]"
    using inj unfolding run by (auto simp: check_slot_def check_index_def demo_signer_def)
  then show ?thesis using g unfolding run by (auto simp: demo_signer_def)
qed

theorem verification_failure_is_final_witness:
  "let lib = (demo_native demo_ossl)\<lparr>nv_sign := \<lambda>h i e hs n.
       (\<lparr>nc_rc = 2, nc_status = [], nc_out = [], nc_report = item_report 0 1\<rparr>, n)\<rparr>;
     s' = snd (vs_step demo_ossl lib (VsSign (PInt 0) (Items []) (PInt 1)) (demo_signer (\<lambda>_. (2, demo_scalar, 1)) [0 \<mapsto> (1, [])] None))
   in is_shut s' \<and> vs_run demo_ossl lib [VsRetireKey (PInt 0) (PInt 1), VsClose] s' = s'"
proof -
  let ?lib = "(demo_native demo_ossl)\<lparr>nv_sign := \<lambda>h i e hs n.
       (\<lparr>nc_rc = 2, nc_status = [], nc_out = [], nc_report = item_report 0 1\<rparr>, n)\<rparr>"
  let ?s = "demo_signer (\<lambda>_. (2, demo_scalar, 1)) [0 \<mapsto> (1, [])] None" and ?op = "VsSign (PInt 0) (Items []) (PInt 1)"
  have e: "py_digests (PBytes (to_bytes_big 32 1)) (Items []) = Inr (1, [])"
  proof -
    have "py_digests (PBytes (to_bytes_big 32 1)) (Items (map PBytes [])) = Inr (1, [])"
      unfolding py_digests_Inr_iff using ORDER_bounds(1) from_to_bytes_big [of 1 32] by auto
    then show ?thesis by simp
  qed
  have "fst (vs_step demo_ossl ?lib ?op ?s) = Inl (VerificationError ''signing failed independent verification; signer closed'')"
    by (simp add: drop_result_def vs_sign_def ebind_def elift_def check_slot_def check_epoch_def check_index_def e
        vs_live_def eget_def eguard_def demo_signer_def ecatch_def vs_checked_def on_rt_def ezoom_def rt_sign_def live_def
        keyed_call_def keyed_epoch_def demo_native_def rt_native_def save_report_def emod_def eret_def read_fixed_def
        check_status_def vs_quarantine_def vs_close_def eraise_def rt_close_def del: One_nat_def)
  then have "vs_step demo_ossl ?lib ?op ?s = (Inl (VerificationError ''signing failed independent verification; signer closed''),
      snd (vs_step demo_ossl ?lib ?op ?s))" by (metis prod.collapse)
  from verification_failure_is_final [OF _ this, of "[VsRetireKey (PInt 0) (PInt 1), VsClose]"] show ?thesis
    by (simp add: Let_def)
qed

end
