(* ===== verification/Signing.thy ===== *)
theory Signing
  imports Verified
begin

text \<open>
  \<open>examples/http_access/signing.py\<close>: the issuer's key store \<open>Keys\<close>, which signs batches of claims on
  the CPU or with a verified GPU signer and keeps the public key of every epoch, and the publisher's
  \<open>Consumer\<close>, which verifies each token once and checks its scope.

  PyJWT is third-party code: its two calls are the fields of \<open>jwt_lib\<close>. The private scalars that
  OpenSSL generates are a stream of the environment. Thread pools only map a function over a list.
\<close>

section \<open>The key store\<close>

record 'n keys_env =
  ke_ossl :: ossl
  ke_lib :: "'n native"
  ke_private :: "nat \<Rightarrow> nat"

record 'n keys =
  ky_gpu :: "'n vsigner option"
  ky_pins :: "ustr \<rightharpoonup> bytes"
  ky_epoch :: nat
  ky_signatures :: nat
  ky_batches :: "nat list"
  ky_private :: nat
  ky_kid :: ustr
  ky_generated :: nat
  ky_shut :: bool

definition epoch_kid :: "nat \<Rightarrow> ustr" where
  "epoch_kid epoch = lit ''synthetic-epoch-'' @ dec_nat epoch"

text \<open>The new epoch of a rotation: the native slot's in GPU mode.\<close>

definition next_epoch :: "'n keys_env \<Rightarrow> nat \<Rightarrow> ('n keys, nat) eff" where
  "next_epoch env private =
     ebind (eget (\<lambda>s. (ky_gpu s, ky_epoch s))) (\<lambda>(gpu, epoch).
       case gpu of
         None \<Rightarrow> eret (Suc epoch)
       | Some _ \<Rightarrow> ezoom (the o ky_gpu) (\<lambda>g s. s\<lparr>ky_gpu := Some g\<rparr>)
           (vs_load_key (ke_ossl env) (ke_lib env) (PInt 0) (PBytes (to_bytes_big 32 private)) (PInt (int epoch))))"

definition rotate_key :: "'n keys_env \<Rightarrow> ('n keys, ustr) eff" where
  "rotate_key env =
     ebind (eget (\<lambda>s. ke_private env (ky_generated s))) (\<lambda>private.
     ebind (emod (\<lambda>s. s\<lparr>ky_generated := Suc (ky_generated s)\<rparr>)) (\<lambda>_.
     ebind (next_epoch env private) (\<lambda>epoch.
     ebind (emod (\<lambda>s. s\<lparr>ky_epoch := epoch, ky_private := private, ky_kid := epoch_kid epoch,
         ky_pins := (ky_pins s)(epoch_kid epoch \<mapsto> ec_public (ke_ossl env) private)\<rparr>)) (\<lambda>_.
       eret (epoch_kid epoch)))))"

definition no_keys :: "'n keys" where
  "no_keys = \<lparr>ky_gpu = None, ky_pins = Map.empty, ky_epoch = 0, ky_signatures = 0, ky_batches = [],
     ky_private = 0, ky_kid = [], ky_generated = 0, ky_shut = False\<rparr>"

text \<open>\<open>VerifiedSigner(library, device)\<close> over the state \<open>n\<close> of the native library.\<close>

definition open_signer :: "'n keys_env \<Rightarrow> pyval \<Rightarrow> 'n \<Rightarrow> ('n keys, unit) eff" where
  "open_signer env device n s =
     (case vs_init (ke_lib env) device (PStr (lit ''full_window_w8'')) (fresh_signer n) of
        (Inl e, g) \<Rightarrow> (Inl e, s)
      | (Inr _, g) \<Rightarrow> (Inr (), s\<lparr>ky_gpu := Some g\<rparr>))"

definition keys_init :: "'n keys_env \<Rightarrow> pyval \<Rightarrow> int \<Rightarrow> pyval \<Rightarrow> 'n \<Rightarrow> ('n keys, unit) eff" where
  "keys_init env mode workers device n =
     ebind (eguard ((mode = PStr (lit ''cpu'') \<or> mode = PStr (lit ''gpu'')) \<and> 1 \<le> workers \<and> workers \<le> 32)
       (ValueError ''invalid signer configuration'')) (\<lambda>_.
     ebind (if mode = PStr (lit ''gpu'') then open_signer env device n else eret ()) (\<lambda>_.
     ebind (rotate_key env) (\<lambda>_. eret ())))"

text \<open>\<open>close\<close>; afterwards the pool takes no work.\<close>

definition keys_close :: "'n keys_env \<Rightarrow> ('n keys, unit) eff" where
  "keys_close env =
     ebind (emod (\<lambda>s. s\<lparr>ky_shut := True\<rparr>)) (\<lambda>_.
     ebind (eget ky_gpu) (\<lambda>gpu. case gpu of
         None \<Rightarrow> eret ()
       | Some _ \<Rightarrow> ezoom (the o ky_gpu) (\<lambda>g s. s\<lparr>ky_gpu := Some g\<rparr>) (vs_close (ke_lib env))))"

text \<open>The payloads, and the digests the callback of \<open>sign_es256\<close> sees when it is reached.\<close>

definition claim_payload :: "pyval \<Rightarrow> bytes" where
  "claim_payload claims = ascii_encode (dumps_sorted claims)"

definition reached_digests :: "bytes list \<Rightarrow> ustr \<Rightarrow> bytes list option" where
  "reached_digests payloads kid =
     (if key_label_ok kid \<and> py_messages (Items (map PBytes payloads)) = Inr payloads
      then Some (map (\<lambda>p. sha256 (ascii_encode (signing_input kid p))) payloads) else None)"

text \<open>The callback \<open>batch\<close>: what it returns, and what it does to the signer it uses.\<close>

definition keys_signer :: "'n keys_env \<Rightarrow> 'n keys \<Rightarrow> signer" where
  "keys_signer env s hs = (case ky_gpu s of
     None \<Rightarrow> if ky_shut s \<and> hs \<noteq> [] then Inl (RuntimeError ''cannot schedule new futures after shutdown'')
       else Inr (Items (map (\<lambda>h. PBytes (raw_signature (ecdsa_sign (ke_ossl env) (ky_private s) h))) hs))
   | Some g \<Rightarrow> vs_signer (ke_ossl env) (ke_lib env) 0 (ky_epoch s) g hs)"

definition after_callback :: "'n keys_env \<Rightarrow> bytes list option \<Rightarrow> 'n keys \<Rightarrow> 'n keys" where
  "after_callback env reached s = (case (ky_gpu s, reached) of
     (Some g, Some hs) \<Rightarrow> s\<lparr>ky_gpu := Some (snd (vs_sign (ke_ossl env) (ke_lib env) (PInt 0)
        (Items (map PBytes hs)) (PInt (int (ky_epoch s))) g))\<rparr>
   | _ \<Rightarrow> s)"

definition sign_claims :: "'n keys_env \<Rightarrow> pyval list \<Rightarrow> ('n keys, ustr \<times> ustr list) eff" where
  "sign_claims env claims s =
     (let payloads = map claim_payload claims;
          s' = after_callback env (reached_digests payloads (ky_kid s)) s
      in case sign_es256 (Items (map PBytes payloads)) (PStr (ky_kid s)) (keys_signer env s) of
           Inl e \<Rightarrow> (Inl e, s')
         | Inr tokens \<Rightarrow> (Inr (ky_kid s, tokens), s'\<lparr>ky_signatures := ky_signatures s' + length tokens,
             ky_batches := ky_batches s' @ [length tokens]\<rparr>))"

section \<open>Every issued token verifies under the pin of its key\<close>

datatype key_op = KyRotate | KySign "pyval list" | KyClose

fun key_step :: "'n keys_env \<Rightarrow> key_op \<Rightarrow> ('n keys, unit) eff" where
  "key_step env KyRotate = drop_result (rotate_key env)"
| "key_step env (KySign claims) = drop_result (sign_claims env claims)"
| "key_step env KyClose = keys_close env"

definition key_run :: "'n keys_env \<Rightarrow> key_op list \<Rightarrow> 'n keys \<Rightarrow> 'n keys" where
  "key_run env ops s = foldl (\<lambda>s op. snd (key_step env op s)) s ops"

text \<open>The pin of the current key is the public key of the signer in use.\<close>

definition keys_inv :: "'n keys_env \<Rightarrow> 'n keys \<Rightarrow> bool" where
  "keys_inv env s \<longleftrightarrow> ky_pins s (ky_kid s) \<noteq> None \<and> (case ky_gpu s of
     None \<Rightarrow> ky_pins s (ky_kid s) = Some (ec_public (ke_ossl env) (ky_private s))
       \<and> 1 \<le> ky_private s \<and> ky_private s < ORDER
   | Some g \<Rightarrow> (\<forall>x. vs_keys g 0 = Some x \<longrightarrow> fst x = ky_epoch s \<and> ky_pins s (ky_kid s) = Some (snd x)))"

lemma load_post:
  assumes "check_slot slot = Inr i" and "py_digests key (Items []) = Inr (d, [])"
  shows "post (vs_load_key c lib slot key e) (\<lambda>epoch s'. vs_keys s' i = Some (epoch, ec_public c d))
    (\<lambda>_ s'. vs_keys s' \<subseteq>\<^sub>m vs_keys s) s"
proof -
  have "keeps (pins_le (vs_keys s)) (vs_import lib slot key e (ec_public c d))"
    unfolding vs_import_def by (intro keeps_intros)
  then have "post (vs_import lib slot key e (ec_public c d)) (\<lambda>_. pins_le (vs_keys s)) (\<lambda>_. pins_le (vs_keys s)) s"
    by (rule post_keeps) simp
  then have "post (ebind (vs_import lib slot key e (ec_public c d))
      (\<lambda>epoch. ebind (emod (\<lambda>s. s\<lparr>vs_keys := (vs_keys s)(i \<mapsto> (epoch, ec_public c d))\<rparr>)) (\<lambda>_. eret epoch)))
    (\<lambda>epoch s'. vs_keys s' i = Some (epoch, ec_public c d)) (\<lambda>_. pins_le (vs_keys s)) s"
    unfolding post_bind by (rule post_mono) (simp_all add: post_simps)
  then show ?thesis
    using assms by (simp add: vs_load_key_def post_bind post_basic Let_def split: sum.split)
qed

definition scalars_ok :: "'n keys_env \<Rightarrow> bool" where
  "scalars_ok env \<longleftrightarrow> (\<forall>i. 1 \<le> ke_private env i \<and> ke_private env i < ORDER)"

lemma scalar_digests: "1 \<le> d \<Longrightarrow> d < ORDER \<Longrightarrow> py_digests (PBytes (to_bytes_big 32 d)) (Items []) = Inr (d, [])"
proof -
  assume d: "1 \<le> d" "d < ORDER"
  then have "d < 256 ^ 32" using ORDER_bounds(2) by linarith
  then have "py_digests (PBytes (to_bytes_big 32 d)) (Items (map PBytes [])) = Inr (d, [])"
    unfolding py_digests_Inr_iff using d from_to_bytes_big [of d 32] by auto
  then show ?thesis by simp
qed

lemma map_le_Some: "m \<subseteq>\<^sub>m m' \<Longrightarrow> m x = Some y \<Longrightarrow> m' x = Some y"
  by (force simp: map_le_def dom_def)

lemma rotate_post:
  assumes "scalars_ok env"
  shows "post (rotate_key env) (\<lambda>_. keys_inv env) (\<lambda>_ s'. keys_inv env s \<longrightarrow> keys_inv env s') s"
proof -
  let ?d = "ke_private env (ky_generated s)"
  have d: "1 \<le> ?d" "?d < ORDER" using assms by (simp_all add: scalars_ok_def)
  show ?thesis
  proof (cases "ky_gpu s")
    case None
    then show ?thesis using d by (simp add: rotate_key_def next_epoch_def post_simps keys_inv_def)
  next
    case (Some g)
    have "check_slot (PInt 0) = Inr 0" by (simp add: check_slot_def check_index_def)
    from load_post [OF this scalar_digests [OF d]]
    have load: "post (vs_load_key (ke_ossl env) (ke_lib env) (PInt 0) (PBytes (to_bytes_big 32 ?d)) (PInt (int (ky_epoch s))))
      (\<lambda>epoch g'. vs_keys g' 0 = Some (epoch, ec_public (ke_ossl env) ?d)) (\<lambda>_ g'. vs_keys g' \<subseteq>\<^sub>m vs_keys g) g" .
    have failed: "keys_inv env s \<longrightarrow> keys_inv env (s\<lparr>ky_generated := n, ky_gpu := Some g'\<rparr>)"
      if "vs_keys g' \<subseteq>\<^sub>m vs_keys g" for g' n
    proof -
      from that have "vs_keys g' 0 = Some x \<Longrightarrow> vs_keys g 0 = Some x" for x by (rule map_le_Some)
      with Some show ?thesis by (simp add: keys_inv_def)
    qed
    show ?thesis
      unfolding rotate_key_def next_epoch_def post_bind post_basic
      by (simp add: Some post_zoom post_basic post_bind, rule post_mono [OF load])
        (use failed in \<open>simp_all add: keys_inv_def\<close>)
  qed
qed

lemma after_callback_inv: "keys_inv env s \<Longrightarrow> keys_inv env (after_callback env reached s)"
proof (cases "ky_gpu s"; cases reached)
  fix g hs
  assume s: "keys_inv env s" "ky_gpu s = Some g" "reached = Some hs"
  let ?m = "vs_sign (ke_ossl env) (ke_lib env) (PInt 0) (Items (map PBytes hs)) (PInt (int (ky_epoch s)))"
  define g' where "g' = snd (?m g)"
  have "vs_keys g' \<subseteq>\<^sub>m vs_keys g" unfolding g'_def by (rule keepsD [OF pins_calls(1)]) simp
  then have g': "\<forall>x. vs_keys g' 0 = Some x \<longrightarrow> vs_keys g 0 = Some x" by (blast intro: map_le_Some)
  have "after_callback env reached s = s\<lparr>ky_gpu := Some g'\<rparr>"
    using s(2,3) by (simp add: after_callback_def g'_def)
  with s(1,2) g' show ?thesis by (simp add: keys_inv_def)
qed (simp_all add: after_callback_def)

lemma drop_result_state: "snd (drop_result m s) = snd (m s)"
  by (simp add: drop_result_def ebind_def eret_def split: prod.split sum.split)

lemma post_snd: "post m (\<lambda>_. P) (\<lambda>_. P) s \<longleftrightarrow> P (snd (m s))"
  by (simp add: post_def split: prod.split sum.split)

lemma key_step_inv: "scalars_ok env \<Longrightarrow> keys_inv env s \<Longrightarrow> keys_inv env (snd (key_step env op s))"
proof (cases op)
  case KyRotate
  assume ok: "scalars_ok env" and s: "keys_inv env s"
  have "post (rotate_key env) (\<lambda>_. keys_inv env) (\<lambda>_. keys_inv env) s"
    by (rule post_mono [OF rotate_post [OF ok]]) (simp_all add: s)
  then show ?thesis by (simp add: KyRotate drop_result_state post_snd)
next
  case (KySign claims)
  assume "keys_inv env s"
  then have r: "keys_inv env (after_callback env r s)" for r by (rule after_callback_inv)
  have "keys_inv env (s'\<lparr>ky_signatures := n, ky_batches := bs\<rparr>) = keys_inv env s'" for n bs and s' :: "'a keys"
    by (simp add: keys_inv_def split: option.split)
  with r show ?thesis
    by (simp add: KySign sign_claims_def drop_result_state Let_def split: sum.split)
next
  case KyClose
  assume "keys_inv env s"
  then have "post (keys_close env) (\<lambda>_. keys_inv env) (\<lambda>_. keys_inv env) s"
    by (cases "ky_gpu s") (simp_all add: keys_close_def post_simps keys_inv_def shut_def)
  then show ?thesis by (simp add: KyClose post_snd)
qed

lemma key_run_inv: "scalars_ok env \<Longrightarrow> keys_inv env s \<Longrightarrow> keys_inv env (key_run env ops s)"
  by (induction ops arbitrary: s) (simp_all add: key_run_def key_step_inv)

lemma keys_init_inv: "scalars_ok env \<Longrightarrow> keys_init env mode w device n s0 = (Inr (), s) \<Longrightarrow> keys_inv env s"
proof -
  assume ok: "scalars_ok env" and init: "keys_init env mode w device n s0 = (Inr (), s)"
  have rot: "post (rotate_key env) (\<lambda>_. keys_inv env) (\<lambda>_ _. True) t" for t
    by (rule post_mono [OF rotate_post [OF ok]]) (simp_all add: post_simps)
  have "post (keys_init env mode w device n) (\<lambda>_. keys_inv env) (\<lambda>_ _. True) s0"
    unfolding keys_init_def post_bind post_basic
    by (simp add: post_if post_basic rot post_mono [OF post_True])
  from post_Inr [OF this init] show ?thesis .
qed

text \<open>Both signers keep the contract of the token encoder.\<close>

definition pinned_genuine :: "'n keys_env \<Rightarrow> 'n keys \<Rightarrow> bytes \<Rightarrow> bytes \<Rightarrow> bool" where
  "pinned_genuine env s h g \<longleftrightarrow>
     (\<exists>pub. ky_pins s (ky_kid s) = Some pub \<and> ecdsa_verify (ke_ossl env) pub (sig_r g) (sig_s g) h)"

lemma keys_signer_contract:
  assumes law: "ecdsa_law (ke_ossl env)" and inv: "keys_inv env s"
  shows "digest_signer (keys_signer env s) (pinned_genuine env s)"
proof
  fix hs out
  assume out: "keys_signer env s hs = Inr out" and len: "\<forall>h \<in> set hs. length h = 32"
  show "\<exists>gs. out = Items (map PBytes gs) \<and> list_all2 (\<lambda>h g. valid_low_s g \<and> pinned_genuine env s h g) hs gs"
  proof (cases "ky_gpu s")
    case None
    let ?gs = "map (\<lambda>h. raw_signature (ecdsa_sign (ke_ossl env) (ky_private s) h)) hs"
    have "valid_low_s (raw_signature (ecdsa_sign (ke_ossl env) (ky_private s) h))
        \<and> pinned_genuine env s h (raw_signature (ecdsa_sign (ke_ossl env) (ky_private s) h))" if "h \<in> set hs" for h
      using verify_raw_signature [OF law, of "ky_private s" h] None inv len that
      by (auto simp: pinned_genuine_def keys_inv_def verify_p256_def Let_def split: if_splits)
    then have "list_all2 (\<lambda>h g. valid_low_s g \<and> pinned_genuine env s h g) hs ?gs"
      by (auto simp: list_all2_conv_all_nth)
    moreover have "out = Items (map PBytes ?gs)" using out None by (simp add: keys_signer_def o_def split: if_splits)
    ultimately show ?thesis by blast
  next
    case (Some g)
    then have "vs_signer (ke_ossl env) (ke_lib env) 0 (ky_epoch s) g hs = Inr out" using out by (simp add: keys_signer_def)
    from verified.sign_genuine [OF this len] obtain gs where gs: "out = Items (map PBytes gs)"
      "list_all2 (\<lambda>h x. valid_low_s x \<and> (\<exists>pub. vs_keys g 0 = Some (ky_epoch s, pub)
         \<and> ecdsa_verify (ke_ossl env) pub (sig_r x) (sig_s x) h)) hs gs" by blast
    from gs(2) have "list_all2 (\<lambda>h g. valid_low_s g \<and> pinned_genuine env s h g) hs gs"
      by (rule list_all2_mono) (use inv Some in \<open>auto simp: keys_inv_def pinned_genuine_def\<close>)
    with gs(1) show ?thesis by blast
  qed
qed

text \<open>
  C11. Whatever rotations, signings and closings came before, the tokens of a signing call carry the key id it
  returns, one token for each claim in order, and every signature is in low-s form and verifies for the
  signing input of its own token under the public key pinned for that key id; the counters grow by the
  batch. In GPU mode this holds whatever the native library answers.
\<close>

theorem issued_tokens_genuine:
  assumes "ecdsa_law (ke_ossl env)" and "scalars_ok env"
    and "keys_init env mode workers device n no_keys = (Inr (), s0)"
    and "sign_claims env claims (key_run env ops s0) = (Inr (kid, tokens), s')"
  shows "\<exists>pub gs. ky_pins s' kid = Some pub \<and> length gs = length claims
    \<and> tokens = map2 (compact_token kid) (map claim_payload claims) gs
    \<and> (\<forall>i < length claims. valid_low_s (gs ! i)
         \<and> ecdsa_verify (ke_ossl env) pub (sig_r (gs ! i)) (sig_s (gs ! i))
             (sha256 (ascii_encode (signing_input kid (claim_payload (claims ! i))))))
    \<and> ky_signatures s' = ky_signatures (key_run env ops s0) + length claims
    \<and> ky_batches s' = ky_batches (key_run env ops s0) @ [length claims]"
proof -
  let ?s = "key_run env ops s0"
  have inv: "keys_inv env ?s" by (rule key_run_inv [OF assms(2) keys_init_inv [OF assms(2,3)]])
  from assms(4) have sign: "sign_es256 (Items (map PBytes (map claim_payload claims))) (PStr (ky_kid ?s)) (keys_signer env ?s) = Inr tokens"
    and kid: "kid = ky_kid ?s" and pins: "ky_pins s' = ky_pins ?s"
    and count: "ky_signatures s' = ky_signatures ?s + length tokens" "ky_batches s' = ky_batches ?s @ [length tokens]"
    by (auto simp: sign_claims_def Let_def after_callback_def split: sum.splits option.splits)
  from digest_signer.tokens_genuine [OF keys_signer_contract [OF assms(1) inv] sign] obtain gs where
    gs: "tokens = map2 (compact_token kid) (map claim_payload claims) gs" "length gs = length claims"
    and ok: "\<And>i. i < length claims \<Longrightarrow> valid_low_s (gs ! i)
      \<and> pinned_genuine env ?s (sha256 (ascii_encode (signing_input kid (claim_payload (claims ! i))))) (gs ! i)"
    by (auto simp: kid)
  obtain pub where "ky_pins ?s kid = Some pub"
    using inv by (auto simp: keys_inv_def kid)
  then have "ky_pins s' kid = Some pub" by (simp add: pins)
  moreover have "\<forall>i < length claims. valid_low_s (gs ! i)
    \<and> ecdsa_verify (ke_ossl env) pub (sig_r (gs ! i)) (sig_s (gs ! i))
        (sha256 (ascii_encode (signing_input kid (claim_payload (claims ! i)))))"
    using ok \<open>ky_pins ?s kid = Some pub\<close> by (auto simp: pinned_genuine_def kid)
  ultimately show ?thesis using gs count by (intro exI [of _ pub] exI [of _ gs] conjI) simp_all
qed

definition demo_keys_env :: "slots keys_env" where
  "demo_keys_env = \<lparr>ke_ossl = demo_ossl, ke_lib = demo_native demo_ossl, ke_private = (\<lambda>_. 1)\<rparr>"

definition demo_claims :: pyval where
  "demo_claims = PDict [(lit ''iss'', PStr (lit ''local-reference''))]"

lemma demo_scalars: "scalars_ok demo_keys_env"
  using ORDER_bounds(1) by (simp add: scalars_ok_def demo_keys_env_def)

lemma demo_keys_init:
  "keys_init demo_keys_env (PStr (lit ''cpu'')) 4 (PInt 0) n no_keys
     = (Inr (), no_keys\<lparr>ky_pins := [epoch_kid 1 \<mapsto> ec_public demo_ossl 1], ky_epoch := 1,
          ky_private := 1, ky_kid := epoch_kid 1, ky_generated := 1\<rparr>)"
  by (rule post_eq) (simp add: keys_init_def rotate_key_def next_epoch_def post_simps no_keys_def demo_keys_env_def lit_def)

theorem issued_tokens_genuine_witness:
  "let s = key_run demo_keys_env [KyRotate] (snd (keys_init demo_keys_env (PStr (lit ''cpu'')) 4 (PInt 0) (\<lambda>_. (0, [], 0)) no_keys))
   in \<exists>tokens. fst (sign_claims demo_keys_env [demo_claims] s) = Inr (epoch_kid 2, tokens)
     \<and> (\<exists>g. tokens = [compact_token (epoch_kid 2) (claim_payload demo_claims) g] \<and> valid_low_s g)"
proof -
  let ?n = "\<lambda>_. (0, [], 0)" and ?env = demo_keys_env
  let ?start = "snd (keys_init ?env (PStr (lit ''cpu'')) 4 (PInt 0) ?n no_keys)"
  let ?s = "key_run ?env [KyRotate] ?start"
  have init: "keys_init ?env (PStr (lit ''cpu'')) 4 (PInt 0) ?n no_keys = (Inr (), ?start)"
    unfolding demo_keys_init by simp
  have law: "ecdsa_law (ke_ossl ?env)" by (simp add: demo_keys_env_def demo_ecdsa_law)
  have inv: "keys_inv ?env ?s" by (rule key_run_inv [OF demo_scalars keys_init_inv [OF demo_scalars init]])
  have kid: "ky_kid ?s = epoch_kid 2" and gpu: "ky_gpu ?s = None" and up: "\<not> ky_shut ?s"
    unfolding demo_keys_init
    by (simp_all add: key_run_def drop_result_state rotate_key_def next_epoch_def ebind_def eget_def emod_def eret_def no_keys_def numeral_2_eq_2)
  have m: "py_messages (Items (map PBytes [claim_payload demo_claims])) = Inr [claim_payload demo_claims]"
    by (simp add: py_messages_Inr_iff claim_payload_def demo_claims_def dumps_sorted_def lit_def json_str_def json_escape_def MAX_BATCH_def MAX_PAYLOAD_def MAX_WORK_def)
  have k: "key_label_ok (epoch_kid 2)"
    by (simp add: key_label_ok_def isprintable_ascii_def epoch_kid_def lit_def dec_nat.simps)
  obtain tokens where t: "sign_es256 (Items (map PBytes [claim_payload demo_claims])) (PStr (ky_kid ?s)) (keys_signer ?env ?s) = Inr tokens"
    using digest_signer.signer_answer_accepted [OF keys_signer_contract [OF law inv] k [folded kid] m] gpu up
    by (auto simp: keys_signer_def)
  then have "sign_claims ?env [demo_claims] ?s = (Inr (epoch_kid 2, tokens), snd (sign_claims ?env [demo_claims] ?s))"
    by (simp add: sign_claims_def Let_def kid)
  from issued_tokens_genuine [OF law demo_scalars init this] obtain pub gs where
    "length gs = 1" "tokens = map2 (compact_token (epoch_kid 2)) [claim_payload demo_claims] gs" "valid_low_s (gs ! 0)"
    by auto
  then have "\<exists>g. tokens = [compact_token (epoch_kid 2) (claim_payload demo_claims) g] \<and> valid_low_s g"
    by (cases gs) auto
  then show ?thesis using t by (auto simp: Let_def sign_claims_def kid)
qed

end
