(* ===== verification/Consumer.thy ===== *)
theory Consumer
  imports Signing AccessBook
begin

text \<open>
  The publisher's \<open>Consumer\<close> of \<open>examples/http_access/signing.py\<close>: it verifies each token once under the
  pins it shares with the key store, remembers up to 4096 of them, and checks the scope on every call.
  PyJWT is third-party code: its two calls are the fields of \<open>jwt_lib\<close>, which answer with the dictionary
  they return or the exception they raise; the claims they check are strings.
\<close>

section \<open>The consumer\<close>

type_synonym dict = "(ustr \<times> pyval) list"

record jwt_lib =
  jw_header :: "ustr \<Rightarrow> dict result"
  jw_decode :: "bytes \<Rightarrow> ustr \<Rightarrow> dict result"

record consumer =
  cs_cache :: "(ustr \<times> dict) list"
  cs_verifications :: nat

definition no_tokens :: consumer where
  "no_tokens = \<lparr>cs_cache = [], cs_verifications = 0\<rparr>"

definition header_kid :: "dict \<Rightarrow> ustr option" where
  "header_kid header = Option.bind (map_of header (lit ''kid'')) as_str"

text \<open>The body of the \<open>try\<close>; the \<open>Denied\<close> it raises is a \<open>ValueError\<close> and is caught too.\<close>

definition decode_pinned :: "jwt_lib \<Rightarrow> (ustr \<rightharpoonup> bytes) \<Rightarrow> ustr \<Rightarrow> dict result" where
  "decode_pinned lib pins token =
     bind_res (jw_header lib token) (\<lambda>header.
       case header_kid header of
         None \<Rightarrow> Inl (Denied ''untrusted key or header'')
       | Some kid \<Rightarrow>
           if \<not> same_dict (PDict header) [(lit ''alg'', PStr (lit ''ES256'')), (lit ''kid'', PStr kid)]
           then Inl (Denied ''untrusted key or header'')
           else (case pins kid of
              None \<Rightarrow> Inl (Denied ''untrusted key or header'')
            | Some pub \<Rightarrow> jw_decode lib pub token))"

definition fresh_claims :: "jwt_lib \<Rightarrow> (ustr \<rightharpoonup> bytes) \<Rightarrow> ustr \<Rightarrow> dict result" where
  "fresh_claims lib pins token =
     (case decode_pinned lib pins token of
        Inl e \<Rightarrow> Inl (if policy_error e then Denied ''invalid signature or claims'' else e)
      | Inr claims \<Rightarrow> Inr claims)"

definition cached_claims :: "jwt_lib \<Rightarrow> (ustr \<rightharpoonup> bytes) \<Rightarrow> ustr \<Rightarrow> (consumer, dict) eff" where
  "cached_claims lib pins token =
     ebind (eget (\<lambda>s. map_of (cs_cache s) token)) (\<lambda>hit. case hit of
         Some claims \<Rightarrow> eret claims
       | None \<Rightarrow>
           ebind (elift (fresh_claims lib pins token)) (\<lambda>claims.
           ebind (emod (\<lambda>s. if 4096 \<le> length (cs_cache s) then s\<lparr>cs_cache := []\<rparr> else s)) (\<lambda>_.
           ebind (emod (\<lambda>s. s\<lparr>cs_cache := (token, claims) # cs_cache s,
               cs_verifications := Suc (cs_verifications s)\<rparr>)) (\<lambda>_. eret claims))))"

definition check_scope :: "dict \<Rightarrow> ustr \<Rightarrow> pyval \<Rightarrow> unit result" where
  "check_scope claims buyer book =
     (if map_of claims (lit ''sub'') \<noteq> Some (PStr buyer) \<or> map_of claims (lit ''jti'') \<noteq> Some book
      then Inl (Denied ''wrong buyer or book'')
      else if map_of claims (lit ''scope'') \<noteq> Some (PStr (lit ''content:read''))
        \<or> map_of claims (lit ''profile'') \<noteq> Some (PStr (lit ''local-http-v1''))
      then Inl (Denied ''wrong profile'')
      else Inr ())"

definition consumer_verify :: "jwt_lib \<Rightarrow> (ustr \<rightharpoonup> bytes) \<Rightarrow> pyval \<Rightarrow> ustr \<Rightarrow> pyval \<Rightarrow> (consumer, dict) eff" where
  "consumer_verify lib pins token buyer book =
     (case as_str token of
        Some t \<Rightarrow>
          if 1 \<le> length t \<and> length t \<le> 4096
          then ebind (cached_claims lib pins t) (\<lambda>claims.
               ebind (elift (check_scope claims buyer book)) (\<lambda>_. eret claims))
          else eraise (Denied ''invalid token'')
      | None \<Rightarrow> eraise (Denied ''invalid token''))"

section \<open>The cache changes no answer\<close>

text \<open>What the consumer answers with no memory at all.\<close>

definition stateless_verify :: "jwt_lib \<Rightarrow> (ustr \<rightharpoonup> bytes) \<Rightarrow> pyval \<Rightarrow> ustr \<Rightarrow> pyval \<Rightarrow> dict result" where
  "stateless_verify lib pins token buyer book =
     (case as_str token of
        Some t \<Rightarrow>
          if 1 \<le> length t \<and> length t \<le> 4096
          then bind_res (fresh_claims lib pins t) (\<lambda>claims.
               bind_res (check_scope claims buyer book) (\<lambda>_. Inr claims))
          else Inl (Denied ''invalid token'')
      | None \<Rightarrow> Inl (Denied ''invalid token''))"

definition cache_inv :: "jwt_lib \<Rightarrow> (ustr \<rightharpoonup> bytes) \<Rightarrow> consumer \<Rightarrow> bool" where
  "cache_inv lib pins s \<longleftrightarrow> length (cs_cache s) \<le> 4096
     \<and> (\<forall>t claims. map_of (cs_cache s) t = Some claims \<longrightarrow> fresh_claims lib pins t = Inr claims)"

lemma decode_pinned_Inr_iff:
  "decode_pinned lib pins t = Inr claims \<longleftrightarrow>
     (\<exists>header kid pub. jw_header lib t = Inr header \<and> header_kid header = Some kid \<and> pins kid = Some pub
        \<and> same_dict (PDict header) [(lit ''alg'', PStr (lit ''ES256'')), (lit ''kid'', PStr kid)]
        \<and> jw_decode lib pub t = Inr claims)"
proof (cases "jw_header lib t")
  case (Inr header)
  show ?thesis
  proof (cases "header_kid header")
    case (Some kid)
    then show ?thesis by (cases "pins kid") (simp_all add: decode_pinned_def Inr)
  qed (simp add: decode_pinned_def Inr)
qed (simp add: decode_pinned_def)

lemma fresh_claims_Inr_iff: "fresh_claims lib pins t = Inr claims \<longleftrightarrow> decode_pinned lib pins t = Inr claims"
  by (simp add: fresh_claims_def split: sum.split)

lemma fresh_claims_mono:
  "fresh_claims lib pins t = Inr claims \<Longrightarrow> pins \<subseteq>\<^sub>m pins' \<Longrightarrow> fresh_claims lib pins' t = Inr claims"
  unfolding fresh_claims_Inr_iff decode_pinned_Inr_iff by (blast intro: map_le_Some)

lemma cache_inv_mono: "cache_inv lib pins s \<Longrightarrow> pins \<subseteq>\<^sub>m pins' \<Longrightarrow> cache_inv lib pins' s"
  by (auto simp: cache_inv_def intro: fresh_claims_mono)

lemma cached_claims_post:
  assumes "cache_inv lib pins s"
  shows "post (cached_claims lib pins t)
    (\<lambda>claims s'. fresh_claims lib pins t = Inr claims \<and> cache_inv lib pins s')
    (\<lambda>e s'. fresh_claims lib pins t = Inl e \<and> cache_inv lib pins s') s"
proof (cases "map_of (cs_cache s) t")
  case None
  with assms show ?thesis
    by (auto simp: cached_claims_def post_simps cache_inv_def split: sum.split)
next
  case (Some claims)
  with assms show ?thesis by (simp add: cached_claims_def post_simps cache_inv_def)
qed

lemma consumer_verify_post:
  assumes "cache_inv lib pins s"
  shows "post (consumer_verify lib pins token buyer book)
    (\<lambda>claims s'. stateless_verify lib pins token buyer book = Inr claims \<and> cache_inv lib pins s')
    (\<lambda>e s'. stateless_verify lib pins token buyer book = Inl e \<and> cache_inv lib pins s') s"
proof (cases "\<exists>t. as_str token = Some t \<and> 1 \<le> length t \<and> length t \<le> 4096")
  case True
  then obtain t where t: "as_str token = Some t" "1 \<le> length t" "length t \<le> 4096" by blast
  then have spec: "stateless_verify lib pins token buyer book
      = bind_res (fresh_claims lib pins t) (\<lambda>claims. bind_res (check_scope claims buyer book) (\<lambda>_. Inr claims))"
    by (simp add: stateless_verify_def)
  show ?thesis
    unfolding spec consumer_verify_def t(1) using t(2,3)
    by (simp add: post_bind, intro post_mono [OF cached_claims_post [OF assms]])
      (simp_all add: post_bind post_basic split: sum.split)
next
  case False
  then show ?thesis
    by (auto simp: consumer_verify_def stateless_verify_def post_basic assms split: option.split)
qed

section \<open>The key store and the consumer together\<close>

lemma epoch_kid_inj: "epoch_kid a = epoch_kid b \<Longrightarrow> a = b"
  unfolding epoch_kid_def using digits_val_dec_nat by (metis same_append_eq)

text \<open>A CPU key store names a new key in every epoch, so its pins only grow.\<close>

definition epochs_inv :: "'n keys \<Rightarrow> bool" where
  "epochs_inv s \<longleftrightarrow> ky_gpu s = None \<and> (\<forall>kid \<in> dom (ky_pins s). \<exists>e \<le> ky_epoch s. kid = epoch_kid e)"

lemma rotate_grows:
  assumes "epochs_inv s"
  shows "epochs_inv (snd (rotate_key env s)) \<and> ky_pins s \<subseteq>\<^sub>m ky_pins (snd (rotate_key env s))"
proof -
  have new: "epoch_kid (Suc (ky_epoch s)) \<notin> dom (ky_pins s)"
  proof
    assume "epoch_kid (Suc (ky_epoch s)) \<in> dom (ky_pins s)"
    then obtain e where "e \<le> ky_epoch s" "epoch_kid (Suc (ky_epoch s)) = epoch_kid e"
      using assms unfolding epochs_inv_def by blast
    then show False using epoch_kid_inj by fastforce
  qed
  have s': "snd (rotate_key env s) = s\<lparr>ky_generated := Suc (ky_generated s), ky_epoch := Suc (ky_epoch s),
      ky_private := ke_private env (ky_generated s), ky_kid := epoch_kid (Suc (ky_epoch s)),
      ky_pins := (ky_pins s)(epoch_kid (Suc (ky_epoch s)) \<mapsto> ec_public (ke_ossl env) (ke_private env (ky_generated s)))\<rparr>"
    using assms
    by (simp add: rotate_key_def next_epoch_def ebind_def eget_def emod_def eret_def epochs_inv_def)
  show ?thesis
  proof (rule conjI)
    have "\<exists>e \<le> Suc (ky_epoch s). kid = epoch_kid e" if "kid \<in> dom (ky_pins s)" for kid
      using assms that unfolding epochs_inv_def by (meson le_SucI)
    with assms show "epochs_inv (snd (rotate_key env s))" unfolding s' by (auto simp: epochs_inv_def)
    show "ky_pins s \<subseteq>\<^sub>m ky_pins (snd (rotate_key env s))" unfolding s' using new by (auto simp: map_le_def)
  qed
qed

lemma key_step_grows:
  assumes "epochs_inv s"
  shows "epochs_inv (snd (key_step env op s)) \<and> ky_pins s \<subseteq>\<^sub>m ky_pins (snd (key_step env op s))"
proof (cases op)
  case KyRotate
  then show ?thesis using rotate_grows [OF assms] by (simp add: drop_result_state)
next
  case (KySign claims)
  have "ky_gpu s = None" using assms by (simp add: epochs_inv_def)
  then show ?thesis
    using assms
    by (simp add: KySign drop_result_state sign_claims_def Let_def after_callback_def epochs_inv_def split: sum.split)
next
  case KyClose
  then show ?thesis
    using assms by (simp add: keys_close_def ebind_def emod_def eget_def eret_def epochs_inv_def)
qed

datatype pin_op = PinKeys key_op | PinVerify pyval ustr pyval

fun pin_step :: "'n keys_env \<Rightarrow> jwt_lib \<Rightarrow> 'n keys \<times> consumer \<Rightarrow> pin_op \<Rightarrow> 'n keys \<times> consumer" where
  "pin_step env lib (k, c) (PinKeys op) = (snd (key_step env op k), c)"
| "pin_step env lib (k, c) (PinVerify token buyer book) =
     (k, snd (consumer_verify lib (ky_pins k) token buyer book c))"

definition pin_run :: "'n keys_env \<Rightarrow> jwt_lib \<Rightarrow> pin_op list \<Rightarrow> 'n keys \<times> consumer \<Rightarrow> 'n keys \<times> consumer" where
  "pin_run env lib ops s = foldl (pin_step env lib) s ops"

lemma pin_run_inv:
  "epochs_inv k \<Longrightarrow> cache_inv lib (ky_pins k) c \<Longrightarrow> pin_run env lib ops (k, c) = (k', c')
    \<Longrightarrow> cache_inv lib (ky_pins k') c'"
proof (induction ops arbitrary: k c)
  case (Cons op ops)
  show ?case
  proof (cases op)
    case (PinKeys kop)
    then show ?thesis
      using Cons.prems key_step_grows [OF Cons.prems(1), of env kop]
      by (intro Cons.IH [of "snd (key_step env kop k)" c]) (auto simp: pin_run_def intro: cache_inv_mono)
  next
    case (PinVerify token buyer book)
    have "post (consumer_verify lib (ky_pins k) token buyer book) (\<lambda>_. cache_inv lib (ky_pins k))
        (\<lambda>_. cache_inv lib (ky_pins k)) c"
      by (rule post_mono [OF consumer_verify_post [OF Cons.prems(2)]]) simp_all
    then show ?thesis
      using Cons.prems PinVerify
      by (intro Cons.IH [of k "snd (consumer_verify lib (ky_pins k) token buyer book c)"])
        (simp_all add: pin_run_def post_snd)
  qed
qed (simp add: pin_run_def)

lemma keys_init_epochs:
  fixes env :: "'n keys_env"
  assumes "keys_init env (PStr (lit ''cpu'')) workers device n no_keys = (Inr (), k)"
  shows "epochs_inv k"
proof -
  have "epochs_inv (no_keys :: 'n keys)" by (simp add: epochs_inv_def no_keys_def)
  moreover have "k = snd (rotate_key env no_keys)"
    using assms
    by (auto simp: keys_init_def ebind_def eguard_def eret_def lit_def split: if_splits prod.splits sum.splits)
  ultimately show ?thesis using rotate_grows by blast
qed


definition demo_jwt :: jwt_lib where
  "demo_jwt = \<lparr>jw_header = (\<lambda>t. Inr [(lit ''alg'', PStr (lit ''ES256'')), (lit ''kid'', PStr (epoch_kid 1))]),
     jw_decode = (\<lambda>pub t. if pub = ec_public demo_ossl 1 then Inr [(lit ''sub'', PStr (lit ''buyer'')),
       (lit ''jti'', PStr t), (lit ''scope'', PStr (lit ''content:read'')), (lit ''profile'', PStr (lit ''local-http-v1''))]
       else Inl (JwtError ''signature''))\<rparr>"

lemma demo_fresh:
  "pins (epoch_kid 1) = Some (ec_public demo_ossl 1) \<Longrightarrow>
    fresh_claims demo_jwt pins t = Inr [(lit ''sub'', PStr (lit ''buyer'')), (lit ''jti'', PStr t),
      (lit ''scope'', PStr (lit ''content:read'')), (lit ''profile'', PStr (lit ''local-http-v1''))]"
  unfolding fresh_claims_Inr_iff decode_pinned_Inr_iff
  by (simp add: demo_jwt_def header_kid_def lit_def same_dict_def)

lemma demo_consumer:
  "pins (epoch_kid 1) = Some (ec_public demo_ossl 1) \<Longrightarrow>
    cs_verifications (snd (consumer_verify demo_jwt pins (PStr (lit ''b'')) (lit ''buyer'') (PStr (lit ''b'')) no_tokens)) = 1"
  by (simp add: consumer_verify_def cached_claims_def no_tokens_def ebind_def elift_def eget_def emod_def eret_def
      demo_fresh lit_def check_scope_def)


end
