(* ===== verification/Fixture.thy ===== *)
theory Fixture
  imports LedgerRuns Consumer
begin

text \<open>
  The \<open>Fixture\<close> of \<open>examples/http_access/service.py\<close> as far as the ledger is concerned: its catalogue of
  synthetic documents, and the key store of \<open>Signing\<close> that signs for the ledger of \<open>LedgerBook\<close>. They
  keep the contract \<open>ledger_laws\<close>, so the ledger is a service over histories in which the owner also
  rotates and closes the keys.
\<close>

section \<open>The catalogue\<close>

text \<open>\<open>digest\<close> of the texts of the catalogue, which are ASCII.\<close>

definition text_digest :: "ustr \<Rightarrow> ustr" where
  "text_digest s = sha256_hex (ascii_encode s)"

definition fixture_data :: "(ustr \<times> ustr) list" where
  "fixture_data = map (\<lambda>i. (lit ''r'' @ dec_nat i,
     concat (replicate 40 (lit ''Synthetic licensed document '' @ dec_nat i @ lit ''. '')))) [0..<32]"

definition fixture_catalog :: "(ustr \<times> lg_offer) list" where
  "fixture_catalog = map (\<lambda>(r, body). (r, \<lparr>lo_content = text_digest body,
     lo_terms = text_digest (lit ''local simulated terms v1''), lo_units = 1000\<rparr>)) fixture_data"

definition fixture_env :: "'n keys_env \<Rightarrow> (nat \<Rightarrow> int) \<Rightarrow> (nat \<Rightarrow> ustr) \<Rightarrow> 'n keys ledger_env" where
  "fixture_env kenv clock random = \<lparr>le_catalog = fixture_catalog, le_clock = clock, le_random = random,
     le_sign = sign_claims kenv\<rparr>"

lemma fixture_body:
  assumes "i < 32"
  shows "map_of fixture_data (lit ''r'' @ dec_nat i)
    = Some (concat (replicate 40 (lit ''Synthetic licensed document '' @ dec_nat i @ lit ''. '')))"
proof -
  have "inj_on (\<lambda>i. lit ''r'' @ dec_nat i) {0..<32}"
    by (rule inj_onI) (metis digits_val_dec_nat same_append_eq)
  with assms show ?thesis
    unfolding fixture_data_def by (intro map_of_is_SomeI) (auto simp: distinct_map o_def)
qed

lemma catalog_content:
  "map_of fixture_catalog r = map_option (\<lambda>body. \<lparr>lo_content = text_digest body,
     lo_terms = text_digest (lit ''local simulated terms v1''), lo_units = 1000\<rparr>) (map_of fixture_data r)"
  by (simp add: fixture_catalog_def map_of_map)

lemma fixture_priced: "priced fixture_catalog"
  by (auto simp: priced_def fixture_catalog_def)

lemma sign_claims_length:
  assumes "fst (sign_claims kenv claims k) = Inr (kid, tokens)"
  shows "length tokens = length claims"
proof -
  from assms have "sign_es256 (Items (map PBytes (map claim_payload claims))) (PStr (ky_kid k)) (keys_signer kenv k) = Inr tokens"
    by (simp add: sign_claims_def Let_def split: sum.splits)
  then show ?thesis unfolding sign_es256_Inr_iff by auto
qed

interpretation desk: ledger_laws "fixture_env kenv clock random"
  for kenv :: "'n keys_env" and clock random
  by unfold_locales (auto simp: fixture_env_def fixture_priced intro: sign_claims_length)

section \<open>Histories\<close>

text \<open>The owner's operations on the keys change no table.\<close>

datatype fixture_op = FxLedger lg_op | FxKeys key_op

fun fixture_step ::
    "'n keys_env \<Rightarrow> (nat \<Rightarrow> int) \<Rightarrow> (nat \<Rightarrow> ustr) \<Rightarrow> fixture_op \<Rightarrow> ('n keys, pyval) lg_act" where
  "fixture_step kenv clock random (FxLedger op) s = lg_step (fixture_env kenv clock random) op s"
| "fixture_step kenv clock random (FxKeys op) s =
     (case key_step kenv op (lg_keys s) of (r, k) \<Rightarrow> (bind_res r (\<lambda>_. Inr PNone), s\<lparr>lg_keys := k\<rparr>))"

interpretation fixture: service "fixture_step kenv clock random" lg_inv
  for kenv :: "'n keys_env" and clock random
proof unfold_locales
  fix s :: "'n keys ledger_conn" and op e s'
  show "fixture_step kenv clock random op s = (Inl e, s') \<Longrightarrow> cn_db s' = cn_db s"
    by (cases op) (auto intro: desk.ledger.step_rollback split: prod.splits)
  show "lg_inv (cn_db s) \<Longrightarrow> lg_inv (cn_db (snd (fixture_step kenv clock random op s)))"
    by (cases op) (auto intro: desk.ledger.step_inv split: prod.splits)
qed

abbreviation fixture_run ::
    "'n keys_env \<Rightarrow> (nat \<Rightarrow> int) \<Rightarrow> (nat \<Rightarrow> ustr) \<Rightarrow> fixture_op list \<Rightarrow> 'n keys \<Rightarrow> 'n keys ledger_conn" where
  "fixture_run kenv clock random ops k \<equiv> run_ops (fixture_step kenv clock random) ops (init_ledger k)"

lemma fixture_inv: "lg_inv (cn_db (fixture_run kenv clock random ops k))"
  by (rule fixture.run_inv) (simp add: init_ledger_def empty_ledger_inv)

text \<open>Rows of receipts, issues and cancellations are never lost or changed.\<close>

definition rows_kept :: "ledger_db \<Rightarrow> ledger_db \<Rightarrow> bool" where
  "rows_kept d d' \<longleftrightarrow> set (lg_receipts d) \<subseteq> set (lg_receipts d') \<and> set (lg_issues d) \<subseteq> set (lg_issues d')
     \<and> set (lg_cancellations d) \<subseteq> set (lg_cancellations d') \<and> set (lg_revoked d) \<subseteq> set (lg_revoked d')"

lemma ledger_step_kept: "ledger_step d d' \<Longrightarrow> rows_kept d d'"
  by (induction rule: ledger_step.induct)
    (auto simp: rows_kept_def lg_batch_effect_def lg_pay_effect_def lg_cancel_effect_def Let_def lg_db_issue_def lg_db_pay_def lg_db_close_def)

lemma fixture_kept:
  assumes "lg_inv (cn_db s)"
  shows "rows_kept (cn_db s) (cn_db (run_ops (fixture_step kenv clock random) ops s))"
proof (rule fixture.run_relation [OF assms])
  fix op and s :: "'a keys ledger_conn" and r s'
  assume inv: "lg_inv (cn_db s)" and st: "fixture_step kenv clock random op s = (Inr r, s')"
  show "rows_kept (cn_db s) (cn_db s')"
  proof (cases op)
    case (FxLedger lop)
    with wp_Inr [OF desk.step_spec [OF inv]] st have "cn_db s' = cn_db s \<or> ledger_step (cn_db s) (cn_db s')" by auto
    then show ?thesis by (auto simp: rows_kept_def dest: ledger_step_kept [unfolded rows_kept_def])
  next
    case (FxKeys kop)
    with st show ?thesis by (auto simp: rows_kept_def split: prod.splits)
  qed
qed (auto simp: rows_kept_def)

end
