(* ===== verification/LedgerClaims.thy ===== *)
theory LedgerClaims
  imports Fixture AccessProgress
begin

text \<open>
  The properties of the ledger of \<open>LedgerBook\<close> over all histories of calls from an empty database, with
  the catalogue and the keys of \<open>Fixture\<close>: conservation, atomicity, admission, the audit and retries.
\<close>

section \<open>Refinement\<close>

text \<open>
  C5. Every call of the ledger, with arguments of any type and after any history of calls, rotations and
  closings of the keys, either returns, having made one of the changes of \<open>ledger_step\<close> (fund an
  account, issue a paid batch of books, pay one item, close the books of one buyer, bar a key) or none, or
  raises and leaves every table as it was.
\<close>

theorem ledger_calls_refine_steps:
  "case lg_step (fixture_env kenv clock random) op (fixture_run kenv clock random ops k) of
     (Inr v, s') \<Rightarrow> cn_db s' = cn_db (fixture_run kenv clock random ops k)
        \<or> ledger_step (cn_db (fixture_run kenv clock random ops k)) (cn_db s')
   | (Inl e, s') \<Rightarrow> cn_db s' = cn_db (fixture_run kenv clock random ops k)"
  using desk.step_spec [OF fixture_inv, of kenv clock random op kenv clock random ops k] by (simp add: wp_def)

section \<open>Conservation\<close>

lemma ledger_conserves:
  assumes inv: "lg_inv d"
  shows "sum_list (map la_initial (lg_accounts d)) = sum_list (map la_available (lg_accounts d))
    + sum_list (map lb_remaining (lg_books d)) + lg_accrued d"
    and "sum_list (map la_spent (lg_accounts d)) = lg_accrued d"
proof -
  note P = lg_inv_parts [OF inv]
  let ?books = "\<lambda>a. sum_where (\<lambda>b. lb_buyer b = la_buyer a) lb_remaining (lg_books d)"
  let ?receipts = "\<lambda>a. sum_where (\<lambda>r. lr_buyer r = la_buyer a) lc_units (lg_receipts d)"
  have a: "la_initial a = la_available a + ?books a + ?receipts a" "la_spent a = ?receipts a"
    if "a \<in> set (lg_accounts d)" for a
    using lg_moneyD(2) [OF inv that] by (simp_all add: lg_account_conserved_def Let_def)
  have dis: "distinct (map la_buyer (lg_accounts d))" using P(1) by (simp add: lg_accounts_inv_def)
  have books: "(\<Sum>a\<leftarrow>lg_accounts d. ?books a) = sum_list (map lb_remaining (lg_books d))"
    using sum_where_partition [OF dis lg_book_buyer [OF inv], of "lg_books d" id lb_remaining] by (simp add: o_def)
  have receipts: "(\<Sum>a\<leftarrow>lg_accounts d. ?receipts a) = lg_accrued d"
    using sum_where_partition [OF dis lg_receipt_buyer [OF inv], of "lg_receipts d" id lc_units]
    by (simp add: o_def lg_moneyD(3) [OF inv])
  have "sum_list (map la_initial (lg_accounts d)) = (\<Sum>a\<leftarrow>lg_accounts d. la_available a + ?books a + ?receipts a)"
    by (rule arg_cong [where f = sum_list]) (simp add: a)
  then show "sum_list (map la_initial (lg_accounts d)) = sum_list (map la_available (lg_accounts d))
    + sum_list (map lb_remaining (lg_books d)) + lg_accrued d"
    by (simp add: sum_list_addf books receipts)
  have "map la_spent (lg_accounts d) = map ?receipts (lg_accounts d)" by (rule map_cong) (simp_all add: a(2))
  then show "sum_list (map la_spent (lg_accounts d)) = lg_accrued d" using receipts by metis
qed

text \<open>
  C2. After any history the units ever funded are those available to buyers, reserved in books and
  accrued by the publisher; no balance is negative; an open book holds exactly the units of its unspent
  items and a closed one nothing; and no request, and no item of a book, was ever paid twice.
\<close>

theorem ledger_units_conserved:
  "let d = cn_db (fixture_run kenv clock random ops k) in
     sum_list (map la_initial (lg_accounts d)) = sum_list (map la_available (lg_accounts d))
       + sum_list (map lb_remaining (lg_books d)) + lg_accrued d
     \<and> list_all lg_account_ok (lg_accounts d) \<and> list_all (lg_backed d) (lg_books d)
     \<and> distinct (map lr_key (lg_receipts d)) \<and> distinct (filter (\<lambda>key. key \<noteq> None) (map lc_key (lg_receipts d)))"
  using ledger_conserves(1) [OF fixture_inv [of kenv clock random ops k]] lg_inv_parts [OF fixture_inv [of kenv clock random ops k]]
  by (simp add: Let_def lg_accounts_inv_def lg_money_inv_def lg_receipts_inv_def list_all_iff)

text \<open>
  The audit of the ledger never raises: after any history it returns its report, with the accounts in
  the order of their buyers, and leaves the ledger as it was.
\<close>

theorem ledger_audit_never_fails:
  "\<exists>report. lg_audit (fixture_run kenv clock random ops k) = (Inr report, fixture_run kenv clock random ops k)
     \<and> lg_audit_report (cn_db (fixture_run kenv clock random ops k)) = Inr report"
proof -
  let ?s = "fixture_run kenv clock random ops k"
  obtain report where "lg_audit_report (cn_db ?s) = Inr report"
    using lg_moneyD(2,3) [OF fixture_inv [of kenv clock random ops k]] ledger_conserves(2) [OF fixture_inv [of kenv clock random ops k]]
    by (simp add: lg_audit_report_def)
  then show ?thesis
    by (simp add: lg_audit_def transaction_def bind_act_def query_def lift_res_def)
qed

section \<open>Well-formed tables\<close>

text \<open>
  C35. The tables stay well formed without foreign keys being needed: after any history every primary key is
  unique; every book and receipt belongs to an account, every item to a book; a receipt that names a book
  names one of the same buyer and an item of that book at its own price; and no price is negative.
\<close>

theorem ledger_well_formed:
  "let d = cn_db (fixture_run kenv clock random ops k) in
     distinct (map la_buyer (lg_accounts d)) \<and> distinct (map lb_id (lg_books d)) \<and> distinct (map li_key (lg_items d))
     \<and> distinct (map lr_key (lg_receipts d)) \<and> distinct (map lr_key (lg_issues d)) \<and> distinct (map lr_key (lg_cancellations d))
     \<and> list_all (\<lambda>b. lb_buyer b \<in> set (map la_buyer (lg_accounts d))) (lg_books d)
     \<and> list_all (\<lambda>i. 0 \<le> li_units i \<and> li_book i \<in> set (map lb_id (lg_books d))) (lg_items d)
     \<and> list_all (\<lambda>r. lr_buyer r \<in> set (map la_buyer (lg_accounts d)) \<and> 0 \<le> lc_units r
          \<and> (case lc_book r of None \<Rightarrow> True | Some bid \<Rightarrow>
              (bid, lr_buyer r) \<in> set (map (\<lambda>b. (lb_id b, lb_buyer b)) (lg_books d))
              \<and> ((bid, lc_resource r), lc_units r) \<in> set (map (\<lambda>i. (li_key i, li_units i)) (lg_items d)))) (lg_receipts d)"
proof -
  let ?d = "cn_db (fixture_run kenv clock random ops k)"
  note P = lg_inv_parts [OF fixture_inv [of kenv clock random ops k]]
  have r: "lg_receipt_ok ?d r" if "r \<in> set (lg_receipts ?d)" for r
    using P(4) that by (simp add: lg_receipts_inv_def)
  have "list_all (\<lambda>r. lr_buyer r \<in> set (map la_buyer (lg_accounts ?d)) \<and> 0 \<le> lc_units r
      \<and> (case lc_book r of None \<Rightarrow> True | Some bid \<Rightarrow>
          (bid, lr_buyer r) \<in> set (map (\<lambda>b. (lb_id b, lb_buyer b)) (lg_books ?d))
          \<and> ((bid, lc_resource r), lc_units r) \<in> set (map (\<lambda>i. (li_key i, li_units i)) (lg_items ?d)))) (lg_receipts ?d)"
    unfolding list_all_iff using r by (simp add: lg_receipt_ok_def del: set_map split: option.split)
  with P show ?thesis
    by (simp add: Let_def lg_accounts_inv_def lg_books_inv_def lg_items_inv_def lg_receipts_inv_def list_all_iff del: set_map)
qed

section \<open>Admission\<close>

text \<open>
  C6. What a purchase does. A call of \<open>spend\<close> that returns found the receipt of its own earlier request
  with the same fingerprint and changed nothing, or it was admitted: the price fits the caller's limit; a book
  that pays is the buyer's, carries the presented token, is open and unexpired, its key is not revoked, and it
  holds that resource with the catalogue's content, terms and price, not yet paid; without a book the
  available balance covers the price. Then exactly the price moves to the publisher under a new receipt.
\<close>

theorem ledger_spend_admission:
  "case lg_spend (fixture_env kenv clock random) b i r c t m bk tok (fixture_run kenv clock random ops k) of
     (Inl e, s') \<Rightarrow> cn_db s' = cn_db (fixture_run kenv clock random ops k)
   | (Inr v, s') \<Rightarrow> \<exists>q. lg_spend_args fixture_catalog b i r c t m bk tok = Inr q
       \<and> (let d = cn_db (fixture_run kenv clock random ops k) in
          cn_db s' = d \<and> prior_row (lg_receipts d) (sq_buyer q) (sq_request q) (sq_fp q) v
          \<or> (\<exists>rid at. v = lg_receipt_value q rid at \<and> lg_admits q (clock (cn_ticks (fixture_run kenv clock random ops k))) d
               \<and> cn_db s' = lg_db_pay (lg_new_receipt q v) d))"
proof -
  let ?s = "fixture_run kenv clock random ops k"
  obtain x s' where run: "lg_spend (fixture_env kenv clock random) b i r c t m bk tok ?s = (x, s')" by fastforce
  show ?thesis
  proof (cases x)
    case (Inl e)
    then show ?thesis
      using run desk.ledger.step_rollback [of kenv clock random "LSpend b i r c t m bk tok" ?s e s'] by simp
  next
    case (Inr v)
    with run wp_Inr [OF desk.spend_spec [OF fixture_inv]] show ?thesis
      by (fastforce simp: Let_def lg_pay_effect_def fixture_env_def)
  qed
qed

section \<open>Retries\<close>

text \<open>A stored row answers the same request, and the call changes nothing.\<close>

lemma run_prior:
  assumes dis: "distinct (map lr_key (table (cn_db s)))" and row: "prior_row (table (cn_db s)) u i fp v"
  shows "lg_prior table u i fp s = (Inr v, s)"
proof (rule wp_result)
  from row obtain r where r: "r \<in> set (table (cn_db s))" "lr_key r = (u, i)" "lr_fingerprint r = fp"
    "loads (lr_response r) = Some v" by (auto simp: prior_row_def lr_key_def)
  have "find (\<lambda>r. lr_key r = (u, i)) (table (cn_db s)) = Some r"
    using dis r(1,2) by (intro find_by_key [of lr_key]) auto
  then have "find (\<lambda>r. lr_buyer r = u \<and> lr_request_id r = i) (table (cn_db s)) = Some r"
    by (simp add: lr_key_def)
  with r(3,4) show "wp (lg_prior table u i fp) (\<lambda>w s'. w = v \<and> s' = s) (\<lambda>_ _. False) s"
    by (simp add: lg_prior_def run_simps stored_json_def)
qed

lemma replay_tx:
  assumes "distinct (map lr_key (table (cn_db s)))" and "prior_row (table (cn_db s)) u i fp v"
  shows "transaction (bind_act (lg_prior table u i fp) (\<lambda>prior. if prior \<noteq> PNone then ret prior else m)) s = (Inr v, s)"
    and "transaction (lg_prior table u i fp) s = (Inr v, s)"
proof -
  have "v \<noteq> PNone" using assms(2) by (simp add: prior_row_def)
  moreover have "lg_prior table u i fp (s\<lparr>cn_saved := cn_db s # cn_saved s\<rparr>) = (Inr v, s\<lparr>cn_saved := cn_db s # cn_saved s\<rparr>)"
    by (rule run_prior) (use assms in simp_all)
  ultimately show "transaction (bind_act (lg_prior table u i fp) (\<lambda>prior. if prior \<noteq> PNone then ret prior else m)) s = (Inr v, s)"
    and "transaction (lg_prior table u i fp) s = (Inr v, s)"
    by (simp_all add: transaction_def bind_act_def ret_def)
qed

text \<open>The table a call with a request identifier remembers its answer in, and under which key.\<close>

fun request_row :: "'k ledger_env \<Rightarrow> lg_op \<Rightarrow> ledger_db \<Rightarrow> pyval \<Rightarrow> bool" where
  "request_row env (LIssue b i bs m t) d v \<longleftrightarrow> (\<exists>q. lg_issue_args (le_catalog env) b i bs m t = Inr q
     \<and> prior_row (lg_issues d) (ri_buyer q) (ri_request q) (ri_fp q) v)"
| "request_row env (LSpend b i r c t m bk tok) d v \<longleftrightarrow> (\<exists>q. lg_spend_args (le_catalog env) b i r c t m bk tok = Inr q
     \<and> prior_row (lg_receipts d) (sq_buyer q) (sq_request q) (sq_fp q) v)"
| "request_row env (LCancelMany b i xs) d v \<longleftrightarrow> (\<exists>u j ids. lg_cancel_args b i xs = Inr (u, j, ids)
     \<and> prior_row (lg_cancellations d) u j (lg_digest (PList (map PStr ids))) v)"
| "request_row env _ d v \<longleftrightarrow> False"

lemma request_replay:
  assumes inv: "lg_inv (cn_db s)" and row: "request_row env op (cn_db s) v"
  shows "lg_step env op s = (Inr v, s)"
proof (cases op)
  case (LIssue b i bs m t)
  with row obtain q where q: "lg_issue_args (le_catalog env) b i bs m t = Inr q"
    "prior_row (lg_issues (cn_db s)) (ri_buyer q) (ri_request q) (ri_fp q) v" by auto
  moreover have "v \<noteq> PNone" using q(2) by (simp add: prior_row_def)
  ultimately show ?thesis
    using replay_tx(2) [of lg_issues s, OF lg_inv_parts(6) [OF inv] q(2)]
    by (simp add: LIssue lg_issue_def bind_act_def lift_res_def ret_def)
next
  case (LSpend b i r c t m bk tok)
  with row obtain q where q: "lg_spend_args (le_catalog env) b i r c t m bk tok = Inr q"
    "prior_row (lg_receipts (cn_db s)) (sq_buyer q) (sq_request q) (sq_fp q) v" by auto
  have "distinct (map lr_key (lg_receipts (cn_db s)))"
    using lg_inv_parts(4) [OF inv] by (simp add: lg_receipts_inv_def)
  from replay_tx(1) [of lg_receipts s, OF this q(2)] show ?thesis
    by (simp add: LSpend lg_spend_def bind_act_def [of "lift_res r" for r] lift_res_def q(1) lg_spend_tx_def)
next
  case (LCancelMany b i xs)
  with row obtain u j ids where q: "lg_cancel_args b i xs = Inr (u, j, ids)"
    "prior_row (lg_cancellations (cn_db s)) u j (lg_digest (PList (map PStr ids))) v" by auto
  from replay_tx(1) [of lg_cancellations s, OF lg_inv_parts(7) [OF inv] q(2)] show ?thesis
    by (simp add: LCancelMany lg_cancel_many_def bind_act_def [of "lift_res r" for r] lift_res_def q(1) lg_cancel_many_tx_def Let_def)
qed (use row in simp_all)

lemma prior_row_mono: "prior_row rows u i fp v \<Longrightarrow> set rows \<subseteq> set rows' \<Longrightarrow> prior_row rows' u i fp v"
  by (auto simp: prior_row_def)

lemma request_row_kept: "rows_kept d d' \<Longrightarrow> request_row env op d v \<Longrightarrow> request_row env op d' v"
  by (cases op) (auto simp: rows_kept_def intro: prior_row_mono)

text \<open>What the ledger answers is JSON, so it is read back as it was written, up to the order of keys.\<close>

lemma plain_digest: "plain (text_digest s)"
  using plain_hex by (simp add: text_digest_def sha256_hex_def)

lemma plain_name: "is_name s \<Longrightarrow> plain s"
  by (auto simp: is_name_def lg_char_def plain_def)

lemma fixture_offer_plain: "lg_offer_of fixture_catalog r = Inr x \<Longrightarrow> plain (lo_content x) \<and> plain (lo_terms x)"
  by (auto simp: lg_offer_of_def catalog_content plain_digest bind_res_Inr_iff split: option.splits)

lemma scalar_lit: "c \<in> set (lit s) \<Longrightarrow> scalar c"
proof -
  assume "c \<in> set (lit s)"
  then obtain x where "c = of_char x" by (auto simp: lit_def)
  then have "c < 256" by (cases x) (simp add: of_char_def horner_sum_simps split: if_splits)
  then show ?thesis by (simp add: scalar_def)
qed

lemma plain_scalar: "plain s \<Longrightarrow> c \<in> set s \<Longrightarrow> scalar c"
  by (auto simp: plain_def scalar_def)

lemma json_ok_spent:
  assumes "lg_spend_args fixture_catalog b i r c t m bk tok = Inr q" and "plain rid"
  shows "json_ok (lg_receipt_value q rid at)"
proof -
  from assms(1) have "plain (sq_buyer q)" "plain (sq_resource q)" "\<And>x. sq_book q = Some x \<Longrightarrow> plain x"
    and "lg_offer_of fixture_catalog r = Inr (sq_offer q)"
    by (auto simp: lg_spend_args_def bind_res_Inr_iff check_name_Inr_iff lg_book_arg_def plain_name split: if_splits)
  with fixture_offer_plain show ?thesis
    using assms(2) by (auto simp: lg_receipt_value_def scalar_lit dest: plain_scalar split: option.split)
qed

lemma map_check_name: "map_res check_name vs = Inr names \<Longrightarrow> \<forall>x \<in> set (sort names). is_name x"
  by (fastforce simp: map_res_Inr_iff list_all2_conv_all_nth check_name_Inr_iff in_set_conv_nth)

lemma json_ok_manifest:
  assumes "lg_groups fixture_catalog n gs = Inr ms" and "m \<in> set ms"
  shows "json_ok (manifest_value m)"
  using assms
proof (induction gs arbitrary: n ms)
  case (Cons g gs)
  from Cons.prems(1) obtain k rs names0 m0 ms' where rs: "map_res check_name rs = Inr names0"
    and m0: "map_res (\<lambda>r. bind_res (lg_offer_of fixture_catalog (PStr r)) (\<lambda>x. Inr (r, x))) (sort names0) = Inr m0"
    and ms': "lg_groups fixture_catalog k gs = Inr ms'" and ms: "ms = m0 # ms'"
    by (auto split: option.splits if_splits)
  note names = map_check_name [OF rs]
  have "plain r \<and> plain (lo_content x) \<and> plain (lo_terms x)" if p: "(r, x) \<in> set m0" for r x
  proof -
    from m0 p obtain r0 where r0: "r0 \<in> set (sort names0)"
      "bind_res (lg_offer_of fixture_catalog (PStr r0)) (\<lambda>x. Inr (r0, x)) = Inr (r, x)"
      unfolding map_res_Inr_iff list_all2_conv_all_nth in_set_conv_nth by metis
    then have "r0 = r" "lg_offer_of fixture_catalog (PStr r) = Inr x" by auto
    with fixture_offer_plain names r0(1) plain_name show ?thesis by blast
  qed
  then have "json_ok (manifest_value m0)"
    by (fastforce simp: manifest_value_def scalar_lit dest: plain_scalar)
  with Cons ms' show ?case by (auto simp: ms)
qed simp

lemma json_ok_response:
  assumes "lg_issue_args fixture_catalog b i bs m t = Inr q"
    and "set (map (snd o snd) xs) \<subseteq> set (ri_manifests q)"
    and "\<forall>x \<in> set xs. json_ok (PStr (fst x)) \<and> json_ok (PStr (fst (snd x)))"
  shows "json_ok (lg_response xs)"
proof -
  obtain gs where "lg_groups fixture_catalog 0 gs = Inr (ri_manifests q)"
    using issue_args_groups [OF assms(1)] by blast
  then have "json_ok (manifest_value (snd (snd x)))" if "x \<in> set xs" for x
    using json_ok_manifest assms(2) that by fastforce
  with assms(3) show ?thesis by (fastforce simp: lg_response_def scalar_lit)
qed

lemma prior_row_new:
  assumes "r \<in> set rows" and "lr_buyer r = u" and "lr_request_id r = i" and "lr_fingerprint r = fp"
    and "lr_response r = dumps_sorted v" and "json_ok v" and "v \<noteq> PNone"
  shows "prior_row rows u i fp (sort_keys v)"
  using assms loads_dumps [OF assms(6)] by (cases v) (auto simp: prior_row_def)

lemma tokens_json:
  assumes "fst (sign_claims kenv claims k) = Inr (kid, tokens)" and "x \<in> set tokens"
  shows "json_ok (PStr x)"
proof -
  from assms(1) have "sign_es256 (Items (map PBytes (map claim_payload claims))) (PStr (ky_kid k)) (keys_signer kenv k) = Inr tokens"
    by (simp add: sign_claims_def Let_def split: sum.splits)
  then obtain gs where "tokens = map2 (compact_token (ky_kid k)) (map claim_payload claims) gs"
    unfolding sign_es256_Inr_iff by auto
  then obtain p g where "x = compact_token (ky_kid k) p g" using assms(2) by auto
  then have "isascii x" by simp
  then show ?thesis by (fastforce simp: isascii_def scalar_def)
qed

text \<open>The calls that carry a request identifier.\<close>

fun retryable :: "lg_op \<Rightarrow> bool" where
  "retryable (LIssue b i bs m t) = True"
| "retryable (LSpend b i r c t m bk tok) = True"
| "retryable (LCancelMany b i xs) = True"
| "retryable _ = False"

lemma issue_stored:
  assumes ids: "\<forall>n. plain (random n)" and args: "lg_issue_args fixture_catalog b i bs m t = Inr q"
    and signed: "batch_signed (fixture_env kenv clock random) k q time kid xs" and eff: "lg_batch_effect q time kid xs d d'"
  shows "prior_row (lg_issues d') (ri_buyer q) (ri_request q) (ri_fp q) (sort_keys (lg_response xs))"
proof (rule prior_row_new)
  show "lg_issue_row q xs \<in> set (lg_issues d')"
    using eff by (simp add: lg_batch_effect_def lg_db_issue_def Let_def)
  have "json_ok (PStr (fst x)) \<and> json_ok (PStr (fst (snd x)))" if x: "x \<in> set xs" for x
  proof -
    from signed x obtain n where "fst x = random n" by (auto simp: batch_signed_def fixture_env_def)
    then have "json_ok (PStr (fst x))" using ids by (simp add: json_ok_plain del: json_ok.simps)
    moreover have "fst (snd x) \<in> set (map (fst o snd) xs)" using x by auto
    with signed have "json_ok (PStr (fst (snd x)))"
      unfolding batch_signed_def fixture_env_def by (auto intro: tokens_json simp del: json_ok.simps set_map)
    ultimately show ?thesis ..
  qed
  moreover have "set (map (snd o snd) xs) \<subseteq> set (ri_manifests q)"
    using eff by (simp add: lg_batch_effect_def del: set_map)
  ultimately show "json_ok (lg_response xs)"
    by (intro json_ok_response [OF args] ballI)
qed (simp_all add: lg_issue_row_def lg_response_def)

lemma spend_stored:
  assumes ids: "\<forall>n. plain (random n)" and args: "lg_spend_args fixture_catalog b i r c t m bk tok = Inr q"
    and rid: "rid \<in> range random" and eff: "lg_pay_effect q rid time at d d'"
  shows "prior_row (lg_receipts d') (sq_buyer q) (sq_request q) (sq_fp q) (sort_keys (lg_receipt_value q rid at))"
proof (rule prior_row_new)
  show "lg_new_receipt q (lg_receipt_value q rid at) \<in> set (lg_receipts d')"
    using eff by (simp add: lg_pay_effect_def Let_def lg_db_pay_def)
  show "json_ok (lg_receipt_value q rid at)"
    using json_ok_spent [OF args] ids rid by blast
qed (simp_all add: lg_new_receipt_def lg_receipt_value_def)

lemma cancel_stored:
  assumes "lg_cancel_effect u j ids n d d'"
  shows "prior_row (lg_cancellations d') u j (lg_digest (PList (map PStr ids))) (sort_keys (cancelled_value n (length ids)))"
proof (rule prior_row_new)
  show "lg_cancel_row u j ids n \<in> set (lg_cancellations d')"
    using assms by (simp add: lg_cancel_effect_def)
qed (simp_all add: lg_cancel_row_def cancelled_value_def scalar_lit)

lemma request_stored:
  assumes ids: "\<forall>n. plain (random n)" and inv: "lg_inv (cn_db s)" and op: "retryable op"
    and run: "lg_step (fixture_env kenv clock random) op s = (Inr v, s1)"
  shows "\<exists>w. (w = v \<or> w = sort_keys v) \<and> request_row (fixture_env kenv clock random) op (cn_db s1) w"
proof -
  let ?env = "fixture_env kenv clock random"
  have cat: "le_catalog ?env = fixture_catalog" "le_random ?env = random" by (simp_all add: fixture_env_def)
  show ?thesis
  proof (cases op)
    case (LIssue b i bs m t)
    with run have "lg_issue ?env b i bs m t s = (Inr v, s1)" by simp
    from wp_Inr [OF desk.issuing_spec this, unfolded cat] obtain q where args: "lg_issue_args fixture_catalog b i bs m t = Inr q"
      and q: "cn_db s1 = cn_db s \<and> prior_row (lg_issues (cn_db s)) (ri_buyer q) (ri_request q) (ri_fp q) v
        \<or> (\<exists>time kid xs. v = lg_response xs \<and> batch_signed ?env (lg_keys s) q time kid xs
             \<and> lg_batch_effect q time kid xs (cn_db s) (cn_db s1))"
      by blast
    from q issue_stored [OF ids args] have "\<exists>w. (w = v \<or> w = sort_keys v)
        \<and> prior_row (lg_issues (cn_db s1)) (ri_buyer q) (ri_request q) (ri_fp q) w" by metis
    with args show ?thesis by (simp add: LIssue cat)
  next
    case (LSpend b i r c t m bk tok)
    with run have "lg_spend ?env b i r c t m bk tok s = (Inr v, s1)" by simp
    from wp_Inr [OF desk.spend_spec [OF inv] this, unfolded cat] obtain q where args: "lg_spend_args fixture_catalog b i r c t m bk tok = Inr q"
      and q: "cn_db s1 = cn_db s \<and> prior_row (lg_receipts (cn_db s)) (sq_buyer q) (sq_request q) (sq_fp q) v
        \<or> (\<exists>rid at. rid \<in> range random \<and> v = lg_receipt_value q rid at
             \<and> lg_pay_effect q rid (le_clock ?env (cn_ticks s)) at (cn_db s) (cn_db s1))"
      by blast
    from q spend_stored [OF ids args] have "\<exists>w. (w = v \<or> w = sort_keys v)
        \<and> prior_row (lg_receipts (cn_db s1)) (sq_buyer q) (sq_request q) (sq_fp q) w" by metis
    with args show ?thesis by (simp add: LSpend cat)
  next
    case (LCancelMany b i xs)
    with run have "lg_cancel_many b i xs s = (Inr v, s1)" by simp
    from wp_Inr [OF desk.cancel_many_spec [OF inv] this, unfolded cat] obtain u j ids where args: "lg_cancel_args b i xs = Inr (u, j, ids)"
      and q: "cn_db s1 = cn_db s \<and> prior_row (lg_cancellations (cn_db s)) u j (lg_digest (PList (map PStr ids))) v
        \<or> (\<exists>n. v = cancelled_value n (length ids) \<and> lg_cancel_effect u j ids n (cn_db s) (cn_db s1))"
      by blast
    from q cancel_stored have "\<exists>w. (w = v \<or> w = sort_keys v)
        \<and> prior_row (lg_cancellations (cn_db s1)) u j (lg_digest (PList (map PStr ids))) w" by metis
    with args show ?thesis by (simp add: LCancelMany)
  qed (use op in simp_all)
qed

text \<open>
  C10. Issuing, spending and cancelling are idempotent: once such a call has returned, the same call, made
  after any further history - expiry, cancellation, revocation and rotation of the keys included - returns
  the same answer, up to the order of the keys of its objects, and changes nothing at all.
\<close>

theorem ledger_retry:
  assumes "\<forall>n. plain (random n)" and "retryable op"
    and "lg_step (fixture_env kenv clock random) op (fixture_run kenv clock random ops k) = (Inr v, s1)"
  shows "\<exists>w. (w = v \<or> w = sort_keys v)
    \<and> lg_step (fixture_env kenv clock random) op (run_ops (fixture_step kenv clock random) later s1)
        = (Inr w, run_ops (fixture_step kenv clock random) later s1)"
proof -
  let ?env = "fixture_env kenv clock random" and ?after = "run_ops (fixture_step kenv clock random) later s1"
  have inv: "lg_inv (cn_db s1)"
    using desk.ledger.step_inv [OF fixture_inv, of kenv clock random op kenv clock random ops k] assms(3) by simp
  from request_stored [OF assms(1) fixture_inv assms(2,3)] obtain w where w: "w = v \<or> w = sort_keys v"
    "request_row ?env op (cn_db s1) w" by blast
  from fixture_kept [OF inv] w(2) have "request_row ?env op (cn_db ?after) w" by (rule request_row_kept)
  from request_replay [OF fixture.run_inv [OF inv] this] w(1) show ?thesis by blast
qed

section \<open>An example\<close>

definition demo_entry :: lg_offer where
  "demo_entry = \<lparr>lo_content = text_digest (the (map_of fixture_data (lit ''r0''))),
     lo_terms = text_digest (lit ''local simulated terms v1''), lo_units = 1000\<rparr>"

lemma demo_lookup: "map_of fixture_catalog (lit ''r0'') = Some demo_entry"
proof -
  have r: "lit ''r'' @ dec_nat 0 = lit ''r0''" by (simp add: lit_def dec_nat.simps)
  have "(0 :: nat) < 32" by simp
  from fixture_body [OF this] show ?thesis
    unfolding r by (simp add: catalog_content demo_entry_def)
qed

definition demo_seed :: fixture_op where
  "demo_seed = FxLedger (LSeed (PStr (lit ''buyer'')) (PInt 5000))"

definition demo_spend :: lg_op where
  "demo_spend = LSpend (PStr (lit ''buyer'')) (PStr (lit ''q1'')) (PStr (lit ''r0'')) (PStr (lo_content demo_entry))
     (PStr (lo_terms demo_entry)) (PInt 1000) PNone PNone"

definition demo_desk :: "slots keys ledger_conn" where
  "demo_desk = fixture_run demo_keys_env (\<lambda>n. 10) (\<lambda>n. lit ''id'') [demo_seed]
     (snd (keys_init demo_keys_env (PStr (lit ''cpu'')) 4 (PInt 0) (\<lambda>_. (0, [], 0)) no_keys))"

lemma demo_desk_db:
  "cn_db demo_desk = empty_ledger_db\<lparr>lg_accounts := [\<lparr>la_buyer = lit ''buyer'', la_initial = 5000,
     la_available = 5000, la_reserved = 0, la_spent = 0\<rparr>]\<rparr>"
  by (simp add: demo_desk_def demo_seed_def lg_seed_def bind_act_def lift_res_def ret_def transaction_def execute_def
      check_name_def is_name_def lg_char_def check_range_def lit_def lg_insert_account_def check_constraint_def lg_account_ok_def
      init_ledger_def empty_ledger_db_def)

lemma demo_spend_runs:
  "\<exists>v s1. lg_step (fixture_env demo_keys_env (\<lambda>n. 10) (\<lambda>n. lit ''id'')) demo_spend demo_desk = (Inr v, s1)
     \<and> lg_accrued (cn_db s1) = 1000"
proof -
  let ?env = "fixture_env demo_keys_env (\<lambda>n. 10) (\<lambda>n. lit ''id'')"
  have n: "is_name (lit ''buyer'')" "is_name (lit ''q1'')" "is_name (lit ''r0'')"
    by (simp_all add: is_name_def lg_char_def lit_def)
  have "wp (lg_step ?env demo_spend) (\<lambda>_ s'. lg_accrued (cn_db s') = 1000) (\<lambda>_ _. False) demo_desk"
    by (simp add: demo_spend_def lg_spend_def run_simps lg_spend_args_def check_name_def n check_range_def lg_book_arg_def
        lg_offer_of_def fixture_env_def demo_lookup lg_spend_tx_def lg_prior_def demo_desk_db empty_ledger_db_def demo_entry_def
        lg_pay_direct_def lg_move_def lg_update_accounts_def check_constraint_def update_rows_def Let_def lg_insert_receipt_def
        lg_account_ok_def lr_key_def lg_new_receipt_def lg_add_accrued_def)
  then show ?thesis by (auto simp: wp_def split: prod.splits sum.splits)
qed

theorem ledger_retry_witness:
  "let step = lg_step (fixture_env demo_keys_env (\<lambda>n. 10) (\<lambda>n. lit ''id'')) demo_spend in
   \<exists>v w s1 s2. step demo_desk = (Inr v, s1) \<and> lg_accrued (cn_db s1) = 1000
     \<and> s2 = run_ops (fixture_step demo_keys_env (\<lambda>n. 10) (\<lambda>n. lit ''id'')) [FxLedger LAudit, FxKeys KyRotate] s1
     \<and> (w = v \<or> w = sort_keys v) \<and> step s2 = (Inr w, s2)"
proof -
  obtain v s1 where v: "lg_step (fixture_env demo_keys_env (\<lambda>n. 10) (\<lambda>n. lit ''id'')) demo_spend demo_desk = (Inr v, s1)"
    "lg_accrued (cn_db s1) = 1000" using demo_spend_runs by blast
  have "\<forall>n :: nat. plain (lit ''id'')" "retryable demo_spend"
    by (simp_all add: plain_def lit_def demo_spend_def)
  from ledger_retry [OF this v(1) [unfolded demo_desk_def], of "[FxLedger LAudit, FxKeys KyRotate]"] v show ?thesis
    unfolding Let_def by blast
qed

end
