(* ===== verification/IssuedBooks.thy ===== *)
theory IssuedBooks
  imports LedgerClaims
begin

text \<open>
  The ledger and the key store together: every book the ledger holds carries a token that was signed for
  this book, its buyer and its term, and that still verifies under the pin of its key.
\<close>

section \<open>Actions and the keys\<close>

definition keeps_keys :: "('k \<Rightarrow> bool) \<Rightarrow> ('k, 'a) lg_act \<Rightarrow> bool" where
  "keeps_keys P m \<longleftrightarrow> (\<forall>s. P (lg_keys s) \<longrightarrow> P (lg_keys (snd (m s))))"

named_theorems keys_intros \<open>introduction rules of \<open>keeps_keys\<close>\<close>

lemma keeps_keys_basic [keys_intros]:
  "keeps_keys P (ret x)" "keeps_keys P (raise e)" "keeps_keys P (lift_res r)" "keeps_keys P (query f)"
  "keeps_keys P (read_clock c)" "keeps_keys P (draw d)" "keeps_keys P (guard b e)" "keeps_keys P (execute g)"
  by (simp_all add: keeps_keys_def ret_def raise_def lift_res_def query_def read_clock_def draw_def guard_def execute_def
      split: sum.split)

lemma keeps_keys_bind [keys_intros]:
  assumes "keeps_keys P m" and "\<And>x. keeps_keys P (f x)"
  shows "keeps_keys P (bind_act m f)"
proof -
  have "P (lg_keys (snd (bind_act m f s)))" if "P (lg_keys s)" for s
  proof -
    obtain r s' where m: "m s = (r, s')" by fastforce
    with assms(1) that have "P (lg_keys s')" by (fastforce simp: keeps_keys_def)
    then show ?thesis using m assms(2) by (cases r) (simp_all add: bind_act_def keeps_keys_def)
  qed
  then show ?thesis by (simp add: keeps_keys_def)
qed

lemma keeps_keys_transaction [keys_intros]:
  assumes "keeps_keys P m" shows "keeps_keys P (transaction m)"
proof -
  have "P (lg_keys (snd (transaction m s)))" if "P (lg_keys s)" for s
  proof -
    let ?s = "s\<lparr>cn_saved := cn_db s # cn_saved s\<rparr>"
    have "P (lg_keys (snd (m ?s)))" using assms that by (simp add: keeps_keys_def)
    then show ?thesis by (cases "m ?s"; cases "fst (m ?s)") (simp_all add: transaction_def)
  qed
  then show ?thesis by (simp add: keeps_keys_def)
qed

lemma keeps_keys_cases [keys_intros]:
  "keeps_keys P m \<Longrightarrow> keeps_keys P m' \<Longrightarrow> keeps_keys P (if b then m else m')"
  "keeps_keys P m \<Longrightarrow> (\<And>x. keeps_keys P (f x)) \<Longrightarrow> keeps_keys P (case v of None \<Rightarrow> m | Some x \<Rightarrow> f x)"
  "(\<And>x y. keeps_keys P (g x y)) \<Longrightarrow> keeps_keys P (case p of (x, y) \<Rightarrow> g x y)"
  by (simp_all split: option.split prod.split)

lemma keeps_keys_draws [keys_intros]: "keeps_keys P (draws r n)"
  by (induction n) (auto intro!: keys_intros)

lemma keeps_keys_insert [keys_intros]: "keeps_keys P (lg_insert_books q time kid bs)" "keeps_keys P (lg_close_books ids)"
  subgoal by (induction bs) (auto intro!: keys_intros)
  subgoal by (induction ids) (auto intro!: keys_intros)
  done

lemma keeps_keys_prior [keys_intros]: "keeps_keys P (lg_prior table u i fp)" "keeps_keys P (lg_move u Q g)"
    "keeps_keys P (lg_pay_book env q bid)"
  unfolding lg_prior_def lg_move_def lg_pay_book_def Let_def by (intro keys_intros)+

lemma keeps_keys_tx [keys_intros]:
  "keeps_keys P (lg_pay_direct q)"
  "keeps_keys P (lg_issue_tx env iq time kid bs)" "keeps_keys P (lg_spend_tx env q)"
  "keeps_keys P (lg_cancel_tx u bid)" "keeps_keys P (lg_cancel_many_tx u i ids)"
  subgoal unfolding lg_pay_direct_def Let_def by (intro keys_intros)
  subgoal unfolding lg_issue_tx_def Let_def by (intro keys_intros)
  subgoal unfolding lg_spend_tx_def lg_pay_direct_def Let_def by (intro keys_intros)
  subgoal unfolding lg_cancel_tx_def lg_refund_def by (intro keys_intros)
  subgoal unfolding lg_cancel_many_tx_def lg_refund_def Let_def by (intro keys_intros)
  done

lemma keeps_keys_step:
  assumes "\<And>claims k. P k \<Longrightarrow> P (snd (le_sign env claims k))"
  shows "keeps_keys P (lg_step env op)"
proof -
  have sign: "keeps_keys P (keys_sign env claims)" for claims
    using assms by (simp add: keeps_keys_def keys_sign_def split_beta)
  show ?thesis
    by (cases op; simp only: lg_step.simps lg_seed_def lg_issue_def lg_prepare_def lg_spend_def lg_cancel_def
        lg_cancel_many_def lg_revoke_def lg_audit_def; intro keys_intros sign)
qed

section \<open>Books and their tokens\<close>

text \<open>What never changes of a book.\<close>

definition lb_face :: "lg_book \<Rightarrow> ustr \<times> ustr \<times> ustr \<times> ustr \<times> int \<times> int" where
  "lb_face b = (lb_id b, lb_buyer b, lb_kid b, lb_token b, lb_issued b, lb_expires b)"

definition faces :: "ledger_db \<Rightarrow> (ustr \<times> ustr \<times> ustr \<times> ustr \<times> int \<times> int) set" where
  "faces d = lb_face ` set (lg_books d)"

lemma face_simps [simp]:
  "lb_face (b\<lparr>lb_remaining := n\<rparr>) = lb_face b" "lb_face (b\<lparr>lb_closed := c\<rparr>) = lb_face b"
  "faces (d\<lparr>lg_cancellations := rows\<rparr>) = faces d"
  by (simp_all add: lb_face_def faces_def)

lemma faces_update:
  "(\<And>b. lb_face (g b) = lb_face b) \<Longrightarrow> lb_face ` set (update_rows P g bs) = lb_face ` set bs"
proof -
  assume g: "\<And>b. lb_face (g b) = lb_face b"
  have "map lb_face (update_rows P g bs) = map lb_face bs" by (induction bs) (simp_all add: update_rows_def g)
  then show ?thesis by (metis set_map)
qed

lemma faces_close: "faces (lg_db_close u ids n d) = faces d"
  unfolding faces_def lg_db_close_def by (simp add: faces_update)

lemma faces_pay: "faces (lg_db_pay r d) = faces d"
  unfolding faces_def lg_db_pay_def by (simp add: faces_update)

lemma faces_batch:
  "lg_batch_effect q time kid bs d d' \<Longrightarrow> faces d' = faces d \<union> lb_face ` set (map (lg_new_book q time kid) bs)"
  by (auto simp: lg_batch_effect_def faces_def lg_db_issue_def Let_def)

text \<open>A successful call adds the faces of a signed batch, or none.\<close>

lemma step_faces:
  assumes inv: "lg_inv (cn_db s)" and run: "lg_step (fixture_env kenv clock random) op s = (Inr v, s')"
  shows "faces (cn_db s') = faces (cn_db s) \<or> (\<exists>q time kid bs. batch_signed (fixture_env kenv clock random) (lg_keys s) q time kid bs
    \<and> map (snd o snd) bs = ri_manifests q
    \<and> faces (cn_db s') = faces (cn_db s) \<union> lb_face ` set (map (lg_new_book q time kid) bs))"
proof (cases op)
  case (LSeed b n)
  have "wp (lg_step (fixture_env kenv clock random) op) (\<lambda>_ s'. faces (cn_db s') = faces (cn_db s)) (\<lambda>_ _. True) s"
    by (auto simp: LSeed lg_seed_def run_simps lg_insert_account_def check_constraint_def faces_def split: sum.split prod.split)
  from wp_Inr [OF this run] show ?thesis by simp
next
  case (LIssue b i bs m t)
  with run have "lg_issue (fixture_env kenv clock random) b i bs m t s = (Inr v, s')" by simp
  from wp_Inr [OF desk.issuing_spec this] show ?thesis
    using faces_batch unfolding lg_batch_effect_def by metis
next
  case (LSpend b i r c t m bk tok)
  with run have "lg_spend (fixture_env kenv clock random) b i r c t m bk tok s = (Inr v, s')" by simp
  from wp_Inr [OF desk.spend_spec [OF inv] this] show ?thesis
    by (auto simp: lg_pay_effect_def Let_def faces_pay)
next
  case (LCancel b x)
  with run have "lg_cancel b x s = (Inr v, s')" by simp
  from wp_Inr [OF desk.cancel_spec [OF inv] this] show ?thesis by (auto simp: faces_close)
next
  case (LCancelMany b i xs)
  with run have "lg_cancel_many b i xs s = (Inr v, s')" by simp
  from wp_Inr [OF desk.cancel_many_spec [OF inv] this] show ?thesis
    by (auto simp: lg_cancel_effect_def faces_close)
next
  case (LRevoke x)
  have "wp (lg_step (fixture_env kenv clock random) op) (\<lambda>_ s'. faces (cn_db s') = faces (cn_db s)) (\<lambda>_ _. True) s"
    by (auto simp: LRevoke lg_revoke_def run_simps lg_insert_revoked_def faces_def)
  from wp_Inr [OF this run] show ?thesis by simp
next
  case LAudit
  with run have "lg_audit s = (Inr v, s')" by simp
  from wp_Inr [OF desk.audit_reads this] show ?thesis by simp
qed

text \<open>A book as its face tells it carries a token of its own, genuine under the pin of its key.\<close>

definition signed_face :: "'n keys_env \<Rightarrow> (ustr \<rightharpoonup> bytes) \<Rightarrow> ustr \<times> ustr \<times> ustr \<times> ustr \<times> int \<times> int \<Rightarrow> bool" where
  "signed_face kenv pins = (\<lambda>(bid, buyer, kid, token, t, e). \<exists>pub q m g. pins kid = Some pub
     \<and> ri_buyer q = buyer \<and> e = t + ri_ttl q \<and> token = compact_token kid (claim_payload (lg_claims q t bid m)) g
     \<and> valid_low_s g \<and> ecdsa_verify (ke_ossl kenv) pub (sig_r g) (sig_s g)
         (sha256 (ascii_encode (signing_input kid (claim_payload (lg_claims q t bid m))))))"

lemma signed_face_mono: "signed_face kenv pins x \<Longrightarrow> pins \<subseteq>\<^sub>m pins' \<Longrightarrow> signed_face kenv pins' x"
  unfolding signed_face_def by (auto dest: map_le_Some)

text \<open>The tokens of a signing call, one by one.\<close>

lemma signed_tokens:
  assumes law: "ecdsa_law (ke_ossl kenv)" and inv: "keys_inv kenv k"
    and sign: "fst (sign_claims kenv claims k) = Inr (kid, tokens)" and i: "i < length claims"
  shows "\<exists>pub g. ky_pins k kid = Some pub \<and> tokens ! i = compact_token kid (claim_payload (claims ! i)) g \<and> valid_low_s g
    \<and> ecdsa_verify (ke_ossl kenv) pub (sig_r g) (sig_s g)
        (sha256 (ascii_encode (signing_input kid (claim_payload (claims ! i)))))"
proof -
  from sign have kid: "kid = ky_kid k" and run:
    "sign_es256 (Items (map PBytes (map claim_payload claims))) (PStr (ky_kid k)) (keys_signer kenv k) = Inr tokens"
    by (simp_all add: sign_claims_def Let_def split: sum.splits)
  from digest_signer.tokens_genuine [OF keys_signer_contract [OF law inv] run] obtain gs where
    gs: "tokens = map2 (compact_token kid) (map claim_payload claims) gs" "length gs = length claims"
    and ok: "valid_low_s (gs ! i)"
      "pinned_genuine kenv k (sha256 (ascii_encode (signing_input kid (claim_payload (claims ! i))))) (gs ! i)"
    using i by (auto simp: kid)
  then show ?thesis using i by (auto simp: pinned_genuine_def kid)
qed

lemma batch_faces:
  assumes law: "ecdsa_law (ke_ossl kenv)" and inv: "keys_inv kenv k"
    and signed: "batch_signed (fixture_env kenv clock random) k q time kid bs" and ms: "map (snd o snd) bs = ri_manifests q"
    and b: "b \<in> set bs"
  shows "signed_face kenv (ky_pins k) (lb_face (lg_new_book q time kid b))"
proof -
  let ?claims = "map2 (lg_claims q time) (map fst bs) (ri_manifests q)"
  from b obtain i where i: "i < length bs" "b = bs ! i" by (metis in_set_conv_nth)
  have len: "length (ri_manifests q) = length bs" using ms by (metis length_map)
  have m: "ri_manifests q ! i = snd (snd b)" using i by (simp flip: ms)
  have c: "?claims ! i = lg_claims q time (fst b) (snd (snd b))" using i len m by simp
  have tok: "map (fst o snd) bs ! i = fst (snd b)" using i by simp
  have "fst (sign_claims kenv ?claims k) = Inr (kid, map (fst o snd) bs)"
    using signed by (simp add: batch_signed_def fixture_env_def)
  from signed_tokens [OF law inv this, of i] i len obtain pub g where
    "ky_pins k kid = Some pub" "fst (snd b) = compact_token kid (claim_payload (lg_claims q time (fst b) (snd (snd b)))) g"
    "valid_low_s g" "ecdsa_verify (ke_ossl kenv) pub (sig_r g) (sig_s g)
        (sha256 (ascii_encode (signing_input kid (claim_payload (lg_claims q time (fst b) (snd (snd b)))))))"
    unfolding c tok by auto
  then show ?thesis
    by (auto simp: signed_face_def lb_face_def lg_new_book_def split_beta)
qed

section \<open>Histories\<close>

definition desk_inv :: "'n keys_env \<Rightarrow> 'n keys ledger_conn \<Rightarrow> bool" where
  "desk_inv kenv s \<longleftrightarrow> lg_inv (cn_db s) \<and> keys_inv kenv (lg_keys s) \<and> epochs_inv (lg_keys s)
     \<and> (\<forall>x \<in> faces (cn_db s). signed_face kenv (ky_pins (lg_keys s)) x)"

lemma key_step_good:
  assumes "scalars_ok kenv" and "keys_inv kenv k \<and> epochs_inv k \<and> pins \<subseteq>\<^sub>m ky_pins k"
  shows "keys_inv kenv (snd (key_step kenv op k)) \<and> epochs_inv (snd (key_step kenv op k))
    \<and> pins \<subseteq>\<^sub>m ky_pins (snd (key_step kenv op k))"
  using key_step_inv [OF assms(1)] key_step_grows assms(2) map_le_trans by blast

lemma fixture_step_keys:
  assumes ok: "scalars_ok kenv" and s: "keys_inv kenv (lg_keys s)" "epochs_inv (lg_keys s)"
  shows "keys_inv kenv (lg_keys (snd (fixture_step kenv clock random op s)))
    \<and> epochs_inv (lg_keys (snd (fixture_step kenv clock random op s)))
    \<and> ky_pins (lg_keys s) \<subseteq>\<^sub>m ky_pins (lg_keys (snd (fixture_step kenv clock random op s)))"
proof (cases op)
  case (FxLedger lop)
  let ?P = "\<lambda>k. keys_inv kenv k \<and> epochs_inv k \<and> ky_pins (lg_keys s) \<subseteq>\<^sub>m ky_pins k"
  have "?P (snd (le_sign (fixture_env kenv clock random) claims k))" if "?P k" for claims k
    using key_step_good [OF ok that, of "KySign claims"] by (simp add: fixture_env_def drop_result_state)
  from keeps_keys_step [of ?P, OF this] s show ?thesis
    by (simp add: FxLedger keeps_keys_def)
next
  case (FxKeys kop)
  then show ?thesis
    using key_step_good [OF ok, of "lg_keys s" "ky_pins (lg_keys s)" kop] s by (simp add: split_beta)
qed

lemma desk_step_inv:
  assumes law: "ecdsa_law (ke_ossl kenv)" and ok: "scalars_ok kenv" and s: "desk_inv kenv s"
  shows "desk_inv kenv (snd (fixture_step kenv clock random op s))"
proof -
  let ?s = "snd (fixture_step kenv clock random op s)"
  have inv: "lg_inv (cn_db s)" and ki: "keys_inv kenv (lg_keys s)" and ei: "epochs_inv (lg_keys s)"
    and faces: "\<forall>x \<in> faces (cn_db s). signed_face kenv (ky_pins (lg_keys s)) x"
    using s by (simp_all add: desk_inv_def)
  note keys = fixture_step_keys [OF ok ki ei, of clock random op]
  have "\<forall>x \<in> faces (cn_db ?s). signed_face kenv (ky_pins (lg_keys s)) x"
  proof (cases op)
    case (FxLedger lop)
    obtain r s' where st: "lg_step (fixture_env kenv clock random) lop s = (r, s')" by fastforce
    show ?thesis
    proof (cases r)
      case (Inl e)
      then show ?thesis using st faces desk.ledger.step_rollback [of kenv clock random lop s e s'] by (simp add: FxLedger)
    next
      case (Inr v)
      from step_faces [OF inv st [unfolded Inr]] show ?thesis
        using faces batch_faces [OF law ki] st by (auto simp: FxLedger)
    qed
  next
    case (FxKeys kop)
    with faces show ?thesis by (simp split: prod.split)
  qed
  then show ?thesis
    using keys fixture.step_inv [OF inv] signed_face_mono by (simp add: desk_inv_def) blast
qed

lemma desk_run_inv:
  assumes "ecdsa_law (ke_ossl kenv)" and "scalars_ok kenv" and "desk_inv kenv s"
  shows "desk_inv kenv (run_ops (fixture_step kenv clock random) ops s)"
  using assms(3) by (induction ops arbitrary: s) (simp_all add: desk_step_inv [OF assms(1,2)])

text \<open>
  C1. With keys on the CPU, whatever was issued, spent, cancelled, revoked, rotated and closed before, in any
  order, every book of the ledger carries a token of its own: it names the key the ledger recorded for the book
  and was signed for exactly the book's identifier, buyer, issue time and expiry, and its signature still
  verifies under the public key pinned for that key. A rotation never strands the books sold before.
\<close>

theorem issued_books_signed:
  assumes "ecdsa_law (ke_ossl kenv)" and "scalars_ok kenv"
    and "keys_init kenv (PStr (lit ''cpu'')) workers device n no_keys = (Inr (), k)"
    and "b \<in> set (lg_books (cn_db (fixture_run kenv clock random ops k)))"
  shows "\<exists>pub q m g. ky_pins (lg_keys (fixture_run kenv clock random ops k)) (lb_kid b) = Some pub
    \<and> ri_buyer q = lb_buyer b \<and> lb_expires b = lb_issued b + ri_ttl q
    \<and> lb_token b = compact_token (lb_kid b) (claim_payload (lg_claims q (lb_issued b) (lb_id b) m)) g \<and> valid_low_s g
    \<and> ecdsa_verify (ke_ossl kenv) pub (sig_r g) (sig_s g)
        (sha256 (ascii_encode (signing_input (lb_kid b) (claim_payload (lg_claims q (lb_issued b) (lb_id b) m)))))"
proof -
  have "desk_inv kenv (init_ledger k)"
    using keys_init_inv [OF assms(2,3)] keys_init_epochs [OF assms(3)]
    by (simp add: desk_inv_def init_ledger_def empty_ledger_inv faces_def empty_ledger_db_def [symmetric]) (simp add: empty_ledger_db_def)
  from desk_run_inv [OF assms(1,2) this, of clock random ops] assms(4) show ?thesis
    unfolding desk_inv_def faces_def lb_face_def signed_face_def by fastforce
qed

section \<open>An example\<close>

definition demo_keys :: "slots keys" where
  "demo_keys = snd (keys_init demo_keys_env (PStr (lit ''cpu'')) 4 (PInt 0) (\<lambda>_. (0, [], 0)) no_keys)"

lemma demo_keys_init_eq: "keys_init demo_keys_env (PStr (lit ''cpu'')) 4 (PInt 0) (\<lambda>_. (0, [], 0)) no_keys = (Inr (), demo_keys)"
  unfolding demo_keys_def demo_keys_init by simp

lemma demo_keys_fields: "ky_gpu demo_keys = None" "ky_kid demo_keys = epoch_kid 1" "\<not> ky_shut demo_keys"
  unfolding demo_keys_def demo_keys_init by (simp_all add: no_keys_def)

lemma demo_signs:
  assumes "length (claim_payload c) \<le> MAX_PAYLOAD"
  shows "\<exists>token k. sign_claims demo_keys_env [c] demo_keys = (Inr (epoch_kid 1, [token]), k)"
proof -
  have law: "ecdsa_law (ke_ossl demo_keys_env)" by (simp add: demo_keys_env_def demo_ecdsa_law)
  have inv: "keys_inv demo_keys_env demo_keys" by (rule keys_init_inv [OF demo_scalars demo_keys_init_eq])
  have m: "py_messages (Items (map PBytes [claim_payload c])) = Inr [claim_payload c]"
    using assms by (simp add: py_messages_Inr_iff MAX_BATCH_def MAX_PAYLOAD_def MAX_WORK_def)
  have k: "key_label_ok (ky_kid demo_keys)"
    by (simp add: demo_keys_fields key_label_ok_def isprintable_ascii_def epoch_kid_def lit_def dec_nat.simps)
  obtain tokens where t: "sign_es256 (Items (map PBytes [claim_payload c])) (PStr (ky_kid demo_keys)) (keys_signer demo_keys_env demo_keys)
      = Inr tokens" "length tokens = 1"
    using digest_signer.signer_answer_accepted [OF keys_signer_contract [OF law inv] k m] demo_keys_fields
    by (auto simp: keys_signer_def)
  then obtain token where "tokens = [token]" by (cases tokens) auto
  with t show ?thesis by (simp add: sign_claims_def Let_def demo_keys_fields)
qed

definition demo_request :: lg_request where
  "demo_request = \<lparr>ri_buyer = lit ''buyer'', ri_request = lit ''i1'', ri_manifests = [[(lit ''r0'', demo_entry)]],
     ri_max_units = 1000, ri_ttl = 60, ri_fp = lg_digest (PList [PList [PList [PStr (lit ''r0'')]], PInt 1000, PInt 60])\<rparr>"

lemma demo_claims_short: "length (claim_payload (lg_claims demo_request 10 (lit ''id'') [(lit ''r0'', demo_entry)])) \<le> MAX_PAYLOAD"
proof -
  have d: "plain (lg_digest v)" "length (lg_digest v) = 64" for v
    by (simp_all add: lg_digest_def sha256_hex_def plain_hex)
  have i: "length (dec_int 10) \<le> 13" "length (dec_int 70) \<le> 13"
    using length_dec_int [of 10 12] length_dec_int [of 70 12] by simp_all
  have "length (dumps_sorted (lg_claims demo_request 10 (lit ''id'') [(lit ''r0'', demo_entry)])) \<le> 1024"
    unfolding lg_claims_def
    by (rule order_trans [OF length_dumps_dict])
      (use i in \<open>simp add: length_json_str_plain plain_lit d demo_request_def\<close>)
  then show ?thesis by (simp add: claim_payload_def MAX_PAYLOAD_def)
qed

definition demo_issue :: lg_op where
  "demo_issue = LIssue (PStr (lit ''buyer'')) (PStr (lit ''i1'')) (PList [PList [PStr (lit ''r0'')]]) (PInt 1000) (PInt 60)"

lemma demo_books_args:
  "lg_issue_args fixture_catalog (PStr (lit ''buyer'')) (PStr (lit ''i1'')) (PList [PList [PStr (lit ''r0'')]]) (PInt 1000) (PInt 60)
    = Inr demo_request"
proof -
  have n: "is_name (lit ''buyer'')" "is_name (lit ''i1'')" "is_name (lit ''r0'')"
    by (simp_all add: is_name_def lg_char_def lit_def)
  show ?thesis
    by (simp add: lg_issue_args_def check_name_def n check_range_def lg_offer_of_def demo_lookup demo_request_def)
qed

lemma demo_books_run:
  "\<exists>b. b \<in> set (lg_books (cn_db (fixture_run demo_keys_env (\<lambda>n. 10) (\<lambda>n. lit ''id'') [demo_seed, FxLedger demo_issue] demo_keys)))
     \<and> lb_buyer b = lit ''buyer'' \<and> lb_remaining b = 1000"
proof -
  let ?env = "fixture_env demo_keys_env (\<lambda>n. 10) (\<lambda>n. lit ''id'')"
  have fields: "ri_manifests demo_request = [[(lit ''r0'', demo_entry)]]" "ri_buyer demo_request = lit ''buyer''"
    "ri_ttl demo_request = 60" "ri_max_units demo_request = 1000" "ri_request demo_request = lit ''i1''"
    "lo_units demo_entry = 1000"
    by (simp_all add: demo_request_def demo_entry_def)
  obtain token k where sign: "sign_claims demo_keys_env [lg_claims demo_request 10 (lit ''id'') [(lit ''r0'', demo_entry)]] demo_keys
      = (Inr (epoch_kid 1, [token]), k)" using demo_signs [OF demo_claims_short] by blast
  have desk: "demo_desk = fixture_run demo_keys_env (\<lambda>n. 10) (\<lambda>n. lit ''id'') [demo_seed] demo_keys"
    by (simp add: demo_desk_def demo_keys_def)
  have keys: "lg_keys demo_desk = demo_keys" "cn_ticks demo_desk = 0" "cn_draws demo_desk = 0"
    unfolding desk
    by (simp_all add: demo_seed_def lg_seed_def bind_act_def lift_res_def ret_def transaction_def execute_def
      check_name_def is_name_def lg_char_def check_range_def lit_def lg_insert_account_def check_constraint_def lg_account_ok_def
      init_ledger_def empty_ledger_db_def)
  have "wp (lg_step ?env demo_issue) (\<lambda>_ s'. \<exists>b \<in> set (lg_books (cn_db s')). lb_buyer b = lit ''buyer'' \<and> lb_remaining b = 1000)
      (\<lambda>_ _. False) demo_desk"
    by (simp add: demo_issue_def lg_issue_def run_simps demo_books_args fixture_env_def lg_prior_def demo_desk_db empty_ledger_db_def
        lg_prepare_def fields manifest_units_def keys sign lg_issue_tx_def lg_move_def lg_update_accounts_def check_constraint_def
        update_rows_def Let_def lg_account_ok_def lg_insert_book_def lg_insert_items_def lg_new_book_def lg_new_items_def
        lg_insert_issue_def lr_key_def keys_sign_def li_key_def)
  then show ?thesis
    unfolding desk by (auto simp: wp_def split: prod.splits sum.splits)
qed

theorem issued_books_signed_witness:
  "let s = fixture_run demo_keys_env (\<lambda>n. 10) (\<lambda>n. lit ''id'') [demo_seed, FxLedger demo_issue] demo_keys in
   \<exists>b pub q m g. b \<in> set (lg_books (cn_db s)) \<and> lb_buyer b = lit ''buyer'' \<and> ky_pins (lg_keys s) (lb_kid b) = Some pub
     \<and> lb_token b = compact_token (lb_kid b) (claim_payload (lg_claims q (lb_issued b) (lb_id b) m)) g \<and> valid_low_s g"
proof -
  let ?s = "fixture_run demo_keys_env (\<lambda>n. 10) (\<lambda>n. lit ''id'') [demo_seed, FxLedger demo_issue] demo_keys"
  obtain b where b: "b \<in> set (lg_books (cn_db ?s))" "lb_buyer b = lit ''buyer''"
    using demo_books_run by blast
  have "ecdsa_law (ke_ossl demo_keys_env)" by (simp add: demo_keys_env_def demo_ecdsa_law)
  from issued_books_signed [OF this demo_scalars demo_keys_init_eq b(1)] b show ?thesis
    unfolding Let_def by blast
qed

end
