(* ===== verification/Service.thy ===== *)
theory Service
  imports IssuedBooks
begin

text \<open>
  \<open>examples/http_access/service.py\<close>: the two HTTP roles of the fixture over the ledger, the keys and the
  consumer, and the client that repeats its exact request when the transport fails.

  The network is a stream of the environment that tells for each exchange whether the request or the reply
  is lost. Bodies are ASCII texts, which is what \<open>canonical\<close> writes; a \<open>Content-Length\<close> is the integer
  that \<open>int\<close> reads, or \<open>None\<close> where it raises. Requests are served one after the other: SQLite orders the
  transactions of concurrent ones, and each of them is one call of the ledger.
\<close>

section \<open>Requests, replies and the state\<close>

datatype role = Issuer | Publisher

datatype net = Lost | ReplyLost | Delivered

record http_request =
  hr_path :: ustr
  hr_auth :: "ustr list"
  hr_lengths :: "int option list"
  hr_chunked :: bool
  hr_type :: "ustr option"
  hr_body :: ustr

type_synonym reply = "int \<times> ustr"

record 'n app_env =
  ae_keys :: "'n keys_env"
  ae_clock :: "nat \<Rightarrow> int"
  ae_random :: "nat \<Rightarrow> ustr"
  ae_jwt :: jwt_lib
  ae_buyer_secret :: ustr
  ae_other_secret :: ustr
  ae_publisher_secret :: ustr
  ae_net :: "nat \<Rightarrow> net"

record 'n app =
  ap_desk :: "'n keys ledger_conn"
  ap_consumer :: consumer
  ap_drops :: "(role \<times> ustr) list"
  ap_errors :: "string list"
  ap_requests :: nat
  ap_request_bytes :: nat
  ap_response_bytes :: nat
  ap_dropped :: nat
  ap_exchanges :: nat

type_synonym ('n, 'a) serving = "('n app, 'a) eff"

definition MAX_BODY :: nat where
  "MAX_BODY = 1024 * 1024"

definition on_desk :: "('n keys, 'a) lg_act \<Rightarrow> ('n, 'a) serving" where
  "on_desk = ezoom ap_desk (\<lambda>d s. s\<lparr>ap_desk := d\<rparr>)"

definition on_consumer :: "(consumer, 'a) eff \<Rightarrow> ('n, 'a) serving" where
  "on_consumer = ezoom ap_consumer (\<lambda>c s. s\<lparr>ap_consumer := c\<rparr>)"

section \<open>The handler\<close>

definition fields :: "pyval \<Rightarrow> string list \<Rightarrow> string list \<Rightarrow> dict result" where
  "fields payload required optional = (case payload of
     PDict kvs \<Rightarrow>
       if set (map lit required) \<subseteq> set (map fst kvs) \<and> set (map fst kvs) \<subseteq> set (map lit (required @ optional))
       then Inr kvs else Inl (Denied ''unexpected request shape'')
   | _ \<Rightarrow> Inl (Denied ''unexpected request shape''))"

definition arg :: "dict \<Rightarrow> string \<Rightarrow> pyval \<Rightarrow> pyval" where
  "arg kvs k otherwise = (case map_of kvs (lit k) of Some v \<Rightarrow> v | None \<Rightarrow> otherwise)"

definition is_buyer :: "ustr \<Rightarrow> bool" where
  "is_buyer identity \<longleftrightarrow> identity = lit ''buyer'' \<or> identity = lit ''other''"

definition desk_env :: "'n app_env \<Rightarrow> 'n keys ledger_env" where
  "desk_env env = fixture_env (ae_keys env) (ae_clock env) (ae_random env)"

definition issuer_dispatch :: "'n app_env \<Rightarrow> ustr \<Rightarrow> ustr \<Rightarrow> pyval \<Rightarrow> ('n, pyval) serving" where
  "issuer_dispatch env path identity payload =
     (if path = lit ''/issue'' \<and> is_buyer identity then
        ebind (elift (fields payload [''request_id'', ''books'', ''max_units''] [''ttl''])) (\<lambda>p.
          on_desk (lg_issue (desk_env env) (PStr identity) (arg p ''request_id'' PNone) (arg p ''books'' PNone)
            (arg p ''max_units'' PNone) (arg p ''ttl'' (PInt 60))))
      else if path = lit ''/cancel'' \<and> is_buyer identity then
        ebind (elift (fields payload [''book''] [])) (\<lambda>p. on_desk (lg_cancel identity (arg p ''book'' PNone)))
      else if path = lit ''/cancel-many'' \<and> is_buyer identity then
        ebind (elift (fields payload [''request_id'', ''books''] [])) (\<lambda>p.
          on_desk (lg_cancel_many (PStr identity) (arg p ''request_id'' PNone) (arg p ''books'' PNone)))
      else if path = lit ''/spend'' \<and> identity = lit ''publisher'' then
        ebind (elift (fields payload [''buyer'', ''request_id'', ''resource'', ''content'', ''terms'', ''max_units'']
            [''book'', ''token''])) (\<lambda>p.
          on_desk (lg_spend (desk_env env) (arg p ''buyer'' PNone) (arg p ''request_id'' PNone) (arg p ''resource'' PNone)
            (arg p ''content'' PNone) (arg p ''terms'' PNone) (arg p ''max_units'' PNone) (arg p ''book'' PNone)
            (arg p ''token'' PNone)))
      else eraise (RemoteError 403))"

definition identify :: "'n app_env \<Rightarrow> ustr \<Rightarrow> ustr option" where
  "identify env auth = foldl (\<lambda>found (name, secret). if auth = lit ''Bearer '' @ secret then Some name else found) None
     [(lit ''buyer'', ae_buyer_secret env), (lit ''other'', ae_other_secret env), (lit ''publisher'', ae_publisher_secret env)]"

definition read_request :: "'n app_env \<Rightarrow> http_request \<Rightarrow> (ustr \<times> nat \<times> pyval) result" where
  "read_request env req =
     (case hr_auth req of
        [auth] \<Rightarrow>
          (case identify env auth of
             None \<Rightarrow> Inl (RemoteError 401)
           | Some identity \<Rightarrow>
               (case hr_lengths req of
                  [Some len] \<Rightarrow>
                    if hr_chunked req then Inl (Denied ''invalid framing'')
                    else if \<not> (0 < len \<and> len \<le> int MAX_BODY) \<or> hr_type req \<noteq> Some (lit ''application/json'')
                    then Inl (Denied ''invalid body'')
                    else if length (hr_body req) < nat len then Inl (Denied ''incomplete body'')
                    else bind_res (stored_json (take (nat len) (hr_body req))) (\<lambda>payload. Inr (identity, nat len, payload))
                | [None] \<Rightarrow> if hr_chunked req then Inl (Denied ''invalid framing'') else Inl (ValueError ''invalid literal for int'')
                | _ \<Rightarrow> Inl (Denied ''invalid framing'')))
      | _ \<Rightarrow> Inl (RemoteError 401))"

text \<open>The \<open>try\<close> of \<open>do_POST\<close>; \<open>None\<close> is the connection that is shut instead of answered.\<close>

definition serve ::
    "'n app_env \<Rightarrow> (ustr \<Rightarrow> ustr \<Rightarrow> pyval \<Rightarrow> ('n, pyval) serving) \<Rightarrow> role \<Rightarrow> http_request \<Rightarrow> ('n, pyval option) serving" where
  "serve env dispatch role req =
     ebind (elift (read_request env req)) (\<lambda>(identity, len, payload).
     ebind (emod (\<lambda>s. s\<lparr>ap_requests := Suc (ap_requests s), ap_request_bytes := ap_request_bytes s + len\<rparr>)) (\<lambda>_.
     ebind (dispatch (hr_path req) identity payload) (\<lambda>result.
     ebind (eget (\<lambda>s. (role, hr_path req) \<in> set (ap_drops s))) (\<lambda>drop.
       if drop then
         ebind (emod (\<lambda>s. s\<lparr>ap_drops := filter (\<lambda>x. x \<noteq> (role, hr_path req)) (ap_drops s), ap_dropped := Suc (ap_dropped s)\<rparr>))
           (\<lambda>_. eret None)
       else eret (Some result)))))"

fun exn_name :: "exn \<Rightarrow> string" where
  "exn_name (RuntimeError _) = ''RuntimeError''"
| "exn_name (VerificationError _) = ''VerificationError''"
| "exn_name (IntegrityError _) = ''IntegrityError''"
| "exn_name InvalidTag = ''InvalidTag''"
| "exn_name InvalidSignature = ''InvalidSignature''"
| "exn_name (JwtError _) = ''PyJWTError''"
| "exn_name (IndexError _) = ''IndexError''"
| "exn_name (OSError _) = ''OSError''"
| "exn_name (TimeoutError _) = ''TimeoutError''"
| "exn_name _ = []"

fun error_status :: "exn \<Rightarrow> int" where
  "error_status (RemoteError n) = n"
| "error_status (Denied _) = 400"
| "error_status (ValueError _) = 400"
| "error_status (UnicodeError _) = 400"
| "error_status (TypeError _) = 400"
| "error_status (KeyError _) = 400"
| "error_status _ = 503"

definition note_error :: "exn \<Rightarrow> 'n app \<Rightarrow> 'n app" where
  "note_error e s = (case e of RemoteError _ \<Rightarrow> s
     | _ \<Rightarrow> if error_status e = 503 then s\<lparr>ap_errors := ap_errors s @ [exn_name e]\<rparr> else s)"

definition answer :: "int \<Rightarrow> pyval \<Rightarrow> 'n app \<Rightarrow> reply option \<times> 'n app" where
  "answer status result s =
     (let body = dumps_sorted (if status = 200 then result else PDict [(lit ''error'', PStr (lit ''request denied''))])
      in (Some (status, body), s\<lparr>ap_response_bytes := ap_response_bytes s + length body\<rparr>))"

definition do_post ::
    "'n app_env \<Rightarrow> (ustr \<Rightarrow> ustr \<Rightarrow> pyval \<Rightarrow> ('n, pyval) serving) \<Rightarrow> role \<Rightarrow> http_request \<Rightarrow> 'n app \<Rightarrow> reply option \<times> 'n app" where
  "do_post env dispatch role req s =
     (case serve env dispatch role req s of
        (Inr None, s') \<Rightarrow> (None, s')
      | (Inr (Some result), s') \<Rightarrow> answer 200 result s'
      | (Inl e, s') \<Rightarrow> answer (error_status e) PNone (note_error e s'))"

section \<open>The client and the publisher\<close>

text \<open>One exchange over the network: the reply the client reads, if any.\<close>

definition exchange :: "'n app_env \<Rightarrow> ('n app \<Rightarrow> reply option \<times> 'n app) \<Rightarrow> ('n, reply option) serving" where
  "exchange env server s =
     (let s1 = s\<lparr>ap_exchanges := Suc (ap_exchanges s)\<rparr> in
      case ae_net env (ap_exchanges s) of
        Lost \<Rightarrow> (Inr None, s1)
      | ReplyLost \<Rightarrow> (Inr None, snd (server s1))
      | Delivered \<Rightarrow> (case server s1 of (r, s2) \<Rightarrow> (Inr r, s2)))"

text \<open>The loop of \<open>rpc\<close>, with \<open>n\<close> attempts left.\<close>

fun rpc_loop :: "'n app_env \<Rightarrow> ('n app \<Rightarrow> reply option \<times> 'n app) \<Rightarrow> nat \<Rightarrow> ('n, pyval) serving" where
  "rpc_loop env server 0 = eraise (RuntimeError ''retry exhausted'')"
| "rpc_loop env server (Suc n) =
     ebind (exchange env server) (\<lambda>response.
       case response of
         None \<Rightarrow> if n = 0 then eraise (OSError ''transport'') else rpc_loop env server n
       | Some (status, raw) \<Rightarrow>
           if MAX_BODY < length raw then eraise (RuntimeError ''oversized response'')
           else if status = 503 \<and> n \<noteq> 0 then rpc_loop env server n
           else if status \<noteq> 200 then eraise (RemoteError status)
           else elift (stored_json raw))"

definition rpc_request :: "ustr \<Rightarrow> pyval \<Rightarrow> ustr \<Rightarrow> http_request" where
  "rpc_request path payload secret =
     (let body = dumps_sorted payload in
      \<lparr>hr_path = path, hr_auth = [lit ''Bearer '' @ secret], hr_lengths = [Some (int (length body))],
        hr_chunked = False, hr_type = Some (lit ''application/json''), hr_body = body\<rparr>)"

definition rpc :: "'n app_env \<Rightarrow> (http_request \<Rightarrow> 'n app \<Rightarrow> reply option \<times> 'n app) \<Rightarrow> ustr \<Rightarrow> pyval \<Rightarrow> ustr
    \<Rightarrow> nat \<Rightarrow> ('n, pyval) serving" where
  "rpc env server path payload secret attempts = rpc_loop env (server (rpc_request path payload secret)) attempts"

definition issuer_role :: "'n app_env \<Rightarrow> http_request \<Rightarrow> 'n app \<Rightarrow> reply option \<times> 'n app" where
  "issuer_role env = do_post env (issuer_dispatch env) Issuer"

definition check_credential :: "'n app_env \<Rightarrow> ustr \<Rightarrow> dict \<Rightarrow> ('n, unit) serving" where
  "check_credential env identity p =
     (if (map_of p (lit ''book'') = None) \<noteq> (map_of p (lit ''token'') = None) then eraise (Denied ''incomplete credential'')
      else case map_of p (lit ''book'') of
        None \<Rightarrow> eret ()
      | Some book \<Rightarrow>
          ebind (eget (\<lambda>s. ky_pins (lg_keys (ap_desk s)))) (\<lambda>pins.
          ebind (on_consumer (consumer_verify (ae_jwt env) pins (arg p ''token'' PNone) identity book)) (\<lambda>_. eret ())))"

definition entitled_body :: "pyval \<Rightarrow> pyval result" where
  "entitled_body rc =
     bind_res (py_get rc (lit ''resource'')) (\<lambda>resource.
       case Option.bind (as_str resource) (map_of fixture_data) of
         None \<Rightarrow> Inl (KeyError ''missing'')
       | Some body \<Rightarrow>
           bind_res (py_get rc (lit ''content'')) (\<lambda>content.
             if PStr (text_digest body) \<noteq> content then Inl (RuntimeError ''entitled content version unavailable'')
             else Inr (PDict [(lit ''receipt'', rc), (lit ''body'', PStr body)])))"

definition publisher_dispatch :: "'n app_env \<Rightarrow> ustr \<Rightarrow> ustr \<Rightarrow> pyval \<Rightarrow> ('n, pyval) serving" where
  "publisher_dispatch env path identity payload =
     (if path = lit ''/access'' \<and> is_buyer identity then
        ebind (elift (fields payload [''request_id'', ''resource'', ''content'', ''terms'', ''max_units''] [''book'', ''token'']))
          (\<lambda>p.
        ebind (check_credential env identity p) (\<lambda>_.
        ebind (rpc env (issuer_role env) (lit ''/spend'') (PDict (p @ [(lit ''buyer'', PStr identity)])) (ae_publisher_secret env) 3)
          (\<lambda>rc. elift (entitled_body rc))))
      else eraise (RemoteError 403))"

definition publisher_role :: "'n app_env \<Rightarrow> http_request \<Rightarrow> 'n app \<Rightarrow> reply option \<times> 'n app" where
  "publisher_role env = do_post env (publisher_dispatch env) Publisher"

section \<open>The buyer\<close>

definition buyer_issue :: "'n app_env \<Rightarrow> ustr list list \<Rightarrow> ustr \<Rightarrow> int \<Rightarrow> ('n, pyval) serving" where
  "buyer_issue env groups request_id ttl =
     rpc env (issuer_role env) (lit ''/issue'') (PDict [(lit ''request_id'', PStr request_id),
       (lit ''books'', PList (map (\<lambda>b. PList (map PStr b)) groups)),
       (lit ''max_units'', PInt (int (sum_list (map length groups)) * 1000)), (lit ''ttl'', PInt ttl)]) (ae_buyer_secret env) 3"

text \<open>A book is the pair of its identifier and its token.\<close>

definition access_payload :: "ustr \<Rightarrow> ustr \<Rightarrow> (ustr \<times> ustr) option \<Rightarrow> dict result" where
  "access_payload resource request_id book =
     (case map_of fixture_catalog resource of
        None \<Rightarrow> Inl (KeyError ''missing'')
      | Some x \<Rightarrow> Inr ([(lit ''resource'', PStr resource), (lit ''request_id'', PStr request_id),
          (lit ''content'', PStr (lo_content x)), (lit ''terms'', PStr (lo_terms x)), (lit ''max_units'', PInt 1000)]
          @ (case book of None \<Rightarrow> [] | Some (bid, token) \<Rightarrow> [(lit ''book'', PStr bid), (lit ''token'', PStr token)])))"

definition receipt_matches :: "dict \<Rightarrow> ustr \<Rightarrow> (ustr \<times> ustr) option \<Rightarrow> dict \<Rightarrow> bool" where
  "receipt_matches payload resource book r \<longleftrightarrow>
     map_of r (lit ''buyer'') = Some (PStr (lit ''buyer'')) \<and> map_of r (lit ''publisher'') = Some (PStr (lit ''publisher''))
     \<and> arg r ''book'' PNone = (case book of None \<Rightarrow> PNone | Some (bid, _) \<Rightarrow> PStr bid)
     \<and> map_of r (lit ''resource'') = Some (PStr resource) \<and> map_of r (lit ''content'') = map_of payload (lit ''content'')
     \<and> map_of r (lit ''terms'') = map_of payload (lit ''terms'') \<and> map_of r (lit ''units'') = Some (PInt 1000)"

definition check_access :: "dict \<Rightarrow> ustr \<Rightarrow> (ustr \<times> ustr) option \<Rightarrow> pyval \<Rightarrow> pyval result" where
  "check_access payload resource book result =
     bind_res (py_get result (lit ''body'')) (\<lambda>body.
       case as_str body of
         None \<Rightarrow> Inl (TypeError ''no text'')
       | Some s \<Rightarrow>
           if Some (PStr (text_digest s)) \<noteq> map_of payload (lit ''content'') then Inl (RuntimeError ''buyer content check failed'')
           else bind_res (py_get result (lit ''receipt'')) (\<lambda>rc. case rc of
             PDict r \<Rightarrow> if receipt_matches payload resource book r then Inr result
               else Inl (RuntimeError ''buyer receipt check failed'')
           | _ \<Rightarrow> Inl (TypeError ''no mapping'')))"

definition buyer_access :: "'n app_env \<Rightarrow> ustr \<Rightarrow> ustr \<Rightarrow> (ustr \<times> ustr) option \<Rightarrow> ('n, pyval) serving" where
  "buyer_access env resource request_id book =
     ebind (elift (access_payload resource request_id book)) (\<lambda>payload.
     ebind (rpc env (publisher_role env) (lit ''/access'') (PDict payload) (ae_buyer_secret env) 3) (\<lambda>result.
       elift (check_access payload resource book result)))"

definition cancel_books :: "'n app_env \<Rightarrow> ustr list \<Rightarrow> ustr \<Rightarrow> ('n, pyval) serving" where
  "cancel_books env ids request_id =
     rpc env (issuer_role env) (lit ''/cancel-many'') (PDict [(lit ''request_id'', PStr request_id),
       (lit ''books'', PList (map PStr ids))]) (ae_buyer_secret env) 3"

end
