(* ===== verification/ServiceClaims.thy ===== *)
theory ServiceClaims
  imports Service
begin

text \<open>
  The properties of the HTTP service of \<open>Service\<close> over a network that may lose any request or reply: the
  retries are bounded, a purchase is paid at most once however often its request is repeated at either hop,
  and what the buyer accepts is the document it asked for.
\<close>

section \<open>Bounded retries\<close>

text \<open>A server that answers without using the network itself.\<close>

definition offline :: "('n app \<Rightarrow> reply option \<times> 'n app) \<Rightarrow> bool" where
  "offline server \<longleftrightarrow> (\<forall>s. ap_exchanges (snd (server s)) = ap_exchanges s)"

lemma offlineD: "offline server \<Longrightarrow> server s = (r, s') \<Longrightarrow> ap_exchanges s' = ap_exchanges s"
  unfolding offline_def by (metis snd_conv)

lemma exchange_counts:
  assumes "offline server" and run: "exchange env server s = (r, s')"
  shows "ap_exchanges s' = Suc (ap_exchanges s)"
proof (cases "ae_net env (ap_exchanges s)")
  case Lost
  with run show ?thesis by (auto simp: exchange_def)
next
  case ReplyLost
  with run have "s' = snd (server (s\<lparr>ap_exchanges := Suc (ap_exchanges s)\<rparr>))" by (simp add: exchange_def Let_def)
  then show ?thesis using assms(1) by (simp add: offline_def)
next
  case Delivered
  with run show ?thesis using offlineD [OF assms(1)] by (fastforce simp: exchange_def Let_def split: prod.splits)
qed

lemma exchange_returns: "\<exists>r s'. exchange env server s = (Inr r, s')"
  by (auto simp: exchange_def Let_def split: net.split prod.split)

definition attempted :: "nat \<Rightarrow> nat \<Rightarrow> pyval result \<Rightarrow> nat \<Rightarrow> bool" where
  "attempted n before r after \<longleftrightarrow> before < after \<and> after \<le> before + n
     \<and> r \<noteq> Inl (RuntimeError ''retry exhausted'')
     \<and> (\<forall>m. r = Inl (OSError m) \<longrightarrow> after = before + n)"

lemma post_step: "m s = (Inr x, s') \<Longrightarrow> post (ebind m f) Q E s = post (f x) Q E s'"
  by (simp add: post_def ebind_def)

lemma stored_json_error: "stored_json raw = Inl e \<Longrightarrow> e = ValueError ''invalid JSON''"
  by (simp add: stored_json_def split: option.splits)

lemma rpc_loop_attempts:
  assumes "offline server" and "0 < n"
  shows "post (rpc_loop env server n) (\<lambda>v s'. attempted n (ap_exchanges s) (Inr v) (ap_exchanges s'))
    (\<lambda>e s'. attempted n (ap_exchanges s) (Inl e) (ap_exchanges s')) s"
  using assms(2)
proof (induction n arbitrary: s)
  case (Suc n)
  obtain r s1 where x: "exchange env server s = (Inr r, s1)" using exchange_returns by blast
  from exchange_counts [OF assms(1) this] have s1: "ap_exchanges s1 = Suc (ap_exchanges s)" .
  have again: "post (rpc_loop env server n) (\<lambda>v s'. attempted (Suc n) (ap_exchanges s) (Inr v) (ap_exchanges s'))
    (\<lambda>e s'. attempted (Suc n) (ap_exchanges s) (Inl e) (ap_exchanges s')) s1" if "n \<noteq> 0"
    using that s1 by (intro post_mono [OF Suc.IH]) (auto simp: attempted_def)
  have last: "attempted (Suc n) (ap_exchanges s) (Inr v) (ap_exchanges s1)"
    "(\<forall>m. e = OSError m \<longrightarrow> n = 0) \<Longrightarrow> e \<noteq> RuntimeError ''retry exhausted'' \<Longrightarrow>
       attempted (Suc n) (ap_exchanges s) (Inl e) (ap_exchanges s1)" for v e
    using s1 by (auto simp: attempted_def)
  show ?case
  proof (cases r)
    case None
    then show ?thesis
      using again last(2) [of "OSError ''transport''"] by (simp add: post_step [of "exchange env server", OF x] post_basic)
  next
    case (Some reply)
    obtain status raw where reply: "reply = (status, raw)" by (cases reply)
    have parse: "post (elift (stored_json raw)) (\<lambda>v s'. attempted (Suc n) (ap_exchanges s) (Inr v) (ap_exchanges s'))
      (\<lambda>e s'. attempted (Suc n) (ap_exchanges s) (Inl e) (ap_exchanges s')) s1"
    proof (cases "stored_json raw")
      case (Inl e)
      then have "e = ValueError ''invalid JSON''" by (rule stored_json_error)
      then show ?thesis using last(2) [of e] by (simp add: post_basic Inl)
    next
      case (Inr v)
      then show ?thesis using last(1) [of v] by (simp add: post_basic)
    qed
    show ?thesis
      unfolding rpc_loop.simps post_step [of "exchange env server", OF x] Some reply option.case prod.case
      using again last(2) [of "RuntimeError ''oversized response''"] last(2) [of "RemoteError status"] parse
      by (simp add: post_basic)
  qed
qed simp

section \<open>What a request keeps\<close>

text \<open>A condition that does not look at the counters of the handlers.\<close>

definition steady :: "('n app \<Rightarrow> bool) \<Rightarrow> bool" where
  "steady I \<longleftrightarrow> (\<forall>s s'. ap_desk s' = ap_desk s \<and> ap_consumer s' = ap_consumer s \<and> ap_exchanges s' = ap_exchanges s
     \<longrightarrow> I s \<longrightarrow> I s')"

lemma steadyD:
  "steady I \<Longrightarrow> I s \<Longrightarrow> ap_desk s' = ap_desk s \<Longrightarrow> ap_consumer s' = ap_consumer s \<Longrightarrow> ap_exchanges s' = ap_exchanges s \<Longrightarrow> I s'"
  unfolding steady_def by blast

lemma do_post_keeps:
  assumes I: "steady I"
    and disp: "\<And>identity len payload. read_request env req = Inr (identity, len, payload) \<Longrightarrow> keeps I (dispatch (hr_path req) identity payload)"
    and s: "I s"
  shows "I (snd (do_post env dispatch role req s))"
proof -
  have mods: "I s \<Longrightarrow> I (s\<lparr>ap_requests := a, ap_request_bytes := b\<rparr>)" "I s \<Longrightarrow> I (s\<lparr>ap_drops := ds, ap_dropped := c\<rparr>)" for s a b ds c
    by (rule steadyD [OF I]; simp)+
  have "keeps I (serve env dispatch role req)"
  proof (cases "read_request env req")
    case (Inl e)
    then show ?thesis by (simp add: serve_def keeps_def post_simps)
  next
    case (Inr p)
    obtain identity len payload where p: "p = (identity, len, payload)" by (cases p)
    have "keeps I (ebind (emod (\<lambda>s. s\<lparr>ap_requests := Suc (ap_requests s), ap_request_bytes := ap_request_bytes s + len\<rparr>)) (\<lambda>_.
       ebind (dispatch (hr_path req) identity payload) (\<lambda>result.
       ebind (eget (\<lambda>s. (role, hr_path req) \<in> set (ap_drops s))) (\<lambda>drop.
         if drop then
           ebind (emod (\<lambda>s. s\<lparr>ap_drops := filter (\<lambda>x. x \<noteq> (role, hr_path req)) (ap_drops s), ap_dropped := Suc (ap_dropped s)\<rparr>))
             (\<lambda>_. eret None)
         else eret (Some result)))))"
      by (intro keeps_intros keeps_mod mods disp) (simp_all add: Inr p)
    then show ?thesis by (simp add: serve_def keeps_def post_bind [of "elift r" for r] post_basic Inr p)
  qed
  then have served: "I (snd (serve env dispatch role req s))" by (rule keepsD) (rule s)
  have ans: "I (snd (answer st v t))" if "I t" for st v t
    by (rule steadyD [OF I that]) (simp_all add: answer_def Let_def)
  have note_e: "I (note_error e t)" if "I t" for e t
    by (rule steadyD [OF I that]) (simp_all add: note_error_def split: exn.split)
  show ?thesis
    using served ans note_e
    by (cases "serve env dispatch role req s"; cases "fst (serve env dispatch role req s)") (auto simp: do_post_def split: option.splits)
qed

lemma keeps_desk: "(\<And>d. J d \<Longrightarrow> J (snd (m d))) \<Longrightarrow> keeps (\<lambda>s. J (ap_desk s)) (on_desk m)"
  by (auto simp: keeps_def post_def on_desk_def ezoom_def split: prod.split sum.split) (metis snd_conv)+

lemma keeps_outside:
  "(\<And>d s. I s \<Longrightarrow> I (s\<lparr>ap_desk := d\<rparr>)) \<Longrightarrow> keeps I (on_desk m)"
  "(\<And>c s. I s \<Longrightarrow> I (s\<lparr>ap_consumer := c\<rparr>)) \<Longrightarrow> keeps I (on_consumer m')"
  by (auto simp: keeps_def post_def on_desk_def on_consumer_def ezoom_def split: prod.split sum.split)

lemma offline_issuer: "offline (issuer_role env req)"
proof -
  have "ap_exchanges (snd (issuer_role env req s)) = ap_exchanges s" for s
    unfolding issuer_role_def
    by (rule do_post_keeps [where I = "\<lambda>t. ap_exchanges t = ap_exchanges s"])
      (simp_all add: steady_def issuer_dispatch_def keeps_basic keeps_bind keeps_outside)
  then show ?thesis by (simp add: offline_def)
qed


section \<open>Paying at most once\<close>

text \<open>The tables are as they were, or one payment of the request \<open>r\<close> was made.\<close>

definition paid_once :: "ledger_db \<Rightarrow> lg_spend_request result \<Rightarrow> ledger_db \<Rightarrow> bool" where
  "paid_once d0 r d \<longleftrightarrow> lg_inv d \<and> (d = d0 \<or> (\<exists>q rid t t'. r = Inr q \<and> lg_pay_effect q rid t t' d0 d))"

lemma pay_effect_key:
  "lg_pay_effect q rid t t' d d' \<Longrightarrow> (sq_buyer q, sq_request q) \<notin> set (map lr_key (lg_receipts d))
     \<and> (sq_buyer q, sq_request q) \<in> set (map lr_key (lg_receipts d'))"
  by (simp add: lg_pay_effect_def Let_def covered_def lg_db_pay_def lr_key_def lg_new_receipt_def del: set_map)

lemma spend_once:
  assumes "paid_once d0 (lg_spend_args fixture_catalog b i r c t m bk tok) (cn_db s)"
  shows "paid_once d0 (lg_spend_args fixture_catalog b i r c t m bk tok)
    (cn_db (snd (lg_spend (fixture_env kenv clock random) b i r c t m bk tok s)))"
proof -
  let ?env = "fixture_env kenv clock random"
  have inv: "lg_inv (cn_db s)" and d: "cn_db s = d0 \<or> (\<exists>q rid t1 t2. lg_spend_args fixture_catalog b i r c t m bk tok = Inr q
      \<and> lg_pay_effect q rid t1 t2 d0 (cn_db s))"
    using assms by (simp_all add: paid_once_def)
  obtain x s' where run: "lg_spend ?env b i r c t m bk tok s = (x, s')" by fastforce
  have inv': "lg_inv (cn_db s')"
    using desk.ledger.step_inv [OF inv, of kenv clock random "LSpend b i r c t m bk tok"] run by simp
  have "cn_db s' = cn_db s \<or> (\<exists>q rid t1 t2. lg_spend_args fixture_catalog b i r c t m bk tok = Inr q
      \<and> lg_pay_effect q rid t1 t2 (cn_db s) (cn_db s'))"
  proof (cases x)
    case (Inl e)
    then show ?thesis
      using run desk.ledger.step_rollback [of kenv clock random "LSpend b i r c t m bk tok" s e s'] by simp
  next
    case (Inr v)
    have "le_catalog ?env = fixture_catalog" by (simp add: fixture_env_def)
    with wp_Inr [OF desk.spend_spec [OF inv] run [unfolded Inr]] show ?thesis by metis
  qed
  then show ?thesis
    using d inv' pay_effect_key unfolding paid_once_def run snd_conv by (metis sum.inject(2))
qed

lemma rpc_loop_keeps:
  assumes server: "\<And>s. I s \<Longrightarrow> I (snd (server s))" and count: "\<And>s n. I s \<Longrightarrow> I (s\<lparr>ap_exchanges := n\<rparr>)"
  shows "keeps I (rpc_loop env server n)"
proof (induction n)
  case (Suc n)
  have "keeps I (exchange env server)"
    using server count by (auto simp: keeps_def post_def exchange_def Let_def split: net.split prod.split sum.split) (metis snd_conv)
  then show ?case unfolding rpc_loop.simps by (intro keeps_intros Suc.IH)
qed (simp add: keeps_basic)

text \<open>The purchase a request to the issuer asks for.\<close>

definition spend_call :: "dict \<Rightarrow> lg_spend_request result" where
  "spend_call p = lg_spend_args fixture_catalog (arg p ''buyer'' PNone) (arg p ''request_id'' PNone) (arg p ''resource'' PNone)
     (arg p ''content'' PNone) (arg p ''terms'' PNone) (arg p ''max_units'' PNone) (arg p ''book'' PNone) (arg p ''token'' PNone)"

definition request_call :: "'n app_env \<Rightarrow> http_request \<Rightarrow> lg_spend_request result" where
  "request_call env req = bind_res (read_request env req) (\<lambda>(_, _, payload).
     bind_res (fields payload [''buyer'', ''request_id'', ''resource'', ''content'', ''terms'', ''max_units''] [''book'', ''token''])
       spend_call)"

lemma issuer_spend_once:
  assumes "hr_path req = lit ''/spend''" and "paid_once d0 (request_call env req) (cn_db (ap_desk s))"
  shows "paid_once d0 (request_call env req) (cn_db (ap_desk (snd (issuer_role env req s))))"
  unfolding issuer_role_def
proof (rule do_post_keeps [where I = "\<lambda>s. paid_once d0 (request_call env req) (cn_db (ap_desk s))"])
  fix identity len payload
  assume req: "read_request env req = Inr (identity, len, payload)"
  show "keeps (\<lambda>s. paid_once d0 (request_call env req) (cn_db (ap_desk s))) (issuer_dispatch env (hr_path req) identity payload)"
  proof (cases "fields payload [''buyer'', ''request_id'', ''resource'', ''content'', ''terms'', ''max_units''] [''book'', ''token'']")
    case (Inl e)
    then show ?thesis
      by (simp add: issuer_dispatch_def assms(1) is_buyer_def keeps_def post_simps)
  next
    case (Inr p)
    then have "request_call env req = spend_call p" by (simp add: request_call_def req)
    moreover have "keeps (\<lambda>s. paid_once d0 (spend_call p) (cn_db (ap_desk s)))
      (on_desk (lg_spend (desk_env env) (arg p ''buyer'' PNone) (arg p ''request_id'' PNone) (arg p ''resource'' PNone)
            (arg p ''content'' PNone) (arg p ''terms'' PNone) (arg p ''max_units'' PNone) (arg p ''book'' PNone)
            (arg p ''token'' PNone)))"
      unfolding desk_env_def spend_call_def by (rule keeps_desk) (rule spend_once)
    ultimately show ?thesis
      by (simp add: issuer_dispatch_def assms(1) is_buyer_def Inr keeps_def post_simps)
  qed
qed (use assms(2) in \<open>simp_all add: steady_def\<close>)

text \<open>The purchase that an access makes the publisher ask for, whatever is wrong with the request being an error.\<close>

definition access_call :: "'n app_env \<Rightarrow> http_request \<Rightarrow> lg_spend_request result" where
  "access_call env req = bind_res (read_request env req) (\<lambda>(identity, _, payload).
     bind_res (fields payload [''request_id'', ''resource'', ''content'', ''terms'', ''max_units''] [''book'', ''token''])
       (\<lambda>p. request_call env (rpc_request (lit ''/spend'') (PDict (p @ [(lit ''buyer'', PStr identity)])) (ae_publisher_secret env))))"

lemma elift_bind: "ebind (elift (Inr x)) f = f x"
  by (rule ext) (simp add: ebind_def elift_def)

lemma publisher_once:
  assumes "hr_path req = lit ''/access''" and "paid_once d0 (access_call env req) (cn_db (ap_desk s))"
  shows "paid_once d0 (access_call env req) (cn_db (ap_desk (snd (publisher_role env req s))))"
  unfolding publisher_role_def
proof (rule do_post_keeps [where I = "\<lambda>s. paid_once d0 (access_call env req) (cn_db (ap_desk s))"])
  let ?I = "\<lambda>r s. paid_once d0 r (cn_db (ap_desk s))"
  fix identity len payload
  assume req: "read_request env req = Inr (identity, len, payload)"
  have cred: "keeps (?I r) (check_credential env identity p)" for r p
    unfolding check_credential_def by (intro keeps_intros keeps_outside) simp
  show "keeps (?I (access_call env req)) (publisher_dispatch env (hr_path req) identity payload)"
  proof (cases "fields payload [''request_id'', ''resource'', ''content'', ''terms'', ''max_units''] [''book'', ''token'']")
    case (Inl e)
    then show ?thesis by (simp add: publisher_dispatch_def assms(1) keeps_def post_simps)
  next
    case (Inr p)
    let ?inner = "rpc_request (lit ''/spend'') (PDict (p @ [(lit ''buyer'', PStr identity)])) (ae_publisher_secret env)"
    have call: "access_call env req = request_call env ?inner" by (simp add: access_call_def req Inr)
    have rpc: "keeps (?I (request_call env ?inner))
        (rpc env (issuer_role env) (lit ''/spend'') (PDict (p @ [(lit ''buyer'', PStr identity)])) (ae_publisher_secret env) 3)"
      unfolding rpc_def
      by (rule rpc_loop_keeps) (rule issuer_spend_once, simp_all add: rpc_request_def Let_def)
    show ?thesis
      unfolding call publisher_dispatch_def Inr elift_bind by (intro keeps_intros cred rpc)
  qed
qed (use assms(2) in \<open>simp_all add: steady_def\<close>)

text \<open>What the buyer has when an access returns.\<close>

definition accepted_access :: "ustr \<Rightarrow> pyval \<Rightarrow> bool" where
  "accepted_access resource v \<longleftrightarrow> (\<exists>x words rcpt. map_of fixture_catalog resource = Some x
     \<and> py_get v (lit ''body'') = Inr (PStr words) \<and> text_digest words = lo_content x
     \<and> py_get v (lit ''receipt'') = Inr (PDict rcpt) \<and> map_of rcpt (lit ''buyer'') = Some (PStr (lit ''buyer''))
     \<and> map_of rcpt (lit ''resource'') = Some (PStr resource) \<and> map_of rcpt (lit ''content'') = Some (PStr (lo_content x))
     \<and> map_of rcpt (lit ''units'') = Some (PInt 1000))"

lemma as_str_Some: "as_str v = Some t \<longleftrightarrow> v = PStr t"
  by (cases v) auto

lemma checked_access:
  assumes "access_payload resource request_id book = Inr payload" and "check_access payload resource book result = Inr v"
  shows "accepted_access resource v"
proof -
  obtain x where x: "map_of fixture_catalog resource = Some x" "map_of payload (lit ''content'') = Some (PStr (lo_content x))"
    using assms(1) by (auto simp: access_payload_def split: option.splits)
  from assms(2) obtain body where body: "py_get result (lit ''body'') = Inr body"
    by (auto simp: check_access_def bind_res_Inr_iff)
  moreover obtain s where s: "as_str body = Some s" "text_digest s = lo_content x"
    using assms(2) body by (auto simp: check_access_def x(2) split: option.splits if_splits)
  moreover obtain rc where rc: "py_get result (lit ''receipt'') = Inr rc"
    using assms(2) body s by (auto simp: check_access_def bind_res_Inr_iff x(2))
  moreover obtain r where r: "rc = PDict r" "receipt_matches payload resource book r" "v = result"
    using assms(2) body s rc by (cases rc) (auto simp: check_access_def x(2) split: if_splits)
  ultimately show ?thesis
    using x by (auto simp: accepted_access_def as_str_Some receipt_matches_def)
qed

lemma access_once:
  assumes "access_payload resource request_id book = Inr payload" and "lg_inv (cn_db (ap_desk s))"
  shows "paid_once (cn_db (ap_desk s))
    (access_call env (rpc_request (lit ''/access'') (PDict payload) (ae_buyer_secret env)))
    (cn_db (ap_desk (snd (buyer_access env resource request_id book s))))"
proof -
  let ?req = "rpc_request (lit ''/access'') (PDict payload) (ae_buyer_secret env)"
  let ?I = "\<lambda>t. paid_once (cn_db (ap_desk s)) (access_call env ?req) (cn_db (ap_desk t))"
  have "keeps ?I (rpc env (publisher_role env) (lit ''/access'') (PDict payload) (ae_buyer_secret env) 3)"
    unfolding rpc_def by (rule rpc_loop_keeps) (rule publisher_once, simp_all add: rpc_request_def Let_def)
  then have "keeps ?I (buyer_access env resource request_id book)"
    unfolding buyer_access_def assms(1) elift_bind by (intro keeps_intros)
  from keepsD [OF this, of s] assms(2) show ?thesis by (simp add: paid_once_def)
qed

text \<open>
  C7. A purchase over a network that may lose any request or any reply, at the hop from the buyer to the
  publisher and at the hop from the publisher to the issuer, each retried up to three times, is paid at most
  once: whatever the outcome the buyer sees, the tables are as they were, or exactly one admitted payment was
  made. And what the buyer accepts carries a text with the catalogue's digest of the resource it asked for and
  a receipt in its own name, over that resource and that content, for the price of one document.
\<close>

theorem access_paid_once:
  assumes "lg_inv (cn_db (ap_desk s))"
  shows "case buyer_access env resource request_id book s of (r, s') \<Rightarrow>
    (let d = cn_db (ap_desk s); d' = cn_db (ap_desk s') in
       (d' = d \<or> (\<exists>q rid t t'. lg_pay_effect q rid t t' d d')) \<and> lg_inv d')
    \<and> (\<forall>v. r = Inr v \<longrightarrow> accepted_access resource v)"
proof -
  let ?d = "cn_db (ap_desk s)"
  obtain r s' where run: "buyer_access env resource request_id book s = (r, s')" by fastforce
  show ?thesis
  proof (cases "access_payload resource request_id book")
    case (Inl e)
    then have "s' = s" "\<nexists>v. r = Inr v" using run by (auto simp: buyer_access_def ebind_def elift_def)
    with assms run show ?thesis by (simp add: Let_def)
  next
    case (Inr payload)
    have once: "paid_once ?d (access_call env (rpc_request (lit ''/access'') (PDict payload) (ae_buyer_secret env)))
        (cn_db (ap_desk s'))"
      using access_once [OF Inr assms, of env] run by simp
    have "\<exists>result. check_access payload resource book result = Inr v" if "r = Inr v" for v
      using run that unfolding buyer_access_def Inr elift_bind
      by (auto simp: ebind_def elift_def split: prod.splits sum.splits)
    then have "\<forall>v. r = Inr v \<longrightarrow> accepted_access resource v" using checked_access [OF Inr] by blast
    with once run show ?thesis
      by (auto simp: paid_once_def accepted_access_def Let_def)
  qed
qed

section \<open>An example\<close>

definition demo_app_env :: "(nat \<Rightarrow> net) \<Rightarrow> slots app_env" where
  "demo_app_env net = \<lparr>ae_keys = demo_keys_env, ae_clock = (\<lambda>n. 10), ae_random = (\<lambda>n. lit ''id''), ae_jwt = demo_jwt,
     ae_buyer_secret = lit ''s1'', ae_other_secret = lit ''s2'', ae_publisher_secret = lit ''s3'', ae_net = net\<rparr>"

definition demo_app :: "slots app" where
  "demo_app = \<lparr>ap_desk = demo_desk, ap_consumer = no_tokens, ap_drops = [], ap_errors = [], ap_requests = 0,
     ap_request_bytes = 0, ap_response_bytes = 0, ap_dropped = 0, ap_exchanges = 0\<rparr>"

lemma demo_app_inv: "lg_inv (cn_db (ap_desk demo_app))"
  unfolding demo_app_def demo_desk_def by (simp only: app.simps fixture_inv)

lemma demo_lost:
  "rpc_loop (demo_app_env (\<lambda>_. Lost)) server 3 s = (Inl (OSError ''transport''), s\<lparr>ap_exchanges := 3 + ap_exchanges s\<rparr>)"
  by (simp add: numeral_3_eq_3 ebind_def exchange_def Let_def demo_app_env_def eraise_def)


theorem access_paid_once_witness:
  "lg_inv (cn_db (ap_desk demo_app))
   \<and> (case buyer_access (demo_app_env (\<lambda>i. if i = 0 then ReplyLost else Delivered)) (lit ''r0'') (lit ''q1'') None demo_app of
       (r, s') \<Rightarrow> let d = cn_db (ap_desk demo_app); d' = cn_db (ap_desk s') in
         (d' = d \<or> (\<exists>q rid t t'. lg_pay_effect q rid t t' d d')) \<and> lg_inv d')"
  using access_paid_once [OF demo_app_inv, where env = "demo_app_env (\<lambda>i. if i = 0 then ReplyLost else Delivered)"
      and resource = "lit ''r0''" and request_id = "lit ''q1''" and book = None]
    demo_app_inv by (simp add: split_beta)

end
