(* ===== verification/Recovery.thy ===== *)
theory Recovery
  imports ServiceClaims
begin

text \<open>
  What a buyer who repeats an access gets: the answer of the first one. The reply of the issuer is tied to the
  row that the payment left in the ledger, and the answer the buyer sees is a function of that reply.
\<close>

section \<open>Errors are not mistaken for answers\<close>

lemma sort_keys_idem [simp]: "sort_keys (sort_keys v) = sort_keys v"
proof (induction v rule: sort_keys.induct)
  case (2 kvs)
  let ?f = "\<lambda>(k, v). (k, sort_keys v)" and ?s = "sort_key fst (map (\<lambda>(k, v). (k, sort_keys v)) kvs)"
  have "map ?f ?s = ?s"
    by (rule map_idI) (use 2 in force)
  moreover have "sort_key fst ?s = ?s" by (rule sort_key_id_if_sorted) simp
  ultimately show ?case by simp
qed simp_all

lemma dumps_sort_keys [simp]: "dumps_sorted (sort_keys v) = dumps_sorted v"
  by (simp add: dumps_sorted_def)

text \<open>An exception that the handler does not turn into status 200.\<close>

definition denied :: "exn \<Rightarrow> bool" where
  "denied e \<longleftrightarrow> error_status e \<noteq> 200"

lemma denied_simps [simp]:
  "denied (Denied m)" "denied (ValueError m)" "denied (TypeError m)" "denied (KeyError m)" "denied (RuntimeError m)"
  "denied (IntegrityError m)" "denied (JwtError m)" "denied (OSError m)" "denied (UnicodeError m)"
  "denied (RemoteError n) \<longleftrightarrow> n \<noteq> 200"
  by (simp_all add: denied_def)

lemma stored_json_denied: "stored_json t = Inl e \<Longrightarrow> denied e"
  by (auto simp: stored_json_def split: option.splits)

lemma py_get_denied: "py_get v k = Inl e \<Longrightarrow> denied e"
  by (cases v) (auto simp: py_get_def split: option.splits)

lemma check_name_denied: "check_name v = Inl e \<Longrightarrow> denied e"
  by (auto simp: check_name_def split: option.splits if_splits)

lemma check_range_denied: "check_range v a b = Inl e \<Longrightarrow> denied e"
  by (auto simp: check_range_def split: option.splits if_splits)

lemma offer_denied: "lg_offer_of c v = Inl e \<Longrightarrow> denied e"
  by (auto simp: lg_offer_of_def bind_res_def split: option.splits sum.splits dest: check_name_denied)

lemma spend_args_denied: "lg_spend_args c b i r co t m bk tok = Inl e \<Longrightarrow> denied e"
  by (auto simp: lg_spend_args_def lg_book_arg_def bind_res_def split: sum.splits if_splits
      dest: check_name_denied check_range_denied offer_denied)

definition quiet :: "('db, 'z, 'a) act \<Rightarrow> bool" where
  "quiet m \<longleftrightarrow> (\<forall>s e s'. m s = (Inl e, s') \<longrightarrow> denied e)"

named_theorems quiet_intros \<open>introduction rules of \<open>quiet\<close>\<close>

lemma quiet_basic [quiet_intros]:
  "quiet (ret x)" "quiet (query f)" "quiet (read_clock c)" "quiet (draw g)"
  by (simp_all add: quiet_def ret_def query_def read_clock_def draw_def)

lemma quiet_raises [quiet_intros]:
  "denied e \<Longrightarrow> quiet (raise e)" "denied e \<Longrightarrow> quiet (guard b e)" "(\<And>e. r = Inl e \<Longrightarrow> denied e) \<Longrightarrow> quiet (lift_res r)"
  by (auto simp: quiet_def raise_def guard_def ret_def lift_res_def)

lemma quiet_execute [quiet_intros]: "(\<And>d e. f d = Inl e \<Longrightarrow> denied e) \<Longrightarrow> quiet (execute f)"
  by (auto simp: quiet_def execute_def split: sum.splits)

lemma quiet_bind [quiet_intros]: "quiet m \<Longrightarrow> (\<And>x. quiet (f x)) \<Longrightarrow> quiet (bind_act m f)"
  by (auto simp: quiet_def bind_act_def split: prod.splits sum.splits)

lemma quiet_transaction [quiet_intros]: "quiet m \<Longrightarrow> quiet (transaction m)"
  by (auto simp: quiet_def transaction_def split: prod.splits sum.splits)

lemma quiet_branches [quiet_intros]:
  "quiet m \<Longrightarrow> quiet m' \<Longrightarrow> quiet (if b then m else m')"
  "quiet m \<Longrightarrow> (\<And>x. quiet (f x)) \<Longrightarrow> quiet (case v of None \<Rightarrow> m | Some x \<Rightarrow> f x)"
  by (simp_all split: option.split)

lemma constraint_denied: "check_constraint b d = Inl e \<Longrightarrow> denied e"
  by (auto simp: check_constraint_def split: if_splits)

lemma quiet_spend: "quiet (lg_spend env b i r c t m bk tok)"
proof -
  have prior: "quiet (lg_prior table u k fp)" for table :: "ledger_db \<Rightarrow> lg_receipt list" and u k fp
    unfolding lg_prior_def by (intro quiet_intros) (auto dest: stored_json_denied)
  have table: "quiet (execute (lg_update_books P g))" "quiet (execute (lg_update_accounts Q h))"
    "quiet (execute (lg_insert_receipt x))" "quiet (execute (lg_add_accrued n))" for P g Q h x n
    by (rule quiet_execute; auto simp: lg_update_books_def lg_update_accounts_def lg_insert_receipt_def lg_add_accrued_def
        dest: constraint_denied)+
  have book: "quiet (lg_pay_book env q bid)" for q bid
    unfolding lg_pay_book_def Let_def by (intro quiet_intros table) simp_all
  have direct: "quiet (lg_pay_direct q)" for q
    unfolding lg_pay_direct_def lg_move_def Let_def by (intro quiet_intros table) simp_all
  show ?thesis
    unfolding lg_spend_def lg_spend_tx_def Let_def
    by (intro quiet_intros prior book direct table) (auto dest: spend_args_denied)
qed

section \<open>What a reply says\<close>

lemma read_request_denied: "read_request env req = Inl e \<Longrightarrow> denied e"
  by (auto simp: read_request_def bind_res_def split: list.splits option.splits if_splits sum.splits dest: stored_json_denied)

lemma do_post_answer:
  assumes disp: "\<And>identity len payload t. read_request env req = Inr (identity, len, payload) \<Longrightarrow> J t \<Longrightarrow>
      post (dispatch (hr_path req) identity payload) (\<lambda>v t'. J t' \<and> Q v t') (\<lambda>e t'. J t' \<and> denied e) t"
    and J: "steady J" and Q: "\<And>v. steady (Q v)" and s: "J s" and run: "do_post env dispatch role req s = (r, s')"
  shows "J s' \<and> (\<forall>raw. r = Some (200, raw) \<longrightarrow> (\<exists>v. raw = dumps_sorted v \<and> Q v s'))"
proof -
  have mods: "K (t\<lparr>ap_requests := a, ap_request_bytes := b\<rparr>)" "K (t\<lparr>ap_drops := ds, ap_dropped := n\<rparr>)"
    "K (t\<lparr>ap_response_bytes := m\<rparr>)" "K (note_error e t)" if "steady K" "K t" for K t a b ds n m e
    by (rule steadyD [OF that]; simp add: note_error_def split: exn.split)+
  have served: "post (serve env dispatch role req) (\<lambda>v t. J t \<and> (\<forall>w. v = Some w \<longrightarrow> Q w t)) (\<lambda>e t. J t \<and> denied e) s"
  proof (cases "read_request env req")
    case (Inl e)
    then show ?thesis using s read_request_denied [OF Inl] by (simp add: serve_def post_simps)
  next
    case (Inr p)
    obtain identity len payload where p: "p = (identity, len, payload)" by (cases p)
    have "post (dispatch (hr_path req) identity payload) (\<lambda>v t'. J t' \<and> Q v t') (\<lambda>e t'. J t' \<and> denied e)
        (s\<lparr>ap_requests := Suc (ap_requests s), ap_request_bytes := ap_request_bytes s + len\<rparr>)"
      by (rule disp) (use Inr p mods(1) [OF J s] in simp_all)
    then show ?thesis
      unfolding serve_def by (simp add: post_simps Inr p) (erule post_mono, auto simp: mods J Q post_simps)
  qed
  show ?thesis
  proof (cases "serve env dispatch role req s")
    case (Pair x t)
    with served run show ?thesis
      by (cases x) (auto simp: do_post_def post_def answer_def Let_def denied_def mods J Q split: option.splits)
  qed
qed

lemma rpc_loop_reply:
  assumes server: "\<And>t r t'. J t \<Longrightarrow> server t = (r, t') \<Longrightarrow> J t' \<and> (\<forall>raw. r = Some (200, raw) \<longrightarrow> Q raw t')"
    and count: "\<And>t n. J t \<Longrightarrow> J (t\<lparr>ap_exchanges := n\<rparr>)"
  shows "J s \<Longrightarrow> post (rpc_loop env server n)
    (\<lambda>v t. J t \<and> (\<exists>raw. Q raw t \<and> length raw \<le> MAX_BODY \<and> stored_json raw = Inr v)) (\<lambda>e t. J t \<and> denied e) s"
proof (induction n arbitrary: s)
  case 0
  then show ?case by (simp add: post_simps)
next
  case (Suc n)
  have x: "post (exchange env server) (\<lambda>r t. J t \<and> (\<forall>raw. r = Some (200, raw) \<longrightarrow> Q raw t)) (\<lambda>_ _. False) s"
  proof -
    obtain r t where rt: "server (s\<lparr>ap_exchanges := Suc (ap_exchanges s)\<rparr>) = (r, t)" by fastforce
    from server [OF count [OF Suc.prems] rt] show ?thesis
      using count [OF Suc.prems] by (auto simp: post_def exchange_def Let_def rt split: net.split)
  qed
  show ?case
    unfolding rpc_loop.simps post_bind
  proof (rule post_mono [OF x])
    fix r :: "reply option" and t
    assume t: "J t \<and> (\<forall>raw. r = Some (200, raw) \<longrightarrow> Q raw t)"
    show "post (case r of None \<Rightarrow> if n = 0 then eraise (OSError ''transport'') else rpc_loop env server n
       | Some (status, raw) \<Rightarrow>
           if MAX_BODY < length raw then eraise (RuntimeError ''oversized response'')
           else if status = 503 \<and> n \<noteq> 0 then rpc_loop env server n
           else if status \<noteq> 200 then eraise (RemoteError status)
           else elift (stored_json raw))
        (\<lambda>v t. J t \<and> (\<exists>raw. Q raw t \<and> length raw \<le> MAX_BODY \<and> stored_json raw = Inr v)) (\<lambda>e t. J t \<and> denied e) t"
      using t Suc.IH [of t] by (auto simp: post_simps dest: stored_json_denied split: option.split sum.split)
  qed simp
qed

section \<open>The receipt behind a reply\<close>

text \<open>\<open>raw\<close> is the text of the receipt that the ledger remembers for the purchase \<open>r\<close>.\<close>

definition receipt_text :: "ledger_db \<Rightarrow> lg_spend_request result \<Rightarrow> ustr \<Rightarrow> bool" where
  "receipt_text d r raw \<longleftrightarrow> (\<exists>q w. r = Inr q \<and> prior_row (lg_receipts d) (sq_buyer q) (sq_request q) (sq_fp q) w
     \<and> raw = dumps_sorted w)"

lemma receipt_text_kept: "rows_kept d d' \<Longrightarrow> receipt_text d r raw \<Longrightarrow> receipt_text d' r raw"
  unfolding receipt_text_def rows_kept_def by (metis prior_row_mono)

lemma receipt_text_unique:
  assumes "lg_inv d" and "receipt_text d r raw" and "receipt_text d r raw'"
  shows "raw = raw'"
proof -
  from assms(2,3) obtain q w w' where r: "r = Inr q" and w: "prior_row (lg_receipts d) (sq_buyer q) (sq_request q) (sq_fp q) w"
    and w': "prior_row (lg_receipts d) (sq_buyer q) (sq_request q) (sq_fp q) w'" and raw: "raw = dumps_sorted w" "raw' = dumps_sorted w'"
    by (auto simp: receipt_text_def)
  have dis: "distinct (map lr_key (lg_receipts d))" using lg_inv_parts(4) [OF assms(1)] by (simp add: lg_receipts_inv_def)
  from w obtain x where x: "x \<in> set (lg_receipts d)" "lr_key x = (sq_buyer q, sq_request q)" "loads (lr_response x) = Some w"
    by (auto simp: prior_row_def lr_key_def)
  from w' obtain y where y: "y \<in> set (lg_receipts d)" "lr_key y = (sq_buyer q, sq_request q)" "loads (lr_response y) = Some w'"
    by (auto simp: prior_row_def lr_key_def)
  from dis x(1,2) y(1,2) have "x = y" by (metis distinct_map inj_onD)
  with x(3) y(3) raw show ?thesis by simp
qed

lemma receipt_text_key:
  "receipt_text d (Inr q) raw \<Longrightarrow> (sq_buyer q, sq_request q) \<in> set (map lr_key (lg_receipts d))"
  by (force simp: receipt_text_def prior_row_def lr_key_def)

lemma spend_reply:
  assumes ids: "\<forall>n. plain (random n)" and inv: "lg_inv (cn_db s)"
    and run: "lg_spend (fixture_env kenv clock random) b i r c t m bk tok s = (x, s')"
  shows "lg_inv (cn_db s') \<and> rows_kept (cn_db s) (cn_db s')"
    and "x = Inr v \<Longrightarrow> receipt_text (cn_db s') (lg_spend_args fixture_catalog b i r c t m bk tok) (dumps_sorted v)"
proof -
  let ?op = "LSpend b i r c t m bk tok"
  have kept: "rows_kept (cn_db s) (cn_db (run_ops (fixture_step kenv clock random) [FxLedger ?op] s))"
    by (rule fixture_kept [OF inv])
  moreover have "lg_inv (cn_db (run_ops (fixture_step kenv clock random) [FxLedger ?op] s))"
    by (rule fixture.run_inv [OF inv])
  ultimately show "lg_inv (cn_db s') \<and> rows_kept (cn_db s) (cn_db s')" by (simp add: run)
  assume x: "x = Inr v"
  have "retryable ?op" by simp
  moreover have "lg_step (fixture_env kenv clock random) ?op s = (Inr v, s')" using run x by simp
  ultimately obtain w where w: "w = v \<or> w = sort_keys v" "request_row (fixture_env kenv clock random) ?op (cn_db s') w"
    using request_stored [OF ids inv] by blast
  have "le_catalog (fixture_env kenv clock random) = fixture_catalog" by (simp add: fixture_env_def)
  with w(2) obtain q where "lg_spend_args fixture_catalog b i r c t m bk tok = Inr q"
    "prior_row (lg_receipts (cn_db s')) (sq_buyer q) (sq_request q) (sq_fp q) w" by auto
  then have "receipt_text (cn_db s') (lg_spend_args fixture_catalog b i r c t m bk tok) (dumps_sorted w)"
    by (auto simp: receipt_text_def)
  then show "receipt_text (cn_db s') (lg_spend_args fixture_catalog b i r c t m bk tok) (dumps_sorted v)"
    using w(1) by auto
qed

text \<open>What holds of the ledger during a request that started on \<open>d0\<close>.\<close>

definition grown :: "ledger_db \<Rightarrow> 'n app \<Rightarrow> bool" where
  "grown d0 t \<longleftrightarrow> lg_inv (cn_db (ap_desk t)) \<and> rows_kept d0 (cn_db (ap_desk t))"

lemma rows_kept_trans: "rows_kept d d' \<Longrightarrow> rows_kept d' d'' \<Longrightarrow> rows_kept d d''"
  by (auto simp: rows_kept_def)

lemma grown_steady: "steady (grown d0)" "steady (\<lambda>t. receipt_text (cn_db (ap_desk t)) r raw)"
  by (simp_all add: steady_def grown_def)

definition sent_by :: "'n app_env \<Rightarrow> http_request \<Rightarrow> (ustr \<Rightarrow> bool) \<Rightarrow> bool" where
  "sent_by env req P \<longleftrightarrow> (\<exists>identity len payload. read_request env req = Inr (identity, len, payload) \<and> P identity)"

lemma issuer_reply:
  fixes env :: "'n app_env"
  assumes ids: "\<forall>n. plain (ae_random env n)" and path: "hr_path req = lit ''/spend''" and t: "grown d0 t"
    and run: "issuer_role env req t = (r, t')"
  shows "grown d0 t' \<and> (\<forall>raw. r = Some (200, raw) \<longrightarrow>
    receipt_text (cn_db (ap_desk t')) (request_call env req) raw \<and> sent_by env req (\<lambda>i. i = lit ''publisher''))"
proof -
  let ?R = "\<lambda>v (t :: 'n app). receipt_text (cn_db (ap_desk t)) (request_call env req) (dumps_sorted v)"
  let ?Q = "\<lambda>v t. ?R v t \<and> sent_by env req (\<lambda>i. i = lit ''publisher'')"
  have steady: "steady (?Q v)" for v by (simp add: steady_def)
  have "grown d0 t' \<and> (\<forall>raw. r = Some (200, raw) \<longrightarrow> (\<exists>v. raw = dumps_sorted v \<and> ?Q v t'))"
  proof (rule do_post_answer [OF _ grown_steady(1) steady t])
    show "do_post env (issuer_dispatch env) Issuer req t = (r, t')" using run by (simp add: issuer_role_def)
    fix identity len payload and u :: "'n app"
    assume req: "read_request env req = Inr (identity, len, payload)" and u: "grown d0 u"
    show "post (issuer_dispatch env (hr_path req) identity payload) (\<lambda>v t'. grown d0 t' \<and> ?Q v t') (\<lambda>e t'. grown d0 t' \<and> denied e) u"
    proof (cases "fields payload [''buyer'', ''request_id'', ''resource'', ''content'', ''terms'', ''max_units''] [''book'', ''token'']")
      case (Inl e)
      moreover from Inl have "denied e" by (auto simp: fields_def split: pyval.splits if_splits)
      ultimately show ?thesis using u by (simp add: issuer_dispatch_def path is_buyer_def post_simps)
    next
      case (Inr p)
      let ?spend = "lg_spend (desk_env env) (arg p ''buyer'' PNone) (arg p ''request_id'' PNone) (arg p ''resource'' PNone)
            (arg p ''content'' PNone) (arg p ''terms'' PNone) (arg p ''max_units'' PNone) (arg p ''book'' PNone) (arg p ''token'' PNone)"
      have call: "request_call env req = spend_call p" by (simp add: request_call_def req Inr)
      have "post (on_desk ?spend) (\<lambda>v t'. grown d0 t' \<and> ?R v t') (\<lambda>e t'. grown d0 t' \<and> denied e) u"
      proof -
        obtain x d' where sp: "?spend (ap_desk u) = (x, d')" by fastforce
        have inv: "lg_inv (cn_db (ap_desk u))" using u by (simp add: grown_def)
        note reply = spend_reply [OF ids inv sp [unfolded desk_env_def]]
        have "grown d0 (u\<lparr>ap_desk := d'\<rparr>)" using reply(1) u rows_kept_trans by (auto simp: grown_def)
        moreover have "denied e" if "x = Inl e" for e using quiet_spend sp that unfolding quiet_def by metis
        ultimately show ?thesis
          using reply(2) by (auto simp: post_def on_desk_def ezoom_def sp call spend_call_def split: sum.split)
      qed
      moreover have "sent_by env req (\<lambda>i. i = lit ''publisher'')" if "identity = lit ''publisher''"
        using req that by (simp add: sent_by_def)
      ultimately show ?thesis using u by (simp add: issuer_dispatch_def path is_buyer_def Inr post_simps)
    qed
  qed
  then show ?thesis by blast
qed

section \<open>The publisher's answer\<close>

text \<open>PyJWT raises its own exceptions or those of Python, not the \<open>RemoteError\<close> of this program.\<close>

definition jwt_errors :: "jwt_lib \<Rightarrow> bool" where
  "jwt_errors lib \<longleftrightarrow> (\<forall>t n. jw_header lib t \<noteq> Inl (RemoteError n)) \<and> (\<forall>k t n. jw_decode lib k t \<noteq> Inl (RemoteError n))"

lemma fresh_claims_denied:
  assumes "jwt_errors lib" and "fresh_claims lib pins t = Inl e"
  shows "denied e"
proof -
  have other: "denied x" if "\<And>n. x \<noteq> RemoteError n" for x using that by (cases x) (auto simp: denied_def)
  obtain x where x: "decode_pinned lib pins t = Inl x" and e: "e = x \<or> denied e"
    using assms(2) by (auto simp: fresh_claims_def split: sum.splits if_splits)
  from x have "denied x"
    using assms(1) by (auto simp: decode_pinned_def bind_res_def jwt_errors_def intro: other split: sum.splits option.splits if_splits)
  with e show ?thesis by auto
qed

lemma consumer_denied:
  assumes "jwt_errors lib"
  shows "post (consumer_verify lib pins token buyer book) (\<lambda>_ _. True) (\<lambda>e _. denied e) s"
  by (auto simp: consumer_verify_def cached_claims_def post_simps check_scope_def intro: fresh_claims_denied [OF assms]
      split: option.split sum.split)

lemma credential_denied:
  assumes "jwt_errors (ae_jwt env)"
  shows "post (check_credential env identity p) (\<lambda>_ _. True) (\<lambda>e _. denied e) s"
  using consumer_denied [OF assms]
  by (auto simp: check_credential_def on_consumer_def post_simps split: option.split)

lemma entitled_body_denied: "entitled_body rc = Inl e \<Longrightarrow> denied e"
  by (auto simp: entitled_body_def bind_res_def dest: py_get_denied split: sum.splits option.splits if_splits)

lemma fields_denied: "fields p a b = Inl e \<Longrightarrow> denied e"
  by (auto simp: fields_def split: pyval.splits if_splits)

text \<open>
  The publisher answers the request with \<open>v\<close>: the request is a buyer's, the purchase \<open>inner\<close> it asks the
  issuer for is one the issuer serves, and \<open>v\<close> is made of the receipt the ledger remembers for it.
\<close>

definition inner_request :: "'n app_env \<Rightarrow> ustr \<Rightarrow> dict \<Rightarrow> http_request" where
  "inner_request env identity p =
     rpc_request (lit ''/spend'') (PDict (p @ [(lit ''buyer'', PStr identity)])) (ae_publisher_secret env)"

definition access_fields :: "'n app_env \<Rightarrow> http_request \<Rightarrow> (ustr \<times> dict) result" where
  "access_fields env req = bind_res (read_request env req) (\<lambda>(identity, _, payload).
     bind_res (fields payload [''request_id'', ''resource'', ''content'', ''terms'', ''max_units''] [''book'', ''token''])
       (\<lambda>p. Inr (identity, p)))"

definition paid_receipt :: "'n app_env \<Rightarrow> http_request \<Rightarrow> ledger_db \<Rightarrow> ustr \<Rightarrow> bool" where
  "paid_receipt env inner d raw \<longleftrightarrow> receipt_text d (request_call env inner) raw
     \<and> sent_by env inner (\<lambda>i. i = lit ''publisher'') \<and> length raw \<le> MAX_BODY"

definition access_result :: "'n app_env \<Rightarrow> http_request \<Rightarrow> ledger_db \<Rightarrow> pyval \<Rightarrow> bool" where
  "access_result env req d v \<longleftrightarrow> (\<exists>identity p raw rc. access_fields env req = Inr (identity, p) \<and> is_buyer identity
     \<and> paid_receipt env (inner_request env identity p) d raw \<and> stored_json raw = Inr rc \<and> entitled_body rc = Inr v)"

lemma publisher_reply:
  fixes env :: "'n app_env"
  assumes ids: "\<forall>n. plain (ae_random env n)" and lib: "jwt_errors (ae_jwt env)"
    and path: "hr_path req = lit ''/access''" and t: "grown d0 t" and run: "publisher_role env req t = (r, t')"
  shows "grown d0 t' \<and> (\<forall>raw. r = Some (200, raw) \<longrightarrow> (\<exists>v. raw = dumps_sorted v \<and> access_result env req (cn_db (ap_desk t')) v))"
proof (rule do_post_answer [OF _ grown_steady(1) _ t])
  let ?Q = "\<lambda>v (t :: 'n app). access_result env req (cn_db (ap_desk t)) v"
  show "do_post env (publisher_dispatch env) Publisher req t = (r, t')" using run by (simp add: publisher_role_def)
  show "steady (?Q v)" for v by (simp add: steady_def)
  fix identity len payload and u :: "'n app"
  assume req: "read_request env req = Inr (identity, len, payload)" and u: "grown d0 u"
  show "post (publisher_dispatch env (hr_path req) identity payload) (\<lambda>v t'. grown d0 t' \<and> ?Q v t') (\<lambda>e t'. grown d0 t' \<and> denied e) u"
  proof (cases "fields payload [''request_id'', ''resource'', ''content'', ''terms'', ''max_units''] [''book'', ''token'']")
    case (Inl e)
    with u fields_denied [OF this] show ?thesis by (simp add: publisher_dispatch_def path post_simps)
  next
    case (Inr p)
    let ?rpc = "rpc env (issuer_role env) (lit ''/spend'') (PDict (p @ [(lit ''buyer'', PStr identity)])) (ae_publisher_secret env) 3"
    have call: "access_fields env req = Inr (identity, p)" by (simp add: access_fields_def req Inr)
    have inner: "post ?rpc (\<lambda>rc t. grown d0 t \<and> (\<exists>raw. paid_receipt env (inner_request env identity p) (cn_db (ap_desk t)) raw
        \<and> stored_json raw = Inr rc)) (\<lambda>e t. grown d0 t \<and> denied e) w" if "grown d0 w" for w
      unfolding rpc_def inner_request_def [symmetric]
      by (rule post_mono, rule rpc_loop_reply [where J = "grown d0", OF _ _ that]; (rule issuer_reply [OF ids])?)
        (auto simp: rpc_request_def inner_request_def Let_def grown_def paid_receipt_def)
    have cred: "post (check_credential env identity p) (\<lambda>_. grown d0) (\<lambda>e t. denied e \<and> grown d0 t) u"
    proof -
      have "keeps (grown d0) (check_credential env identity p)"
        unfolding check_credential_def by (intro keeps_intros keeps_outside) (simp add: grown_def)
      then have "post (check_credential env identity p) (\<lambda>_. grown d0) (\<lambda>_. grown d0) u" using u by (simp add: keeps_def)
      from post_conj [OF credential_denied [OF lib] this] show ?thesis by (rule post_mono) simp_all
    qed
    have paid: "post (ebind ?rpc (\<lambda>rc. elift (entitled_body rc))) (\<lambda>v t'. grown d0 t' \<and> ?Q v t') (\<lambda>e t'. grown d0 t' \<and> denied e) w"
      if "grown d0 w" and "is_buyer identity" for w
      unfolding post_bind using inner [OF that(1)]
      by (rule post_mono) (use that(2) call in \<open>auto simp: post_simps access_result_def intro: entitled_body_denied split: sum.split\<close>)
    have "post (ebind (check_credential env identity p) (\<lambda>_. ebind ?rpc (\<lambda>rc. elift (entitled_body rc))))
        (\<lambda>v t'. grown d0 t' \<and> ?Q v t') (\<lambda>e t'. grown d0 t' \<and> denied e) u" if "is_buyer identity"
      unfolding post_bind [of "check_credential env identity p"] using cred paid [OF _ that] by (rule post_mono) blast+
    with u show ?thesis by (simp add: publisher_dispatch_def path Inr elift_bind post_basic)
  qed
qed

section \<open>What a repeated access returns\<close>

text \<open>\<open>v\<close> is a text the publisher sent, read back by the buyer.\<close>

definition access_answer :: "'n app_env \<Rightarrow> http_request \<Rightarrow> ledger_db \<Rightarrow> pyval \<Rightarrow> bool" where
  "access_answer env req d v \<longleftrightarrow> (\<exists>w. access_result env req d w \<and> length (dumps_sorted w) \<le> MAX_BODY
     \<and> stored_json (dumps_sorted w) = Inr v)"

lemma access_answer_kept: "rows_kept d d' \<Longrightarrow> access_answer env req d v \<Longrightarrow> access_answer env req d' v"
  using receipt_text_kept by (fastforce simp: access_answer_def access_result_def paid_receipt_def)

lemma access_result_unique: "lg_inv d \<Longrightarrow> access_result env req d v \<Longrightarrow> access_result env req d w \<Longrightarrow> v = w"
  unfolding access_result_def paid_receipt_def by (metis receipt_text_unique sum.inject(2) prod.inject)

lemma access_answer_unique: "lg_inv d \<Longrightarrow> access_answer env req d v \<Longrightarrow> access_answer env req d w \<Longrightarrow> v = w"
  unfolding access_answer_def by (metis access_result_unique sum.inject(2))

lemma check_access_same: "check_access payload resource book result = Inr v \<Longrightarrow> v = result"
proof -
  assume v: "check_access payload resource book result = Inr v"
  then obtain body where body: "py_get result (lit ''body'') = Inr body" by (auto simp: check_access_def bind_res_Inr_iff)
  obtain x where x: "as_str body = Some x" using v body by (auto simp: check_access_def split: option.splits)
  obtain rc where rc: "py_get result (lit ''receipt'') = Inr rc"
    using v body x by (auto simp: check_access_def bind_res_Inr_iff split: if_splits)
  show "v = result" using v body x rc by (cases rc) (auto simp: check_access_def split: if_splits)
qed

definition buyer_request :: "'n app_env \<Rightarrow> dict \<Rightarrow> http_request" where
  "buyer_request env payload = rpc_request (lit ''/access'') (PDict payload) (ae_buyer_secret env)"

lemma buyer_reply:
  assumes ids: "\<forall>n. plain (ae_random env n)" and lib: "jwt_errors (ae_jwt env)" and inv: "lg_inv (cn_db (ap_desk s))"
    and payload: "access_payload resource request_id book = Inr payload"
    and run: "buyer_access env resource request_id book s = (Inr v, s')"
  shows "lg_inv (cn_db (ap_desk s'))" and "access_answer env (buyer_request env payload) (cn_db (ap_desk s')) v"
    and "check_access payload resource book v = Inr v"
proof -
  let ?req = "buyer_request env payload" and ?J = "grown (cn_db (ap_desk s))"
  let ?Q = "\<lambda>raw t. \<exists>v. raw = dumps_sorted v \<and> access_result env ?req (cn_db (ap_desk t)) v"
  have start: "?J s" using inv by (simp add: grown_def rows_kept_def)
  have "post (rpc env (publisher_role env) (lit ''/access'') (PDict payload) (ae_buyer_secret env) 3)
      (\<lambda>v t. ?J t \<and> (\<exists>raw. ?Q raw t \<and> length raw \<le> MAX_BODY \<and> stored_json raw = Inr v)) (\<lambda>e t. ?J t \<and> denied e) s"
    unfolding rpc_def buyer_request_def [symmetric]
    by (rule rpc_loop_reply [where J = ?J and Q = ?Q, OF _ _ start]; (rule publisher_reply [OF ids lib])?)
      (simp_all add: rpc_request_def buyer_request_def Let_def grown_def)
  moreover obtain w t where w: "rpc env (publisher_role env) (lit ''/access'') (PDict payload) (ae_buyer_secret env) 3 s = (Inr w, t)"
    "check_access payload resource book w = Inr v" "s' = t"
    using run unfolding buyer_access_def payload elift_bind by (auto simp: ebind_def elift_def split: prod.splits sum.splits)
  moreover have "v = w" using check_access_same [OF w(2)] .
  ultimately have "?J s' \<and> (\<exists>raw. ?Q raw s' \<and> length raw \<le> MAX_BODY \<and> stored_json raw = Inr v)" by (auto simp: post_def)
  then show "lg_inv (cn_db (ap_desk s'))" and "access_answer env ?req (cn_db (ap_desk s')) v"
    by (auto simp: grown_def access_answer_def)
  show "check_access payload resource book v = Inr v" using w(2) \<open>v = w\<close> by simp
qed

section \<open>A paid access gets through when the messages do\<close>

lemma rpc_first:
  assumes "ae_net env (ap_exchanges s) = Delivered" and "length raw \<le> MAX_BODY"
    and "server (s\<lparr>ap_exchanges := Suc (ap_exchanges s)\<rparr>) = (Some (200, raw), t)"
  shows "rpc_loop env server (Suc n) s = (stored_json raw, t)"
  using assms by (simp add: ebind_def exchange_def elift_def)

text \<open>The counters of the handlers aside, the states are the same.\<close>

definition same_core :: "'n app \<Rightarrow> 'n app \<Rightarrow> bool" where
  "same_core s t \<longleftrightarrow> ap_desk t = ap_desk s \<and> ap_exchanges t = ap_exchanges s \<and> ap_drops t = ap_drops s"

lemma do_post_ok:
  assumes req: "read_request env req = Inr (identity, len, payload)" and drops: "ap_drops s = []"
    and disp: "\<And>u. same_core s u \<Longrightarrow> ap_consumer u = ap_consumer s \<Longrightarrow>
      \<exists>t. dispatch (hr_path req) identity payload u = (Inr v, t) \<and> ap_desk t = d \<and> ap_drops t = []"
  shows "\<exists>t. do_post env dispatch role req s = (Some (200, dumps_sorted v), t) \<and> ap_desk t = d \<and> ap_drops t = []"
proof -
  let ?u = "s\<lparr>ap_requests := Suc (ap_requests s), ap_request_bytes := ap_request_bytes s + len\<rparr>"
  have "same_core s ?u" "ap_consumer ?u = ap_consumer s" by (simp_all add: same_core_def)
  from disp [OF this] obtain t where t: "dispatch (hr_path req) identity payload ?u = (Inr v, t)" "ap_desk t = d" "ap_drops t = []"
    by blast
  have "serve env dispatch role req s = (Inr (Some v), t)"
    by (simp add: serve_def req elift_bind) (simp add: ebind_def emod_def eget_def eret_def t)
  then show ?thesis using t by (simp add: do_post_def answer_def Let_def)
qed

definition spend_op :: "dict \<Rightarrow> lg_op" where
  "spend_op p = LSpend (arg p ''buyer'' PNone) (arg p ''request_id'' PNone) (arg p ''resource'' PNone)
    (arg p ''content'' PNone) (arg p ''terms'' PNone) (arg p ''max_units'' PNone) (arg p ''book'' PNone) (arg p ''token'' PNone)"

lemma issuer_serves:
  fixes s :: "'n app"
  assumes path: "hr_path req = lit ''/spend''" and drops: "ap_drops s = []"
    and req: "read_request env req = Inr (lit ''publisher'', len, payload)"
    and p: "fields payload [''buyer'', ''request_id'', ''resource'', ''content'', ''terms'', ''max_units''] [''book'', ''token''] = Inr p"
    and step: "lg_step (desk_env env) (spend_op p) (ap_desk s) = (Inr v, d)"
  shows "\<exists>t. issuer_role env req s = (Some (200, dumps_sorted v), t) \<and> ap_desk t = d \<and> ap_drops t = []"
  unfolding issuer_role_def
proof (rule do_post_ok [OF req drops])
  fix u :: "'n app"
  assume u: "same_core s u"
  with step have "issuer_dispatch env (hr_path req) (lit ''publisher'') payload u = (Inr v, u\<lparr>ap_desk := d\<rparr>)"
    by (simp add: issuer_dispatch_def path is_buyer_def p elift_bind on_desk_def ezoom_def same_core_def spend_op_def)
  with u drops show "\<exists>t. issuer_dispatch env (hr_path req) (lit ''publisher'') payload u = (Inr v, t) \<and> ap_desk t = d \<and> ap_drops t = []"
    by (simp add: same_core_def)
qed

lemma issuer_replay:
  assumes inv: "lg_inv (cn_db (ap_desk s))" and paid: "paid_receipt env req (cn_db (ap_desk s)) raw"
    and path: "hr_path req = lit ''/spend''" and drops: "ap_drops s = []"
  shows "\<exists>t. issuer_role env req s = (Some (200, raw), t) \<and> ap_desk t = ap_desk s \<and> ap_drops t = []"
proof -
  from paid obtain len payload where req: "read_request env req = Inr (lit ''publisher'', len, payload)"
    by (auto simp: paid_receipt_def sent_by_def)
  from paid obtain q w where q: "request_call env req = Inr q" and raw: "raw = dumps_sorted w"
    and row: "prior_row (lg_receipts (cn_db (ap_desk s))) (sq_buyer q) (sq_request q) (sq_fp q) w"
    by (auto simp: paid_receipt_def receipt_text_def)
  from q obtain p where p: "fields payload [''buyer'', ''request_id'', ''resource'', ''content'', ''terms'', ''max_units''] [''book'', ''token''] = Inr p"
    and args: "spend_call p = Inr q"
    by (auto simp: request_call_def req bind_res_Inr_iff)
  have "le_catalog (desk_env env) = fixture_catalog" by (simp add: desk_env_def fixture_env_def)
  then have "request_row (desk_env env) (spend_op p) (cn_db (ap_desk s)) w" using row args by (auto simp: spend_call_def spend_op_def)
  from issuer_serves [OF path drops req p request_replay [OF inv this]] show ?thesis unfolding raw .
qed

lemma credential_outcome:
  assumes "ap_desk u = ap_desk s" and "ap_consumer u = ap_consumer s"
  shows "fst (check_credential env identity p u) = fst (check_credential env identity p s)"
  using assms by (simp add: check_credential_def on_consumer_def ebind_def eraise_def eret_def eget_def ezoom_def
      split: option.split prod.split sum.split)

lemma credential_core:
  assumes "check_credential env identity p s = (r, t)"
  shows "same_core s t"
proof -
  have "keeps (same_core s) (check_credential env identity p)"
    unfolding check_credential_def by (intro keeps_intros keeps_outside) (simp add: same_core_def)
  from keepsD [OF this, of s] assms show ?thesis by (simp add: same_core_def)
qed

text \<open>The publisher still accepts the credential that comes with the request.\<close>

definition credential_accepted :: "'n app_env \<Rightarrow> http_request \<Rightarrow> 'n app \<Rightarrow> bool" where
  "credential_accepted env req s \<longleftrightarrow> (\<forall>identity p. access_fields env req = Inr (identity, p) \<longrightarrow>
     fst (check_credential env identity p s) = Inr ())"

lemma publisher_serves:
  fixes s :: "'n app"
  assumes path: "hr_path req = lit ''/access''" and drops: "ap_drops s = []"
    and call: "access_fields env req = Inr (identity, p)" and buyer: "is_buyer identity"
    and net: "ae_net env (ap_exchanges s) = Delivered" and cred: "credential_accepted env req s"
    and issuer: "\<And>w. ap_desk w = ap_desk s \<Longrightarrow> ap_drops w = [] \<Longrightarrow>
      \<exists>t. issuer_role env (inner_request env identity p) w = (Some (200, raw), t) \<and> ap_desk t = d \<and> ap_drops t = []"
    and rc: "length raw \<le> MAX_BODY" "stored_json raw = Inr rc" "entitled_body rc = Inr v"
  shows "\<exists>t. publisher_role env req s = (Some (200, dumps_sorted v), t) \<and> ap_desk t = d \<and> ap_drops t = []"
proof -
  from call obtain len payload where req: "read_request env req = Inr (identity, len, payload)"
    and p: "fields payload [''request_id'', ''resource'', ''content'', ''terms'', ''max_units''] [''book'', ''token''] = Inr p"
    by (auto simp: access_fields_def bind_res_Inr_iff)
  show ?thesis
    unfolding publisher_role_def
  proof (rule do_post_ok [OF req drops])
    fix u :: "'n app"
    assume u: "same_core s u" "ap_consumer u = ap_consumer s"
    obtain w where w: "check_credential env identity p u = (Inr (), w)"
      using cred call credential_outcome [of u s env identity p] u
      by (cases "check_credential env identity p u") (auto simp: credential_accepted_def same_core_def)
    have core: "same_core s w" using credential_core [OF w] u(1) by (simp add: same_core_def)
    obtain t where t: "issuer_role env (inner_request env identity p) (w\<lparr>ap_exchanges := Suc (ap_exchanges w)\<rparr>) = (Some (200, raw), t)"
      "ap_desk t = d" "ap_drops t = []"
      using issuer [of "w\<lparr>ap_exchanges := Suc (ap_exchanges w)\<rparr>"] core drops by (auto simp: same_core_def)
    have "rpc env (issuer_role env) (lit ''/spend'') (PDict (p @ [(lit ''buyer'', PStr identity)])) (ae_publisher_secret env) 3 w
        = (Inr rc, t)"
      unfolding rpc_def inner_request_def [symmetric] numeral_3_eq_3
      by (subst rpc_first [where s = w and server = "issuer_role env (inner_request env identity p)", OF _ _ t(1)])
        (use net core rc in \<open>simp_all add: same_core_def\<close>)
    then have "publisher_dispatch env (hr_path req) identity payload u = (Inr v, t)"
      by (simp add: publisher_dispatch_def path buyer p elift_bind) (simp add: ebind_def w elift_def rc)
    with t show "\<exists>t. publisher_dispatch env (hr_path req) identity payload u = (Inr v, t) \<and> ap_desk t = d \<and> ap_drops t = []"
      by simp
  qed
qed

lemma publisher_replay:
  assumes inv: "lg_inv (cn_db (ap_desk s))" and res: "access_result env req (cn_db (ap_desk s)) v"
    and path: "hr_path req = lit ''/access''" and drops: "ap_drops s = []"
    and net: "ae_net env (ap_exchanges s) = Delivered" and cred: "credential_accepted env req s"
  shows "\<exists>t. publisher_role env req s = (Some (200, dumps_sorted v), t) \<and> ap_desk t = ap_desk s \<and> ap_drops t = []"
proof -
  from res obtain identity p raw rc where call: "access_fields env req = Inr (identity, p)" "is_buyer identity"
    and paid: "paid_receipt env (inner_request env identity p) (cn_db (ap_desk s)) raw"
    and rc: "stored_json raw = Inr rc" "entitled_body rc = Inr v"
    by (auto simp: access_result_def)
  show ?thesis
  proof (rule publisher_serves [OF path drops call net cred _ _ rc])
    show "length raw \<le> MAX_BODY" using paid by (simp add: paid_receipt_def)
    fix w :: "'a app"
    assume "ap_desk w = ap_desk s" "ap_drops w = []"
    with issuer_replay [of w env "inner_request env identity p" raw] inv paid
    show "\<exists>t. issuer_role env (inner_request env identity p) w = (Some (200, raw), t) \<and> ap_desk t = ap_desk s \<and> ap_drops t = []"
      by (simp add: inner_request_def rpc_request_def Let_def)
  qed
qed

lemma buyer_gets:
  fixes s :: "'n app"
  assumes payload: "access_payload resource request_id book = Inr payload" and drops: "ap_drops s = []"
    and net: "ae_net env (ap_exchanges s) = Delivered"
    and publisher: "\<And>w. ap_desk w = ap_desk s \<Longrightarrow> ap_consumer w = ap_consumer s \<Longrightarrow> ap_drops w = [] \<Longrightarrow>
      ap_exchanges w = Suc (ap_exchanges s) \<Longrightarrow>
      \<exists>t. publisher_role env (buyer_request env payload) w = (Some (200, raw), t) \<and> ap_desk t = d \<and> ap_drops t = []"
    and res: "length raw \<le> MAX_BODY" "stored_json raw = Inr v" "check_access payload resource book v = Inr v"
  shows "\<exists>t. buyer_access env resource request_id book s = (Inr v, t) \<and> ap_desk t = d \<and> ap_drops t = []"
proof -
  obtain t where t: "publisher_role env (buyer_request env payload) (s\<lparr>ap_exchanges := Suc (ap_exchanges s)\<rparr>) = (Some (200, raw), t)"
    "ap_desk t = d" "ap_drops t = []"
    using publisher [of "s\<lparr>ap_exchanges := Suc (ap_exchanges s)\<rparr>"] drops by auto
  have "rpc env (publisher_role env) (lit ''/access'') (PDict payload) (ae_buyer_secret env) 3 s = (Inr v, t)"
    unfolding rpc_def buyer_request_def [symmetric] numeral_3_eq_3
    by (subst rpc_first [where s = s and server = "publisher_role env (buyer_request env payload)", OF _ _ t(1)]) (use net res in simp_all)
  then show ?thesis using t by (simp add: buyer_access_def payload elift_bind) (simp add: ebind_def elift_def res)
qed

lemma credential_core_eq:
  "credential_accepted env req s \<Longrightarrow> ap_desk w = ap_desk s \<Longrightarrow> ap_consumer w = ap_consumer s \<Longrightarrow> credential_accepted env req w"
  using credential_outcome [of w s env] by (simp add: credential_accepted_def)

lemma buyer_replay:
  assumes inv: "lg_inv (cn_db (ap_desk s))" and payload: "access_payload resource request_id book = Inr payload"
    and ans: "access_answer env (buyer_request env payload) (cn_db (ap_desk s)) v"
    and check: "check_access payload resource book v = Inr v" and drops: "ap_drops s = []"
    and net: "ae_net env (ap_exchanges s) = Delivered" "ae_net env (Suc (ap_exchanges s)) = Delivered"
    and cred: "credential_accepted env (buyer_request env payload) s"
  shows "fst (buyer_access env resource request_id book s) = Inr v"
proof -
  from ans obtain w where w: "access_result env (buyer_request env payload) (cn_db (ap_desk s)) w"
    "length (dumps_sorted w) \<le> MAX_BODY" "stored_json (dumps_sorted w) = Inr v"
    by (auto simp: access_answer_def)
  have "\<exists>t. buyer_access env resource request_id book s = (Inr v, t) \<and> ap_desk t = ap_desk s \<and> ap_drops t = []"
  proof (rule buyer_gets [OF payload drops net(1) _ w(2,3) check])
    fix u :: "'a app"
    assume u: "ap_desk u = ap_desk s" "ap_consumer u = ap_consumer s" "ap_drops u = []" "ap_exchanges u = Suc (ap_exchanges s)"
    with inv w(1) net(2) credential_core_eq [OF cred u(1,2)]
    show "\<exists>t. publisher_role env (buyer_request env payload) u = (Some (200, dumps_sorted w), t) \<and> ap_desk t = ap_desk s \<and> ap_drops t = []"
      using publisher_replay [of u env "buyer_request env payload" w] by (simp add: buyer_request_def rpc_request_def Let_def)
  qed
  then show ?thesis by auto
qed

end
