(* ===== verification/Delivery.thy ===== *)
theory Delivery
  imports Recovery
begin

text \<open>
  What the HTTP service guarantees when the network delivers: a purchase the buyer can pay for returns the document and a
  receipt, and an access that returned once is answered again, with the same answer and for nothing, after
  any further history.
\<close>

section \<open>A purchase from the balance\<close>

lemma pay_direct_runs:
  assumes inv: "lg_inv (cn_db s)" and a: "a \<in> set (lg_accounts (cn_db s))" "la_buyer a = sq_buyer q"
    "lo_units (sq_offer q) \<le> la_available a" and units: "0 \<le> lo_units (sq_offer q)"
  shows "wp (lg_pay_direct q) (\<lambda>_ s'. \<exists>accounts. cn_db s' = (cn_db s)\<lparr>lg_accounts := accounts\<rparr>
      \<and> map la_buyer accounts = map la_buyer (lg_accounts (cn_db s))) (\<lambda>_ _. False) s"
proof -
  let ?n = "lo_units (sq_offer q)" and ?accounts = "lg_accounts (cn_db s)"
  let ?P = "\<lambda>a. la_buyer a = sq_buyer q \<and> ?n \<le> la_available a"
  let ?g = "\<lambda>a. a\<lparr>la_available := la_available a - ?n, la_spent := la_spent a + ?n\<rparr>"
  have dis: "distinct (map la_buyer ?accounts)" and ok: "\<forall>a \<in> set ?accounts. lg_account_ok a"
    using lg_inv_parts(1) [OF inv] by (simp_all add: lg_accounts_inv_def)
  have "filter ?P ?accounts = [a]" by (rule filter_by_key [OF dis a(1)]) (use a in auto)
  moreover have "\<forall>a \<in> set ?accounts. ?P a \<longrightarrow> lg_account_ok (?g a)" using ok units by (auto simp: lg_account_ok_def)
  moreover have "map la_buyer (update_rows ?P ?g ?accounts) = map la_buyer ?accounts" by (auto simp: update_rows_def)
  ultimately show ?thesis
    by (simp add: lg_pay_direct_def lg_move_def lg_update_accounts_def run_simps Let_def) blast
qed

lemma direct_spend_runs:
  assumes inv: "lg_inv (cn_db s)" and args: "lg_spend_args (le_catalog env) b i r c t m bk tok = Inr q" and book: "sq_book q = None"
    and fresh: "(sq_buyer q, sq_request q) \<notin> set (map lr_key (lg_receipts (cn_db s)))"
    and a: "a \<in> set (lg_accounts (cn_db s))" "la_buyer a = sq_buyer q" "lo_units (sq_offer q) \<le> la_available a"
    and units: "0 \<le> lo_units (sq_offer q)" "lo_units (sq_offer q) \<le> sq_max_units q"
  shows "wp (lg_spend env b i r c t m bk tok) (\<lambda>v s'. (\<exists>n k. v = lg_receipt_value q (le_random env n) (le_clock env k))
      \<and> lg_accrued (cn_db s') = lg_accrued (cn_db s) + lo_units (sq_offer q)) (\<lambda>_ _. False) s"
proof -
  have none: "find (\<lambda>r. lr_buyer r = sq_buyer q \<and> lr_request_id r = sq_request q) (lg_receipts (cn_db s)) = None"
    using fresh by (force simp: find_None_iff lr_key_def)
  have accrued: "0 \<le> lg_accrued (cn_db s)"
    using lg_moneyD(3) [OF inv] lg_inv_parts(4) [OF inv] by (auto simp: lg_receipts_inv_def lg_receipt_ok_def intro!: sum_list_nonneg)
  have "wp (lg_pay_direct q) (\<lambda>_ s'. \<exists>accounts. cn_db s' = (cn_db s)\<lparr>lg_accounts := accounts\<rparr>
      \<and> map la_buyer accounts = map la_buyer (lg_accounts (cn_db s))) (\<lambda>_ _. False) (s\<lparr>cn_saved := cn_db s # cn_saved s\<rparr>)"
    using pay_direct_runs [of "s\<lparr>cn_saved := cn_db s # cn_saved s\<rparr>" a q] inv a units by simp
  then show ?thesis
    unfolding lg_spend_def lg_spend_tx_def
  proof (simp add: run_simps args lg_prior_def none units book Let_def, elim wp_mono)
    fix u and s' :: "'a ledger_conn"
    assume "\<exists>accounts. cn_db s' = cn_db s\<lparr>lg_accounts := accounts\<rparr> \<and> map la_buyer accounts = map la_buyer (lg_accounts (cn_db s))"
    then obtain accounts where s': "cn_db s' = cn_db s\<lparr>lg_accounts := accounts\<rparr>"
      and same: "map la_buyer accounts = map la_buyer (lg_accounts (cn_db s))" by blast
    have "sq_buyer q \<in> set (map la_buyer accounts)" unfolding same using a by force
    moreover have "(sq_buyer q, sq_request q) \<notin> set (map lr_key (lg_receipts (cn_db s')))" using fresh by (simp add: s')
    ultimately show "wp (bind_act (draw (le_random env)) (\<lambda>rid. bind_act (read_clock (le_clock env)) (\<lambda>t.
        bind_act (execute (lg_insert_receipt (lg_new_receipt q (lg_receipt_value q rid t)))) (\<lambda>_.
        bind_act (execute (lg_add_accrued (lo_units (sq_offer q)))) (\<lambda>_. ret (lg_receipt_value q rid t))))))
      (\<lambda>v s'. (\<exists>n k. v = lg_receipt_value q (le_random env n) (le_clock env k))
        \<and> lg_accrued (cn_db s') = lg_accrued (cn_db s) + lo_units (sq_offer q)) (\<lambda>_ _. False) s'"
      using accrued units(1)
      by (simp add: run_simps lg_insert_receipt_def lg_add_accrued_def lg_new_receipt_def lr_key_def book lc_key_def
          check_constraint_def s' del: set_map) blast
  qed simp
qed

section \<open>Texts on the wire\<close>

text \<open>A dictionary whose values are not containers.\<close>

definition flat :: "dict \<Rightarrow> bool" where
  "flat kvs \<longleftrightarrow> (\<forall>(k, v) \<in> set kvs. (\<exists>s. v = PStr s \<and> plain s) \<or> (\<exists>n. v = PInt n) \<or> v = PNone)"

lemma flat_simps:
  "flat []" "flat ((k, v) # kvs) \<longleftrightarrow> ((\<exists>s. v = PStr s \<and> plain s) \<or> (\<exists>n. v = PInt n) \<or> v = PNone) \<and> flat kvs"
  by (auto simp: flat_def)

lemma flat_sorted:
  assumes "flat kvs"
  shows "sort_keys (PDict kvs) = PDict (sort_key fst kvs)"
proof -
  have "map (\<lambda>(k, v). (k, sort_keys v)) kvs = kvs" by (rule map_idI) (use assms in \<open>auto simp: flat_def\<close>)
  then show ?thesis by simp
qed

lemma flat_json_ok:
  assumes "flat kvs" and "distinct (map fst kvs)" and "\<forall>k \<in> set (map fst kvs). plain k"
  shows "json_ok (PDict kvs)"
proof -
  have "json_ok v" if "(k, v) \<in> set kvs" for k v using assms(1) that json_ok_plain by (force simp: flat_def)
  moreover have "\<forall>c \<in> set k. scalar c" if "(k, v) \<in> set kvs" for k v
    using assms(3) that json_ok_plain [of k] by force
  ultimately show ?thesis using assms(2) by auto
qed

lemma stored_dumps: "json_ok v \<Longrightarrow> stored_json (dumps_sorted v) = Inr (sort_keys v)"
  by (simp add: stored_json_def loads_dumps)

lemma read_rpc:
  assumes "identify env (lit ''Bearer '' @ secret) = Some identity" and "json_ok v" and "length (dumps_sorted v) \<le> MAX_BODY"
  shows "read_request env (rpc_request path v secret) = Inr (identity, length (dumps_sorted v), sort_keys v)"
proof -
  have "dumps_sorted v \<noteq> []" using skip_ws_text(2) [of "sort_keys v"] assms(2) by (simp add: dumps_sorted_def json_ok_sort_keys)
  then show ?thesis using assms stored_dumps by (simp add: read_request_def rpc_request_def Let_def)
qed

text \<open>The three callers have different secrets.\<close>

definition secrets_differ :: "'n app_env \<Rightarrow> bool" where
  "secrets_differ env \<longleftrightarrow> distinct [ae_buyer_secret env, ae_other_secret env, ae_publisher_secret env]"

lemma identify_secret:
  assumes "secrets_differ env"
  shows "identify env (lit ''Bearer '' @ ae_buyer_secret env) = Some (lit ''buyer'')"
    and "identify env (lit ''Bearer '' @ ae_publisher_secret env) = Some (lit ''publisher'')"
  using assms by (auto simp: identify_def secrets_differ_def)

lemma plain_append [simp]: "plain (s @ t) \<longleftrightarrow> plain s \<and> plain t"
  by (auto simp: plain_def)

lemma catalogue_entry:
  assumes "map_of fixture_catalog resource = Some x"
  shows "is_name resource" and "lo_units x = 1000"
    and "plain (lo_content x)" "length (lo_content x) = 64" "plain (lo_terms x)" "length (lo_terms x) = 64"
    and "\<exists>body. map_of fixture_data resource = Some body \<and> text_digest body = lo_content x \<and> plain body \<and> length body \<le> 4000"
proof -
  obtain body where body: "map_of fixture_data resource = Some body" and x: "x = \<lparr>lo_content = text_digest body,
     lo_terms = text_digest (lit ''local simulated terms v1''), lo_units = 1000\<rparr>"
    using assms by (auto simp: catalog_content)
  show "lo_units x = 1000" "plain (lo_content x)" "plain (lo_terms x)" by (simp_all add: x plain_digest)
  show "length (lo_content x) = 64" "length (lo_terms x) = 64" by (simp_all add: x text_digest_def sha256_hex_def)
  obtain i where i: "i < 32" and r: "resource = lit ''r'' @ dec_nat i"
    and b: "body = concat (replicate 40 (lit ''Synthetic licensed document '' @ dec_nat i @ lit ''. ''))"
    using map_of_SomeD [OF body] by (auto simp: fixture_data_def)
  have digits: "\<forall>c \<in> set (dec_nat i). 48 \<le> c \<and> c \<le> 57" and len: "length (dec_nat i) \<le> 2"
    using dec_nat_digits [of i] length_dec_nat [of i 2] i by (simp_all add: is_digit_def)
  show "is_name resource" using digits len by (auto simp: r is_name_def lg_char_def lit_def)
  have "plain body" using digits by (auto simp: b plain_def lit_def)
  moreover have "length body \<le> 4000" using len by (simp add: b length_concat lit_def sum_list_replicate)
  ultimately show "\<exists>body. map_of fixture_data resource = Some body \<and> text_digest body = lo_content x \<and> plain body \<and> length body \<le> 4000"
    using body x by auto
qed

section \<open>The purchase on the wire\<close>

definition direct_payload :: "ustr \<Rightarrow> ustr \<Rightarrow> lg_offer \<Rightarrow> dict" where
  "direct_payload resource request_id x = [(lit ''resource'', PStr resource), (lit ''request_id'', PStr request_id),
     (lit ''content'', PStr (lo_content x)), (lit ''terms'', PStr (lo_terms x)), (lit ''max_units'', PInt 1000)]"

lemma length_flat:
  assumes "\<forall>(k, v) \<in> set kvs. plain k \<and> length k \<le> 32 \<and> ((\<exists>s. v = PStr s \<and> plain s \<and> length s \<le> 128)
      \<or> (\<exists>n. v = PInt n \<and> 0 \<le> n \<and> n < 10 ^ 13) \<or> v = PNone)"
  shows "length (dumps_sorted (PDict kvs)) \<le> 2 + length kvs * 256"
proof -
  let ?w = "\<lambda>p. length (json_str (fst p)) + length (json_text (sort_keys (snd p))) + 2"
  have "?w p \<le> 256" if "p \<in> set kvs" for p
  proof -
    obtain k v where p: "p = (k, v)" by (cases p)
    have "plain k" "length k \<le> 32" and v: "(\<exists>s. v = PStr s \<and> plain s \<and> length s \<le> 128) \<or> (\<exists>n. v = PInt n \<and> 0 \<le> n \<and> n < 10 ^ 13) \<or> v = PNone"
      using assms that p by auto
    moreover have "length (json_text (sort_keys v)) \<le> 130"
      using v length_dec_int [of _ 12] by (fastforce simp: length_json_str_plain lit_def)
    ultimately show ?thesis by (simp add: p length_json_str_plain)
  qed
  then have "sum_list (map ?w kvs) \<le> length kvs * 256"
    using sum_list_mono [of kvs ?w "\<lambda>_. 256"] by (simp add: sum_list_triv)
  with length_dumps_dict [of kvs] show ?thesis by simp
qed

lemma direct_flat:
  assumes "map_of fixture_catalog resource = Some x" and "is_name request_id"
  defines "p \<equiv> direct_payload resource request_id x"
  shows "flat p" and "distinct (map fst p)" and "\<forall>k \<in> set (map fst p). plain k \<and> length k \<le> 32"
    and "\<forall>(k, v) \<in> set p. (\<exists>s. v = PStr s \<and> plain s \<and> length s \<le> 128) \<or> (\<exists>n. v = PInt n \<and> 0 \<le> n \<and> n < 10 ^ 13) \<or> v = PNone"
proof -
  note x = catalogue_entry [OF assms(1)]
  have r: "plain resource" "length resource \<le> 128" and q: "plain request_id" "length request_id \<le> 128"
    using plain_name [OF x(1)] plain_name [OF assms(2)] x(1) assms(2) by (simp_all add: is_name_def)
  show "flat p" using x r q by (simp add: p_def direct_payload_def flat_simps)
  show "distinct (map fst p)" by (simp add: p_def direct_payload_def lit_def)
  show "\<forall>k \<in> set (map fst p). plain k \<and> length k \<le> 32" by (simp add: p_def direct_payload_def lit_def plain_def)
  show "\<forall>(k, v) \<in> set p. (\<exists>s. v = PStr s \<and> plain s \<and> length s \<le> 128) \<or> (\<exists>n. v = PInt n \<and> 0 \<le> n \<and> n < 10 ^ 13) \<or> v = PNone"
    using x r q by (simp add: p_def direct_payload_def)
qed

lemma direct_access:
  fixes env :: "'n app_env"
  assumes cat: "map_of fixture_catalog resource = Some x" and name: "is_name request_id" and secrets: "secrets_differ env"
  defines "p \<equiv> sort_key fst (direct_payload resource request_id x)"
  defines "k \<equiv> sort_key fst (p @ [(lit ''buyer'', PStr (lit ''buyer''))])"
  shows "access_fields env (buyer_request env (direct_payload resource request_id x)) = Inr (lit ''buyer'', p)"
    and "credential_accepted env (buyer_request env (direct_payload resource request_id x)) s"
    and "\<exists>n. read_request env (inner_request env (lit ''buyer'') p) = Inr (lit ''publisher'', n, PDict k)"
    and "fields (PDict k) [''buyer'', ''request_id'', ''resource'', ''content'', ''terms'', ''max_units''] [''book'', ''token''] = Inr k"
    and "spend_op k = LSpend (PStr (lit ''buyer'')) (PStr request_id) (PStr resource) (PStr (lo_content x)) (PStr (lo_terms x))
      (PInt 1000) PNone PNone"
proof -
  let ?p = "direct_payload resource request_id x" and ?q = "p @ [(lit ''buyer'', PStr (lit ''buyer''))]"
  note flat = direct_flat [OF cat name]
  have five: "length ?p = 5" by (simp add: direct_payload_def)
  have keys: "set (map fst p) = set (map fst ?p)" and len: "length p = 5" and set: "set p = set ?p"
    unfolding p_def by (simp_all add: five)
  have b: "plain (lit ''buyer'')" "length (lit ''buyer'') = 5" by (simp_all add: plain_def lit_def)
  have max: "length (dumps_sorted (PDict kvs)) \<le> MAX_BODY" if "length kvs \<le> 6"
    "\<forall>(k, v) \<in> set kvs. plain k \<and> length k \<le> 32 \<and> ((\<exists>s. v = PStr s \<and> plain s \<and> length s \<le> 128)
      \<or> (\<exists>n. v = PInt n \<and> 0 \<le> n \<and> n < 10 ^ 13) \<or> v = PNone)" for kvs
    using length_flat [OF that(2)] that(1) by (simp add: MAX_BODY_def)
  have ok: "json_ok (PDict ?p)" by (rule flat_json_ok) (use flat in auto)
  have mp: "length (dumps_sorted (PDict ?p)) \<le> MAX_BODY"
    by (rule max) (use flat(3,4) five in \<open>auto simp: image_iff\<close>)
  have "read_request env (buyer_request env ?p) = Inr (lit ''buyer'', length (dumps_sorted (PDict ?p)), PDict p)"
    unfolding buyer_request_def read_rpc [OF identify_secret(1) [OF secrets] ok mp] flat_sorted [OF flat(1)] p_def ..
  moreover have "fields (PDict p) [''request_id'', ''resource'', ''content'', ''terms'', ''max_units''] [''book'', ''token''] = Inr p"
    unfolding fields_def pyval.case keys by (simp add: direct_payload_def)
  ultimately show call: "access_fields env (buyer_request env ?p) = Inr (lit ''buyer'', p)"
    by (simp add: access_fields_def)
  have lookup: "map_of p = map_of ?p" unfolding p_def by (rule map_of_sort_key) (rule flat)
  show "credential_accepted env (buyer_request env ?p) s"
  proof -
    have "map_of p (lit ''book'') = None" "map_of p (lit ''token'') = None"
      unfolding lookup by (simp_all add: direct_payload_def lit_def)
    then show ?thesis unfolding credential_accepted_def call by (simp add: check_credential_def eret_def)
  qed
  have dis: "distinct (map fst ?q)" using flat(2) by (auto simp: p_def direct_payload_def lit_def)
  have fq: "flat ?q" using flat(1) set b by (auto simp: flat_def)
  have okq: "json_ok (PDict ?q)" by (rule flat_json_ok [OF fq dis]) (use flat(3) keys b in auto)
  have mq: "length (dumps_sorted (PDict ?q)) \<le> MAX_BODY"
    by (rule max) (use flat(3,4) len set b in \<open>auto simp: image_iff\<close>)
  show "\<exists>n. read_request env (inner_request env (lit ''buyer'') p) = Inr (lit ''publisher'', n, PDict k)"
    unfolding inner_request_def read_rpc [OF identify_secret(2) [OF secrets] okq mq] flat_sorted [OF fq] k_def by blast
  have "set (map fst k) = insert (lit ''buyer'') (set (map fst ?p))" using keys by (simp add: k_def)
  then show "fields (PDict k) [''buyer'', ''request_id'', ''resource'', ''content'', ''terms'', ''max_units''] [''book'', ''token''] = Inr k"
    unfolding fields_def pyval.case by (simp add: direct_payload_def)
  have "map_of k = map_of ?q" unfolding k_def by (rule map_of_sort_key [OF dis])
  then show "spend_op k = LSpend (PStr (lit ''buyer'')) (PStr request_id) (PStr resource) (PStr (lo_content x)) (PStr (lo_terms x))
      (PInt 1000) PNone PNone"
    unfolding spend_op_def arg_def by (simp add: lookup direct_payload_def lit_def)
qed

definition direct_request :: "ustr \<Rightarrow> ustr \<Rightarrow> lg_offer \<Rightarrow> lg_spend_request" where
  "direct_request resource request_id x = \<lparr>sq_buyer = lit ''buyer'', sq_request = request_id, sq_resource = resource,
     sq_max_units = 1000, sq_book = None, sq_token = PNone, sq_offer = x,
     sq_fp = lg_digest (PList [PNone, PStr resource, PStr (lo_content x), PStr (lo_terms x), PInt 1000])\<rparr>"

lemma direct_args:
  assumes "map_of fixture_catalog resource = Some x" and "is_name request_id"
  shows "lg_spend_args fixture_catalog (PStr (lit ''buyer'')) (PStr request_id) (PStr resource) (PStr (lo_content x)) (PStr (lo_terms x))
    (PInt 1000) PNone PNone = Inr (direct_request resource request_id x)"
proof -
  have "is_name (lit ''buyer'')" by (simp add: is_name_def lg_char_def lit_def)
  with assms catalogue_entry(1) [OF assms(1)] show ?thesis
    by (simp add: lg_spend_args_def check_name_def check_range_def lg_book_arg_def lg_offer_of_def direct_request_def)
qed

lemma receipt_read:
  assumes cat: "map_of fixture_catalog resource = Some x" and name: "is_name request_id"
    and rid: "plain rid" "length rid \<le> 128" and t: "0 \<le> t" "t < 10 ^ 13"
  defines "rc \<equiv> lg_receipt_value (direct_request resource request_id x) rid t"
  shows "length (dumps_sorted rc) \<le> 4096" and "json_ok rc"
    and "\<exists>kvs. sort_keys rc = PDict kvs \<and> receipt_matches (direct_payload resource request_id x) resource None kvs
      \<and> map_of kvs (lit ''resource'') = Some (PStr resource) \<and> map_of kvs (lit ''content'') = Some (PStr (lo_content x))"
proof -
  note x = catalogue_entry [OF cat]
  have r: "plain resource" "length resource \<le> 128" using plain_name [OF x(1)] x(1) by (simp_all add: is_name_def)
  obtain kvs where kvs: "rc = PDict kvs" and "length kvs = 9"
    and dis: "distinct (map fst kvs)" and keys: "\<forall>k \<in> set (map fst kvs). plain k \<and> length k \<le> 32"
    and vals: "\<forall>(k, v) \<in> set kvs. (\<exists>s. v = PStr s \<and> plain s \<and> length s \<le> 128) \<or> (\<exists>n. v = PInt n \<and> 0 \<le> n \<and> n < 10 ^ 13) \<or> v = PNone"
    and found: "map_of kvs (lit ''buyer'') = Some (PStr (lit ''buyer''))" "map_of kvs (lit ''publisher'') = Some (PStr (lit ''publisher''))"
      "map_of kvs (lit ''book'') = Some PNone" "map_of kvs (lit ''resource'') = Some (PStr resource)"
      "map_of kvs (lit ''content'') = Some (PStr (lo_content x))" "map_of kvs (lit ''terms'') = Some (PStr (lo_terms x))"
      "map_of kvs (lit ''units'') = Some (PInt 1000)"
  proof
    let ?kvs = "case rc of PDict kvs \<Rightarrow> kvs"
    show "rc = PDict ?kvs" "length ?kvs = 9" by (simp_all add: rc_def lg_receipt_value_def)
    show "distinct (map fst ?kvs)" by (simp add: rc_def lg_receipt_value_def lit_def)
    show "\<forall>k \<in> set (map fst ?kvs). plain k \<and> length k \<le> 32" by (simp add: rc_def lg_receipt_value_def lit_def plain_def)
    show "\<forall>(k, v) \<in> set ?kvs. (\<exists>s. v = PStr s \<and> plain s \<and> length s \<le> 128) \<or> (\<exists>n. v = PInt n \<and> 0 \<le> n \<and> n < 10 ^ 13) \<or> v = PNone"
      using x r rid t by (simp add: rc_def lg_receipt_value_def direct_request_def) (simp add: lit_def plain_def)
    show "map_of ?kvs (lit ''buyer'') = Some (PStr (lit ''buyer''))" "map_of ?kvs (lit ''publisher'') = Some (PStr (lit ''publisher''))"
      "map_of ?kvs (lit ''book'') = Some PNone" "map_of ?kvs (lit ''resource'') = Some (PStr resource)"
      "map_of ?kvs (lit ''content'') = Some (PStr (lo_content x))" "map_of ?kvs (lit ''terms'') = Some (PStr (lo_terms x))"
      "map_of ?kvs (lit ''units'') = Some (PInt 1000)"
      using x(2) by (simp_all add: rc_def lg_receipt_value_def direct_request_def lit_def)
  qed
  have flat: "flat kvs" using vals by (auto simp: flat_def)
  show "length (dumps_sorted rc) \<le> 4096"
    using length_flat [of kvs] keys vals \<open>length kvs = 9\<close> by (force simp: kvs)
  show "json_ok rc" unfolding kvs by (rule flat_json_ok [OF flat dis]) (use keys in simp)
  have "receipt_matches (direct_payload resource request_id x) resource None (sort_key fst kvs)"
    unfolding receipt_matches_def arg_def map_of_sort_key [OF dis] using found
    by (simp add: direct_payload_def lit_def)
  then show "\<exists>kvs. sort_keys rc = PDict kvs \<and> receipt_matches (direct_payload resource request_id x) resource None kvs
      \<and> map_of kvs (lit ''resource'') = Some (PStr resource) \<and> map_of kvs (lit ''content'') = Some (PStr (lo_content x))"
    unfolding kvs flat_sorted [OF flat] using found by (simp add: map_of_sort_key [OF dis])
qed

lemma receipt_answer:
  assumes cat: "map_of fixture_catalog resource = Some x" and name: "is_name request_id"
    and rid: "plain rid" "length rid \<le> 128" and t: "0 \<le> t" "t < 10 ^ 13"
  defines "rc \<equiv> lg_receipt_value (direct_request resource request_id x) rid t"
  obtains w v where "entitled_body (sort_keys rc) = Inr w" and "length (dumps_sorted w) \<le> MAX_BODY"
    and "stored_json (dumps_sorted w) = Inr v"
    and "check_access (direct_payload resource request_id x) resource None v = Inr v"
proof -
  note rc = receipt_read [OF cat name rid t, folded rc_def]
  obtain kvs where kvs: "sort_keys rc = PDict kvs" and matches: "receipt_matches (direct_payload resource request_id x) resource None kvs"
    and found: "map_of kvs (lit ''resource'') = Some (PStr resource)" "map_of kvs (lit ''content'') = Some (PStr (lo_content x))"
    using rc(3) by blast
  obtain body where body: "map_of fixture_data resource = Some body" "text_digest body = lo_content x" "plain body" "length body \<le> 4000"
    using catalogue_entry(7) [OF cat] by blast
  let ?kvs = "[(lit ''receipt'', PDict kvs), (lit ''body'', PStr body)]"
  have dis: "distinct (map fst ?kvs)" and keys: "plain (lit ''receipt'')" "plain (lit ''body'')"
    by (simp_all add: lit_def plain_def)
  have okr: "json_ok (PDict kvs)" using rc(2) kvs json_ok_sort_keys by metis
  show ?thesis
  proof
    show "entitled_body (sort_keys rc) = Inr (PDict ?kvs)"
      using found body by (simp add: kvs entitled_body_def py_get_def)
    have len: "length (json_text (sort_keys (PDict kvs))) \<le> 4096" using rc(1) kvs by (metis dumps_sorted_def sort_keys_idem)
    show "length (dumps_sorted (PDict ?kvs)) \<le> MAX_BODY"
      by (rule order_trans [OF length_dumps_dict])
        (use len body keys in \<open>simp add: length_json_str_plain MAX_BODY_def lit_def del: sort_keys.simps(2)\<close>)
    have "json_ok (PDict ?kvs)"
      using okr json_ok_plain [OF body(3)] json_ok_plain [OF keys(1)] json_ok_plain [OF keys(2)] dis by simp
    from stored_dumps [OF this] show "stored_json (dumps_sorted (PDict ?kvs)) = Inr (sort_keys (PDict ?kvs))" .
    have sorted: "sort_keys (PDict kvs) = PDict kvs" using kvs by (metis sort_keys_idem)
    have "sort_keys (PDict ?kvs) = PDict (sort_key fst ?kvs)"
      using sorted by (simp del: sort_keys.simps(2) add: sort_keys.simps(2) [of ?kvs])
    moreover have "py_get (PDict (sort_key fst ?kvs)) k = py_get (PDict ?kvs) k" for k
      by (simp only: py_get_def pyval.case map_of_sort_key [OF dis])
    ultimately show "check_access (direct_payload resource request_id x) resource None (sort_keys (PDict ?kvs)) = Inr (sort_keys (PDict ?kvs))"
      using body matches
      by (simp only: check_access_def) (simp add: py_get_def direct_payload_def lit_def)
  qed
qed

lemma direct_purchase_returns:
  assumes inv: "lg_inv (cn_db (ap_desk s))"
    and cat: "map_of fixture_catalog resource = Some x" and name: "is_name request_id"
    and fresh: "(lit ''buyer'', request_id) \<notin> set (map lr_key (lg_receipts (cn_db (ap_desk s))))"
    and funds: "a \<in> set (lg_accounts (cn_db (ap_desk s)))" "la_buyer a = lit ''buyer''" "1000 \<le> la_available a"
    and secrets: "secrets_differ env"
    and ids: "\<forall>n. plain (ae_random env n) \<and> length (ae_random env n) \<le> 128"
    and clock: "\<forall>n. 0 \<le> ae_clock env n \<and> ae_clock env n < 10 ^ 13"
    and net: "ae_net env (ap_exchanges s) = Delivered" "ae_net env (Suc (ap_exchanges s)) = Delivered" "ap_drops s = []"
  shows "\<exists>v s'. buyer_access env resource request_id None s = (Inr v, s') \<and> accepted_access resource v \<and> ap_drops s' = []
    \<and> lg_accrued (cn_db (ap_desk s')) = lg_accrued (cn_db (ap_desk s)) + 1000"
proof -
  let ?p = "direct_payload resource request_id x" and ?q = "direct_request resource request_id x"
  note direct = direct_access [OF cat name secrets] and units = catalogue_entry(2) [OF cat]
  have payload: "access_payload resource request_id None = Inr ?p" by (simp add: access_payload_def cat direct_payload_def)
  let ?k = "sort_key fst (sort_key fst ?p @ [(lit ''buyer'', PStr (lit ''buyer''))])"
  have "wp (lg_step (desk_env env) (spend_op ?k)) (\<lambda>v s'. (\<exists>n k. v = lg_receipt_value ?q (ae_random env n) (ae_clock env k))
      \<and> lg_accrued (cn_db s') = lg_accrued (cn_db (ap_desk s)) + 1000) (\<lambda>_ _. False) (ap_desk s)"
  proof -
    have env: "le_catalog (desk_env env) = fixture_catalog" "le_random (desk_env env) = ae_random env" "le_clock (desk_env env) = ae_clock env"
      by (simp_all add: desk_env_def fixture_env_def)
    have q: "sq_buyer ?q = lit ''buyer''" "sq_request ?q = request_id" "sq_book ?q = None" "lo_units (sq_offer ?q) = 1000" "sq_max_units ?q = 1000"
      by (simp_all add: direct_request_def units)
    show ?thesis
      unfolding direct(5) lg_step.simps
      using direct_spend_runs [where env = "desk_env env", unfolded env, OF inv direct_args [OF cat name], unfolded q, OF _ fresh funds]
      by simp
  qed
  then obtain n k d where step: "lg_step (desk_env env) (spend_op ?k) (ap_desk s)
      = (Inr (lg_receipt_value ?q (ae_random env n) (ae_clock env k)), d)"
    and paid: "lg_accrued (cn_db d) = lg_accrued (cn_db (ap_desk s)) + 1000"
    by (auto simp: wp_def split: prod.splits sum.splits)
  let ?rc = "lg_receipt_value ?q (ae_random env n) (ae_clock env k)"
  have rid: "plain (ae_random env n)" "length (ae_random env n) \<le> 128" and at: "0 \<le> ae_clock env k" "ae_clock env k < 10 ^ 13"
    using ids clock by simp_all
  obtain w v where w: "entitled_body (sort_keys ?rc) = Inr w" "length (dumps_sorted w) \<le> MAX_BODY" "stored_json (dumps_sorted w) = Inr v"
    "check_access ?p resource None v = Inr v"
    by (rule receipt_answer [OF cat name rid at])
  note rc = receipt_read [OF cat name rid at]
  have "\<exists>t. buyer_access env resource request_id None s = (Inr v, t) \<and> ap_desk t = d \<and> ap_drops t = []"
  proof (rule buyer_gets [OF payload net(3,1) _ w(2,3,4)])
    fix u :: "'a app"
    assume u: "ap_desk u = ap_desk s" "ap_consumer u = ap_consumer s" "ap_drops u = []" "ap_exchanges u = Suc (ap_exchanges s)"
    show "\<exists>t. publisher_role env (buyer_request env ?p) u = (Some (200, dumps_sorted w), t) \<and> ap_desk t = d \<and> ap_drops t = []"
    proof (rule publisher_serves [OF _ u(3) direct(1) _ _ direct(2) _ _ stored_dumps [OF rc(2)] w(1)])
      show "hr_path (buyer_request env ?p) = lit ''/access''" by (simp add: buyer_request_def rpc_request_def Let_def)
      show "is_buyer (lit ''buyer'')" by (simp add: is_buyer_def)
      show "ae_net env (ap_exchanges u) = Delivered" using net u by simp
      show "length (dumps_sorted ?rc) \<le> MAX_BODY" using rc(1) by (simp add: MAX_BODY_def)
      fix y :: "'a app"
      assume y: "ap_desk y = ap_desk u" "ap_drops y = []"
      obtain m where m: "read_request env (inner_request env (lit ''buyer'') (sort_key fst ?p)) = Inr (lit ''publisher'', m, PDict ?k)"
        using direct(3) by blast
      show "\<exists>t. issuer_role env (inner_request env (lit ''buyer'') (sort_key fst ?p)) y = (Some (200, dumps_sorted ?rc), t)
          \<and> ap_desk t = d \<and> ap_drops t = []"
        by (rule issuer_serves [OF _ y(2) m direct(4)]) (use step y u in \<open>simp_all add: inner_request_def rpc_request_def Let_def\<close>)
    qed
  qed
  moreover have "accepted_access resource v" by (rule checked_access [OF payload w(4)])
  ultimately show ?thesis using paid by auto
qed

section \<open>The properties\<close>

text \<open>
  C9. A purchase the buyer can pay for succeeds: with a catalogue item, an unused request identifier, a
  balance of at least the price and messages that get through, the access returns the document with its
  receipt, and the publisher has earned exactly the price.
\<close>

theorem access_completes:
  assumes inv: "lg_inv (cn_db (ap_desk s))"
    and cat: "map_of fixture_catalog resource = Some x" and name: "is_name request_id"
    and fresh: "(lit ''buyer'', request_id) \<notin> set (map lr_key (lg_receipts (cn_db (ap_desk s))))"
    and funds: "a \<in> set (lg_accounts (cn_db (ap_desk s)))" "la_buyer a = lit ''buyer''" "1000 \<le> la_available a"
    and secrets: "secrets_differ env"
    and ids: "\<forall>n. plain (ae_random env n) \<and> length (ae_random env n) \<le> 128"
    and clock: "\<forall>n. 0 \<le> ae_clock env n \<and> ae_clock env n < 10 ^ 13"
    and net: "ae_net env (ap_exchanges s) = Delivered" "ae_net env (Suc (ap_exchanges s)) = Delivered" "ap_drops s = []"
  shows "\<exists>v s'. buyer_access env resource request_id None s = (Inr v, s') \<and> accepted_access resource v
    \<and> lg_accrued (cn_db (ap_desk s')) = lg_accrued (cn_db (ap_desk s)) + 1000"
  using direct_purchase_returns [OF assms] by blast

text \<open>
  C8. An access that returned once can be repeated for ever. After any further history of the ledger and the
  keys - other purchases, cancellations, expiry, revocation, rotation, the balance being spent - the same access with the same
  request identifier pays nothing and leaves every table as it is, whatever the network and the publisher
  do to it; if it returns, it returns the very answer of the first one; and it does return when the messages get
  through and the publisher accepts the credential.
\<close>

theorem access_recovers:
  assumes "\<forall>n. plain (ae_random env n)" and "jwt_errors (ae_jwt env)" and "lg_inv (cn_db (ap_desk s))"
    and "buyer_access env resource request_id book s = (Inr v, s1)"
    and "ap_desk s2 = run_ops (fixture_step (ae_keys env) (ae_clock env) (ae_random env)) ops (ap_desk s1)"
  shows "case buyer_access env resource request_id book s2 of (r, s3) \<Rightarrow>
    cn_db (ap_desk s3) = cn_db (ap_desk s2) \<and> (\<forall>w. r = Inr w \<longrightarrow> w = v)
    \<and> (ap_drops s2 = [] \<longrightarrow> ae_net env (ap_exchanges s2) = Delivered \<longrightarrow> ae_net env (Suc (ap_exchanges s2)) = Delivered
       \<longrightarrow> (\<forall>payload. access_payload resource request_id book = Inr payload \<longrightarrow>
             credential_accepted env (buyer_request env payload) s2)
       \<longrightarrow> r = Inr v)"
proof -
  obtain payload where payload: "access_payload resource request_id book = Inr payload"
    using assms(4) by (cases "access_payload resource request_id book") (simp_all add: buyer_access_def ebind_def elift_def)
  note first = buyer_reply [OF assms(1-3) payload assms(4)]
  let ?req = "buyer_request env payload" and ?d = "cn_db (ap_desk s2)"
  have inv: "lg_inv ?d" and ans: "access_answer env ?req ?d v"
    using fixture.run_inv [OF first(1)] access_answer_kept [OF fixture_kept [OF first(1)] first(2)] assms(5) by simp_all
  obtain r s3 where run: "buyer_access env resource request_id book s2 = (r, s3)" by fastforce
  have same: "cn_db (ap_desk s3) = ?d"
  proof -
    obtain identity p raw where call: "access_fields env ?req = Inr (identity, p)"
      and raw: "receipt_text ?d (request_call env (inner_request env identity p)) raw"
      using ans by (auto simp: access_answer_def access_result_def paid_receipt_def)
    from raw obtain q where q: "request_call env (inner_request env identity p) = Inr q" by (auto simp: receipt_text_def)
    have "access_call env ?req = Inr q"
      using call q by (auto simp: access_fields_def access_call_def bind_res_Inr_iff inner_request_def split: prod.splits)
    with access_once [OF payload inv, of env] run
    have "paid_once ?d (Inr q) (cn_db (ap_desk s3))" by (simp add: buyer_request_def)
    then show ?thesis
      using receipt_text_key [OF raw [unfolded q]] by (auto simp: paid_once_def dest: pay_effect_key)
  qed
  have "w = v" if "r = Inr w" for w
    using access_answer_unique [OF inv _ ans] buyer_reply(2) [OF assms(1,2) inv payload run [unfolded that]] unfolding same .
  moreover have "r = Inr v" if "ap_drops s2 = []" "ae_net env (ap_exchanges s2) = Delivered"
      "ae_net env (Suc (ap_exchanges s2)) = Delivered" "credential_accepted env ?req s2"
    using buyer_replay [OF inv payload ans first(3) that] run by simp
  ultimately show ?thesis unfolding run prod.case using same payload by blast
qed

section \<open>An example\<close>

lemma demo_delivered:
  defines "env \<equiv> demo_app_env (\<lambda>_. Delivered)"
  shows "secrets_differ env" "\<forall>n. plain (ae_random env n) \<and> length (ae_random env n) \<le> 128" "jwt_errors (ae_jwt env)"
    "\<forall>n. 0 \<le> ae_clock env n \<and> ae_clock env n < 10 ^ 13" "ae_net env n = Delivered"
  by (simp_all add: env_def demo_app_env_def secrets_differ_def lit_def plain_def jwt_errors_def demo_jwt_def)

lemma demo_name: "is_name (lit ''q1'')"
  by (simp add: is_name_def lg_char_def lit_def)

lemma demo_app_db:
  "cn_db (ap_desk demo_app) = empty_ledger_db\<lparr>lg_accounts := [\<lparr>la_buyer = lit ''buyer'', la_initial = 5000,
     la_available = 5000, la_reserved = 0, la_spent = 0\<rparr>]\<rparr>"
  by (simp add: demo_app_def demo_desk_db)

lemma demo_funds:
  defines "a \<equiv> \<lparr>la_buyer = lit ''buyer'', la_initial = 5000, la_available = 5000, la_reserved = 0, la_spent = 0\<rparr>"
  shows "(lit ''buyer'', lit ''q1'') \<notin> set (map lr_key (lg_receipts (cn_db (ap_desk demo_app))))"
    and "a \<in> set (lg_accounts (cn_db (ap_desk demo_app)))" "la_buyer a = lit ''buyer''" "1000 \<le> la_available a"
  by (simp_all add: demo_app_db empty_ledger_db_def a_def)

lemma demo_drops: "ap_drops demo_app = []"
  by (simp add: demo_app_def)

theorem access_completes_witness:
  "\<exists>v s'. buyer_access (demo_app_env (\<lambda>_. Delivered)) (lit ''r0'') (lit ''q1'') None demo_app = (Inr v, s')
    \<and> accepted_access (lit ''r0'') v \<and> lg_accrued (cn_db (ap_desk s')) = 1000"
proof -
  from access_completes [OF demo_app_inv demo_lookup demo_name demo_funds demo_delivered(1,2,4,5,5) demo_drops]
  show ?thesis by (simp add: demo_app_db empty_ledger_db_def)
qed

theorem access_recovers_witness:
  "let env = demo_app_env (\<lambda>_. Delivered) in
   \<exists>v s1 s2. buyer_access env (lit ''r0'') (lit ''q1'') None demo_app = (Inr v, s1)
     \<and> s2 = demo_app\<lparr>ap_desk := run_ops (fixture_step demo_keys_env (\<lambda>n. 10) (\<lambda>n. lit ''id'')) [FxKeys KyRotate, FxLedger LAudit] (ap_desk s1)\<rparr>
     \<and> fst (buyer_access env (lit ''r0'') (lit ''q1'') None s2) = Inr v
     \<and> cn_db (ap_desk (snd (buyer_access env (lit ''r0'') (lit ''q1'') None s2))) = cn_db (ap_desk s2)"
proof -
  let ?env = "demo_app_env (\<lambda>_. Delivered)"
  obtain v s1 where first: "buyer_access ?env (lit ''r0'') (lit ''q1'') None demo_app = (Inr v, s1)"
    using direct_purchase_returns [OF demo_app_inv demo_lookup demo_name demo_funds demo_delivered(1,2,4,5,5) demo_drops] by blast
  let ?s2 = "demo_app\<lparr>ap_desk := run_ops (fixture_step demo_keys_env (\<lambda>n. 10) (\<lambda>n. lit ''id'')) [FxKeys KyRotate, FxLedger LAudit] (ap_desk s1)\<rparr>"
  have desk: "ap_desk ?s2 = run_ops (fixture_step (ae_keys ?env) (ae_clock ?env) (ae_random ?env)) [FxKeys KyRotate, FxLedger LAudit] (ap_desk s1)"
    by (simp add: demo_app_env_def)
  have ids: "\<forall>n. plain (ae_random ?env n)" using demo_delivered(2) by blast
  have cred: "credential_accepted ?env (buyer_request ?env payload) ?s2"
    if "access_payload (lit ''r0'') (lit ''q1'') None = Inr payload" for payload
    using that direct_access(2) [OF demo_lookup demo_name demo_delivered(1)]
    by (simp add: access_payload_def demo_lookup flip: direct_payload_def)
  obtain r s3 where second: "buyer_access ?env (lit ''r0'') (lit ''q1'') None ?s2 = (r, s3)" by fastforce
  have "ap_drops ?s2 = []" by (simp add: demo_app_def)
  then have "r = Inr v \<and> cn_db (ap_desk s3) = cn_db (ap_desk ?s2)"
    using access_recovers [OF ids demo_delivered(3) demo_app_inv first desk] demo_delivered(5) cred
    unfolding second prod.case by blast
  with first second show ?thesis unfolding Let_def by (metis fst_conv snd_conv)
qed

end
