(* ===== verification/Pool.thy ===== *)
theory Pool
  imports LedgerBook Effects
begin

text \<open>
  The connection pool of \<open>examples/http_access/ledger.py\<close>: \<open>Ledger.__init__\<close>, \<open>_open\<close>, \<open>_checkout\<close> and
  \<open>close\<close>, as the steps that its threads interleave. A step is one critical section of \<open>_condition\<close>, or what
  a thread does between two of them; a thread that waits takes the step \<open>Enter\<close> again and again.

  Connections are numbered in the order they are opened. What SQLite decides is in the steps: whether a file
  opens, whether a transaction is still open at the end of the block, whether a roll-back raises. Closing a
  connection is assumed not to raise. \<open>pl_leases\<close> says where each thread is between \<open>Enter\<close> and \<open>Exit\<close>, and
  \<open>pl_next\<close> and \<open>pl_shut\<close> which connections were opened and closed.
\<close>

section \<open>The pool and its steps\<close>

datatype open_outcome = Opened | PragmaFails | ConnectFails

datatype lease = Opening | Using nat | Returning nat bool

record pool =
  pl_size :: nat
  pl_available :: "nat list"
  pl_active :: nat
  pl_closed :: bool
  pl_leases :: "nat \<rightharpoonup> lease"
  pl_next :: nat
  pl_shut :: "nat set"

definition shut_connections :: "nat set \<Rightarrow> pool \<Rightarrow> pool" where
  "shut_connections cs p = p\<lparr>pl_shut := pl_shut p \<union> cs\<rparr>"

definition open_connection :: "open_outcome \<Rightarrow> (pool, nat) eff" where
  "open_connection w p =
     (case w of
        Opened \<Rightarrow> (Inr (pl_next p), p\<lparr>pl_next := Suc (pl_next p)\<rparr>)
      | PragmaFails \<Rightarrow> (Inl (OSError ''database''), shut_connections {pl_next p} (p\<lparr>pl_next := Suc (pl_next p)\<rparr>))
      | ConnectFails \<Rightarrow> (Inl (OSError ''database''), p))"

definition close_pool :: "(pool, unit) eff" where
  "close_pool p =
     (if pl_active p \<noteq> 0 then (Inl (RuntimeError ''cannot close ledger with active transactions''), p)
      else (Inr (), shut_connections (set (pl_available p)) (p\<lparr>pl_closed := True, pl_available := []\<rparr>)))"

fun fill_pool :: "open_outcome list \<Rightarrow> (pool, unit) eff" where
  "fill_pool [] = eret ()"
| "fill_pool (w # ws) =
     ebind (open_connection w) (\<lambda>c. ebind (emod (\<lambda>p. p\<lparr>pl_available := pl_available p @ [c]\<rparr>)) (\<lambda>_. fill_pool ws))"

text \<open>\<open>outcome i\<close> is how the file opens at the \<open>i\<close>-th attempt of \<open>__init__\<close>.\<close>

definition empty_pool :: "nat \<Rightarrow> pool" where
  "empty_pool n = \<lparr>pl_size = n, pl_available = [], pl_active = 0, pl_closed = False, pl_leases = Map.empty,
     pl_next = 0, pl_shut = {}\<rparr>"

definition pool_init :: "pyval \<Rightarrow> (nat \<Rightarrow> open_outcome) \<Rightarrow> (unit result \<times> pool) option" where
  "pool_init pool_size outcome =
     (case check_range pool_size 0 16 of
        Inl e \<Rightarrow> None
      | Inr n \<Rightarrow> Some (ecatch (fill_pool (map outcome [0..<nat n]))
          (\<lambda>e. ebind close_pool (\<lambda>_. eraise e)) (empty_pool (nat n))))"

text \<open>The first critical section of \<open>_checkout\<close>; \<open>Inr False\<close> is another round of waiting.\<close>

definition lease_enter :: "nat \<Rightarrow> bool \<Rightarrow> (pool, bool) eff" where
  "lease_enter t late p =
     (if pl_size p \<noteq> 0 \<and> pl_available p = [] \<and> \<not> pl_closed p then
        (if late then (Inl (TimeoutError ''database pool exhausted''), p) else (Inr False, p))
      else if pl_closed p then (Inl (RuntimeError ''ledger is closed''), p)
      else if pl_size p \<noteq> 0 then
        (Inr True, p\<lparr>pl_leases := (pl_leases p)(t \<mapsto> Using (last (pl_available p))),
           pl_available := butlast (pl_available p), pl_active := Suc (pl_active p)\<rparr>)
      else (Inr True, p\<lparr>pl_leases := (pl_leases p)(t \<mapsto> Opening), pl_active := Suc (pl_active p)\<rparr>))"

definition lease_open :: "nat \<Rightarrow> open_outcome \<Rightarrow> (pool, unit) eff" where
  "lease_open t w p =
     (case open_connection w p of
        (Inr c, p') \<Rightarrow> (Inr (), p'\<lparr>pl_leases := (pl_leases p')(t \<mapsto> Using c)\<rparr>)
      | (Inl e, p') \<Rightarrow> (Inl e, p'\<lparr>pl_leases := (pl_leases p')(t := None), pl_active := pl_active p' - 1\<rparr>))"

definition lease_leave :: "nat \<Rightarrow> nat \<Rightarrow> bool \<Rightarrow> bool \<Rightarrow> pool \<Rightarrow> pool" where
  "lease_leave t c in_transaction rollback_raises p =
     (let reusable = \<not> (in_transaction \<and> rollback_raises);
          p = p\<lparr>pl_leases := (pl_leases p)(t \<mapsto> Returning c reusable)\<rparr>
      in if pl_size p = 0 \<or> \<not> reusable then shut_connections {c} p else p)"

definition lease_exit :: "nat \<Rightarrow> nat \<Rightarrow> bool \<Rightarrow> pool \<Rightarrow> pool" where
  "lease_exit t c reusable p =
     (let p = p\<lparr>pl_leases := (pl_leases p)(t := None), pl_active := pl_active p - 1\<rparr>;
          p = (if pl_size p \<noteq> 0 \<and> reusable \<and> \<not> pl_closed p then p\<lparr>pl_available := pl_available p @ [c]\<rparr>
               else if pl_size p \<noteq> 0 \<and> reusable then shut_connections {c} p else p)
      in if reusable then p
         else shut_connections (set (pl_available p)) (p\<lparr>pl_closed := True, pl_available := []\<rparr>))"

datatype pool_event = Enter nat bool | OpenFor nat open_outcome | Leave nat bool bool | Exit nat | ClosePool

text \<open>A step that is not the next one of its thread changes nothing.\<close>

fun pool_step :: "pool_event \<Rightarrow> pool \<Rightarrow> pool" where
  "pool_step (Enter t late) p = (if pl_leases p t = None then snd (lease_enter t late p) else p)"
| "pool_step (OpenFor t w) p = (if pl_leases p t = Some Opening then snd (lease_open t w p) else p)"
| "pool_step (Leave t in_transaction rollback_raises) p =
     (case pl_leases p t of Some (Using c) \<Rightarrow> lease_leave t c in_transaction rollback_raises p | _ \<Rightarrow> p)"
| "pool_step (Exit t) p = (case pl_leases p t of Some (Returning c reusable) \<Rightarrow> lease_exit t c reusable p | _ \<Rightarrow> p)"
| "pool_step ClosePool p = snd (close_pool p)"

definition pool_run :: "pool_event list \<Rightarrow> pool \<Rightarrow> pool" where
  "pool_run es p = fold pool_step es p"

section \<open>The invariant\<close>

text \<open>The connection a thread holds, and whether it is still open.\<close>

fun held :: "lease \<Rightarrow> nat option" where
  "held Opening = None"
| "held (Using c) = Some c"
| "held (Returning c _) = Some c"

fun lease_live :: "nat \<Rightarrow> lease \<Rightarrow> bool" where
  "lease_live n Opening = True"
| "lease_live n (Using c) = True"
| "lease_live n (Returning c reusable) = (n \<noteq> 0 \<and> reusable)"

definition held_by :: "(nat \<rightharpoonup> lease) \<Rightarrow> nat \<Rightarrow> nat \<Rightarrow> bool" where
  "held_by m t c \<longleftrightarrow> (\<exists>l. m t = Some l \<and> held l = Some c)"

definition shut_by :: "nat \<Rightarrow> (nat \<rightharpoonup> lease) \<Rightarrow> nat \<Rightarrow> nat \<Rightarrow> bool" where
  "shut_by n m t c \<longleftrightarrow> (\<exists>l. m t = Some l \<and> held l = Some c \<and> \<not> lease_live n l)"

lemma held_by_simps [simp]:
  "held_by (m(t \<mapsto> l)) u c \<longleftrightarrow> (if u = t then held l = Some c else held_by m u c)"
  "held_by (m(t := None)) u c \<longleftrightarrow> u \<noteq> t \<and> held_by m u c"
  "shut_by n (m(t \<mapsto> l)) u c \<longleftrightarrow> (if u = t then held l = Some c \<and> \<not> lease_live n l else shut_by n m u c)"
  "shut_by n (m(t := None)) u c \<longleftrightarrow> u \<noteq> t \<and> shut_by n m u c"
  by (auto simp: held_by_def shut_by_def)

lemma held_by_at:
  "m t = None \<Longrightarrow> \<not> held_by m t c"
  "m t = Some l \<Longrightarrow> held_by m t c \<longleftrightarrow> held l = Some c"
  "m t = Some l \<Longrightarrow> shut_by n m t c \<longleftrightarrow> held l = Some c \<and> \<not> lease_live n l"
  by (auto simp: held_by_def shut_by_def)

definition pool_exclusive :: "pool \<Rightarrow> bool" where
  "pool_exclusive p \<longleftrightarrow>
     distinct (pl_available p) \<and> set (pl_available p) \<subseteq> {..<pl_next p} \<and> set (pl_available p) \<inter> pl_shut p = {}
     \<and> (\<forall>t t' c. held_by (pl_leases p) t c \<longrightarrow> held_by (pl_leases p) t' c \<longrightarrow> t = t')
     \<and> (\<forall>t c. held_by (pl_leases p) t c \<longrightarrow> c \<notin> set (pl_available p) \<and> c < pl_next p
          \<and> (c \<in> pl_shut p \<longleftrightarrow> shut_by (pl_size p) (pl_leases p) t c))"

definition pool_accounted :: "pool \<Rightarrow> bool" where
  "pool_accounted p \<longleftrightarrow>
     pl_shut p \<subseteq> {..<pl_next p}
     \<and> (\<forall>c < pl_next p. c \<in> pl_shut p \<or> c \<in> set (pl_available p) \<or> (\<exists>t. held_by (pl_leases p) t c))"

definition pool_counted :: "pool \<Rightarrow> bool" where
  "pool_counted p \<longleftrightarrow>
     finite (dom (pl_leases p)) \<and> pl_active p = card (dom (pl_leases p))
     \<and> (pl_size p \<noteq> 0 \<longrightarrow> length (pl_available p) + pl_active p \<le> pl_size p
          \<and> (pl_closed p \<or> length (pl_available p) + pl_active p = pl_size p) \<and> Some Opening \<notin> range (pl_leases p))
     \<and> (pl_closed p \<or> pl_size p = 0 \<longrightarrow> pl_available p = [])"

definition pool_inv :: "pool \<Rightarrow> bool" where
  "pool_inv p \<longleftrightarrow> pool_exclusive p \<and> pool_accounted p \<and> pool_counted p"

lemma pool_inv_parts: "pool_inv p \<Longrightarrow> pool_exclusive p" "pool_inv p \<Longrightarrow> pool_accounted p" "pool_inv p \<Longrightarrow> pool_counted p"
  by (simp_all add: pool_inv_def)

lemma enter_inv:
  assumes "pool_inv p" and t: "pl_leases p t = None"
  shows "pool_inv (snd (lease_enter t late p))"
proof -
  consider "snd (lease_enter t late p) = p"
    | "pl_size p \<noteq> 0" "pl_available p \<noteq> []" "\<not> pl_closed p" | "pl_size p = 0" "\<not> pl_closed p"
  proof -
    have "snd (lease_enter t late p) = p \<or> (pl_size p \<noteq> 0 \<and> pl_available p \<noteq> [] \<or> pl_size p = 0) \<and> \<not> pl_closed p"
      by (simp add: lease_enter_def)
    with that show thesis by metis
  qed
  then show ?thesis
  proof cases
    case 1
    then show ?thesis using assms by simp
  next
    case 2
    obtain cs c where cs: "pl_available p = cs @ [c]" using 2(2) by (metis append_butlast_last_id)
    then have step: "snd (lease_enter t late p) = p\<lparr>pl_leases := (pl_leases p)(t \<mapsto> Using c), pl_available := cs, pl_active := Suc (pl_active p)\<rparr>"
      using 2 by (simp add: lease_enter_def)
    have "pool_exclusive (snd (lease_enter t late p))"
      unfolding step using pool_inv_parts(1) [OF assms(1)] held_by_at(1) [of "pl_leases p" t, OF t] unfolding pool_exclusive_def cs by (auto split: if_splits) (metis+)?
    moreover have "pool_accounted (snd (lease_enter t late p))"
      unfolding step using pool_inv_parts(2) [OF assms(1)] held_by_at(1) [of "pl_leases p" t, OF t] unfolding pool_accounted_def cs by simp metis
    moreover have "pool_counted (snd (lease_enter t late p))"
      unfolding step using pool_inv_parts(3) [OF assms(1)] t 2 unfolding pool_counted_def cs by (auto simp: domIff)
    ultimately show ?thesis by (simp add: pool_inv_def)
  next
    case 3
    then have step: "snd (lease_enter t late p) = p\<lparr>pl_leases := (pl_leases p)(t \<mapsto> Opening), pl_active := Suc (pl_active p)\<rparr>"
      by (simp add: lease_enter_def)
    have "pool_exclusive (snd (lease_enter t late p))"
      unfolding step using pool_inv_parts(1) [OF assms(1)] held_by_at(1) [of "pl_leases p" t, OF t] unfolding pool_exclusive_def by (auto split: if_splits) (metis+)?
    moreover have "pool_accounted (snd (lease_enter t late p))"
      unfolding step using pool_inv_parts(2) [OF assms(1)] held_by_at(1) [of "pl_leases p" t, OF t] unfolding pool_accounted_def by simp metis
    moreover have "pool_counted (snd (lease_enter t late p))"
      unfolding step using pool_inv_parts(3) [OF assms(1)] t 3 unfolding pool_counted_def by (auto simp: domIff)
    ultimately show ?thesis by (simp add: pool_inv_def)
  qed
qed

lemma shut_connections_sel [simp]:
  "pl_size (shut_connections cs p) = pl_size p" "pl_available (shut_connections cs p) = pl_available p"
  "pl_active (shut_connections cs p) = pl_active p" "pl_closed (shut_connections cs p) = pl_closed p"
  "pl_leases (shut_connections cs p) = pl_leases p" "pl_next (shut_connections cs p) = pl_next p"
  "pl_shut (shut_connections cs p) = pl_shut p \<union> cs"
  by (simp_all add: shut_connections_def)

lemma drop_lease:
  assumes "finite (dom m)" "m t = Some l"
  shows "card (dom (m(t := None))) = card (dom m) - 1" "0 < card (dom m)"
  using assms by (auto simp: dom_fun_upd card_Diff_singleton domI card_gt_0_iff)

lemma keep_lease:
  assumes "m t = Some l" shows "insert t (dom m) = dom m"
  using assms by auto

lemma lease_open_state:
  "snd (lease_open t Opened p) = p\<lparr>pl_next := Suc (pl_next p), pl_leases := (pl_leases p)(t \<mapsto> Using (pl_next p))\<rparr>"
  "snd (lease_open t PragmaFails p) = p\<lparr>pl_next := Suc (pl_next p), pl_shut := pl_shut p \<union> {pl_next p},
     pl_leases := (pl_leases p)(t := None), pl_active := pl_active p - 1\<rparr>"
  "snd (lease_open t ConnectFails p) = p\<lparr>pl_leases := (pl_leases p)(t := None), pl_active := pl_active p - 1\<rparr>"
  by (simp_all add: lease_open_def open_connection_def shut_connections_def)

lemma open_inv:
  assumes "pool_inv p" and t: "pl_leases p t = Some Opening"
  shows "pool_inv (snd (lease_open t w p))"
proof -
  note at = held_by_at(2,3) [of "pl_leases p" t, OF t, simplified]
  note fin = pool_inv_parts(3) [OF assms(1), unfolded pool_counted_def]
  have "Some Opening \<in> range (pl_leases p)" using t by (metis rangeI)
  with fin have unpooled: "pl_size p = 0" "pl_available p = []" by auto
  have bound: "c < pl_next p" if "held_by (pl_leases p) u c" for u c
    using that pool_inv_parts(1) [OF assms(1)] unfolding pool_exclusive_def by blast
  have fresh: "pl_next p \<notin> pl_shut p"
    using pool_inv_parts(2) [OF assms(1)] unfolding pool_accounted_def by auto
  have "pool_exclusive (snd (lease_open t w p))"
    using pool_inv_parts(1) [OF assms(1)] at unpooled fresh
    unfolding pool_exclusive_def by (cases w) (auto simp: lease_open_state split: if_splits dest: bound)
  moreover have "pool_accounted (snd (lease_open t w p))"
    using pool_inv_parts(2) [OF assms(1)] at unpooled unfolding pool_accounted_def
    by (cases w) (auto simp: lease_open_state less_Suc_eq; metis)+
  moreover have "pool_counted (snd (lease_open t w p))"
    using fin t drop_lease [of "pl_leases p" t] unpooled unfolding pool_counted_def
    by (cases w) (auto simp: lease_open_state keep_lease [of "pl_leases p" t, OF t])
  ultimately show ?thesis by (simp add: pool_inv_def)
qed

lemma leave_inv:
  assumes "pool_inv p" and t: "pl_leases p t = Some (Using c)"
  shows "pool_inv (lease_leave t c in_transaction rollback_raises p)"
proof -
  let ?p = "lease_leave t c in_transaction rollback_raises p"
  note at = held_by_at(2,3) [of "pl_leases p" t, OF t, simplified]
  note fin = pool_inv_parts(3) [OF assms(1), unfolded pool_counted_def]
  have "pool_exclusive ?p"
    using pool_inv_parts(1) [OF assms(1)] at unfolding pool_exclusive_def lease_leave_def Let_def
    by (auto split: if_splits; metis)
  moreover have "pool_accounted ?p"
    using pool_inv_parts(1,2) [OF assms(1)] at unfolding pool_exclusive_def pool_accounted_def lease_leave_def Let_def
    by (auto split: if_splits; metis)
  moreover have "pool_counted ?p"
    using fin t unfolding pool_counted_def lease_leave_def Let_def
    by (auto simp: keep_lease [of "pl_leases p" t, OF t])
  ultimately show ?thesis by (simp add: pool_inv_def)
qed

lemma lease_exit_state:
  "lease_exit t c True p = p\<lparr>pl_leases := (pl_leases p)(t := None), pl_active := pl_active p - 1,
     pl_available := (if pl_size p \<noteq> 0 \<and> \<not> pl_closed p then pl_available p @ [c] else pl_available p),
     pl_shut := (if pl_size p \<noteq> 0 \<and> pl_closed p then pl_shut p \<union> {c} else pl_shut p)\<rparr>"
  "lease_exit t c False p = p\<lparr>pl_leases := (pl_leases p)(t := None), pl_active := pl_active p - 1,
     pl_closed := True, pl_available := [], pl_shut := pl_shut p \<union> set (pl_available p)\<rparr>"
  by (simp_all add: lease_exit_def Let_def shut_connections_def)

lemma exit_inv:
  assumes "pool_inv p" and t: "pl_leases p t = Some (Returning c reusable)"
  shows "pool_inv (lease_exit t c reusable p)"
proof -
  let ?p = "lease_exit t c reusable p"
  note at = held_by_at(2,3) [of "pl_leases p" t, OF t, simplified]
  note fin = pool_inv_parts(3) [OF assms(1), unfolded pool_counted_def]
  have once: "u = v" if "held_by (pl_leases p) u d" "held_by (pl_leases p) v d" for u v d
    using that pool_inv_parts(1) [OF assms(1)] unfolding pool_exclusive_def by blast
  have here: "u = t" if "held_by (pl_leases p) u c" for u
    using once [of u c t] that at(1) [of c] by simp
  have ex: "distinct (pl_available p)" "set (pl_available p) \<subseteq> {..<pl_next p}" "set (pl_available p) \<inter> pl_shut p = {}"
    using pool_inv_parts(1) [OF assms(1)] unfolding pool_exclusive_def by blast+
  have held: "d \<notin> set (pl_available p) \<and> d < pl_next p \<and> (d \<in> pl_shut p \<longleftrightarrow> shut_by (pl_size p) (pl_leases p) u d)"
    if "held_by (pl_leases p) u d" for u d
    using that pool_inv_parts(1) [OF assms(1)] unfolding pool_exclusive_def by blast
  have c: "c \<notin> set (pl_available p)" "c < pl_next p" "c \<in> pl_shut p \<longleftrightarrow> pl_size p = 0 \<or> \<not> reusable"
    using held [of t c] at(1) [of c] at(2) [of "pl_size p" c] by auto
  have others: "d \<noteq> c \<and> d \<notin> set (pl_available p) \<and> d < pl_next p \<and> (d \<in> pl_shut p \<longleftrightarrow> shut_by (pl_size p) (pl_leases p) u d)"
    if "u \<noteq> t" "held_by (pl_leases p) u d" for u d
    using held [OF that(2)] here that by blast
  have "distinct (pl_available ?p)" "set (pl_available ?p) \<subseteq> {..<pl_next ?p}" "set (pl_available ?p) \<inter> pl_shut ?p = {}"
    using ex c by (cases reusable; simp add: lease_exit_state)+
  moreover have "u = v" if "held_by (pl_leases ?p) u d" "held_by (pl_leases ?p) v d" for u v d
    using that once [of u d v] by (cases reusable) (simp_all add: lease_exit_state)
  moreover have "d \<notin> set (pl_available ?p) \<and> d < pl_next ?p \<and> (d \<in> pl_shut ?p \<longleftrightarrow> shut_by (pl_size ?p) (pl_leases ?p) u d)"
    if "held_by (pl_leases ?p) u d" for u d
    using that others [of u d] by (cases reusable) (auto simp: lease_exit_state)
  ultimately have "pool_exclusive ?p" unfolding pool_exclusive_def by blast
  moreover have "pool_accounted ?p"
  proof -
    have shut: "pl_shut p \<subseteq> {..<pl_next p}" using pool_inv_parts(2) [OF assms(1)] unfolding pool_accounted_def by blast
    have "d \<in> pl_shut ?p \<or> d \<in> set (pl_available ?p) \<or> (\<exists>u. held_by (pl_leases ?p) u d)" if d: "d < pl_next p" for d
    proof -
      consider "d \<in> pl_shut p \<or> d \<in> set (pl_available p)" | u where "held_by (pl_leases p) u d"
        using d pool_inv_parts(2) [OF assms(1)] unfolding pool_accounted_def by blast
      then show ?thesis
      proof cases
        case 1
        then show ?thesis by (cases reusable) (auto simp: lease_exit_state)
      next
        case 2
        then show ?thesis
          using at(1) [of d] c(3) by (cases reusable; cases "u = t") (auto simp: lease_exit_state)
      qed
    qed
    then show ?thesis
      using shut c ex(2) unfolding pool_accounted_def by (cases reusable) (auto simp: lease_exit_state)
  qed
  moreover have "pool_counted ?p"
    using fin t drop_lease [of "pl_leases p" t] unfolding pool_counted_def
    by (cases reusable) (auto simp: lease_exit_state)
  ultimately show ?thesis by (simp add: pool_inv_def)
qed

lemma close_inv:
  assumes "pool_inv p"
  shows "pool_inv (snd (close_pool p))"
  using assms unfolding pool_inv_def pool_exclusive_def pool_accounted_def pool_counted_def close_pool_def
  by (auto split: if_splits)

lemma pool_step_inv: "pool_inv p \<Longrightarrow> pool_inv (pool_step e p)"
  by (cases e) (auto simp: enter_inv open_inv leave_inv exit_inv close_inv split: option.split lease.split)

lemma pool_run_inv: "pool_inv p \<Longrightarrow> pool_inv (pool_run es p)"
  unfolding pool_run_def by (induction es arbitrary: p) (simp_all add: pool_step_inv)

section \<open>Opening the pool\<close>

lemma fill_pool_state:
  assumes "p = (empty_pool n)\<lparr>pl_available := [0..<k], pl_next := k\<rparr>"
  shows "case ecatch (fill_pool ws) (\<lambda>e. ebind close_pool (\<lambda>_. eraise e)) p of
      (Inr _, p') \<Rightarrow> p' = (empty_pool n)\<lparr>pl_available := [0..<k + length ws], pl_next := k + length ws\<rparr>
    | (Inl e, p') \<Rightarrow> pl_shut p' = {..<pl_next p'} \<and> pl_available p' = [] \<and> pl_leases p' = Map.empty \<and> pl_closed p'"
  using assms
proof (induction ws arbitrary: p k)
  case Nil
  then show ?case by (simp add: ecatch_def eret_def)
next
  case (Cons w ws)
  have failed: "ecatch (fill_pool (w # ws)) (\<lambda>e. ebind close_pool (\<lambda>_. eraise e)) p
      = (case open_connection w p of
           (Inl e, p') \<Rightarrow> ebind close_pool (\<lambda>_. eraise e) p'
         | (Inr c, p') \<Rightarrow> ecatch (fill_pool ws) (\<lambda>e. ebind close_pool (\<lambda>_. eraise e)) (p'\<lparr>pl_available := pl_available p' @ [c]\<rparr>))"
    by (auto simp: ecatch_def ebind_def emod_def split: prod.splits sum.splits)
  show ?case
  proof (cases w)
    case Opened
    then have "ecatch (fill_pool (w # ws)) (\<lambda>e. ebind close_pool (\<lambda>_. eraise e)) p
        = ecatch (fill_pool ws) (\<lambda>e. ebind close_pool (\<lambda>_. eraise e))
            ((empty_pool n)\<lparr>pl_available := [0..<Suc k], pl_next := Suc k\<rparr>)"
      unfolding failed using Cons.prems by (simp add: open_connection_def empty_pool_def)
    moreover have "k + length (w # ws) = Suc k + length ws" by simp
    ultimately show ?thesis using Cons.IH [OF refl, of "Suc k"] by (simp only:)
  qed (unfold failed, use Cons.prems in \<open>auto simp: open_connection_def ebind_def close_pool_def eraise_def empty_pool_def
        shut_connections_def\<close>)
qed

lemma pool_init_state:
  assumes "pool_init pool_size outcome = Some (r, p)"
  shows "(\<exists>n. r = Inr () \<and> p = (empty_pool n)\<lparr>pl_available := [0..<n], pl_next := n\<rparr> \<and> pool_size = PInt (int n) \<and> n \<le> 16)
    \<or> (\<exists>e. r = Inl e) \<and> pl_shut p = {..<pl_next p} \<and> pl_available p = [] \<and> pl_leases p = Map.empty \<and> pl_closed p"
proof -
  from assms obtain i where i: "check_range pool_size 0 16 = Inr i"
    and run: "ecatch (fill_pool (map outcome [0..<nat i])) (\<lambda>e. ebind close_pool (\<lambda>_. eraise e)) (empty_pool (nat i)) = (r, p)"
    by (auto simp: pool_init_def split: sum.splits)
  have "pool_size = PInt i \<and> 0 \<le> i \<and> i \<le> 16" using i by (auto simp: check_range_Inr_iff)
  moreover have "empty_pool (nat i) = (empty_pool (nat i))\<lparr>pl_available := [0..<0], pl_next := 0\<rparr>" by (simp add: empty_pool_def)
  from fill_pool_state [OF this, of "map outcome [0..<nat i]"] have "case r of
      Inr _ \<Rightarrow> p = (empty_pool (nat i))\<lparr>pl_available := [0..<nat i], pl_next := nat i\<rparr>
    | Inl e \<Rightarrow> pl_shut p = {..<pl_next p} \<and> pl_available p = [] \<and> pl_leases p = Map.empty \<and> pl_closed p"
    unfolding run by (simp split: sum.splits)
  ultimately show ?thesis by (cases r) auto
qed

lemma filled_inv: "pool_inv ((empty_pool n)\<lparr>pl_available := [0..<n], pl_next := n\<rparr>)"
  by (auto simp: pool_inv_def pool_exclusive_def pool_accounted_def pool_counted_def empty_pool_def held_by_def)

section \<open>Exclusive connections, none lost\<close>

lemma pool_step_size: "pl_size (pool_step e p) = pl_size p"
  by (cases e) (auto simp: lease_enter_def lease_open_def open_connection_def lease_leave_def lease_exit_def close_pool_def Let_def
      shut_connections_def split: option.split lease.split open_outcome.split)

lemma pool_step_closed: "pl_closed p \<Longrightarrow> pl_closed (pool_step e p)"
  by (cases e) (auto simp: lease_enter_def lease_open_def open_connection_def lease_leave_def lease_exit_def close_pool_def Let_def
      shut_connections_def split: option.split lease.split open_outcome.split)

lemma pool_run_closed: "pl_closed p \<Longrightarrow> pl_closed (pool_run es p)"
  unfolding pool_run_def by (induction es arbitrary: p) (simp_all add: pool_step_closed)

lemma pool_run_size: "pl_size (pool_run es p) = pl_size p"
  unfolding pool_run_def by (induction es arbitrary: p) (simp_all add: pool_step_size)

text \<open>
  C15. The pool lends every connection to one borrower at a time and loses none. When opening it fails, every
  connection it had opened is closed. Otherwise, after any interleaving of waiting, leasing, returning, failing
  roll-backs and closing, by any number of threads: no connection is held twice, or held and idle at once, and
  no idle one has been closed; every connection that was ever opened is closed, idle or held; the active count
  is the number of borrowers; a pool of size \<open>n\<close> never has more than \<open>n\<close> connections, and until it is closed
  they are all there, so a lease is refused only while all \<open>n\<close> are lent. Once closed, by its owner or by a
  failed roll-back, it stays closed and lends nothing, and when the last borrower has gone every connection is closed.
\<close>

theorem pool_connections_exclusive:
  "case pool_init pool_size outcome of
     None \<Rightarrow> \<nexists>i. check_range pool_size 0 16 = Inr i
   | Some (Inl e, p) \<Rightarrow> pl_shut p = {..<pl_next p}
   | Some (Inr _, start) \<Rightarrow>
       let p = pool_run es start; n = pl_size start; lent = card (dom (pl_leases p)) in
         pool_size = PInt (int n) \<and> pool_exclusive p \<and> pool_accounted p \<and> pl_active p = lent
         \<and> (if pl_closed p
            then pl_closed (pool_run later p) \<and> pl_available p = [] \<and> fst (lease_enter t late p) = Inl (RuntimeError ''ledger is closed'')
              \<and> (if lent = 0 then pl_shut p = {..<pl_next p} else n = 0 \<or> lent \<le> n)
            else if n = 0 then fst (lease_enter t late p) = Inr True
            else length (pl_available p) + lent = n \<and> (if lent < n then fst (lease_enter t late p) = Inr True else lent = n))"
proof (cases "pool_init pool_size outcome")
  case None
  then show ?thesis by (auto simp: pool_init_def split: sum.splits)
next
  case (Some rp)
  obtain r start where rp: "rp = (r, start)" by fastforce
  show ?thesis
  proof (cases r)
    case (Inl e)
    then show ?thesis using pool_init_state [OF Some [unfolded rp]] by (simp add: Some rp)
  next
    case (Inr u)
    then obtain k where start: "start = (empty_pool k)\<lparr>pl_available := [0..<k], pl_next := k\<rparr>" and k: "pool_size = PInt (int k)"
      using pool_init_state [OF Some [unfolded rp]] by auto
    define p where "p = pool_run es start"
    have inv: "pool_inv p" unfolding p_def start by (rule pool_run_inv [OF filled_inv])
    have size: "pl_size p = k" "pl_size start = k" unfolding p_def pool_run_size by (simp_all add: start empty_pool_def)
    note parts = pool_inv_parts [OF inv]
    note count = parts(3) [unfolded pool_counted_def size]
    have "pl_shut p = {..<pl_next p}" if "pl_closed p" "card (dom (pl_leases p)) = 0"
    proof -
      have "pl_leases p = Map.empty" "pl_available p = []" using that count by auto
      then show ?thesis using parts(2) unfolding pool_accounted_def held_by_def by auto
    qed
    moreover have "fst (lease_enter t late p) = Inr True" if "\<not> pl_closed p" "k = 0 \<or> card (dom (pl_leases p)) < k"
      using that count size by (auto simp: lease_enter_def)
    moreover have "fst (lease_enter t late p) = Inl (RuntimeError ''ledger is closed'')" if "pl_closed p"
      using that by (simp add: lease_enter_def)
    ultimately have "pl_shut p = {..<pl_next p} \<or> \<not> pl_closed p \<or> card (dom (pl_leases p)) \<noteq> 0"
      "fst (lease_enter t late p) = Inr True \<or> pl_closed p \<or> \<not> (k = 0 \<or> card (dom (pl_leases p)) < k)"
      "fst (lease_enter t late p) = Inl (RuntimeError ''ledger is closed'') \<or> \<not> pl_closed p" by blast+
    then show ?thesis
      unfolding Some rp Inr option.case prod.case sum.case Let_def size p_def [symmetric]
      using parts(1,2) count pool_run_closed [of p later] k
      by (cases "pl_closed p"; cases "k = 0"; cases "card (dom (pl_leases p)) = 0"; cases "card (dom (pl_leases p)) < k") auto
  qed
qed

end
