(* ===== verification/Content.thy ===== *)
theory Content
  imports AccessProgress Signing
begin

text \<open>
  \<open>examples/content_grant.py\<close>: a publisher encrypts a document, describes it in a signed grant, and a
  reader who knows the publisher's key and the digest of the document checks the grant and decrypts.

  Grants are JSON values without floats, the restricted schema of \<open>canonical\<close>; the nonce that
  \<open>os.urandom\<close> returns and the clock are arguments.
\<close>

section \<open>Publishing\<close>

text \<open>The three operations that \<open>publish\<close> takes from the CPU or from a runtime.\<close>

record 's backend =
  bk_sha256 :: "bytes \<Rightarrow> ('s, bytes) eff"
  bk_seal :: "aead_record \<Rightarrow> ('s, bytes) eff"
  bk_sign :: "bytes \<Rightarrow> ('s, bytes) eff"

definition cpu_backend :: "ossl \<Rightarrow> bytes \<Rightarrow> bytes \<Rightarrow> unit backend" where
  "cpu_backend c aes_key signing_key = \<lparr>
     bk_sha256 = (\<lambda>m. ebind (elift (cpu_sha256 (Items [PBytes m]))) (\<lambda>xs. eret (hd xs))),
     bk_seal = (\<lambda>r. ebind (elift (cpu_seal c (PBytes aes_key) (Items [py_record r]))) (\<lambda>xs. eret (hd xs))),
     bk_sign = (\<lambda>h. ebind (elift (cpu_sign c (PBytes signing_key) (Items [PBytes h]))) (\<lambda>xs. eret (hd xs)))\<rparr>"

definition runtime_backend :: "'n native \<Rightarrow> 'n runtime backend" where
  "runtime_backend lib = \<lparr>
     bk_sha256 = (\<lambda>m. ebind (rt_sha256 lib (Items [PBytes m])) (\<lambda>xs. eret (hd xs))),
     bk_seal = (\<lambda>r. ebind (rt_seal lib (PInt 0) (Items [py_record r]) PNone) (\<lambda>xs.
       case hd xs of Some x \<Rightarrow> eret x | None \<Rightarrow> eraise (TypeError ''a bytes-like object is required''))),
     bk_sign = (\<lambda>h. ebind (rt_sign lib (PInt 1) (Items [PBytes h]) PNone) (\<lambda>xs. eret (hd xs)))\<rparr>"

definition grant_preimage :: "pyval \<Rightarrow> bytes" where
  "grant_preimage grant = ascii_encode (lit ''gpu-crypto-content-grant-v1'') @ [0] @ canonical grant"

definition grant_digest :: "pyval \<Rightarrow> bytes" where
  "grant_digest grant = sha256 (grant_preimage grant)"

definition grant_metadata :: "pyval \<Rightarrow> pyval result" where
  "grant_metadata grant =
     bind_res (map_res (\<lambda>k. bind_res (py_get grant (lit k)) (\<lambda>v. Inr (lit k, v)))
       [''version'', ''publisher_id'', ''content_id'', ''content_length'', ''content_type'', ''key_id''])
       (\<lambda>kvs. Inr (PDict kvs))"

definition new_grant :: "bytes \<Rightarrow> int \<Rightarrow> bytes \<Rightarrow> bytes \<Rightarrow> (ustr \<times> pyval) list" where
  "new_grant content t nonce digest =
     [(lit ''version'', PInt 1), (lit ''publisher_id'', PStr (lit ''publisher.example'')),
      (lit ''content_id'', PStr (hex_of_bytes digest)), (lit ''content_length'', PInt (int (length content))),
      (lit ''content_type'', PStr (lit ''text/plain; charset=utf-8'')), (lit ''principal'', PStr (lit ''reader.example'')),
      (lit ''issued_at'', PInt t), (lit ''expires_at'', PInt (t + 300)), (lit ''key_id'', PStr (lit ''publisher-signing-1'')),
      (lit ''encryption'', PDict [(lit ''algorithm'', PStr (lit ''AES-256-GCM'')),
         (lit ''content_key_id'', PStr (lit ''content-key-1'')), (lit ''nonce'', PStr (hex_of_bytes nonce))]),
      (lit ''terms_hash'', PStr (sha256_hex (ascii_encode (lit ''Example access terms; no payment implemented.''))))]"

definition publish :: "'s backend \<Rightarrow> bytes \<Rightarrow> int \<Rightarrow> bytes \<Rightarrow> ('s, pyval \<times> bytes \<times> bytes) eff" where
  "publish be content t nonce =
     ebind (bk_sha256 be content) (\<lambda>digest.
     let grant = new_grant content t nonce digest in
     ebind (elift (grant_metadata (PDict grant))) (\<lambda>meta.
     ebind (bk_seal be \<lparr>rec_nonce = nonce, rec_data = content, rec_aad = canonical meta\<rparr>) (\<lambda>ciphertext.
     ebind (bk_sha256 be ciphertext) (\<lambda>h.
     let grant = PDict (grant @ [(lit ''ciphertext_sha256'', PStr (hex_of_bytes h))]) in
     ebind (bk_sha256 be (grant_preimage grant)) (\<lambda>d.
     ebind (bk_sign be d) (\<lambda>signature. eret (grant, ciphertext, signature)))))))"

section \<open>Consuming\<close>

text \<open>\<open>bytes.fromhex\<close>: pairs of digits, with ASCII white space between them skipped.\<close>

fun fromhex :: "ustr \<Rightarrow> bytes option" where
  "fromhex [] = Some []"
| "fromhex (a # s) =
     (if a = 32 \<or> 9 \<le> a \<and> a \<le> 13 then fromhex s
      else case s of
        [] \<Rightarrow> None
      | b # s' \<Rightarrow>
          (case (hex_val a, hex_val b) of
             (Some x, Some y) \<Rightarrow> map_option (\<lambda>bs. of_nat (16 * x + y) # bs) (fromhex s')
           | _ \<Rightarrow> None))"

text \<open>\<open>grant[k] != v\<close> and its like: the next test is reached when this one passes.\<close>

definition field_is :: "pyval \<Rightarrow> string \<Rightarrow> (pyval \<Rightarrow> bool) \<Rightarrow> string \<Rightarrow> unit result" where
  "field_is d k P msg = bind_res (py_get d (lit k)) (\<lambda>v. if P v then Inr () else Inl (ValueError msg))"

text \<open>\<open>True == 1\<close> in Python.\<close>

definition equals_one :: "pyval \<Rightarrow> bool" where
  "equals_one v \<longleftrightarrow> v = PInt 1 \<or> v = PBool True"

definition valid_window :: "pyval \<Rightarrow> int \<Rightarrow> unit result" where
  "valid_window grant t =
     bind_res (field_is grant ''issued_at'' (\<lambda>v. as_int v \<noteq> None) ''grant not currently valid'') (\<lambda>_.
     bind_res (field_is grant ''expires_at'' (\<lambda>v. as_int v \<noteq> None) ''grant not currently valid'') (\<lambda>_.
     bind_res (field_is grant ''issued_at'' (\<lambda>v. the (as_int v) \<le> t) ''grant not currently valid'') (\<lambda>_.
       field_is grant ''expires_at'' (\<lambda>v. t < the (as_int v)) ''grant not currently valid'')))"

definition grant_nonce :: "pyval \<Rightarrow> bytes result" where
  "grant_nonce grant =
     bind_res (py_get grant (lit ''encryption'')) (\<lambda>e.
     bind_res (py_get e (lit ''nonce'')) (\<lambda>v.
       case as_str v of
         None \<Rightarrow> Inl (TypeError ''fromhex() argument must be str'')
       | Some s \<Rightarrow> (case fromhex s of None \<Rightarrow> Inl (ValueError ''non-hexadecimal number'') | Some n \<Rightarrow> Inr n)))"

definition check_grant :: "pyval \<Rightarrow> bytes \<Rightarrow> ustr \<Rightarrow> int \<Rightarrow> ustr \<Rightarrow> unit result" where
  "check_grant grant ciphertext expected t reader =
     bind_res (field_is grant ''version'' equals_one ''unexpected issuer or format'') (\<lambda>_.
     bind_res (field_is grant ''publisher_id'' (\<lambda>v. v = PStr (lit ''publisher.example'')) ''unexpected issuer or format'') (\<lambda>_.
     bind_res (field_is grant ''key_id'' (\<lambda>v. v = PStr (lit ''publisher-signing-1'')) ''unexpected issuer or format'') (\<lambda>_.
     bind_res (field_is grant ''principal'' (\<lambda>v. v = PStr reader) ''wrong principal or content'') (\<lambda>_.
     bind_res (field_is grant ''content_id'' (\<lambda>v. v = PStr expected) ''wrong principal or content'') (\<lambda>_.
     bind_res (valid_window grant t) (\<lambda>_.
     bind_res (py_get grant (lit ''encryption'')) (\<lambda>e.
     bind_res (field_is e ''algorithm'' (\<lambda>v. v = PStr (lit ''AES-256-GCM'')) ''unknown encryption key or algorithm'') (\<lambda>_.
     bind_res (field_is e ''content_key_id'' (\<lambda>v. v = PStr (lit ''content-key-1'')) ''unknown encryption key or algorithm'') (\<lambda>_.
       field_is grant ''ciphertext_sha256'' (\<lambda>v. v = PStr (sha256_hex ciphertext)) ''ciphertext identity mismatch'')))))))))"

definition consume ::
    "ossl \<Rightarrow> pyval \<Rightarrow> bytes \<Rightarrow> bytes \<Rightarrow> bytes \<Rightarrow> bytes \<Rightarrow> ustr \<Rightarrow> int \<Rightarrow> ustr \<Rightarrow> bytes result" where
  "consume c grant ciphertext signature aes_key pubkey expected t reader =
     (if \<not> verify_p256 c (PBytes pubkey) (PBytes (grant_digest grant)) (PBytes signature)
      then Inl (ValueError ''invalid publisher signature'')
      else
        bind_res (check_grant grant ciphertext expected t reader) (\<lambda>_.
        bind_res (grant_nonce grant) (\<lambda>nonce.
        bind_res (grant_metadata grant) (\<lambda>meta.
        bind_res (cpu_open c (PBytes aes_key) (Items [py_record \<lparr>rec_nonce = nonce, rec_data = ciphertext,
            rec_aad = canonical meta\<rparr>])) (\<lambda>opened.
          case hd opened of
            None \<Rightarrow> Inl (ValueError ''ciphertext authentication failed'')
          | Some content \<Rightarrow>
              bind_res (field_is grant ''content_length'' (\<lambda>v. as_int v = Some (int (length content))) ''content identity mismatch'')
                (\<lambda>_. if sha256_hex content \<noteq> expected then Inl (ValueError ''content identity mismatch'')
                     else Inr content))))))"

section \<open>Published documents are accepted\<close>

lemma fromhex_hex: "fromhex (hex_of_bytes b) = Some b"
proof (induction b)
  case (Cons x b)
  have n: "nibble_hex k \<noteq> 32" "\<not> nibble_hex k \<le> 13" "hex_val (nibble_hex k) = Some k" if "k < 16" for k
    using that by (auto simp: nibble_hex_def hex_val_def)
  have "unat x div 16 < 16" using unat_byte_bound [of x] by simp
  moreover have "of_nat (16 * (unat x div 16) + unat x mod 16) = x" by simp
  ultimately show ?case
    using Cons n [of "unat x div 16"] n [of "unat x mod 16"] by (auto simp: hex_of_bytes_def)
qed (simp add: hex_of_bytes_def)

lemma hd_one: "length xs = 1 \<Longrightarrow> xs = [hd xs]"
  by (cases xs) auto

lemma bk_cpu:
  "bk_sha256 (cpu_backend c aes sk) m s = (Inr h, s') \<Longrightarrow> h = sha256 m"
  "bk_seal (cpu_backend c aes sk) r s = (Inr x, s') \<Longrightarrow> cpu_seal c (PBytes aes) (Items (map py_record [r])) = Inr [x]"
  "bk_sign (cpu_backend c aes sk) d s = (Inr g, s') \<Longrightarrow> cpu_sign c (PBytes sk) (Items (map PBytes [d])) = Inr [g]"
proof -
  assume "bk_sha256 (cpu_backend c aes sk) m s = (Inr h, s')"
  then obtain xs where "cpu_sha256 (Items (map PBytes [m])) = Inr xs" "h = hd xs"
    by (auto simp: cpu_backend_def ebind_def elift_def eret_def split: sum.splits)
  moreover have "py_messages (Items (map PBytes [m])) = Inr ms \<Longrightarrow> ms = [m]" for ms
    unfolding py_messages_Inr_iff by (cases ms) auto
  ultimately show "h = sha256 m" by (auto simp: cpu_sha256_def bind_res_Inr_iff)
next
  assume "bk_seal (cpu_backend c aes sk) r s = (Inr x, s')"
  then obtain xs where xs: "cpu_seal c (PBytes aes) (Items (map py_record [r])) = Inr xs" "x = hd xs"
    by (auto simp: cpu_backend_def ebind_def elift_def eret_def split: sum.splits)
  then have "length xs = 1"
    unfolding cpu_seal_Inr_iff py_records_Inr_iff by (metis iterable.inject(1) length_map length_Cons list.size(3) One_nat_def)
  with xs show "cpu_seal c (PBytes aes) (Items (map py_record [r])) = Inr [x]" using hd_one by metis
next
  assume "bk_sign (cpu_backend c aes sk) d s = (Inr g, s')"
  then obtain xs where xs: "cpu_sign c (PBytes sk) (Items (map PBytes [d])) = Inr xs" "g = hd xs"
    by (auto simp: cpu_backend_def ebind_def elift_def eret_def split: sum.splits)
  moreover have "py_digests (PBytes sk) (Items (map PBytes [d])) = Inr (n, hs) \<Longrightarrow> length hs = 1" for n hs
    unfolding py_digests_Inr_iff by (metis iterable.inject(1) length_map length_Cons list.size(3) One_nat_def)
  ultimately have "length xs = 1" by (auto simp: cpu_sign_def bind_res_Inr_iff)
  with xs show "cpu_sign c (PBytes sk) (Items (map PBytes [d])) = Inr [g]" using hd_one by metis
qed

lemma published:
  assumes "publish (cpu_backend c aes sk) content t nonce s = (Inr (grant, ciphertext, signature), s')"
  obtains meta where "grant_metadata (PDict (new_grant content t nonce (sha256 content))) = Inr meta"
    and "cpu_seal c (PBytes aes) (Items (map py_record [\<lparr>rec_nonce = nonce, rec_data = content, rec_aad = canonical meta\<rparr>]))
      = Inr [ciphertext]"
    and "grant = PDict (new_grant content t nonce (sha256 content) @ [(lit ''ciphertext_sha256'', PStr (sha256_hex ciphertext))])"
    and "cpu_sign c (PBytes sk) (Items (map PBytes [grant_digest grant])) = Inr [signature]"
proof -
  let ?be = "cpu_backend c aes sk"
  from assms obtain digest s1 meta ct s2 h s3 d s4 where
    1: "bk_sha256 ?be content s = (Inr digest, s1)" and meta: "grant_metadata (PDict (new_grant content t nonce digest)) = Inr meta"
    and 2: "bk_seal ?be \<lparr>rec_nonce = nonce, rec_data = content, rec_aad = canonical meta\<rparr> s1 = (Inr ct, s2)"
    and 3: "bk_sha256 ?be ct s2 = (Inr h, s3)"
    and 4: "bk_sha256 ?be (grant_preimage (PDict (new_grant content t nonce digest @ [(lit ''ciphertext_sha256'', PStr (hex_of_bytes h))]))) s3
        = (Inr d, s4)"
    and 5: "bk_sign ?be d s4 = (Inr signature, s')"
    and out: "grant = PDict (new_grant content t nonce digest @ [(lit ''ciphertext_sha256'', PStr (hex_of_bytes h))])" "ciphertext = ct"
    by (auto simp: publish_def ebind_def elift_def eret_def Let_def split: prod.splits sum.splits)
  from that [of meta] meta bk_cpu(1) [OF 1] bk_cpu(2) [OF 2] bk_cpu(1) [OF 3] bk_cpu(1) [OF 4] bk_cpu(3) [OF 5] out
  show ?thesis by (simp add: sha256_hex_def grant_digest_def)
qed

text \<open>The fields of a published grant.\<close>

lemma published_fields:
  "map_of (new_grant content t nonce digest @ rest) (lit k) =
     (case map_of (new_grant content t nonce digest) (lit k) of None \<Rightarrow> map_of rest (lit k) | Some v \<Rightarrow> Some v)"
  by (simp add: map_add_def)

lemma metadata_append:
  "grant_metadata (PDict g) = Inr meta \<Longrightarrow> grant_metadata (PDict (g @ rest)) = Inr meta"
  by (auto simp: grant_metadata_def py_get_def map_add_def bind_res_Inr_iff split: option.splits)

lemma sealed_opens:
  assumes "aead_law c" and "cpu_seal c key (Items (map py_record [r])) = Inr [x]"
  shows "cpu_open c key (Items [py_record (r\<lparr>rec_data := x\<rparr>)]) = Inr [Some (rec_data r)]"
  using cpu_opens_sealed [OF assms] by (simp add: resealed_def)

text \<open>
  C13. A document published with the CPU library is accepted: the reader named in the grant recovers exactly the
  document, at any time from the issue of the grant until 300 seconds later.
\<close>

theorem published_content_opens:
  assumes "aead_law c" and "ecdsa_law c" and "public_key c (PBytes sk) = Inr pub"
    and "fst (publish (cpu_backend c aes sk) content t nonce ()) = Inr (grant, ciphertext, signature)"
    and "t \<le> time" and "time < t + 300"
  shows "consume c grant ciphertext signature aes pub (sha256_hex content) time (lit ''reader.example'') = Inr content"
proof -
  obtain s' where "publish (cpu_backend c aes sk) content t nonce () = (Inr (grant, ciphertext, signature), s')"
    using assms(4) by (cases "publish (cpu_backend c aes sk) content t nonce ()") simp
  from published [OF this] obtain meta where meta: "grant_metadata (PDict (new_grant content t nonce (sha256 content))) = Inr meta"
    and sealed: "cpu_seal c (PBytes aes) (Items (map py_record [\<lparr>rec_nonce = nonce, rec_data = content, rec_aad = canonical meta\<rparr>]))
      = Inr [ciphertext]"
    and grant: "grant = PDict (new_grant content t nonce (sha256 content) @ [(lit ''ciphertext_sha256'', PStr (sha256_hex ciphertext))])"
    and sign: "cpu_sign c (PBytes sk) (Items (map PBytes [grant_digest grant])) = Inr [signature]" .
  have "cpu_public_key c (PBytes sk) = Inr pub" using assms(3) by (simp add: cpu_public_key_def)
  from cpu_sign_genuine [OF assms(2) this sign]
  have ver: "verify_p256 c (PBytes pub) (PBytes (grant_digest grant)) (PBytes signature)" by simp
  have "check_grant grant ciphertext (sha256_hex content) time (lit ''reader.example'') = Inr ()"
    using assms(5,6) by (simp add: check_grant_def field_is_def py_get_def grant new_grant_def equals_one_def valid_window_def sha256_hex_def)
  moreover have "grant_nonce grant = Inr nonce"
    by (simp add: grant_nonce_def py_get_def grant new_grant_def fromhex_hex)
  moreover have "grant_metadata grant = Inr meta" unfolding grant by (rule metadata_append [OF meta])
  moreover have "field_is grant ''content_length'' (\<lambda>v. as_int v = Some (int (length content))) m = Inr ()" for m
    by (simp add: field_is_def py_get_def grant new_grant_def)
  ultimately show ?thesis
    using ver sealed_opens [OF assms(1) sealed] by (simp add: consume_def)
qed

section \<open>An example\<close>

lemma length_canonical: "length (canonical v) = length (dumps_sorted v)"
  by (simp add: canonical_def)

lemma demo_grant_short:
  "length (grant_preimage (PDict (new_grant [5] 100 (replicate 12 1) (sha256 [5]) @ [(lit ''ciphertext_sha256'', PStr (hex_of_bytes (sha256 x)))])))
     \<le> MAX_PAYLOAD"
proof -
  have i: "length (dec_int 1) \<le> 13" "length (dec_int 100) \<le> 13" "length (dec_int 400) \<le> 13"
    using length_dec_int [of 1 12] length_dec_int [of 100 12] length_dec_int [of 400 12] by simp_all
  let ?e = "[(lit ''algorithm'', PStr (lit ''AES-256-GCM'')), (lit ''content_key_id'', PStr (lit ''content-key-1'')),
      (lit ''nonce'', PStr (hex_of_bytes (replicate 12 1)))]"
  have "length (dumps_sorted (PDict ?e)) \<le> 200"
    by (rule order_trans [OF length_dumps_dict]) (simp add: length_json_str_plain plain_lit plain_hex)
  then have e: "length (json_text (sort_keys (PDict ?e))) \<le> 200" by (simp only: dumps_sorted_def)
  have "length (dumps_sorted (PDict (new_grant [5] 100 (replicate 12 1) (sha256 [5]) @
      [(lit ''ciphertext_sha256'', PStr (hex_of_bytes (sha256 x)))]))) \<le> 4096"
    unfolding new_grant_def
    by (rule order_trans [OF length_dumps_dict])
      (use i e in \<open>simp add: length_json_str_plain plain_lit plain_hex sha256_hex_def del: sort_keys.simps(2) json_text.simps(6)\<close>)
  then show ?thesis by (simp add: grant_preimage_def length_canonical MAX_PAYLOAD_def)
qed

definition demo_meta :: pyval where
  "demo_meta = PDict [(lit ''version'', PInt 1), (lit ''publisher_id'', PStr (lit ''publisher.example'')),
     (lit ''content_id'', PStr (hex_of_bytes (sha256 [5]))), (lit ''content_length'', PInt 1),
     (lit ''content_type'', PStr (lit ''text/plain; charset=utf-8'')), (lit ''key_id'', PStr (lit ''publisher-signing-1''))]"

lemma demo_meta:
  "grant_metadata (PDict (new_grant [5] 100 (replicate 12 1) (sha256 [5]))) = Inr demo_meta"
  "length (canonical demo_meta) \<le> MAX_AAD"
proof -
  show "grant_metadata (PDict (new_grant [5] 100 (replicate 12 1) (sha256 [5]))) = Inr demo_meta"
    by (simp add: grant_metadata_def new_grant_def py_get_def demo_meta_def)
  have i: "length (dec_int 1) \<le> 13" using length_dec_int [of 1 12] by simp
  have "length (dumps_sorted demo_meta) \<le> 1024"
    unfolding demo_meta_def
    by (rule order_trans [OF length_dumps_dict]) (use i in \<open>simp add: length_json_str_plain plain_lit plain_hex\<close>)
  then show "length (canonical demo_meta) \<le> MAX_AAD" by (simp add: length_canonical MAX_AAD_def)
qed

lemma demo_publish:
  "\<exists>grant ciphertext signature. fst (publish (cpu_backend demo_ossl (replicate 32 7) (to_bytes_big 32 1)) [5] 100 (replicate 12 1) ())
     = Inr (grant, ciphertext, signature)"
proof -
  have sha: "cpu_sha256 (Items [PBytes m]) = Inr [sha256 m]" if "length m \<le> MAX_PAYLOAD" for m
  proof -
    have "py_messages (Items (map PBytes [m])) = Inr [m]"
      using that by (simp add: py_messages_Inr_iff MAX_BATCH_def MAX_PAYLOAD_def MAX_WORK_def)
    then show ?thesis by (simp add: cpu_sha256_def)
  qed
  let ?r = "\<lparr>rec_nonce = replicate 12 1, rec_data = [5], rec_aad = canonical demo_meta\<rparr>"
  have "py_records (PBytes (replicate 32 7)) (Items (map py_record [?r])) False = Inr (replicate 32 7, [?r])"
    unfolding py_records_Inr_iff using demo_meta(2)
    by (simp add: rec_ok_def rec_work_def MAX_BATCH_def MAX_AAD_def MAX_PAYLOAD_def MAX_WORK_def)
  then have seal: "cpu_seal demo_ossl (PBytes (replicate 32 7)) (Items [py_record ?r]) = Inr [5 # replicate 16 0]"
    by (simp add: cpu_seal_def demo_ossl_def)
  have sign: "cpu_sign demo_ossl (PBytes (to_bytes_big 32 1)) (Items [PBytes h]) = Inr [raw_signature (ecdsa_sign demo_ossl 1 h)]"
    if "length h = 32" for h
    using demo_batch [OF that] by (simp add: cpu_sign_def)
  show ?thesis
    by (simp add: publish_def cpu_backend_def ebind_def elift_def eret_def sha [OF demo_grant_short] demo_meta(1) seal Let_def
        sign [unfolded One_nat_def] length_sha256 sha MAX_PAYLOAD_def)
qed

theorem published_content_opens_witness:
  "\<exists>grant ciphertext signature.
     fst (publish (cpu_backend demo_ossl (replicate 32 7) (to_bytes_big 32 1)) [5] 100 (replicate 12 1) ()) = Inr (grant, ciphertext, signature)
     \<and> consume demo_ossl grant ciphertext signature (replicate 32 7) (ec_public demo_ossl 1) (sha256_hex [5]) 399 (lit ''reader.example'')
         = Inr [5]"
proof -
  obtain grant ciphertext signature where run: "fst (publish (cpu_backend demo_ossl (replicate 32 7) (to_bytes_big 32 1)) [5] 100 (replicate 12 1) ())
     = Inr (grant, ciphertext, signature)" using demo_publish by blast
  have "public_key demo_ossl (PBytes (to_bytes_big 32 1)) = Inr (ec_public demo_ossl 1)"
    using scalar_digests [of 1] ORDER_bounds(1) by (simp add: public_key_def)
  from published_content_opens [OF demo_aead_law demo_ecdsa_law this run, of 399] run show ?thesis by auto
qed

end
