(* ===== verification/Offline.thy ===== *)
theory Offline
  imports Content Manifests
begin

text \<open>
  The two example programs around receipts: \<open>examples/record_receipts.py\<close> seals an export and writes a record,
  its receipt or manifest and the public key into files, and \<open>examples/verify_record_receipt.py\<close> checks such
  files offline. A file is its bytes, or \<open>None\<close> when opening or reading it raises \<open>OSError\<close>; the parsing of the
  command line and what is printed on the side are left out.
\<close>

section \<open>record_receipts.py\<close>

definition demo_context :: ustr where "demo_context = lit ''demo-export-2026-09-07''"
definition demo_key_id :: ustr where "demo_key_id = lit ''demo-key-1''"

definition demo_records :: "bytes list" where
  "demo_records = map (\<lambda>i. ascii_encode (json_text (PDict [(lit ''record_id'', PInt (int i)),
     (lit ''source'', PStr (lit ''synthetic-catalog'')), (lit ''text'', PStr (lit ''Example tool result '' @ dec_nat i))]))) [0..<64]"

text \<open>The files \<open>record.bin\<close>, \<open>receipt.json\<close> or \<open>manifest.jws\<close>, and \<open>public-key.hex\<close>.\<close>

definition write_export :: "ossl \<Rightarrow> bytes \<Rightarrow> bool \<Rightarrow> (bytes \<times> bytes \<times> bytes) result" where
  "write_export c key manifest =
     bind_res (public_key c (PBytes key)) (\<lambda>public.
     bind_res
       (if manifest then bind_res (seal_manifest (Items (map PBytes demo_records)) (PStr demo_context) (PStr demo_key_id)
            (cpu_signer c (PBytes key))) (\<lambda>token. Inr (ascii_encode token))
        else bind_res (seal_records (Items (map PBytes demo_records)) (PStr demo_context) (PStr demo_key_id)
            (cpu_signer c (PBytes key))) (\<lambda>batch. receipt batch (PInt 17) True))
       (\<lambda>rc. Inr (demo_records ! 17, rc, ascii_encode (hex_of_bytes public))))"

text \<open>The closure \<open>verify\<close>, after the check of the complete export that the manifest format makes first.\<close>

definition demo_verify :: "ossl \<Rightarrow> bytes \<Rightarrow> bool \<Rightarrow> bytes \<Rightarrow> bytes \<Rightarrow> bool result" where
  "demo_verify c public manifest rc r =
     (if manifest then
        bind_res (open_manifest c (PStr (ascii_decode rc)) (PBytes public) (PStr demo_key_id) (PStr demo_context)) (\<lambda>opened.
          case opened of
            None \<Rightarrow> Inl (RuntimeError ''complete export failed verification'')
          | Some m \<Rightarrow> bind_res (verify_all m (Items (map PBytes demo_records))) (\<lambda>complete.
              if \<not> complete then Inl (RuntimeError ''complete export failed verification'')
              else Inr (verify_record m (PBytes r) (PInt 17))))
      else bind_res (receipt_verifier_init c (PBytes public) (PStr demo_key_id) (PStr demo_context)) (\<lambda>v.
        fst (rv_verify c v (PBytes r) (PBytes rc) (PInt 17) PNone)))"

definition receipts_main :: "ossl \<Rightarrow> bytes \<Rightarrow> bool \<Rightarrow> (bytes \<times> bytes \<times> bytes) result" where
  "receipts_main c key manifest =
     bind_res (write_export c key manifest) (\<lambda>(r, rc, text_key).
     bind_res (public_key c (PBytes key)) (\<lambda>public.
     bind_res (demo_verify c public manifest rc r) (\<lambda>accepted.
       if \<not> accepted then Inl (RuntimeError ''receipt failed'')
       else bind_res (demo_verify c public manifest rc (r @ ascii_encode (lit ''changed''))) (\<lambda>changed.
         if changed then Inl (RuntimeError ''changed record accepted'') else Inr (r, rc, text_key)))))"

section \<open>verify_record_receipt.py\<close>

definition read_bounded :: "bytes option \<Rightarrow> nat \<Rightarrow> bytes result" where
  "read_bounded path limit =
     (case path of
        None \<Rightarrow> Inl (OSError ''no such file'')
      | Some data \<Rightarrow> if limit < length data then Inl (ValueError ''input file exceeds profile limit'') else Inr data)"

text \<open>\<open>decode("ascii")\<close>, and \<open>strip\<close> on the ASCII text it gives.\<close>

definition decode_ascii :: "bytes \<Rightarrow> ustr result" where
  "decode_ascii b = (if \<forall>x \<in> set b. unat x < 128 then Inr (ascii_decode b) else Inl (UnicodeError ''ascii''))"

definition py_space :: "nat \<Rightarrow> bool" where
  "py_space k \<longleftrightarrow> k = 32 \<or> 9 \<le> k \<and> k \<le> 13 \<or> 28 \<le> k \<and> k \<le> 31"

definition py_strip :: "ustr \<Rightarrow> ustr" where
  "py_strip s = rev (dropWhile py_space (rev (dropWhile py_space s)))"

definition read_public :: "bytes option \<Rightarrow> bytes result" where
  "read_public path =
     bind_res (read_bounded path 132) (\<lambda>b.
     bind_res (decode_ascii b) (\<lambda>s.
       case fromhex (py_strip s) of None \<Rightarrow> Inl (ValueError ''non-hexadecimal number'') | Some public \<Rightarrow> Inr public))"

definition offline_check ::
    "ossl \<Rightarrow> bool \<Rightarrow> bytes option \<Rightarrow> bytes option \<Rightarrow> bytes option \<Rightarrow> ustr \<Rightarrow> ustr \<Rightarrow> int \<Rightarrow> bool result" where
  "offline_check c manifest record_path receipt_path key_path key_id context index =
     bind_res (read_public key_path) (\<lambda>public.
     bind_res (read_bounded record_path MAX_PAYLOAD) (\<lambda>r.
       if manifest then
         bind_res (read_bounded receipt_path MAX_LIST_BYTES) (\<lambda>b.
         bind_res (decode_ascii b) (\<lambda>token.
         bind_res (open_manifest c (PStr token) (PBytes public) (PStr key_id) (PStr context)) (\<lambda>checked.
           Inr (case checked of None \<Rightarrow> False | Some m \<Rightarrow> verify_record m (PBytes r) (PInt index)))))
       else
         bind_res (receipt_verifier_init c (PBytes public) (PStr key_id) (PStr context)) (\<lambda>v.
         bind_res (read_bounded receipt_path MAX_RECEIPT_BYTES) (\<lambda>rc.
           fst (rv_verify c v (PBytes r) (PBytes rc) (PInt index) PNone)))))"

text \<open>\<open>except (OSError, ValueError)\<close>, with the subclasses of both; the exit status is the answer.\<close>

fun offline_catches :: "exn \<Rightarrow> bool" where
  "offline_catches (OSError _) = True"
| "offline_catches (TimeoutError _) = True"
| "offline_catches (ValueError _) = True"
| "offline_catches (Denied _) = True"
| "offline_catches (UnicodeError _) = True"
| "offline_catches _ = False"

definition offline_main ::
    "ossl \<Rightarrow> bool \<Rightarrow> bytes option \<Rightarrow> bytes option \<Rightarrow> bytes option \<Rightarrow> ustr \<Rightarrow> ustr \<Rightarrow> int \<Rightarrow> (string \<times> nat) result" where
  "offline_main c manifest record_path receipt_path key_path key_id context index =
     bind_res (case offline_check c manifest record_path receipt_path key_path key_id context index of
         Inl e \<Rightarrow> if offline_catches e then Inr False else Inl e
       | Inr accepted \<Rightarrow> Inr accepted)
       (\<lambda>accepted. Inr (if accepted then (''VERIFIED: exact record included under configured key/context/index'', 0)
                        else (''REJECTED'', 1)))"

section \<open>What the issuer writes the offline consumer accepts\<close>

lemma hex_chars: "x \<in> set (hex_of_bytes b) \<Longrightarrow> \<not> py_space x \<and> x < 128"
proof (induction b)
  case (Cons y b)
  have "\<not> py_space (nibble_hex k) \<and> nibble_hex k < 128" if "k < 16" for k
    using that by (auto simp: nibble_hex_def py_space_def)
  moreover have "unat y div 16 < 16" using unat_byte_bound [of y] by simp
  ultimately show ?case using Cons by (auto simp: hex_of_bytes_def)
qed (simp add: hex_of_bytes_def)

lemma dropWhile_none: "(\<And>x. x \<in> set xs \<Longrightarrow> \<not> P x) \<Longrightarrow> dropWhile P xs = xs"
  by (cases xs) auto

lemma strip_hex: "py_strip (hex_of_bytes b) = hex_of_bytes b"
proof -
  have "dropWhile py_space (hex_of_bytes b) = hex_of_bytes b" by (rule dropWhile_none) (simp add: hex_chars)
  moreover have "dropWhile py_space (rev (hex_of_bytes b)) = rev (hex_of_bytes b)" by (rule dropWhile_none) (simp add: hex_chars)
  ultimately show ?thesis by (simp add: py_strip_def)
qed

lemma decode_ascii_encode: "isascii s \<Longrightarrow> decode_ascii (ascii_encode s) = Inr s"
proof -
  assume s: "isascii s"
  then have "\<forall>x \<in> set (ascii_encode s). unat x < 128" by (auto simp: ascii_encode_def isascii_def unat_of_nat)
  with s show ?thesis by (simp add: decode_ascii_def)
qed

lemma length_hex: "length (hex_of_bytes b) = 2 * length b"
  by (induction b) (simp_all add: hex_of_bytes_def)

lemma read_public_hex:
  assumes "length p \<le> 66"
  shows "read_public (Some (ascii_encode (hex_of_bytes p))) = Inr p"
proof -
  have "isascii (hex_of_bytes p)" using hex_chars [of _ p] by (auto simp: isascii_def)
  moreover have "length (ascii_encode (hex_of_bytes p)) \<le> 132" using assms by (simp add: length_hex)
  ultimately show ?thesis
    by (simp add: read_public_def read_bounded_def decode_ascii_encode strip_hex fromhex_hex)
qed

lemma manifest_file:
  assumes "ecdsa_law c" and "cpu_public_key c (PBytes key) = Inr pub"
    and "seal_manifest (Items (map PBytes demo_records)) (PStr demo_context) (PStr demo_key_id) (cpu_signer c (PBytes key)) = Inr t"
  obtains m where "open_manifest c (PStr t) (PBytes pub) (PStr demo_key_id) (PStr demo_context) = Inr (Some m)"
    and "verify_record m (PBytes (demo_records ! 17)) (PInt 17)" and "verify_all m (Items (map PBytes demo_records)) = Inr True"
    and "isascii t" and "length t \<le> MAX_LIST_BYTES" and "length (demo_records ! 17) \<le> MAX_PAYLOAD"
proof -
  from cpu_sealed_manifest [OF assms] obtain m where
    m: "open_manifest c (PStr t) (PBytes pub) (PStr demo_key_id) (PStr demo_context) = Inr (Some m)"
    and each: "\<forall>i < length demo_records. verify_record m (PBytes (demo_records ! i)) (PInt (int i))"
    and all: "verify_all m (Items (map PBytes demo_records)) = Inr True" by blast
  have "verify_record m (PBytes (demo_records ! 17)) (PInt (int 17))"
    by (rule each [rule_format]) (simp add: demo_records_def)
  then have one: "verify_record m (PBytes (demo_records ! 17)) (PInt 17)" by simp
  have "isascii t \<and> length t \<le> MAX_LIST_BYTES"
    using m by (auto simp: open_manifest_def bind_res_Inr_iff split: if_splits)
  with that m one all show ?thesis by (simp add: verify_record_iff)
qed

lemma receipt_file:
  assumes "ecdsa_law c" and "cpu_public_key c (PBytes key) = Inr pub"
    and "seal_records (Items (map PBytes demo_records)) (PStr demo_context) (PStr demo_key_id) (cpu_signer c (PBytes key)) = Inr sb"
    and "receipt sb (PInt 17) True = Inr rc"
  obtains v where "receipt_verifier_init c (PBytes pub) (PStr demo_key_id) (PStr demo_context) = Inr v"
    and "fst (rv_verify c v (PBytes (demo_records ! 17)) (PBytes rc) (PInt 17) PNone) = Inr True"
    and "\<And>r. \<exists>b. fst (rv_verify c v (PBytes r) (PBytes rc) (PInt 17) PNone) = Inr b"
    and "length rc \<le> MAX_RECEIPT_BYTES" and "length (demo_records ! 17) \<le> MAX_PAYLOAD"
proof -
  from assms(2) obtain d where pub: "pub = ec_public c d" "1 \<le> d" "d < ORDER"
    by (auto simp: cpu_public_key_def public_key_def py_digests_Inr_iff)
  have "ec_point c pub"
    using assms(1) [unfolded ecdsa_law_def, rule_format, OF pub(2,3) length_sha256 [of "[]"]] pub(1)
    by (cases "ecdsa_sign c d (sha256 [])") simp
  moreover have "key_label_ok demo_context" "key_label_ok demo_key_id" using assms(3) by (auto simp: seal_records_Inr_iff)
  ultimately obtain v where v: "receipt_verifier_init c (PBytes pub) (PStr demo_key_id) (PStr demo_context) = Inr v"
    unfolding init_Inr_iff by blast
  then have cfg: "rv_key_id v = demo_key_id" "rv_context v = demo_context" "rv_key v = pub" by (auto simp: init_Inr_iff)
  have "17 < length demo_records" by (simp add: demo_records_def)
  from digest_signer.receipts_accepted(1) [OF cpu_signer_contract [OF assms(1,2)] assms(3) cfg(1,2) _ this, of c]
  have "\<exists>rc. receipt sb (PInt (int 17)) True = Inr rc \<and> accepts c v (demo_records ! 17) rc (int 17) PNone"
    by (simp add: cfg(3) ecdsa_of_verify)
  with assms(4) have acc: "accepts c v (demo_records ! 17) rc 17 PNone" by auto
  from that [OF v] show ?thesis
    using acc fresh_verify [OF v] by (simp add: accepts_def)
qed

text \<open>
  C20. What the issuer's program writes the offline program verifies: with either format, the record, the receipt
  or manifest and the public-key file of a sealed export, read back under the same key id, context and index,
  end in VERIFIED with exit status 0. The issuer's own checks do not fail before that, except that a SHA-256
  collision could make it report that a changed record was accepted.
\<close>

theorem exported_files_verify:
  assumes "ecdsa_law c" and "public_key c (PBytes key) = Inr pub" and "length pub = 65"
    and "write_export c key manifest = Inr (r, rc, text_key)"
  shows "offline_main c manifest (Some r) (Some rc) (Some text_key) demo_key_id demo_context 17
      = Inr (''VERIFIED: exact record included under configured key/context/index'', 0)
    \<and> (receipts_main c key manifest = Inr (r, rc, text_key)
       \<or> receipts_main c key manifest = Inl (RuntimeError ''changed record accepted''))"
proof -
  have pub: "cpu_public_key c (PBytes key) = Inr pub" using assms(2) by (simp add: cpu_public_key_def)
  have key_file: "read_public (Some text_key) = Inr pub" and r: "r = demo_records ! 17"
    using assms by (auto simp: write_export_def bind_res_Inr_iff read_public_hex)
  show ?thesis
  proof (cases manifest)
    case True
    with assms(4) obtain t where t: "seal_manifest (Items (map PBytes demo_records)) (PStr demo_context) (PStr demo_key_id)
        (cpu_signer c (PBytes key)) = Inr t" and rc: "rc = ascii_encode t"
      by (auto simp: write_export_def bind_res_Inr_iff)
    from manifest_file [OF assms(1) pub t] obtain m where
      m: "open_manifest c (PStr t) (PBytes pub) (PStr demo_key_id) (PStr demo_context) = Inr (Some m)"
        "verify_record m (PBytes r) (PInt 17)" "verify_all m (Items (map PBytes demo_records)) = Inr True"
      and t': "isascii t" "length t \<le> MAX_LIST_BYTES" "length r \<le> MAX_PAYLOAD" unfolding r by blast
    have "offline_check c manifest (Some r) (Some rc) (Some text_key) demo_key_id demo_context 17 = Inr True"
      using m t' by (simp add: offline_check_def key_file True read_bounded_def rc decode_ascii_encode)
    moreover have "demo_verify c pub manifest rc x = Inr (verify_record m (PBytes x) (PInt 17))" for x
      using m t' by (simp add: demo_verify_def True rc)
    ultimately show ?thesis
      using m(2) assms(2,4) by (simp add: offline_main_def receipts_main_def)
  next
    case False
    with assms(4) obtain sb where sb: "seal_records (Items (map PBytes demo_records)) (PStr demo_context) (PStr demo_key_id)
        (cpu_signer c (PBytes key)) = Inr sb" and rc: "receipt sb (PInt 17) True = Inr rc"
      by (auto simp: write_export_def bind_res_Inr_iff)
    from receipt_file [OF assms(1) pub sb rc] obtain v where
      v: "receipt_verifier_init c (PBytes pub) (PStr demo_key_id) (PStr demo_context) = Inr v"
        "fst (rv_verify c v (PBytes r) (PBytes rc) (PInt 17) PNone) = Inr True"
      and answers: "\<And>x. \<exists>b. fst (rv_verify c v (PBytes x) (PBytes rc) (PInt 17) PNone) = Inr b"
      and size: "length rc \<le> MAX_RECEIPT_BYTES" "length r \<le> MAX_PAYLOAD" unfolding r by blast
    obtain b where b: "fst (rv_verify c v (PBytes (r @ ascii_encode (lit ''changed''))) (PBytes rc) (PInt 17) PNone) = Inr b"
      using answers by blast
    have "offline_check c manifest (Some r) (Some rc) (Some text_key) demo_key_id demo_context 17 = Inr True"
      using v size by (simp add: offline_check_def key_file False read_bounded_def)
    moreover have "demo_verify c pub manifest rc x = fst (rv_verify c v (PBytes x) (PBytes rc) (PInt 17) PNone)" for x
      using v by (simp add: demo_verify_def False)
    ultimately show ?thesis
      using v(2) b assms(2,4) by (simp add: offline_main_def receipts_main_def)
  qed
qed

section \<open>An example\<close>

lemma demo_record_length:
  assumes "x \<in> set demo_records"
  shows "length x \<le> 200"
proof -
  from assms obtain i where x: "x = ascii_encode (json_text (PDict [(lit ''record_id'', PInt (int i)),
     (lit ''source'', PStr (lit ''synthetic-catalog'')), (lit ''text'', PStr (lit ''Example tool result '' @ dec_nat i))]))" "i < 64"
    by (auto simp: demo_records_def)
  have "length (dec_nat i) \<le> 2" by (rule length_dec_nat) (use x(2) in auto)
  moreover have "length (dec_int (int i)) = length (dec_nat i)" by (simp add: dec_int_def)
  moreover have "plain (lit ''Example tool result '' @ dec_nat i)"
    using plain_lit [of "''Example tool result ''"] dec_nat_digits [of i] by (auto simp: plain_def is_digit_def)
  ultimately show ?thesis unfolding x(1) by (simp add: length_json_str_plain plain_lit)
qed

theorem exported_files_verify_witness:
  "\<exists>r rc k. write_export demo_ossl (replicate 31 0 @ [1]) False = Inr (r, rc, k)
     \<and> offline_main demo_ossl False (Some r) (Some rc) (Some k) demo_key_id demo_context 17
         = Inr (''VERIFIED: exact record included under configured key/context/index'', 0)"
proof -
  have pub: "public_key demo_ossl (PBytes (replicate 31 0 @ [1])) = Inr (to_bytes_big 65 1)"
    using demo_public_key by (simp add: cpu_public_key_def)
  have count: "length demo_records = 64" by (simp add: demo_records_def)
  have "sum_list (map length demo_records) \<le> 64 * 200"
  proof -
    have "sum_list (map length demo_records) \<le> sum_list (map (\<lambda>_. 200) demo_records)"
      using demo_record_length by (rule sum_list_mono)
    also have "\<dots> = 64 * 200" by (simp only: sum_list_triv count) simp
    finally show ?thesis .
  qed
  then have m: "py_messages (Items (map PBytes demo_records)) = Inr demo_records"
    using demo_record_length unfolding py_messages_Inr_iff count
    by (fastforce simp: MAX_BATCH_def MAX_PAYLOAD_def MAX_WORK_def)
  have "key_label_ok demo_context" "key_label_ok demo_key_id" "demo_records \<noteq> []"
    by (simp_all add: key_label_ok_def isprintable_ascii_def demo_context_def demo_key_id_def lit_def demo_records_def)
  from cpu_seal_total [OF demo_ecdsa_law demo_public_key this m] obtain sb where
    sb: "seal_records (Items (map PBytes demo_records)) (PStr demo_context) (PStr demo_key_id)
      (cpu_signer demo_ossl (PBytes (replicate 31 0 @ [1]))) = Inr sb" ..
  then have "length (sb_paths sb) = 64" unfolding seal_records_Inr_iff using count by auto
  then obtain rc where "receipt sb (PInt 17) True = Inr rc" by (simp add: receipt_def)
  with pub sb have run: "write_export demo_ossl (replicate 31 0 @ [1]) False
      = Inr (demo_records ! 17, rc, ascii_encode (hex_of_bytes (to_bytes_big 65 1)))"
    by (simp add: write_export_def)
  from exported_files_verify [OF demo_ecdsa_law pub _ run] run show ?thesis by auto
qed

end
