(* ===== verification/Programs.thy ===== *)
theory Programs
  imports Offline Consumer
begin

text \<open>
  The small programs that exercise the package end to end: \<open>examples/cpu_only.py\<close>, \<open>examples/jws_grant.py\<close> and the
  functional part of \<open>tools/check_python_install.py\<close>. Their fresh keys are arguments; a failed check is the exception they raise,
  and the printing of the PASS line is the value \<open>()\<close>. The lookup of the installed distribution is not modelled.
\<close>

section \<open>cpu_only.py\<close>

definition example_messages :: "bytes list" where
  "example_messages = [ascii_encode (lit ''record one''), ascii_encode (lit ''record two'')]"

definition example_aead :: "aead_record list" where
  "example_aead = map (\<lambda>(i, data). \<lparr>rec_nonce = to_bytes_big 12 i, rec_data = data, rec_aad = ascii_encode (lit ''cpu-example:v1'')\<rparr>)
     (zip [0..<length example_messages] example_messages)"

text \<open>\<open>changed[-1] ^= 1\<close>.\<close>

definition flip_last :: "bytes \<Rightarrow> bytes" where
  "flip_last b = butlast b @ [Bit_Operations.xor (last b) 1]"

definition cpu_only :: "ossl \<Rightarrow> bytes \<Rightarrow> bytes \<Rightarrow> unit result" where
  "cpu_only c aes_key signing_key =
     bind_res (cpu_sha256 (Items (map PBytes example_messages))) (\<lambda>digests.
       if digests \<noteq> map sha256 example_messages then Inl (RuntimeError ''SHA-256 comparison failed'') else
     bind_res (cpu_seal c (PBytes aes_key) (Items (map py_record example_aead))) (\<lambda>sealed.
     bind_res (cpu_open c (PBytes aes_key) (Items (map py_record (map (\<lambda>(r, data). r\<lparr>rec_data := data\<rparr>) (zip example_aead sealed)))))
       (\<lambda>opened.
       if opened \<noteq> map Some example_messages then Inl (RuntimeError ''AES-GCM round trip failed'') else
     bind_res (cpu_open c (PBytes aes_key) (Items [py_record ((hd example_aead)\<lparr>rec_data := flip_last (hd sealed)\<rparr>)])) (\<lambda>altered.
       if altered \<noteq> [None] then Inl (RuntimeError ''altered authentication tag accepted'') else
     bind_res (cpu_sign c (PBytes signing_key) (Items (map PBytes digests))) (\<lambda>signatures.
     bind_res (public_key c (PBytes signing_key)) (\<lambda>public.
       if \<not> list_all (\<lambda>(h, s). verify_p256 c (PBytes public) (PBytes h) (PBytes s)) (zip digests signatures)
       then Inl (RuntimeError ''P-256 verification failed'') else Inr ()))))))"

section \<open>check_python_install.py\<close>

definition install_records :: "bytes list" where
  "install_records = [ascii_encode (lit ''installed export record''), ascii_encode (lit ''second record'')]"

definition install_context :: ustr where "install_context = lit ''install-check''"
definition install_key_id :: ustr where "install_key_id = lit ''consumer-1''"

definition check_signing :: "ossl \<Rightarrow> bytes \<Rightarrow> unit result" where
  "check_signing c key =
     bind_res (cpu_sha256 (Items [PBytes (ascii_encode (lit ''standalone consumer''))])) (\<lambda>digests.
       if hd digests \<noteq> sha256 (ascii_encode (lit ''standalone consumer'')) then Inl (RuntimeError ''hash check failed'') else
     bind_res (cpu_sign c (PBytes key) (Items [PBytes (hd digests)])) (\<lambda>signatures.
     bind_res (public_key c (PBytes key)) (\<lambda>public.
       if \<not> verify_p256 c (PBytes public) (PBytes (hd digests)) (PBytes (hd signatures))
       then Inl (RuntimeError ''signature check failed'') else
     bind_res (sign_es256 (Items [PBytes (ascii_encode [123, 34, 101, 120, 97, 109, 112, 108, 101, 34, 58, 116, 114, 117, 101, 125])])
         (PStr install_key_id) (cpu_signer c (PBytes key))) (\<lambda>tokens.
       if length tokens \<noteq> 1 \<or> length (split_dot (hd tokens)) \<noteq> 3 then Inl (RuntimeError ''JWS construction failed'') else Inr ()))))"

text \<open>The second call of \<open>verify\<close> is reached when the first answers true.\<close>

definition check_receipts :: "ossl \<Rightarrow> bytes \<Rightarrow> unit result" where
  "check_receipts c key =
     bind_res (seal_records (Items (map PBytes install_records)) (PStr install_context) (PStr install_key_id)
       (cpu_signer c (PBytes key))) (\<lambda>batch.
     bind_res (public_key c (PBytes key)) (\<lambda>public.
     bind_res (receipt_verifier_init c (PBytes public) (PStr install_key_id) (PStr install_context)) (\<lambda>v.
     bind_res (receipt batch (PInt 1) True) (\<lambda>rc.
     fst (ebind (\<lambda>v. rv_verify c v (PBytes (install_records ! 1)) (PBytes rc) (PInt 1) PNone) (\<lambda>accepted.
       if \<not> accepted then eraise (RuntimeError ''installed record receipt check failed'') else
       ebind (\<lambda>v. rv_verify c v (PBytes (ascii_encode (lit ''changed''))) (PBytes rc) (PInt 1) PNone) (\<lambda>changed.
         if changed then eraise (RuntimeError ''installed record receipt check failed'') else eret ())) v)))))"

definition check_manifest :: "ossl \<Rightarrow> bytes \<Rightarrow> unit result" where
  "check_manifest c key =
     bind_res (seal_manifest (Items (map PBytes install_records)) (PStr install_context) (PStr install_key_id)
       (cpu_signer c (PBytes key))) (\<lambda>token.
     bind_res (public_key c (PBytes key)) (\<lambda>public.
     bind_res (open_manifest c (PStr token) (PBytes public) (PStr install_key_id) (PStr install_context)) (\<lambda>checked.
       case checked of
         None \<Rightarrow> Inl (RuntimeError ''installed signed manifest check failed'')
       | Some m \<Rightarrow>
           bind_res (verify_all m (Items (map PBytes install_records))) (\<lambda>complete.
             if \<not> complete then Inl (RuntimeError ''installed signed manifest check failed'') else
             bind_res (verify_all m (Items (map PBytes (butlast install_records)))) (\<lambda>partial.
               if partial then Inl (RuntimeError ''installed signed manifest check failed'') else Inr ())))))"

definition check_aead :: "ossl \<Rightarrow> bytes \<Rightarrow> unit result" where
  "check_aead c aes_key =
     (let r = \<lparr>rec_nonce = replicate 12 0, rec_data = ascii_encode (lit ''local fixture''), rec_aad = []\<rparr> in
     bind_res (cpu_seal c (PBytes aes_key) (Items [py_record r])) (\<lambda>sealed.
     bind_res (cpu_open c (PBytes aes_key) (Items [py_record (r\<lparr>rec_data := hd sealed\<rparr>)])) (\<lambda>opened.
       if opened \<noteq> [Some (rec_data r)] then Inl (RuntimeError ''AES check failed'') else Inr ())))"

definition check_install :: "ossl \<Rightarrow> bytes \<Rightarrow> bytes \<Rightarrow> unit result" where
  "check_install c key aes_key =
     bind_res (check_signing c key) (\<lambda>_. bind_res (check_receipts c key) (\<lambda>_. bind_res (check_manifest c key) (\<lambda>_.
       check_aead c aes_key)))"

section \<open>The installed package passes its check\<close>

lemma cpu_sign_runs:
  assumes "cpu_public_key c (PBytes key) = Inr pub" and "\<forall>h \<in> set hs. length h = 32" and "length hs \<le> MAX_BATCH"
  obtains sigs where "cpu_sign c (PBytes key) (Items (map PBytes hs)) = Inr sigs"
proof -
  from assms obtain d where "py_digests (PBytes key) (Items (map PBytes hs)) = Inr (d, hs)"
    by (auto simp: cpu_public_key_def public_key_def py_digests_Inr_iff)
  then show ?thesis using that by (simp add: cpu_sign_def)
qed

lemma key_point:
  assumes "ecdsa_law c" and "cpu_public_key c (PBytes key) = Inr pub"
  shows "public_key c (PBytes key) = Inr pub" and "ec_point c pub"
proof -
  show "public_key c (PBytes key) = Inr pub" using assms(2) by (simp add: cpu_public_key_def)
  from assms(2) obtain d where pub: "pub = ec_public c d" "1 \<le> d" "d < ORDER"
    by (auto simp: cpu_public_key_def public_key_def py_digests_Inr_iff)
  show "ec_point c pub"
    using assms(1) [unfolded ecdsa_law_def, rule_format, OF pub(2,3) length_sha256 [of "[]"]] pub(1)
    by (cases "ecdsa_sign c d (sha256 [])") simp
qed

lemma install_labels: "key_label_ok install_context" "key_label_ok install_key_id"
  by (simp_all add: key_label_ok_def isprintable_ascii_def install_context_def install_key_id_def lit_def)

lemma install_messages:
  "py_messages (Items (map PBytes install_records)) = Inr install_records"
  "py_messages (Items (map PBytes (butlast install_records))) = Inr (butlast install_records)"
  "length install_records = 2" "install_records \<noteq> []"
  by (simp_all add: py_messages_Inr_iff install_records_def ascii_encode_def lit_def MAX_BATCH_def MAX_PAYLOAD_def MAX_WORK_def)

lemma check_signing_passes:
  assumes "ecdsa_law c" and "cpu_public_key c (PBytes key) = Inr pub"
  shows "check_signing c key = Inr ()"
proof -
  let ?m = "ascii_encode (lit ''standalone consumer'')"
    and ?p = "ascii_encode [123, 34, 101, 120, 97, 109, 112, 108, 101, 34, 58, 116, 114, 117, 101, 125]"
  have hash: "cpu_sha256 (Items [PBytes ?m]) = Inr [sha256 ?m]"
  proof -
    have "py_messages (Items (map PBytes [?m])) = Inr [?m]"
      by (simp add: py_messages_Inr_iff ascii_encode_def lit_def MAX_BATCH_def MAX_PAYLOAD_def MAX_WORK_def)
    then show ?thesis by (simp add: cpu_sha256_def)
  qed
  obtain sigs where sigs: "cpu_sign c (PBytes key) (Items (map PBytes [sha256 ?m])) = Inr sigs"
    by (rule cpu_sign_runs [OF assms(2), of "[sha256 ?m]"]) (simp_all add: MAX_BATCH_def)
  from cpu_sign_genuine [OF assms sigs] obtain g where g: "sigs = [g]"
    "verify_p256 c (PBytes pub) (PBytes (sha256 ?m)) (PBytes g)" by (auto simp: list_all2_Cons1)
  have "length ?p \<le> MAX_PAYLOAD" by (simp add: ascii_encode_def MAX_PAYLOAD_def)
  from cpu_one_token_total [OF assms install_labels(2) this] obtain t where
    "sign_es256 (Items (map PBytes [?p])) (PStr install_key_id) (cpu_signer c (PBytes key)) = Inr [compact_token install_key_id ?p t]" ..
  then show ?thesis
    using hash sigs g key_point(1) [OF assms] by (simp add: check_signing_def split_compact_token)
qed

lemma sealed_receipt_binds:
  assumes "digest_signer sign genuine" and s: "seal_records (Items (map PBytes recs)) (PStr ctx) (PStr kid) sign = Inr sb"
    and v: "rv_key_id v = kid" "rv_context v = ctx" "\<And>h g. genuine h g \<Longrightarrow> ecdsa_verify c (rv_key v) (sig_r g) (sig_s g) h"
    and rc: "receipt sb (PInt (int i)) True = Inr rc" and i: "i < length recs" and acc: "accepts c v r rc (int i) PNone"
  shows "r = recs ! i \<or> collision_in (included_inputs r i (length recs) (mpath i recs))
    (included_inputs (recs ! i) i (length recs) (mpath i recs))"
proof -
  note tr = digest_signer.sealed_token_checked [OF assms(1) s v]
  have paths: "sb_paths sb = map (\<lambda>i. mpath i recs) [0..<length recs]" and n: "1 \<le> length recs" "length recs \<le> MAX_BATCH"
    using s by (auto simp: seal_records_Inr_iff py_messages_Inr_iff Suc_le_eq)
  have p: "length (mpath i recs) \<le> 12" "\<forall>x \<in> set (mpath i recs). length x = 32" "i < MAX_BATCH"
    using n i length_mpath_12 [of recs i] mpath_nodes by (auto simp: MAX_BATCH_def)
  have "rc = encode (receipt_value i (mpath i recs) (Some (sb_manifest sb)))" using rc i by (simp add: receipt_def paths)
  then have "read_receipt rc (int i) PNone = Inr (Some (mpath i recs, PStr (sb_manifest sb)))"
    using read_receipt_encode(1) [OF p] tr by simp
  with acc obtain root m where "trusted c v (PStr (sb_manifest sb)) root m" "included r i m (mpath i recs) root"
    by (auto simp: accepts_def)
  moreover have "root = mth recs \<and> m = length recs" if "trusted c v (PStr (sb_manifest sb)) root m" for root m
    using that tr by (simp add: trusted_def)
  ultimately have "included r i (length recs) (mpath i recs) (mth recs)" by blast
  from included_binding [OF this included_mpath [OF i] p(2) p(2)] show ?thesis by blast
qed

text \<open>The strings that are hashed when a record is checked with the receipt for the second one.\<close>

definition install_inputs :: "bytes \<Rightarrow> bytes list" where
  "install_inputs r = [0 # r, 1 # leaf (install_records ! 0) @ leaf r]"

lemma install_path: "mpath (Suc 0) install_records = [leaf (install_records ! 0)]"
proof -
  have "tree_split 2 = 1" by (simp add: tree_split_def bit_length.simps)
  then show ?thesis
    by (subst mpath.simps) (simp add: install_messages Let_def, simp add: install_records_def mth.simps)
qed

lemma install_included: "included_inputs r (Suc 0) 2 [leaf (install_records ! 0)] = install_inputs r"
  by (simp add: included_inputs_def install_inputs_def split_beta)

lemma check_receipts_passes:
  assumes "ecdsa_law c" and "cpu_public_key c (PBytes key) = Inr pub"
  shows "check_receipts c key = Inr ()
    \<or> check_receipts c key = Inl (RuntimeError ''installed record receipt check failed'')
      \<and> collision_in (install_inputs (ascii_encode (lit ''changed''))) (install_inputs (install_records ! 1))"
proof -
  let ?r = "install_records ! 1" and ?x = "ascii_encode (lit ''changed'')"
  obtain sb where sb: "seal_records (Items (map PBytes install_records)) (PStr install_context) (PStr install_key_id)
      (cpu_signer c (PBytes key)) = Inr sb"
    using cpu_seal_total [OF assms install_labels install_messages(4,1)] by blast
  obtain v where v: "receipt_verifier_init c (PBytes pub) (PStr install_key_id) (PStr install_context) = Inr v"
    using key_point(2) [OF assms] install_labels unfolding init_Inr_iff by blast
  then have cfg: "rv_key_id v = install_key_id" "rv_context v = install_context" "rv_key v = pub" by (auto simp: init_Inr_iff)
  note signer = cpu_signer_contract [OF assms]
  have gen: "ecdsa_verify c (rv_key v) (sig_r g) (sig_s g) h" if "verify_p256 c (PBytes pub) (PBytes h) (PBytes g)" for h g
    using that by (simp add: cfg(3) ecdsa_of_verify)
  have i: "1 < length install_records" by (simp add: install_messages)
  from digest_signer.receipts_accepted(1) [OF signer sb cfg(1,2) gen i] obtain rc where
    rc: "receipt sb (PInt (int 1)) True = Inr rc" and acc: "accepts c v ?r rc (int 1) PNone" by auto
  from rv_verify_correct [OF init_inv [OF v], of ?r rc 1 PNone] acc obtain v' where
    v': "rv_verify c v (PBytes ?r) (PBytes rc) (PInt 1) PNone = (Inr True, v')" "rv_inv c v'" "same_config v' v" by auto
  from rv_verify_correct [OF v'(2), of ?x rc 1 PNone] accepts_config [OF v'(3)] obtain w where
    w: "rv_verify c v' (PBytes ?x) (PBytes rc) (PInt 1) PNone = (Inr (accepts c v ?x rc 1 PNone), w)" by auto
  have "?x \<noteq> ?r" by (simp add: install_records_def ascii_encode_def lit_def)
  then have "accepts c v ?x rc 1 PNone \<longrightarrow> collision_in (install_inputs ?x) (install_inputs ?r)"
    using sealed_receipt_binds [OF signer sb cfg(1,2) gen rc i, of ?x]
    by (simp add: install_path install_included install_messages)
  moreover have "check_receipts c key = (if accepts c v ?x rc 1 PNone
      then Inl (RuntimeError ''installed record receipt check failed'') else Inr ())"
    using rc by (simp add: check_receipts_def sb key_point(1) [OF assms] v ebind_def v'(1) w eraise_def eret_def del: One_nat_def)
  ultimately show ?thesis by simp
qed

lemma check_manifest_passes:
  assumes "ecdsa_law c" and "cpu_public_key c (PBytes key) = Inr pub"
  shows "check_manifest c key = Inr ()"
proof -
  let ?p = "encode (hash_list_payload install_context (map sha256 install_records))"
  have "length ?p \<le> 188900"
    using install_labels(1) by (intro length_hash_list) (auto simp: length_sha256 MAX_BATCH_def install_messages)
  then have "length ?p \<le> MAX_PAYLOAD" by (simp add: MAX_PAYLOAD_def)
  from cpu_one_token_total [OF assms install_labels(2) this] obtain g where
    t: "sign_es256 (Items (map PBytes [?p])) (PStr install_key_id) (cpu_signer c (PBytes key)) = Inr [compact_token install_key_id ?p g]" ..
  from one_token [OF t] have "valid_low_s g" by (auto simp: compact_token_def)
  with t install_labels install_messages obtain token where
    token: "seal_manifest (Items (map PBytes install_records)) (PStr install_context) (PStr install_key_id)
      (cpu_signer c (PBytes key)) = Inr token"
    unfolding seal_manifest_Inr_iff by blast
  from cpu_sealed_manifest [OF assms token] obtain m where
    m: "open_manifest c (PStr token) (PBytes pub) (PStr install_key_id) (PStr install_context) = Inr (Some m)"
      "vm_count m = 2" "verify_all m (Items (map PBytes install_records)) = Inr True"
    by (auto simp: install_messages)
  have "map sha256 (butlast install_records) \<noteq> vm_digests m"
    using m(2) install_messages(3) by (auto simp: vm_count_def dest: arg_cong [where f = length])
  then have "verify_all m (Items (map PBytes (butlast install_records))) = Inr False"
    by (simp add: verify_all_messages [OF install_messages(2)])
  then show ?thesis
    by (simp add: check_manifest_def token key_point(1) [OF assms] m)
qed

lemma aead_round:
  assumes "aead_law c" and "length k = 32" and "\<forall>r \<in> set rs. rec_ok False r" and "distinct (map rec_nonce rs)"
    and "length rs \<le> MAX_BATCH" and "sum_list (map (rec_work False) rs) \<le> MAX_WORK"
  shows "\<exists>cs. cpu_seal c (PBytes k) (Items (map py_record rs)) = Inr cs
    \<and> cs = map (\<lambda>r. aes_encrypt c k (rec_nonce r) (rec_data r) (rec_aad r)) rs
    \<and> cpu_open c (PBytes k) (Items (map py_record (map (\<lambda>(r, x). r\<lparr>rec_data := x\<rparr>) (zip rs cs)))) = Inr (map (Some o rec_data) rs)"
proof -
  have "py_records (PBytes k) (Items (map py_record rs)) False = Inr (k, rs)"
    using assms(2-6) by (auto simp: py_records_Inr_iff)
  then have s: "cpu_seal c (PBytes k) (Items (map py_record rs))
      = Inr (map (\<lambda>r. aes_encrypt c k (rec_nonce r) (rec_data r) (rec_aad r)) rs)"
    by (simp add: cpu_seal_def)
  from cpu_opens_sealed [OF assms(1) s] s show ?thesis by (simp add: resealed_def)
qed

lemma check_aead_passes:
  assumes "aead_law c" and "length k = 32"
  shows "check_aead c k = Inr ()"
proof -
  let ?r = "\<lparr>rec_nonce = replicate 12 0, rec_data = ascii_encode (lit ''local fixture''), rec_aad = []\<rparr>"
  have "rec_ok False ?r" "rec_work False ?r \<le> MAX_WORK"
    by (simp_all add: rec_ok_def rec_work_def MAX_AAD_def MAX_PAYLOAD_def MAX_WORK_def ascii_encode_def lit_def)
  then show ?thesis
    using aead_round [OF assms, of "[?r]"] by (auto simp: check_aead_def Let_def MAX_BATCH_def)
qed

text \<open>
  C21. The functional check of the installed package passes with every pair of valid keys: under the documented
  behaviour of the cryptography package hashing, signing, tokens, receipts, manifests and AES-GCM all give
  what the check expects, except that the receipt check may fail on an explicit collision of SHA-256
  among four strings of the check.
\<close>

theorem installed_package_passes:
  assumes "ecdsa_law c" and "aead_law c" and "public_key c (PBytes key) = Inr pub" and "length aes_key = 32"
  shows "check_install c key aes_key = Inr ()
    \<or> check_install c key aes_key = Inl (RuntimeError ''installed record receipt check failed'')
      \<and> collision_in (install_inputs (ascii_encode (lit ''changed''))) (install_inputs (install_records ! 1))"
proof -
  have pub: "cpu_public_key c (PBytes key) = Inr pub" using assms(3) by (simp add: cpu_public_key_def)
  show ?thesis
    using check_receipts_passes [OF assms(1) pub]
    by (auto simp: check_install_def check_signing_passes [OF assms(1) pub] check_manifest_passes [OF assms(1) pub]
        check_aead_passes [OF assms(2,4)])
qed

section \<open>The CPU example passes\<close>

text \<open>GCM: for one key, nonce and associated data the ciphertext without its tag determines the tag.\<close>

definition tag_law :: "ossl \<Rightarrow> bool" where
  "tag_law c \<longleftrightarrow> (\<forall>k n x y a d e. aes_decrypt c k n x a = Some d \<longrightarrow> aes_decrypt c k n y a = Some e \<longrightarrow>
     length x = length y \<longrightarrow> take (length x - 16) x = take (length y - 16) y \<longrightarrow> x = y)"

lemma flip_last:
  assumes "b \<noteq> []"
  shows "length (flip_last b) = length b" and "flip_last b \<noteq> b" and "n < length b \<Longrightarrow> take n (flip_last b) = take n b"
proof -
  have b: "b = butlast b @ [last b]" using assms by simp
  show "length (flip_last b) = length b" using assms by (simp add: flip_last_def)
  have "Bit_Operations.xor (last b) 1 \<noteq> last b"
    by (metis bit.xor_left_self bit.xor_self zero_neq_one xor.right_neutral)
  then show "flip_last b \<noteq> b" by (metis b flip_last_def last_snoc)
  show "take n (flip_last b) = take n b" if "n < length b"
    using that by (subst (2) b) (simp add: flip_last_def)
qed

lemma altered_tag_rejected:
  assumes "aead_law c" and "tag_law c" and "length k = 32" and "length n = 12"
  shows "aes_decrypt c k n (flip_last (aes_encrypt c k n d a)) a = None"
proof (rule ccontr)
  let ?x = "aes_encrypt c k n d a"
  have x: "length ?x = length d + 16" "aes_decrypt c k n ?x a = Some d"
    using assms(1) [unfolded aead_law_def, rule_format, OF assms(3,4)] by auto
  then have ne: "?x \<noteq> []" by auto
  assume "aes_decrypt c k n (flip_last ?x) a \<noteq> None"
  then obtain e where "aes_decrypt c k n (flip_last ?x) a = Some e" by blast
  moreover have "take (length (flip_last ?x) - 16) (flip_last ?x) = take (length ?x - 16) ?x"
    using flip_last [OF ne] x by simp
  ultimately have "flip_last ?x = ?x"
    using assms(2) [unfolded tag_law_def, rule_format, OF _ x(2)] flip_last(1) [OF ne] by simp
  then show False using flip_last(2) [OF ne] by simp
qed

lemma example_records:
  "\<forall>r \<in> set example_aead. rec_ok False r" "distinct (map rec_nonce example_aead)" "length example_aead = 2"
  "sum_list (map (rec_work False) example_aead) \<le> MAX_WORK" "map rec_data example_aead = example_messages"
proof -
  have nonces: "to_bytes_big 12 0 \<noteq> (to_bytes_big 12 (Suc 0) :: bytes)" using from_to_bytes_big [of 0 12] from_to_bytes_big [of "Suc 0" 12] by auto
  have two: "example_aead = map (\<lambda>(i, m). \<lparr>rec_nonce = to_bytes_big 12 i, rec_data = m, rec_aad = ascii_encode (lit ''cpu-example:v1'')\<rparr>)
      [(0, example_messages ! 0), (Suc 0, example_messages ! Suc 0)]"
    by (simp add: example_aead_def example_messages_def)
  have sizes: "length (example_messages ! 0) = 10" "length (example_messages ! Suc 0) = 10"
    by (simp_all add: example_messages_def lit_def ascii_encode_def)
  have aad: "length (ascii_encode (lit ''cpu-example:v1'')) = 14" by (simp add: lit_def ascii_encode_def)
  show "\<forall>r \<in> set example_aead. rec_ok False r" "sum_list (map (rec_work False) example_aead) \<le> MAX_WORK" "length example_aead = 2"
    by (simp_all add: two rec_ok_def rec_work_def sizes aad MAX_AAD_def MAX_PAYLOAD_def MAX_WORK_def)
  show "distinct (map rec_nonce example_aead)" by (simp add: two nonces)
  show "map rec_data example_aead = example_messages" by (simp add: two) (simp add: example_messages_def)
qed

text \<open>
  The CPU example prints PASS with every valid pair of keys: hashes, the AES-GCM round trip, the rejection
  of an altered tag and the signatures all come out as the program expects, if AES-GCM and ECDSA behave as documented.
\<close>

theorem cpu_example_passes:
  assumes "ecdsa_law c" and "aead_law c" and "tag_law c" and "public_key c (PBytes key) = Inr pub" and "length aes_key = 32"
  shows "cpu_only c aes_key key = Inr ()"
proof -
  have pub: "cpu_public_key c (PBytes key) = Inr pub" using assms(4) by (simp add: cpu_public_key_def)
  have hash: "cpu_sha256 (Items (map PBytes example_messages)) = Inr (map sha256 example_messages)"
  proof -
    have "py_messages (Items (map PBytes example_messages)) = Inr example_messages"
      by (simp add: py_messages_Inr_iff example_messages_def lit_def ascii_encode_def MAX_BATCH_def MAX_PAYLOAD_def MAX_WORK_def)
    then show ?thesis by (simp add: cpu_sha256_def)
  qed
  obtain cs where cs: "cpu_seal c (PBytes aes_key) (Items (map py_record example_aead)) = Inr cs"
      "cs = map (\<lambda>r. aes_encrypt c aes_key (rec_nonce r) (rec_data r) (rec_aad r)) example_aead"
    and opened: "cpu_open c (PBytes aes_key) (Items (map py_record (map (\<lambda>(r, x). r\<lparr>rec_data := x\<rparr>) (zip example_aead cs))))
      = Inr (map Some example_messages)"
    using aead_round [OF assms(2,5) example_records(1,2) _ example_records(4)] example_records(3,5)
    by (auto simp: MAX_BATCH_def simp flip: map_map)
  have altered: "cpu_open c (PBytes aes_key) (Items [py_record ((hd example_aead)\<lparr>rec_data := flip_last (hd cs)\<rparr>)]) = Inr [None]"
  proof -
    let ?r = "hd example_aead"
    have r: "rec_ok False ?r" and hd: "hd cs = aes_encrypt c aes_key (rec_nonce ?r) (rec_data ?r) (rec_aad ?r)"
    proof -
      have "example_aead \<noteq> []" using example_records(3) by auto
      then show "rec_ok False ?r" using example_records(1) by simp
      show "hd cs = aes_encrypt c aes_key (rec_nonce ?r) (rec_data ?r) (rec_aad ?r)"
        unfolding cs(2) using \<open>example_aead \<noteq> []\<close> by (rule hd_map)
    qed
    then have n: "length (rec_nonce ?r) = 12" by (simp add: rec_ok_def)
    have "length (hd cs) = length (rec_data ?r) + 16"
      unfolding hd using assms(2) [unfolded aead_law_def, rule_format, OF assms(5) n] by simp
    moreover from this have "length (flip_last (hd cs)) = length (hd cs)" by (intro flip_last(1)) auto
    moreover have "length (rec_data ?r) \<le> 64" by (simp add: example_aead_def example_messages_def upt_rec lit_def ascii_encode_def)
    ultimately have "py_records (PBytes aes_key) (Items (map py_record [?r\<lparr>rec_data := flip_last (hd cs)\<rparr>])) True
        = Inr (aes_key, [?r\<lparr>rec_data := flip_last (hd cs)\<rparr>])"
      using r assms(5) unfolding py_records_Inr_iff
      by (simp add: rec_ok_def rec_work_def MAX_BATCH_def MAX_PAYLOAD_def MAX_AAD_def MAX_WORK_def)
    then show ?thesis
      using altered_tag_rejected [OF assms(2,3,5) n] by (simp add: cpu_open_def hd)
  qed
  obtain sigs where sigs: "cpu_sign c (PBytes key) (Items (map PBytes (map sha256 example_messages))) = Inr sigs"
    by (rule cpu_sign_runs [OF pub, of "map sha256 example_messages"]) (auto simp: MAX_BATCH_def example_messages_def)
  have "list_all (\<lambda>(h, s). verify_p256 c (PBytes pub) (PBytes h) (PBytes s)) (zip (map sha256 example_messages) sigs)"
    using cpu_sign_genuine [OF assms(1) pub sigs] by (auto simp: list_all_iff list_all2_iff)
  with assms(4) hash cs(1) opened altered sigs show ?thesis by (simp add: cpu_only_def)
qed

section \<open>jws_grant.py\<close>

definition grant_claims :: "int \<Rightarrow> nat \<Rightarrow> (ustr \<times> pyval) list" where
  "grant_claims t0 i = [(lit ''iss'', PStr (lit ''issuer.example'')), (lit ''aud'', PStr (lit ''publisher.example'')),
     (lit ''sub'', PStr (lit ''synthetic-buyer'')), (lit ''iat'', PInt t0), (lit ''exp'', PInt (t0 + 300)),
     (lit ''jti'', PStr (lit ''synthetic-'' @ dec_nat i)), (lit ''scope'', PStr (lit ''content:read'')),
     (lit ''content_sha256'', PStr (replicate 64 97)), (lit ''terms_sha256'', PStr (replicate 64 98))]"

definition grant_payload :: "int \<Rightarrow> nat \<Rightarrow> bytes" where
  "grant_payload t0 i = ascii_encode (json_text (PDict (grant_claims t0 i)))"

definition grant_key_id :: ustr where "grant_key_id = lit ''issuer-epoch-1''"

text \<open>The body of the loop; the header is read only when the claims are the expected ones.\<close>

definition check_issued :: "jwt_lib \<Rightarrow> bytes \<Rightarrow> ustr \<times> (ustr \<times> pyval) list \<Rightarrow> unit result" where
  "check_issued lib public = (\<lambda>(token, expected).
     bind_res (jw_decode lib public token) (\<lambda>actual.
       if \<not> same_dict (PDict actual) expected then Inl (ValueError ''grant does not match the expected access'') else
     bind_res (jw_header lib token) (\<lambda>header.
       if \<not> same_dict (PDict header) [(lit ''alg'', PStr (lit ''ES256'')), (lit ''kid'', PStr grant_key_id)]
       then Inl (ValueError ''grant does not match the expected access'') else Inr ())))"

definition jws_grant :: "signer \<Rightarrow> jwt_lib \<Rightarrow> bytes \<Rightarrow> int \<Rightarrow> nat \<Rightarrow> nat result" where
  "jws_grant sign lib public t0 n =
     bind_res (sign_es256 (Items (map PBytes (map (grant_payload t0) [0..<n]))) (PStr grant_key_id) sign) (\<lambda>tokens.
     bind_res (map_res (check_issued lib public) (zip tokens (map (grant_claims t0) [0..<n]))) (\<lambda>_. Inr (length tokens)))"

text \<open>
  PyJWT, with the issuer, the audience and the required claims that the program passes: a compact token whose
  signature verifies and whose claims are the expected ones and not yet expired decodes to those claims, and its header is the signed one.
\<close>

definition grant_law :: "ossl \<Rightarrow> jwt_lib \<Rightarrow> bytes \<Rightarrow> int \<Rightarrow> bool" where
  "grant_law c lib public t0 \<longleftrightarrow> (\<forall>p g kvs.
     verify_p256 c (PBytes public) (PBytes (sha256 (ascii_encode (signing_input grant_key_id p)))) (PBytes g)
     \<longrightarrow> loads (ascii_decode p) = Some (PDict kvs)
     \<longrightarrow> map_of kvs (lit ''iss'') = Some (PStr (lit ''issuer.example'')) \<longrightarrow> map_of kvs (lit ''aud'') = Some (PStr (lit ''publisher.example''))
     \<longrightarrow> (\<exists>x. map_of kvs (lit ''sub'') = Some (PStr x)) \<longrightarrow> (\<exists>x. map_of kvs (lit ''jti'') = Some (PStr x))
     \<longrightarrow> map_of kvs (lit ''iat'') = Some (PInt t0) \<longrightarrow> map_of kvs (lit ''exp'') = Some (PInt (t0 + 300))
     \<longrightarrow> jw_decode lib public (compact_token grant_key_id p g) = Inr kvs
       \<and> jw_header lib (compact_token grant_key_id p g) = Inr [(lit ''alg'', PStr (lit ''ES256'')), (lit ''kid'', PStr grant_key_id)])"

lemma grant_payload_facts:
  assumes "0 \<le> t0" and "t0 < 10 ^ 12" and "i < MAX_BATCH"
  shows "loads (ascii_decode (grant_payload t0 i)) = Some (PDict (grant_claims t0 i))"
    and "length (grant_payload t0 i) \<le> 1024"
proof -
  have digits: "plain (dec_nat i)" using dec_nat_digits [of i] by (auto simp: plain_def is_digit_def)
  have plain: "plain (lit ''synthetic-'' @ dec_nat i)" using digits by (auto simp: plain_def lit_def)
  have as: "plain (replicate 64 97)" "plain (replicate 64 98)" by (auto simp: plain_def)
  have ok: "json_ok (PDict (grant_claims t0 i))"
    unfolding grant_claims_def using json_ok_plain [OF plain] json_ok_plain [OF as(1)] json_ok_plain [OF as(2)]
    by (simp add: lit_def scalar_def)
  then have "isascii (json_text (PDict (grant_claims t0 i)))" by (rule isascii_json_text)
  then show "loads (ascii_decode (grant_payload t0 i)) = Some (PDict (grant_claims t0 i))"
    using dict.json_loads_text [OF ok] by (simp add: grant_payload_def loads_def del: json_text.simps)
  have n: "length (dec_int t0) \<le> 13" "length (dec_int (t0 + 300)) \<le> 13"
    using length_dec_int [of t0 12] length_dec_int [of "t0 + 300" 12] assms by simp_all
  have "length (dec_nat i) \<le> 4" using assms(3) by (intro length_dec_nat) (simp_all add: MAX_BATCH_def)
  then have "length (json_str (lit ''synthetic-'' @ dec_nat i)) \<le> 16"
    unfolding length_json_str_plain [OF plain] by (simp add: lit_def)
  then show "length (grant_payload t0 i) \<le> 1024"
    using n by (simp add: grant_payload_def grant_claims_def length_json_str_plain plain_lit as)
qed

text \<open>
  The interoperability example passes for every admissible number of grants and every valid key: under the documented
  behaviour of ECDSA and PyJWT every token it issues with the CPU signer decodes to exactly the claims it was issued for,
  under the expected header, and as many tokens as grants are counted.
\<close>

theorem issued_grants_accepted:
  assumes "ecdsa_law c" and "public_key c (PBytes key) = Inr pub" and "grant_law c lib pub t0"
    and "0 \<le> t0" and "t0 < 10 ^ 12" and "n \<le> MAX_BATCH"
  shows "jws_grant (cpu_signer c (PBytes key)) lib pub t0 n = Inr n"
proof -
  have pub: "cpu_public_key c (PBytes key) = Inr pub" using assms(2) by (simp add: cpu_public_key_def)
  let ?ps = "map (grant_payload t0) [0..<n]" and ?h = "\<lambda>p. sha256 (ascii_encode (signing_input grant_key_id p))"
  note facts = grant_payload_facts [OF assms(4,5)]
  have size: "length p \<le> 1024" if "p \<in> set ?ps" for p using that facts(2) assms(6) by auto
  have "sum_list (map length ?ps) \<le> sum_list (map (\<lambda>_. 1024) ?ps)" using size by (rule sum_list_mono)
  also have "\<dots> = n * 1024" unfolding sum_list_triv by simp
  finally have "sum_list (map length ?ps) \<le> n * 1024" .
  then have m: "py_messages (Items (map PBytes ?ps)) = Inr ?ps"
    using size assms(6) unfolding py_messages_Inr_iff by (fastforce simp: MAX_BATCH_def MAX_PAYLOAD_def MAX_WORK_def)
  obtain gs where gs: "cpu_sign c (PBytes key) (Items (map PBytes (map ?h ?ps))) = Inr gs"
    by (rule cpu_sign_runs [OF pub, of "map ?h ?ps"]) (use assms(6) in auto)
  from cpu_sign_genuine [OF assms(1) pub gs]
  have good: "list_all2 (\<lambda>h g. valid_low_s g \<and> verify_p256 c (PBytes pub) (PBytes h) (PBytes g)) (map ?h ?ps) gs" .
  then have len: "length gs = n" by (auto dest: list_all2_lengthD)
  have each: "valid_low_s (gs ! i) \<and> verify_p256 c (PBytes pub) (PBytes (?h (grant_payload t0 i))) (PBytes (gs ! i))" if "i < n" for i
    using list_all2_nthD2 [OF good, of i] that len by simp
  have label: "key_label_ok grant_key_id" by (simp add: key_label_ok_def isprintable_ascii_def grant_key_id_def lit_def)
  have low: "\<forall>g \<in> set gs. valid_low_s g" using each len by (metis in_set_conv_nth)
  have tokens: "sign_es256 (Items (map PBytes ?ps)) (PStr grant_key_id) (cpu_signer c (PBytes key))
      = Inr (map2 (compact_token grant_key_id) ?ps gs)"
    unfolding sign_es256_Inr_iff
    by (intro conjI exI [of _ gs]) (use label m gs len low in \<open>simp_all add: cpu_signer_def\<close>)
  have "check_issued lib pub x = Inr ()"
    if "x \<in> set (zip (map2 (compact_token grant_key_id) ?ps gs) (map (grant_claims t0) [0..<n]))" for x
  proof -
    from that len obtain i where i: "i < n" and x: "x = (compact_token grant_key_id (grant_payload t0 i) (gs ! i), grant_claims t0 i)"
      by (auto simp: in_set_conv_nth)
    have "i < MAX_BATCH" using i assms(6) by simp
    note claims = facts(1) [OF this]
    have "jw_decode lib pub (fst x) = Inr (grant_claims t0 i)
        \<and> jw_header lib (fst x) = Inr [(lit ''alg'', PStr (lit ''ES256'')), (lit ''kid'', PStr grant_key_id)]"
      unfolding x fst_conv
      by (rule assms(3) [unfolded grant_law_def, rule_format, OF each [OF i, THEN conjunct2] claims])
        (simp_all add: grant_claims_def lit_def)
    then show ?thesis by (simp add: x check_issued_def same_dict_def) (simp add: grant_claims_def lit_def)
  qed
  then have "map_res (check_issued lib pub) (zip (map2 (compact_token grant_key_id) ?ps gs) (map (grant_claims t0) [0..<n]))
      = Inr (map (\<lambda>_. ()) (zip (map2 (compact_token grant_key_id) ?ps gs) (map (grant_claims t0) [0..<n])))"
    by (rule map_res_total)
  then show ?thesis using tokens len by (simp add: jws_grant_def)
qed

section \<open>Examples\<close>

text \<open>The instance of \<open>Core\<close> with a decryption that compares the tag.\<close>

definition strict_ossl :: ossl where
  "strict_ossl = demo_ossl\<lparr>aes_decrypt := (\<lambda>k n x a.
     if length x < 16 \<or> drop (length x - 16) x \<noteq> replicate 16 0 then None else Some (take (length x - 16) x))\<rparr>"

lemma strict_laws: "ecdsa_law strict_ossl" "aead_law strict_ossl" "tag_law strict_ossl"
proof -
  show "ecdsa_law strict_ossl" using demo_ecdsa_law by (simp add: ecdsa_law_def strict_ossl_def)
  show "aead_law strict_ossl" by (simp add: aead_law_def strict_ossl_def demo_ossl_def)
  show "tag_law strict_ossl"
    unfolding tag_law_def strict_ossl_def by (auto split: if_splits) (metis append_take_drop_id)
qed

lemma demo_pair: "public_key strict_ossl (PBytes (replicate 31 0 @ [1])) = Inr (to_bytes_big 65 1)"
  "public_key demo_ossl (PBytes (replicate 31 0 @ [1])) = Inr (to_bytes_big 65 1)"
  "length (replicate 32 (7 :: byte)) = 32"
  using demo_public_key by (simp_all add: cpu_public_key_def public_key_def strict_ossl_def)

theorem cpu_example_passes_witness:
  "cpu_only strict_ossl (replicate 32 7) (replicate 31 0 @ [1]) = Inr ()"
  by (rule cpu_example_passes [OF strict_laws demo_pair(1,3)])

theorem installed_package_passes_witness:
  "check_install demo_ossl (replicate 31 0 @ [1]) (replicate 32 7) = Inr ()
   \<or> collision_in (install_inputs (ascii_encode (lit ''changed''))) (install_inputs (install_records ! 1))"
  using installed_package_passes [OF demo_ecdsa_law demo_aead_law demo_pair(2,3)] by blast

definition demo_grant_lib :: jwt_lib where
  "demo_grant_lib = \<lparr>jw_header = (\<lambda>t. Inr [(lit ''alg'', PStr (lit ''ES256'')), (lit ''kid'', PStr grant_key_id)]),
     jw_decode = (\<lambda>pub t. case split_dot t of
         [h, p, g] \<Rightarrow> (case unb64 (PStr p) of
             Inr b \<Rightarrow> (case loads (ascii_decode b) of Some (PDict kvs) \<Rightarrow> Inr kvs | _ \<Rightarrow> Inl (JwtError ''payload''))
           | Inl e \<Rightarrow> Inl (JwtError ''encoding''))
       | _ \<Rightarrow> Inl (JwtError ''segments''))\<rparr>"

lemma demo_grant_law: "grant_law c demo_grant_lib pub t0"
proof -
  have "jw_decode demo_grant_lib pub (compact_token grant_key_id p g) = Inr kvs"
    if "loads (ascii_decode p) = Some (PDict kvs)" for p g kvs
  proof -
    have "loads [] = None" by (simp add: loads_def json_loads_def skip_ws_def)
    with that have "p \<noteq> []" by (auto simp: ascii_decode_def)
    then show ?thesis using that by (simp add: demo_grant_lib_def split_compact_token)
  qed
  then show ?thesis by (simp add: grant_law_def demo_grant_lib_def)
qed

theorem issued_grants_accepted_witness:
  "jws_grant (cpu_signer demo_ossl (PBytes (replicate 31 0 @ [1]))) demo_grant_lib (to_bytes_big 65 1) 1700000000 256 = Inr 256"
  by (rule issued_grants_accepted [OF demo_ecdsa_law demo_pair(2) demo_grant_law]) (simp_all add: MAX_BATCH_def)

end
