(* ===== verification/Buffers.thy ===== *)
theory Buffers
  imports Native
begin

text \<open>
  The buffers behind \<open>Cuda._aead\<close>, \<open>Cuda.sign\<close> and \<open>Cuda.sha256\<close> of \<open>batchcrypto/__init__.py\<close>: the inputs are
  copied into \<open>ctypes\<close> buffers, the native call reads and writes through the pointers of its items, and the
  \<open>finally\<close> clause overwrites every buffer with zeros. \<open>Native\<close> describes the same methods on values only.

  An address is the index of a buffer in the heap, which \<open>create_string_buffer\<close> extends. The native call is
  that of \<open>Native\<close> behind its pointers: it reads no more than the sizes it is given and writes no more than
  the capacity of an output, as its header documents.
\<close>

section \<open>The heap\<close>

type_synonym 's mem = "'s \<times> bytes list"

definition create_buffer :: "bytes \<Rightarrow> ('s mem, nat) eff" where
  "create_buffer b m = (Inr (length (snd m)), (fst m, snd m @ [b]))"

text \<open>\<open>create_string_buffer\<close> of bytes appends a NUL; of a size it gives zeros.\<close>

definition string_buffer :: "bytes \<Rightarrow> ('s mem, nat) eff" where
  "string_buffer b = create_buffer (b @ [0])"

definition zero_buffer :: "nat \<Rightarrow> ('s mem, nat) eff" where
  "zero_buffer n = create_buffer (replicate n 0)"

definition memset_zero :: "nat \<Rightarrow> bytes list \<Rightarrow> bytes list" where
  "memset_zero p h = h[p := replicate (length (h ! p)) 0]"

definition wipe :: "nat list \<Rightarrow> ('s mem, unit) eff" where
  "wipe ps = emod (\<lambda>m. (fst m, fold memset_zero ps (snd m)))"

text \<open>\<open>try: m finally: f\<close>, where \<open>f\<close> does not raise.\<close>

definition efinally :: "('s, 'a) eff \<Rightarrow> ('s, unit) eff \<Rightarrow> ('s, 'a) eff" where
  "efinally m f s = (case m s of (r, s') \<Rightarrow> (r, snd (f s')))"

text \<open>What a call writes into an output of a given capacity, and what is left of the buffer.\<close>

definition write_buffer :: "nat \<Rightarrow> nat \<Rightarrow> bytes \<Rightarrow> bytes list \<Rightarrow> bytes list" where
  "write_buffer p capacity b h = h[p := take capacity b @ drop (length (take capacity b)) (h ! p)]"

section \<open>Authenticated encryption\<close>

record call_item =
  it_input :: nat
  it_input_size :: nat
  it_aad :: nat
  it_aad_size :: nat
  it_nonce :: bytes
  it_output :: nat
  it_capacity :: nat

definition new_item :: "bool \<Rightarrow> aead_record \<Rightarrow> ('s mem, call_item) eff" where
  "new_item opening r =
     ebind (string_buffer (rec_data r)) (\<lambda>inp.
     ebind (string_buffer (rec_aad r)) (\<lambda>aad.
     ebind (zero_buffer (max 1 (out_size opening r))) (\<lambda>out.
       eret \<lparr>it_input = inp, it_input_size = length (rec_data r), it_aad = aad, it_aad_size = length (rec_aad r),
         it_nonce = rec_nonce r, it_output = out, it_capacity = out_size opening r\<rparr>)))"

definition item_record :: "bytes list \<Rightarrow> call_item \<Rightarrow> aead_record" where
  "item_record h it = \<lparr>rec_nonce = it_nonce it, rec_data = take (it_input_size it) (h ! it_input it),
     rec_aad = take (it_aad_size it) (h ! it_aad it)\<rparr>"

fun write_outputs :: "call_item list \<Rightarrow> bytes list \<Rightarrow> bytes list \<Rightarrow> bytes list" where
  "write_outputs (it # items) (b # outs) h = write_outputs items outs (write_buffer (it_output it) (it_capacity it) b h)"
| "write_outputs items outs h = h"

definition native_items ::
    "(aead_record list \<Rightarrow> ('s, nat \<times> bytes \<times> bytes list) eff) \<Rightarrow> call_item list \<Rightarrow> ('s mem, nat \<times> bytes) eff" where
  "native_items f items m = (case f (map (item_record (snd m)) items) (fst m) of
     (Inl e, s) \<Rightarrow> (Inl e, (s, snd m))
   | (Inr (rc, status, outs), s) \<Rightarrow> (Inr (rc, buffer (length items) status), (s, write_outputs items outs (snd m))))"

definition read_item :: "'n native \<Rightarrow> bool \<Rightarrow> byte \<times> call_item \<Rightarrow> ('s mem, bytes option) eff" where
  "read_item lib opening = (\<lambda>(st, it).
     if opening \<and> st = 3 then eret None
     else ebind (check_status lib (unat st)) (\<lambda>_.
       eget (\<lambda>m. Some (take (it_capacity it) (snd m ! it_output it)))))"

definition mem_aead ::
    "'n native \<Rightarrow> pyval \<Rightarrow> pyval iterable \<Rightarrow> bool
      \<Rightarrow> (bytes \<Rightarrow> aead_record list \<Rightarrow> ('s, nat \<times> bytes \<times> bytes list) eff) \<Rightarrow> ('s mem, bytes option list) eff" where
  "mem_aead lib key rs opening invoke =
     ebind (elift (py_records key rs opening)) (\<lambda>(k, records).
       if records = [] then eret []
       else ebind (eeach (new_item opening) records) (\<lambda>items.
         efinally
           (ebind (native_items (invoke k) items) (\<lambda>(rc, status).
            ebind (check_status lib rc) (\<lambda>_. eeach (read_item lib opening) (zip status items))))
           (wipe (concat (map (\<lambda>it. [it_input it, it_aad it]) items) @ map it_output items))))"

section \<open>Outputs of fixed size\<close>

definition native_fixed ::
    "(bytes list \<Rightarrow> ('s, nat \<times> bytes \<times> bytes) eff) \<Rightarrow> bytes list \<Rightarrow> nat \<Rightarrow> nat \<Rightarrow> nat \<Rightarrow> ('s mem, nat \<times> bytes) eff" where
  "native_fixed f inputs n out capacity m = (case f inputs (fst m) of
     (Inl e, s) \<Rightarrow> (Inl e, (s, snd m))
   | (Inr (rc, status, b), s) \<Rightarrow> (Inr (rc, buffer n status), (s, write_buffer out capacity b (snd m))))"

definition mem_fixed :: "'n native \<Rightarrow> nat \<Rightarrow> nat \<Rightarrow> nat \<Rightarrow> nat \<times> bytes \<Rightarrow> ('s mem, bytes list) eff" where
  "mem_fixed lib w n out = (\<lambda>(rc, status).
     ebind (check_status lib rc) (\<lambda>_.
     ebind (eeach (\<lambda>st. check_status lib (unat st)) status) (\<lambda>_.
       eget (\<lambda>m. cut w n (snd m ! out)))))"

definition mem_sign ::
    "'n native \<Rightarrow> pyval \<Rightarrow> pyval iterable \<Rightarrow> (bytes \<Rightarrow> bytes list \<Rightarrow> ('s, nat \<times> bytes \<times> bytes) eff) \<Rightarrow> ('s mem, bytes list) eff" where
  "mem_sign lib key hs invoke =
     ebind (elift (py_digests key hs)) (\<lambda>(d, digests).
       if digests = [] then eret []
       else ebind (zero_buffer (length digests * 64)) (\<lambda>out.
         efinally
           (ebind (native_fixed (invoke (to_bytes_big 32 d)) digests (length digests) out (length digests * 64))
             (mem_fixed lib 64 (length digests) out))
           (wipe [out])))"

definition native_hash_items ::
    "(bytes list \<Rightarrow> ('s, nat \<times> bytes \<times> bytes) eff) \<Rightarrow> (nat \<times> nat) list \<Rightarrow> nat \<Rightarrow> nat \<Rightarrow> ('s mem, nat \<times> bytes) eff" where
  "native_hash_items f items out capacity m =
     native_fixed f (map (\<lambda>(p, n). take n (snd m ! p)) items) (length items) out capacity m"

definition mem_sha256 ::
    "'n native \<Rightarrow> pyval iterable \<Rightarrow> (bytes list \<Rightarrow> ('s, nat \<times> bytes \<times> bytes) eff) \<Rightarrow> ('s mem, bytes list) eff" where
  "mem_sha256 lib ms invoke =
     ebind (elift (py_messages ms)) (\<lambda>messages.
       if messages = [] then eret []
       else ebind (eeach string_buffer messages) (\<lambda>buffers.
         ebind (zero_buffer (length messages * 32)) (\<lambda>out.
         efinally
           (ebind (native_hash_items invoke (zip buffers (map length messages)) out (length messages * 32))
             (mem_fixed lib 32 (length messages) out))
           (wipe (buffers @ [out])))))"

section \<open>Wiping\<close>

lemma wiped_nth:
  "length (fold memset_zero ps h) = length h
   \<and> (\<forall>i < length h. fold memset_zero ps h ! i = (if i \<in> set ps then replicate (length (h ! i)) 0 else h ! i))"
proof (induction ps arbitrary: h)
  case (Cons p ps)
  have "length (memset_zero p h) = length h" by (simp add: memset_zero_def)
  moreover have "memset_zero p h ! i = (if i = p then replicate (length (h ! i)) 0 else h ! i)" if "i < length h" for i
    using that by (simp add: memset_zero_def nth_list_update)
  ultimately show ?case using Cons.IH [of "memset_zero p h"] by auto
qed simp

lemma wipe_new:
  assumes "set ps = {length h..<length h + length w}"
  shows "fold memset_zero ps (h @ w) = h @ map (\<lambda>b. replicate (length b) 0) w"
proof (rule nth_equalityI)
  show "length (fold memset_zero ps (h @ w)) = length (h @ map (\<lambda>b. replicate (length b) 0) w)"
    using wiped_nth [of ps "h @ w"] by simp
  fix i
  assume "i < length (fold memset_zero ps (h @ w))"
  then have "i < length (h @ w)" using wiped_nth [of ps "h @ w"] by simp
  then show "fold memset_zero ps (h @ w) ! i = (h @ map (\<lambda>b. replicate (length b) 0) w) ! i"
    using wiped_nth [of ps "h @ w"] assms by (auto simp: nth_append)
qed

section \<open>The items of a batch\<close>

definition buffers_of :: "bool \<Rightarrow> aead_record \<Rightarrow> bytes \<Rightarrow> bytes list" where
  "buffers_of opening r out = [rec_data r @ [0], rec_aad r @ [0], buffer (max 1 (out_size opening r)) (take (out_size opening r) out)]"

fun items_from :: "bool \<Rightarrow> nat \<Rightarrow> aead_record list \<Rightarrow> call_item list" where
  "items_from opening b [] = []"
| "items_from opening b (r # rs) =
     \<lparr>it_input = b, it_input_size = length (rec_data r), it_aad = Suc b, it_aad_size = length (rec_aad r),
       it_nonce = rec_nonce r, it_output = Suc (Suc b), it_capacity = out_size opening r\<rparr> # items_from opening (b + 3) rs"

lemma length_items_from [simp]: "length (items_from opening b rs) = length rs"
  by (induction rs arbitrary: b) simp_all

lemma length_buffers_of [simp]: "length (buffers_of opening r out) = 3"
  by (simp add: buffers_of_def)

lemma new_items:
  "eeach (new_item opening) rs (s, h)
     = (Inr (items_from opening (length h) rs), (s, h @ concat (map (\<lambda>r. buffers_of opening r []) rs)))"
proof (induction rs arbitrary: h)
  case (Cons r rs)
  have "new_item opening r (s, h) = (Inr (hd (items_from opening (length h) (r # rs))), (s, h @ buffers_of opening r []))"
    by (simp add: new_item_def string_buffer_def zero_buffer_def create_buffer_def ebind_def eret_def buffers_of_def buffer_def)
  then show ?case using Cons.IH [of "h @ buffers_of opening r []"] by (simp add: ebind_def eret_def)
qed (simp add: eret_def)

lemma items_read:
  "length outs = length rs \<Longrightarrow>
     map (item_record (h @ concat (map2 (buffers_of opening) rs outs))) (items_from opening (length h) rs) = rs"
proof (induction rs outs arbitrary: h rule: list_induct2')
  case (4 r rs b outs)
  let ?rest = "concat (map2 (buffers_of opening) rs outs)"
  have "item_record (h @ buffers_of opening r b @ ?rest) (hd (items_from opening (length h) (r # rs))) = r"
    by (simp add: item_record_def nth_append buffers_of_def)
  then show ?case using "4.IH" [of "h @ buffers_of opening r b"] "4.prems" by simp
qed simp_all

lemma write_one:
  assumes "length h = n"
  shows "write_buffer (Suc (Suc n)) (out_size opening r) out (h @ buffers_of opening r [] @ rest)
    = h @ buffers_of opening r out @ rest"
  using assms by (auto simp: write_buffer_def buffers_of_def buffer_def list_update_append nth_append min_def)

lemma items_written:
  assumes "length outs' = length rs" and "outs' = take (length rs) (outs @ replicate (length rs) [])"
  shows "write_outputs (items_from opening (length h) rs) outs (h @ concat (map (\<lambda>r. buffers_of opening r []) rs))
    = h @ concat (map2 (buffers_of opening) rs outs')"
  using assms
proof (induction rs arbitrary: h outs outs')
  case (Cons r rs)
  show ?case
  proof (cases outs)
    case Nil
    have "concat (map2 (buffers_of opening) rs (replicate (length rs) [])) = concat (map (\<lambda>r. buffers_of opening r []) rs)"
      for rs by (induction rs) simp_all
    from this [of "r # rs"] show ?thesis using Cons.prems Nil by simp
  next
    case (Cons b bs)
    let ?h = "h @ buffers_of opening r b"
    have "outs' = b # take (length rs) (bs @ replicate (length rs) [])"
      using Cons.prems \<open>outs = b # bs\<close> by (simp add: replicate_append_same flip: replicate_Suc)
    moreover have "length (take (length rs) (bs @ replicate (length rs) [])) = length rs" by simp
    from Cons.IH [OF this refl, of ?h] have "write_outputs (items_from opening (length h + 3) rs) bs
        (?h @ concat (map (\<lambda>r. buffers_of opening r []) rs))
      = ?h @ concat (map2 (buffers_of opening) rs (take (length rs) (bs @ replicate (length rs) [])))" by simp
    ultimately show ?thesis
      using write_one [OF refl, of h "opening" r b] by (simp add: \<open>outs = b # bs\<close>)
  qed
qed simp

section \<open>The methods on buffers and on values\<close>

lemma each_sim:
  assumes "list_all2 (\<lambda>x y. \<forall>s. f x (s, h) = (case g y s of (r, s') \<Rightarrow> (r, (s', h)))) xs ys"
  shows "eeach f xs (s, h) = (case eeach g ys s of (r, s') \<Rightarrow> (r, (s', h)))"
  using assms
  by (induction arbitrary: s) (auto simp: ebind_def eret_def split: prod.splits sum.splits)

lemma check_mem: "check_status lib st (s, h) = (case check_status lib st s of (r, s') \<Rightarrow> (r, (s', h)))"
  by (simp add: check_status_def eguard_def)

lemma items_answered:
  assumes "length st = length rs" and "length outs = length rs"
    and "h' = h @ concat (map2 (buffers_of opening) rs outs)"
  shows "eeach (read_item lib opening) (zip st (items_from opening (length h) rs)) (s, h')
    = (case eeach (read_record lib opening) (zip st (zip rs outs)) s of (r, s') \<Rightarrow> (r, (s', h')))"
proof (rule each_sim)
  have "list_all2 (\<lambda>it (r, out). it_capacity it = out_size opening r
      \<and> (h @ concat (map2 (buffers_of opening) rs outs)) ! it_output it = last (buffers_of opening r out))
      (items_from opening (length h) rs) (zip rs outs)"
    using assms(2)
  proof (induction rs outs arbitrary: h rule: list_induct2')
    case (4 r rs b outs)
    have "(h @ buffers_of opening r b @ rest) ! Suc (Suc (length h)) = last (buffers_of opening r b)" for rest
      by (simp add: nth_append buffers_of_def)
    with "4.IH" [of "h @ buffers_of opening r b"] "4.prems" show ?case by simp
  qed simp_all
  then show "list_all2 (\<lambda>x y. \<forall>s. read_item lib opening x (s, h') = (case read_record lib opening y s of (r, s') \<Rightarrow> (r, (s', h'))))
      (zip st (items_from opening (length h) rs)) (zip st (zip rs outs))"
    using assms by (auto simp: list_all2_conv_all_nth read_item_def read_record_def ebind_def eget_def eret_def check_status_def
        eguard_def buffers_of_def buffer_def split: prod.splits)
qed

text \<open>The addresses that a method wipes are those of the buffers it created.\<close>

lemma item_addresses:
  "set (concat (map (\<lambda>it. [it_input it, it_aad it]) (items_from opening b rs)) @ map it_output (items_from opening b rs))
    = {b..<b + 3 * length rs}"
proof (induction rs arbitrary: b)
  case (Cons r rs)
  have "{b..<b + 3 * length (r # rs)} = {b, Suc b, Suc (Suc b)} \<union> {b + 3..<b + 3 + 3 * length rs}" by auto
  with Cons.IH [of "b + 3"] show ?case by auto
qed simp

lemma length_batch_buffers:
  "length outs = length rs \<Longrightarrow> length (concat (map2 (buffers_of opening) rs outs)) = 3 * length rs"
  by (induction rs outs rule: list_induct2') simp_all

lemma efinally_wipe: "efinally m (wipe ps) s = (case m s of (r, (s', h')) \<Rightarrow> (r, (s', fold memset_zero ps h')))"
  by (auto simp: efinally_def wipe_def emod_def split: prod.splits)

lemma wiped_batch:
  assumes "length outs = length rs"
  shows "\<exists>sizes. fold memset_zero (concat (map (\<lambda>it. [it_input it, it_aad it]) (items_from opening (length h) rs))
      @ map it_output (items_from opening (length h) rs)) (h @ concat (map2 (buffers_of opening) rs outs))
    = h @ map (\<lambda>n. replicate n 0) sizes"
proof -
  have "fold memset_zero (concat (map (\<lambda>it. [it_input it, it_aad it]) (items_from opening (length h) rs))
      @ map it_output (items_from opening (length h) rs)) (h @ concat (map2 (buffers_of opening) rs outs))
    = h @ map (\<lambda>b. replicate (length b) 0) (concat (map2 (buffers_of opening) rs outs))"
    by (rule wipe_new) (simp only: item_addresses length_batch_buffers [OF assms])
  then show ?thesis
    by (intro exI [of _ "map length (concat (map2 (buffers_of opening) rs outs))"]) (simp only: map_map o_def)
qed

lemma mem_aead_refines:
  "\<exists>sizes. mem_aead lib key rs opening invoke (s, h)
    = (case cuda_aead lib key rs opening invoke s of (r, s') \<Rightarrow> (r, (s', h @ map (\<lambda>n. replicate n 0) sizes)))"
proof (cases "py_records key rs opening")
  case (Inl e)
  then show ?thesis by (intro exI [of _ "[]"]) (simp add: mem_aead_def cuda_aead_def ebind_def elift_def)
next
  case (Inr kr)
  obtain k records where kr: "kr = (k, records)" by fastforce
  show ?thesis
  proof (cases "records = []")
    case True
    then show ?thesis
      using Inr kr by (intro exI [of _ "[]"]) (simp add: mem_aead_def cuda_aead_def ebind_def elift_def eret_def)
  next
    case False
    let ?its = "items_from opening (length h) records" and ?h0 = "h @ concat (map (\<lambda>r. buffers_of opening r []) records)"
    let ?ps = "concat (map (\<lambda>it. [it_input it, it_aad it]) ?its) @ map it_output ?its"
    have same: "?h0 = h @ concat (map2 (buffers_of opening) records (replicate (length records) []))"
      by (induction records) simp_all
    have read: "map (item_record ?h0) ?its = records"
      unfolding same by (rule items_read) simp
    have mem: "mem_aead lib key rs opening invoke (s, h) = efinally
        (ebind (native_items (invoke k) ?its) (\<lambda>(rc, status).
          ebind (check_status lib rc) (\<lambda>_. eeach (read_item lib opening) (zip status ?its)))) (wipe ?ps) (s, ?h0)"
      using Inr kr False by (simp add: mem_aead_def ebind_def elift_def new_items)
    have abs: "cuda_aead lib key rs opening invoke s = ebind (invoke k records) (\<lambda>(rc, status, outs).
         ebind (check_status lib rc) (\<lambda>_.
           eeach (read_record lib opening) (zip (buffer (length records) status)
             (zip records (take (length records) (outs @ replicate (length records) [])))))) s"
      using Inr kr False by (simp add: cuda_aead_def ebind_def elift_def)
    show ?thesis
    proof (cases "invoke k records s")
      case (Pair r s1)
      show ?thesis
      proof (cases r)
        case (Inl e)
        obtain sizes where "fold memset_zero ?ps ?h0 = h @ map (\<lambda>n. replicate n 0) sizes"
          using wiped_batch [of "replicate (length records) []" records "opening" h] unfolding same by fastforce
        then show ?thesis
          using Pair Inl unfolding mem abs
          by (intro exI [of _ sizes]) (simp add: efinally_wipe ebind_def native_items_def read)
      next
        case (Inr out)
        obtain rc status outs where out: "out = (rc, status, outs)" by (metis prod_cases3)
        let ?outs = "take (length records) (outs @ replicate (length records) [])"
        let ?h1 = "h @ concat (map2 (buffers_of opening) records ?outs)"
        have n: "length ?outs = length records" by simp
        have native: "native_items (invoke k) ?its (s, ?h0) = (Inr (rc, buffer (length records) status), (s1, ?h1))"
          using Pair Inr out items_written [OF n refl, of "opening" h] by (simp add: native_items_def read)
        obtain sizes where sizes: "fold memset_zero ?ps ?h1 = h @ map (\<lambda>n. replicate n 0) sizes"
          using wiped_batch [OF n, of "opening" h] by blast
        note answered = items_answered [OF length_buffer n refl, where lib = lib and s = s1 and h = h]
        have "ebind (check_status lib rc) (\<lambda>_. eeach (read_item lib opening) (zip (buffer (length records) status) ?its)) (s1, ?h1)
            = (case ebind (check_status lib rc) (\<lambda>_. eeach (read_record lib opening)
                 (zip (buffer (length records) status) (zip records ?outs))) s1 of (r, s') \<Rightarrow> (r, (s', ?h1)))"
          using answered by (simp add: ebind_def check_status_def eguard_def del: take_append)
        then have "mem_aead lib key rs opening invoke (s, h)
            = (case ebind (check_status lib rc) (\<lambda>_. eeach (read_record lib opening)
                 (zip (buffer (length records) status) (zip records ?outs))) s1 of
                (r, s') \<Rightarrow> (r, (s', h @ map (\<lambda>n. replicate n 0) sizes)))"
          unfolding mem efinally_wipe using native sizes
          by (simp add: ebind_def [of "native_items (invoke k) ?its"] split_beta)
        then show ?thesis
          using Pair Inr out unfolding abs by (intro exI [of _ sizes]) (simp add: ebind_def [of "invoke k records"])
      qed
    qed
  qed
qed

lemma write_whole: "write_buffer (length h) n b (h @ [replicate n 0]) = h @ [buffer n b]"
  by (simp add: write_buffer_def buffer_def min_def)

lemma statuses_mem:
  "eeach (\<lambda>st. check_status lib (unat st)) sts (s, h)
    = (case eeach (\<lambda>st. check_status lib (unat st)) sts s of (r, s') \<Rightarrow> (r, (s', h)))"
  by (rule each_sim) (simp add: list_all2_conv_all_nth check_mem)

lemma fixed_refines:
  "\<exists>b. length b = n * w \<and>
     ebind (native_fixed f inputs n (length h) (n * w)) (mem_fixed lib w n (length h)) (s, h @ [replicate (n * w) 0])
     = (case ebind (f inputs) (read_fixed lib w n) s of (r, s') \<Rightarrow> (r, (s', h @ [b])))"
proof (cases "f inputs s")
  case (Pair r s1)
  show ?thesis
  proof (cases r)
    case (Inl e)
    with Pair show ?thesis by (intro exI [of _ "replicate (n * w) 0"]) (simp add: ebind_def native_fixed_def)
  next
    case (Inr out)
    obtain rc status b where out: "out = (rc, status, b)" by (metis prod_cases3)
    have "mem_fixed lib w n (length h) (rc, buffer n status) (s1, h @ [buffer (n * w) b])
      = (case read_fixed lib w n (rc, status, b) s1 of (r, s') \<Rightarrow> (r, (s', h @ [buffer (n * w) b])))"
      by (auto simp: mem_fixed_def read_fixed_def ebind_def check_mem statuses_mem eget_def eret_def split: prod.splits sum.splits)
    with Pair Inr out show ?thesis
      by (intro exI [of _ "buffer (n * w) b"]) (simp add: ebind_def native_fixed_def write_whole)
  qed
qed

lemma wiped_fixed:
  assumes "\<exists>b. length b = n \<and> m (s, h @ w @ [replicate n 0]) = (case q s of (r, s') \<Rightarrow> (r, (s', h @ w @ [b])))"
    and "set ps = {length h..<length h + Suc (length w)}"
  shows "\<exists>sizes. efinally m (wipe ps) (s, h @ w @ [replicate n 0])
    = (case q s of (r, s') \<Rightarrow> (r, (s', h @ map (\<lambda>n. replicate n 0) sizes)))"
proof -
  from assms(1) obtain b where b: "length b = n" "m (s, h @ w @ [replicate n 0]) = (case q s of (r, s') \<Rightarrow> (r, (s', h @ w @ [b])))" by blast
  have "fold memset_zero ps (h @ w @ [b]) = h @ map (\<lambda>b. replicate (length b) 0) (w @ [b])"
    by (rule wipe_new) (simp add: assms(2))
  also have "\<dots> = h @ map (\<lambda>n. replicate n 0) (map length (w @ [b]))" by (simp only: map_map o_def)
  finally show ?thesis
    by (intro exI [of _ "map length (w @ [b])"]) (simp add: efinally_wipe b split_beta)
qed

lemma lift_step: "ebind (elift (Inr x)) f s = f x s"
  by (simp add: ebind_def elift_def)

lemma zero_step: "ebind (zero_buffer n) f (s, h) = f (length h) (s, h @ [replicate n 0])"
  by (simp add: ebind_def zero_buffer_def create_buffer_def)

lemma mem_sign_refines:
  "\<exists>sizes. mem_sign lib key hs invoke (s, h)
    = (case ebind (elift (py_digests key hs)) (\<lambda>(d, digests). if digests = [] then eret []
         else ebind (invoke (to_bytes_big 32 d) digests) (read_fixed lib 64 (length digests))) s of
        (r, s') \<Rightarrow> (r, (s', h @ map (\<lambda>n. replicate n 0) sizes)))"
proof (cases "py_digests key hs")
  case (Inl e)
  then show ?thesis by (intro exI [of _ "[]"]) (simp add: mem_sign_def ebind_def elift_def)
next
  case (Inr dh)
  obtain d digests where dh: "dh = (d, digests)" by fastforce
  show ?thesis
  proof (cases "digests = []")
    case True
    then show ?thesis using Inr dh by (intro exI [of _ "[]"]) (simp add: mem_sign_def ebind_def elift_def eret_def)
  next
    case False
    let ?n = "length digests"
    have "mem_sign lib key hs invoke (s, h) = efinally (ebind (native_fixed (invoke (to_bytes_big 32 d)) digests ?n (length h) (?n * 64))
        (mem_fixed lib 64 ?n (length h))) (wipe [length h]) (s, h @ [] @ [replicate (?n * 64) 0])"
      using Inr dh False by (simp add: mem_sign_def lift_step zero_step)
    moreover have "\<exists>sizes. efinally (ebind (native_fixed (invoke (to_bytes_big 32 d)) digests ?n (length h) (?n * 64))
        (mem_fixed lib 64 ?n (length h))) (wipe [length h]) (s, h @ [] @ [replicate (?n * 64) 0])
      = (case ebind (invoke (to_bytes_big 32 d) digests) (read_fixed lib 64 ?n) s of
          (r, s') \<Rightarrow> (r, (s', h @ map (\<lambda>n. replicate n 0) sizes)))"
      by (rule wiped_fixed) (use fixed_refines [of ?n 64 "invoke (to_bytes_big 32 d)" digests h lib s] in auto)
    ultimately show ?thesis using Inr dh False by (simp add: lift_step)
  qed
qed

lemma hash_buffers:
  "eeach string_buffer ms (s, h) = (Inr [length h..<length h + length ms], (s, h @ map (\<lambda>m. m @ [0]) ms))"
proof (induction ms arbitrary: h)
  case (Cons m ms)
  from Cons.IH [of "h @ [m @ [0]]"] show ?case
    by (simp add: string_buffer_def create_buffer_def ebind_def eret_def upt_conv_Cons del: upt_Suc)
qed (simp add: eret_def)

lemma buffers_step:
  "ebind (eeach string_buffer ms) f (s, h) = f [length h..<length h + length ms] (s, h @ map (\<lambda>m. m @ [0]) ms)"
  by (simp add: ebind_def hash_buffers)

lemma hash_inputs:
  "map (\<lambda>(p, n). take n ((h @ map (\<lambda>m. m @ [0]) ms @ rest) ! p)) (zip [length h..<length h + length ms] (map length ms)) = ms"
  by (rule nth_equalityI) (simp_all add: nth_append)

lemma mem_sha256_refines:
  "\<exists>sizes. mem_sha256 lib ms invoke (s, h)
    = (case cuda_sha256 lib ms invoke s of (r, s') \<Rightarrow> (r, (s', h @ map (\<lambda>n. replicate n 0) sizes)))"
proof (cases "py_messages ms")
  case (Inl e)
  then show ?thesis by (intro exI [of _ "[]"]) (simp add: mem_sha256_def cuda_sha256_def ebind_def elift_def)
next
  case (Inr messages)
  show ?thesis
  proof (cases "messages = []")
    case True
    then show ?thesis using Inr by (intro exI [of _ "[]"]) (simp add: mem_sha256_def cuda_sha256_def ebind_def elift_def eret_def)
  next
    case False
    let ?n = "length messages" and ?w = "map (\<lambda>m. m @ [0]) messages"
    let ?p = "length (h @ ?w)" and ?ps = "[length h..<length h + length messages]"
    let ?m = "ebind (native_hash_items invoke (zip ?ps (map length messages)) ?p (?n * 32)) (mem_fixed lib 32 ?n ?p)"
    have mem: "mem_sha256 lib ms invoke (s, h) = efinally ?m (wipe (?ps @ [?p])) (s, h @ ?w @ [replicate (?n * 32) 0])"
      using Inr False by (simp add: mem_sha256_def lift_step buffers_step zero_step)
    have items: "?m (s, h @ ?w @ [replicate (?n * 32) 0])
        = ebind (native_fixed invoke messages ?n ?p (?n * 32)) (mem_fixed lib 32 ?n ?p) (s, (h @ ?w) @ [replicate (?n * 32) 0])"
      by (simp add: ebind_def native_hash_items_def hash_inputs)
    have "\<exists>sizes. efinally ?m (wipe (?ps @ [?p])) (s, h @ ?w @ [replicate (?n * 32) 0])
      = (case ebind (invoke messages) (read_fixed lib 32 ?n) s of (r, s') \<Rightarrow> (r, (s', h @ map (\<lambda>n. replicate n 0) sizes)))"
    proof (rule wiped_fixed)
      show "\<exists>b. length b = ?n * 32 \<and> ?m (s, h @ ?w @ [replicate (?n * 32) 0])
          = (case ebind (invoke messages) (read_fixed lib 32 ?n) s of (r, s') \<Rightarrow> (r, (s', h @ ?w @ [b])))"
        using fixed_refines [of ?n 32 invoke messages "h @ ?w" lib s] unfolding items append_assoc .
    qed auto
    then show ?thesis using Inr False unfolding mem by (simp add: cuda_sha256_def lift_step)
  qed
qed

section \<open>Nothing stays in the buffers\<close>

text \<open>
  C26. Whatever the native library answers, and whether the call returns or raises, \<open>seal\<close>, \<open>open\<close>, \<open>sign\<close> and
  \<open>sha256\<close> compute on buffers and pointers exactly what \<open>Native\<close> says of values, leave every buffer that
  existed before as it was, and leave nothing but zeros in those they created.
\<close>

theorem host_buffers_wiped:
  "(\<exists>sizes. mem_aead lib key rs opening invoke (s, h)
      = (case cuda_aead lib key rs opening invoke s of (r, s') \<Rightarrow> (r, (s', h @ map (\<lambda>n. replicate n 0) sizes))))
   \<and> (\<exists>sizes. mem_sign lib key hs (\<lambda>k ds. native_step (nv_device_sign lib (cu_device c) k ds)) (n, h)
      = (case cuda_sign lib c key hs n of (r, n') \<Rightarrow> (r, (n', h @ map (\<lambda>n. replicate n 0) sizes))))
   \<and> (\<exists>sizes. mem_sha256 lib ms hash (s, h)
      = (case cuda_sha256 lib ms hash s of (r, s') \<Rightarrow> (r, (s', h @ map (\<lambda>n. replicate n 0) sizes))))"
  using mem_aead_refines [of lib key rs "opening" invoke s h] mem_sha256_refines [of lib ms hash s h]
    mem_sign_refines [of lib key hs "\<lambda>k ds. native_step (nv_device_sign lib (cu_device c) k ds)" n h]
  unfolding cuda_sign_def by blast

end
