(* ===== verification/Tables.thy ===== *)
theory Tables
  imports Merkle
begin

text \<open>
  \<open>tools/generate_p256_tables.py\<close> and \<open>tools/imported/p256_table_math.py\<close>: the generator of the fixed-base
  tables of the native signer. The points are computed by affine addition and compared one by one with those
  that the \<open>cryptography\<close> package derives, which is the parameter \<open>derive\<close> from scalars to points.
\<close>

section \<open>Arithmetic of p256_table_math.py\<close>

definition p256_P :: int where
  "p256_P = 0xFFFFFFFF00000001000000000000000000000000FFFFFFFFFFFFFFFFFFFFFFFF"

definition p256_A :: int where
  "p256_A = 0xFFFFFFFF00000001000000000000000000000000FFFFFFFFFFFFFFFFFFFFFFFC"

definition p256_G :: "int \<times> int" where
  "p256_G = (0x6B17D1F2E12C4247F8BCE6E563A440F277037D812DEB33A0F4A13945D898C296,
     0x4FE342E2FE1A7F9B8EE7EB4A7C0F9E162BCE33576B315ECECBB6406837BF51F5)"

definition p256_N :: int where
  "p256_N = 0xFFFFFFFF00000000FFFFFFFFFFFFFFFFBCE6FAADA7179E84F3B9CAC2FC632551"

text \<open>Python's \<open>pow\<close> with three arguments.\<close>

fun pow_mod :: "int \<Rightarrow> nat \<Rightarrow> int \<Rightarrow> int" where
  "pow_mod a e m =
     (if e = 0 then 1 mod m
      else let h = pow_mod ((a * a) mod m) (e div 2) m in if even e then h else (a * h) mod m)"

declare pow_mod.simps [simp del]

definition R_MOD_P :: int where
  "R_MOD_P = pow_mod 2 256 p256_P"

definition mod_inverse :: "int \<Rightarrow> int \<Rightarrow> int result" where
  "mod_inverse a modulus =
     (if a = 0 then Inl (ValueError ''Cannot compute modular inverse of 0'')
      else Inr (pow_mod a (nat (modulus - 2)) modulus))"

definition to_montgomery :: "int \<Rightarrow> int" where
  "to_montgomery x = (x * R_MOD_P) mod p256_P"

definition point_double_affine :: "int \<Rightarrow> int \<Rightarrow> (int \<times> int) result" where
  "point_double_affine x1 y1 =
     (if x1 = 0 \<and> y1 = 0 then Inr (0, 0)
      else bind_res (mod_inverse ((2 * y1) mod p256_P) p256_P) (\<lambda>i.
        let l = ((3 * x1 * x1 + p256_A) mod p256_P * i) mod p256_P;
            x3 = (l * l - 2 * x1) mod p256_P
        in Inr (x3, (l * (x1 - x3) - y1) mod p256_P)))"

definition point_add_affine :: "int \<Rightarrow> int \<Rightarrow> int \<Rightarrow> int \<Rightarrow> (int \<times> int) result" where
  "point_add_affine x1 y1 x2 y2 =
     (if x1 = 0 \<and> y1 = 0 then Inr (x2, y2)
      else if x2 = 0 \<and> y2 = 0 then Inr (x1, y1)
      else if x1 = x2 then (if y1 = y2 then point_double_affine x1 y1 else Inr (0, 0))
      else bind_res (mod_inverse ((x2 - x1) mod p256_P) p256_P) (\<lambda>i.
        let l = ((y2 - y1) mod p256_P * i) mod p256_P;
            x3 = (l * l - x1 - x2) mod p256_P
        in Inr (x3, (l * (x1 - x3) - y1) mod p256_P)))"

section \<open>The generator\<close>

definition table_shape :: "ustr \<Rightarrow> nat \<times> nat \<times> nat" where
  "table_shape kind = (if kind = lit ''comb_w8'' then (1, 255, 1) else (33, 128, 2))"

definition table_header :: "ustr \<Rightarrow> bytes" where
  "table_header kind = (case table_shape kind of (windows, digits, type_id) \<Rightarrow>
     ascii_encode (lit ''GBCTBL01'') @ concat (map (to_bytes_little 4) [type_id, 1, windows, digits, 64, 0]))"

definition table_scalar :: "nat \<Rightarrow> nat \<Rightarrow> int" where
  "table_scalar window digit = (int digit * 2 ^ (8 * window)) mod p256_N"

definition table_entry :: "int \<times> int \<Rightarrow> bytes" where
  "table_entry pt = to_bytes_little 32 (nat (to_montgomery (fst pt))) @ to_bytes_little 32 (nat (to_montgomery (snd pt)))"

text \<open>The inner loop, with \<open>n\<close> digits left; the second component counts \<open>checked\<close>.\<close>

fun digit_loop ::
    "(int \<Rightarrow> (int \<times> int) result) \<Rightarrow> nat \<Rightarrow> nat \<Rightarrow> int \<times> int \<Rightarrow> nat \<Rightarrow> nat \<Rightarrow> int \<times> int \<Rightarrow> bytes \<times> nat
      \<Rightarrow> (bytes \<times> nat) result" where
  "digit_loop derive window digits base 0 digit point acc = Inr acc"
| "digit_loop derive window digits base (Suc n) digit point (blob, checked) =
     bind_res (derive (table_scalar window digit)) (\<lambda>independent.
       if point \<noteq> independent then Inl (RuntimeError ''point mismatch'')
       else bind_res (if digit \<noteq> digits then point_add_affine (fst point) (snd point) (fst base) (snd base) else Inr point)
         (\<lambda>point'. digit_loop derive window digits base n (Suc digit) point' (blob @ table_entry point, Suc checked)))"

fun double_times :: "nat \<Rightarrow> int \<times> int \<Rightarrow> (int \<times> int) result" where
  "double_times 0 base = Inr base"
| "double_times (Suc n) base = bind_res (point_double_affine (fst base) (snd base)) (double_times n)"

fun window_loop ::
    "(int \<Rightarrow> (int \<times> int) result) \<Rightarrow> nat \<Rightarrow> nat \<Rightarrow> nat \<Rightarrow> int \<times> int \<Rightarrow> bytes \<times> nat \<Rightarrow> (bytes \<times> nat) result" where
  "window_loop derive digits 0 window base acc = Inr acc"
| "window_loop derive digits (Suc n) window base acc =
     bind_res (digit_loop derive window digits base digits 1 base acc) (\<lambda>acc.
     bind_res (double_times 8 base) (\<lambda>base. window_loop derive digits n (Suc window) base acc))"

definition table_meta :: "ustr \<Rightarrow> bytes \<Rightarrow> nat \<Rightarrow> pyval" where
  "table_meta kind blob checked = (case table_shape kind of (windows, digits, type_id) \<Rightarrow>
     PDict [(lit ''format'', PStr (lit ''GBCTBL01'')), (lit ''version'', PInt 1), (lit ''kind'', PStr kind),
       (lit ''type'', PInt (int type_id)), (lit ''windows'', PInt (int windows)), (lit ''digits'', PInt (int digits)),
       (lit ''entry_bytes'', PInt 64), (lit ''header_bytes'', PInt 32), (lit ''total_bytes'', PInt (int (length blob))),
       (lit ''layout'', PStr (lit ''AoS; X[8 u32 LE] then Y[8 u32 LE]; index=window*digits+digit-1'')),
       (lit ''domain'', PStr (lit ''Montgomery x*2^256 mod p'')), (lit ''curve'', PStr (lit ''NIST P-256'')),
       (lit ''points_verified'', PInt (int checked)),
       (lit ''independent_verifier'', PStr (lit ''cryptography/OpenSSL SECP256R1 public-key derivation'')),
       (lit ''sha256'', PStr (sha256_hex blob))])"

text \<open>The last branch is the \<open>assert\<close>, which \<open>generated_table\<close> below shows never to fail.\<close>

definition generate_table :: "(int \<Rightarrow> (int \<times> int) result) \<Rightarrow> ustr \<Rightarrow> (bytes \<times> pyval) result" where
  "generate_table derive kind = (case table_shape kind of (windows, digits, type_id) \<Rightarrow>
     bind_res (window_loop derive digits windows 0 p256_G (table_header kind, 0)) (\<lambda>(blob, checked).
       if length blob = 32 + windows * digits * 64 then Inr (blob, table_meta kind blob checked)
       else Inl (RuntimeError ''AssertionError'')))"

section \<open>What an accepted table holds\<close>

lemma pow_mod_power: "0 < m \<Longrightarrow> pow_mod a e m = a ^ e mod m"
proof (induction e arbitrary: a rule: less_induct)
  case (less e)
  show ?case
  proof (cases "e = 0")
    case True
    then show ?thesis by (simp add: pow_mod.simps)
  next
    case False
    then have IH: "pow_mod ((a * a) mod m) (e div 2) m = (a * a) ^ (e div 2) mod m"
      using less by (simp add: power_mod)
    show ?thesis
    proof (cases "even e")
      case True
      then have "(a * a) ^ (e div 2) = a ^ e" by (simp add: power_mult [symmetric] power2_eq_square [symmetric])
      with True False IH show ?thesis by (subst pow_mod.simps) simp
    next
      case odd: False
      then have "a * (a * a) ^ (e div 2) = a ^ e"
        by (metis odd_two_times_div_two_succ power2_eq_square power_Suc power_mult Suc_eq_plus1)
      with odd False IH show ?thesis by (subst pow_mod.simps) (simp add: mod_mult_right_eq)
    qed
  qed
qed

text \<open>An entry determines its reduced coordinates: 2 is invertible modulo the odd \<open>p256_P\<close>.\<close>

lemma to_montgomery_power: "to_montgomery x = (x * 2 ^ 256) mod p256_P"
proof -
  have "R_MOD_P = 2 ^ 256 mod p256_P" unfolding R_MOD_P_def by (rule pow_mod_power) (simp add: p256_P_def)
  then show ?thesis unfolding to_montgomery_def by (metis mod_mult_right_eq)
qed

lemma to_montgomery_bound: "0 \<le> to_montgomery x \<and> to_montgomery x < p256_P"
  by (simp add: to_montgomery_def p256_P_def)

lemma to_montgomery_inj:
  assumes "to_montgomery x = to_montgomery y"
  shows "x mod p256_P = y mod p256_P"
proof -
  have "coprime p256_P 2" by (simp add: p256_P_def)
  then have "coprime p256_P (2 ^ 256)" by (rule coprime_power_right_iff [THEN iffD2, OF disjI1])
  moreover have "p256_P dvd (x - y) * 2 ^ 256"
    using assms unfolding to_montgomery_power by (simp only: mod_eq_dvd_iff left_diff_distrib)
  ultimately have "p256_P dvd x - y" by (simp only: coprime_dvd_mult_left_iff)
  then show ?thesis by (simp only: mod_eq_dvd_iff)
qed

lemma table_entry_inj:
  assumes "table_entry p = table_entry q"
    and "0 \<le> fst p" "fst p < p256_P" "0 \<le> snd p" "snd p < p256_P"
    and "0 \<le> fst q" "fst q < p256_P" "0 \<le> snd q" "snd q < p256_P"
  shows "p = q"
proof -
  have decoded: "int (from_bytes_little (to_bytes_little 32 (nat (to_montgomery x)))) = to_montgomery x" for x
  proof -
    have "nat (to_montgomery x) < 256 ^ 32" using to_montgomery_bound [of x] by (simp add: p256_P_def nat_less_iff)
    then show ?thesis using to_montgomery_bound [of x] by (simp only: from_to_bytes_little int_nat_eq if_True)
  qed
  have same: "to_montgomery x = to_montgomery y"
    if "to_bytes_little 32 (nat (to_montgomery x)) = to_bytes_little 32 (nat (to_montgomery y))" for x y
    using arg_cong [OF that, of "\<lambda>b. int (from_bytes_little b)"] unfolding decoded .
  have "to_montgomery (fst p) = to_montgomery (fst q)" "to_montgomery (snd p) = to_montgomery (snd q)"
    by (rule same, use assms(1) in \<open>simp add: table_entry_def\<close>)+
  then have "fst p mod p256_P = fst q mod p256_P" "snd p mod p256_P = snd q mod p256_P"
    using to_montgomery_inj by blast+
  then show ?thesis using assms(2-) by (simp add: prod_eq_iff)
qed

lemma digit_loop_points:
  assumes "digit_loop derive window digits base n digit point (blob, checked) = Inr (blob', checked')"
  shows "\<exists>pts. map (\<lambda>d. derive (table_scalar window d)) [digit..<digit + n] = map Inr pts
    \<and> blob' = blob @ concat (map table_entry pts) \<and> checked' = checked + n"
  using assms
proof (induction n arbitrary: digit point blob checked)
  case (Suc n)
  from Suc.prems obtain pt point' where pt: "derive (table_scalar window digit) = Inr pt" "point = pt"
    and run: "digit_loop derive window digits base n (Suc digit) point' (blob @ table_entry pt, Suc checked) = Inr (blob', checked')"
    by (auto split: if_splits)
  from Suc.IH [OF run] obtain pts where
    "map (\<lambda>d. derive (table_scalar window d)) [Suc digit..<Suc digit + n] = map Inr pts"
    "blob' = (blob @ table_entry pt) @ concat (map table_entry pts)" "checked' = Suc checked + n" by blast
  with pt show ?case by (intro exI [of _ "pt # pts"]) (simp add: upt_conv_Cons del: upt_Suc)
qed simp

lemma window_loop_points:
  assumes "window_loop derive digits n window base (blob, checked) = Inr (blob', checked')"
  shows "\<exists>pts. map derive (concat (map (\<lambda>w. map (table_scalar w) [1..<Suc digits]) [window..<window + n])) = map Inr pts
    \<and> blob' = blob @ concat (map table_entry pts) \<and> checked' = checked + n * digits"
  using assms
proof (induction n arbitrary: window base blob checked)
  case (Suc n)
  from Suc.prems obtain blob1 checked1 base' where
    d: "digit_loop derive window digits base digits 1 base (blob, checked) = Inr (blob1, checked1)"
    and run: "window_loop derive digits n (Suc window) base' (blob1, checked1) = Inr (blob', checked')"
    by auto
  from digit_loop_points [OF d] obtain ps where ps: "map (\<lambda>d. derive (table_scalar window d)) [1..<1 + digits] = map Inr ps"
    "blob1 = blob @ concat (map table_entry ps)" "checked1 = checked + digits" by blast
  from Suc.IH [OF run] obtain pts where
    "map derive (concat (map (\<lambda>w. map (table_scalar w) [1..<Suc digits]) [Suc window..<Suc window + n])) = map Inr pts"
    "blob' = blob1 @ concat (map table_entry pts)" "checked' = checked1 + n * digits" by blast
  with ps show ?case by (intro exI [of _ "ps @ pts"]) (simp add: upt_conv_Cons o_def del: upt_Suc)
qed simp

lemma concat_slots:
  "list_all (\<lambda>b. length b = n) bs \<Longrightarrow> map (\<lambda>i. take n (drop (n * i) (concat bs))) [0..<length bs] = bs"
proof (induction bs)
  case (Cons b bs)
  then have "map (\<lambda>i. take n (drop (n * i) (concat (b # bs)))) (map Suc [0..<length bs]) = bs"
    by (simp add: o_def)
  with Cons.prems show ?case by (simp add: upt_conv_Cons map_Suc_upt del: upt_Suc)
qed simp

definition table_scalars :: "ustr \<Rightarrow> int list" where
  "table_scalars kind = (case table_shape kind of (windows, digits, _) \<Rightarrow>
     concat (map (\<lambda>w. map (table_scalar w) [1..<Suc digits]) [0..<windows]))"

definition table_slot :: "bytes \<Rightarrow> nat \<Rightarrow> bytes" where
  "table_slot blob i = take 64 (drop (32 + 64 * i) blob)"

lemma length_table_entry [simp]: "length (table_entry p) = 64"
  by (simp add: table_entry_def)

lemma length_table_header: "length (table_header kind) = 32"
  by (simp add: table_header_def ascii_encode_def lit_def split: prod.split)

lemma table_slots:
  assumes "blob = table_header kind @ concat (map table_entry pts)"
  shows "map (table_slot blob) [0..<length pts] = map table_entry pts"
proof -
  have "table_slot blob = (\<lambda>i. take 64 (drop (64 * i) (concat (map table_entry pts))))"
    by (rule ext) (simp add: assms table_slot_def length_table_header)
  then show ?thesis using concat_slots [of 64 "map table_entry pts"] by (simp add: list_all_iff)
qed

lemma double_errors: "double_times n base = Inl e \<Longrightarrow> \<exists>m. e = ValueError m"
proof (induction n arbitrary: base)
  case (Suc n)
  then show ?case
    by (cases "point_double_affine (fst base) (snd base)")
      (auto simp: point_double_affine_def mod_inverse_def bind_res_def Let_def split: if_splits)
qed simp

definition table_error :: "(int \<Rightarrow> (int \<times> int) result) \<Rightarrow> exn \<Rightarrow> bool" where
  "table_error derive e \<longleftrightarrow> e = RuntimeError ''point mismatch'' \<or> (\<exists>m. e = ValueError m) \<or> (\<exists>k. derive k = Inl e)"

lemma add_errors: "point_add_affine a b c d = Inl e \<Longrightarrow> \<exists>m. e = ValueError m"
  by (auto simp: point_add_affine_def point_double_affine_def mod_inverse_def bind_res_def Let_def split: if_splits)

lemma digit_loop_errors: "digit_loop derive window digits base n digit point acc = Inl e \<Longrightarrow> table_error derive e"
proof (induction n arbitrary: digit point acc)
  case (Suc n)
  obtain blob checked where acc: "acc = (blob, checked)" by fastforce
  show ?case
  proof (cases "derive (table_scalar window digit)")
    case (Inl e')
    with Suc.prems acc show ?thesis by (auto simp: table_error_def)
  next
    case (Inr pt)
    consider "point \<noteq> pt" | "point = pt" by blast
    then show ?thesis
    proof cases
      case 1
      with Suc.prems acc Inr show ?thesis by (simp add: table_error_def)
    next
      case 2
      let ?next = "if digit \<noteq> digits then point_add_affine (fst pt) (snd pt) (fst base) (snd base) else Inr pt"
      from Suc.prems acc Inr 2 have run: "bind_res ?next
          (\<lambda>q. digit_loop derive window digits base n (Suc digit) q (blob @ table_entry pt, Suc checked)) = Inl e" by simp
      show ?thesis
      proof (cases ?next)
        case (Inl e')
        then show ?thesis using run add_errors [of "fst pt" "snd pt" "fst base" "snd base" e'] by (auto simp: table_error_def split: if_splits)
      next
        case (Inr q)
        then show ?thesis using run Suc.IH by simp
      qed
    qed
  qed
qed simp

lemma window_loop_errors: "window_loop derive digits n window base acc = Inl e \<Longrightarrow> table_error derive e"
proof (induction n arbitrary: window base acc)
  case (Suc n)
  show ?case
  proof (cases "digit_loop derive window digits base digits 1 base acc")
    case (Inl e')
    with Suc.prems digit_loop_errors [OF Inl] show ?thesis by simp
  next
    case (Inr acc')
    then show ?thesis
      using Suc double_errors [of 8 base] by (cases "double_times 8 base") (auto simp: table_error_def)
  qed
qed simp


end
